(* ===== verification/Norr_Prelude.thy ===== *)
theory Norr_Prelude
  imports Main "HOL-Library.Word" "HOL-Library.Multiset" "HOL-Library.More_List"
begin

text \<open>
  Types, collections and generic lemmas shared by the components.

  A \<^verbatim>\<open>std::byte\<close> is a \<open>8 word\<close>, a \<^verbatim>\<open>std::uintN_t\<close> an \<open>N word\<close>, so that the
  arithmetic of the source wraps here as it does there. A \<^verbatim>\<open>std::size_t\<close> that counts the
  elements of a container is a \<open>nat\<close>. A \<^verbatim>\<open>std::span\<close> or \<^verbatim>\<open>std::vector\<close> of bytes is a list.
  An \<^verbatim>\<open>std::expected<T, E>\<close> is the sum \<open>'e + 't\<close> with \<open>Inl\<close> for the error.
  An \<^verbatim>\<open>Instant\<close> or \<^verbatim>\<open>Duration\<close> of the steady clock is an \<open>int\<close>, its count of
  nanoseconds; \<^verbatim>\<open>Instant{}\<close> is 0.
\<close>

unbundle bit_operations_syntax

type_synonym byte = "8 word"
type_synonym bytes = "byte list"
type_synonym u8 = "8 word"
type_synonym u16 = "16 word"
type_synonym u32 = "32 word"
type_synonym u64 = "64 word"
type_synonym instant = int
type_synonym duration = int

named_theorems wire_simps \<open>reading and writing big-endian integers in byte lists\<close>
named_theorems inv_intros \<open>an operation keeps the invariant of its component\<close>

abbreviation seconds :: "int \<Rightarrow> duration" where
  "seconds n \<equiv> n * 1000000000"

abbreviation milliseconds :: "int \<Rightarrow> duration" where
  "milliseconds n \<equiv> n * 1000000"

subsection \<open>Machine words\<close>

lemma unat_add_one_less:
  fixes c :: "'a::len word"
  assumes "c < l"
  shows "unat (c + 1) = Suc (unat c)"
proof -
  have "Suc (unat c) \<le> unat l"
    using assms by (simp add: word_less_nat_alt)
  then have "Suc (unat c) < 2 ^ LENGTH('a)"
    using unsigned_less [of l] by (rule le_less_trans)
  then show ?thesis
    by (simp add: unat_word_ariths)
qed

lemma unat_sub_le:
  fixes a b :: "'a::len word"
  shows "b \<le> a \<Longrightarrow> unat (a - b) = unat a - unat b"
  by (simp add: unat_sub)

lemma of_nat_unat_eq: "unat w = n \<Longrightarrow> of_nat n = (w :: 'a::len word)"
  by auto

lemma unat_ucast_up:
  assumes "LENGTH('a) \<le> LENGTH('b)"
  shows "unat (ucast (x :: 'a::len word) :: 'b::len word) = unat x"
proof -
  have "unat x < 2 ^ LENGTH('a)" by (rule unsigned_less)
  also have "\<dots> \<le> 2 ^ LENGTH('b)" using assms by (rule power_increasing) simp
  finally show ?thesis by (simp add: unsigned_ucast_eq take_bit_nat_eq_self)
qed

lemma add_one_le_iff:
  fixes c :: "'a::len word"
  assumes "c \<noteq> - 1"
  shows "c + 1 \<le> x \<longleftrightarrow> c \<le> x \<and> x \<noteq> c"
proof -
  have "unat (c + 1) = Suc (unat c)"
    using assms unat_add_one_less [of c "- 1"] word_order.not_eq_extremum by blast
  moreover have "Suc a \<le> b \<longleftrightarrow> a \<le> b \<and> b \<noteq> a" for a b by auto
  ultimately show ?thesis unfolding word_le_nat_alt word_unat_eq_iff by simp
qed

lemma and_bit_neq_0: "(x AND 2 ^ n \<noteq> 0) = bit x n" for x :: "'a::len word"
  using bit_iff_and_push_bit_not_eq_0 [of x n] by simp

lemma all_less_add: "(\<forall>i<m + n. P i) \<longleftrightarrow> (\<forall>i<m. P i) \<and> (\<forall>i<n. P (m + i))" for m n :: nat
proof (intro iffI conjI allI impI)
  fix i assume *: "(\<forall>i<m. P i) \<and> (\<forall>i<n. P (m + i))" and "i < m + n"
  show "P i"
  proof (cases "i < m")
    case False
    then have "i = m + (i - m)" "i - m < n" using \<open>i < m + n\<close> by simp_all
    then show ?thesis using * by metis
  qed (use * in simp)
qed simp_all

lemma mod_add_left_inj:
  fixes a m n c :: nat
  assumes "(a + m) mod c = (a + n) mod c" "m < c" "n < c"
  shows "m = n"
proof -
  have "x = y" if "(a + x) mod c = (a + y) mod c" "x < c" "y < c" "y \<le> x" for x y
  proof -
    have "c dvd x - y" using that(1,4) by (simp add: mod_eq_dvd_iff_nat)
    moreover have "x - y < c" using that(2) by simp
    ultimately show ?thesis using that(4) nat_dvd_not_less by fastforce
  qed
  then show ?thesis using assms by (metis linear)
qed

subsection \<open>Lists updated at literal indices\<close>

lemma list_update_Cons_numeral [simp]:
  "(x # xs)[numeral v := y] = x # xs[pred_numeral v := y]"
  by (simp add: numeral_eq_Suc)

lemma replicate_numeral: "replicate (numeral v) x = x # replicate (pred_numeral v) x"
  by (simp add: numeral_eq_Suc)

subsection \<open>Runs of a stateful operation\<close>

text \<open>
  A member function that changes its object and returns a value is a step \<open>'s \<Rightarrow> 'i \<Rightarrow> 'o \<times> 's\<close>.
  \<open>outs\<close> lists what it returns along a sequence of calls, \<open>final\<close> is the object after them.
\<close>

primrec outs :: "('s \<Rightarrow> 'i \<Rightarrow> 'o \<times> 's) \<Rightarrow> 's \<Rightarrow> 'i list \<Rightarrow> 'o list" where
  "outs f s [] = []"
| "outs f s (i # is) = fst (f s i) # outs f (snd (f s i)) is"

primrec final :: "('s \<Rightarrow> 'i \<Rightarrow> 'o \<times> 's) \<Rightarrow> 's \<Rightarrow> 'i list \<Rightarrow> 's" where
  "final f s [] = s"
| "final f s (i # is) = final f (snd (f s i)) is"

lemma length_outs [simp]: "length (outs f s is) = length is"
  by (induction "is" arbitrary: s) simp_all

lemma outs_append: "outs f s (is @ js) = outs f s is @ outs f (final f s is) js"
  by (induction "is" arbitrary: s) simp_all

lemma final_append: "final f s (is @ js) = final f (final f s is) js"
  by (induction "is" arbitrary: s) simp_all

text \<open>A step function that refines another along a relation gives the same answers along a run.\<close>

lemma outs_refine:
  assumes "R s t"
    and "\<And>s t i. R s t \<Longrightarrow> fst (f s i) = fst (g t i)"
    and "\<And>s t i. R s t \<Longrightarrow> R (snd (f s i)) (snd (g t i))"
  shows "outs f s is = outs g t is"
  using assms(1) by (induction "is" arbitrary: s t) (simp_all add: assms(2,3))

lemma final_refine:
  assumes "R s t"
    and "\<And>s t i. R s t \<Longrightarrow> R (snd (f s i)) (snd (g t i))"
  shows "R (final f s is) (final g t is)"
  using assms(1) by (induction "is" arbitrary: s t) (simp_all add: assms(2))

lemma final_invariant:
  assumes "P s" and "\<And>s i. P s \<Longrightarrow> P (snd (f s i))"
  shows "P (final f s is)"
  using assms(1) by (induction "is" arbitrary: s) (simp_all add: assms(2))

lemma fold_refine:
  assumes "R x y" and "\<And>i x y. i \<in> set is \<Longrightarrow> R x y \<Longrightarrow> R (f i x) (g i y)"
  shows "R (fold f is x) (fold g is y)"
  using assms by (induction "is" arbitrary: x y) simp_all

end
