(* ===== verification/Wire.thy ===== *)
theory Wire
  imports Norr_Prelude
begin

text \<open>
  Errors shared by the wire formats (include/norr/error.hpp) and the big-endian readers and writers
  that the packet, handshake, cookie and FEC codecs each define for themselves. A writer takes the
  span it writes to and returns it; the callers guard the indices.
\<close>

datatype Error =
    malformed_packet
  | packet_too_large
  | unsupported_version
  | unsupported_flags
  | payload_length_mismatch
  | counter_exhausted
  | reserved_key_id

definition error_message :: "Error \<Rightarrow> string" where
  "error_message e = (case e of
      malformed_packet \<Rightarrow> ''malformed packet''
    | packet_too_large \<Rightarrow> ''packet too large''
    | unsupported_version \<Rightarrow> ''unsupported version''
    | unsupported_flags \<Rightarrow> ''unsupported flags''
    | payload_length_mismatch \<Rightarrow> ''payload length mismatch''
    | counter_exhausted \<Rightarrow> ''packet counter exhausted''
    | reserved_key_id \<Rightarrow> ''reserved key id used by a session frame'')"

definition read_u16 :: "bytes \<Rightarrow> nat \<Rightarrow> u16" where
  "read_u16 b k = push_bit 8 (ucast (b ! k)) OR ucast (b ! (k + 1))"

definition read_u32 :: "bytes \<Rightarrow> nat \<Rightarrow> u32" where
  "read_u32 b k = push_bit 24 (ucast (b ! k)) OR push_bit 16 (ucast (b ! (k + 1))) OR
     push_bit 8 (ucast (b ! (k + 2))) OR ucast (b ! (k + 3))"

definition read_u64 :: "bytes \<Rightarrow> nat \<Rightarrow> u64" where
  "read_u64 b k = fold (\<lambda>i value. push_bit 8 value OR ucast (b ! (k + i))) [0..<8] 0"

definition write_u16 :: "bytes \<Rightarrow> nat \<Rightarrow> u16 \<Rightarrow> bytes" where
  "write_u16 b k v = b[k := ucast (drop_bit 8 v), k + 1 := ucast v]"

definition write_u32 :: "bytes \<Rightarrow> nat \<Rightarrow> u32 \<Rightarrow> bytes" where
  "write_u32 b k v = b[k := ucast (drop_bit 24 v AND 255), k + 1 := ucast (drop_bit 16 v AND 255),
     k + 2 := ucast (drop_bit 8 v AND 255), k + 3 := ucast (v AND 255)]"

definition write_u64 :: "bytes \<Rightarrow> nat \<Rightarrow> u64 \<Rightarrow> bytes" where
  "write_u64 b k v = fold (\<lambda>i b. b[k + i := ucast (drop_bit ((7 - i) * 8) v)]) [0..<8] b"

subsection \<open>Big-endian byte strings\<close>

text \<open>Auxiliary: the value of a byte string, the byte string of a value, and the copy of a byte
  string into a span at an offset (\<^verbatim>\<open>std::copy\<close>).\<close>

definition be :: "bytes \<Rightarrow> 'a::len word" where
  "be xs = fold (\<lambda>x acc. push_bit 8 acc OR ucast x) xs 0"

definition to_be :: "nat \<Rightarrow> 'a::len word \<Rightarrow> bytes" where
  "to_be m v = map (\<lambda>i. ucast (drop_bit ((m - 1 - i) * 8) v)) [0..<m]"

definition copy_to :: "'b list \<Rightarrow> nat \<Rightarrow> 'b list \<Rightarrow> 'b list" where
  "copy_to b k xs = take k b @ xs @ drop (k + length xs) b"

lemma be_snoc: "be (xs @ [x]) = push_bit 8 (be xs) OR ucast x"
  by (simp add: be_def)

lemma bit_be:
  "bit (be xs :: 'a::len word) n \<longleftrightarrow>
     n < LENGTH('a) \<and> n div 8 < length xs \<and> bit (rev xs ! (n div 8)) (n mod 8)"
proof (induction xs arbitrary: n rule: rev_induct)
  case Nil
  then show ?case by (simp add: be_def)
next
  case (snoc x xs)
  show ?case
  proof (cases "n < 8")
    case True
    then show ?thesis
      by (auto simp: be_snoc bit_simps)
  next
    case False
    then obtain m where m: "n = m + 8" by (metis add.commute le_Suc_ex not_less)
    have "\<not> bit x n" using False bit_imp_le_length [of x n] by auto
    moreover have "n div 8 = Suc (m div 8)" by (simp add: m)
    ultimately show ?thesis
      by (auto simp: be_snoc bit_simps snoc.IH m)
  qed
qed

lemma length_to_be [simp, wire_simps]: "length (to_be m v) = m"
  by (simp add: to_be_def)

lemma bit_to_be:
  "i < m \<Longrightarrow> j < 8 \<Longrightarrow> bit (to_be m v ! i) j = bit v ((m - 1 - i) * 8 + j)"
  by (simp add: to_be_def bit_simps)

lemma be_to_be [simp, wire_simps]:
  assumes "LENGTH('a) = 8 * m"
  shows "be (to_be m v) = (v :: 'a::len word)"
proof (rule bit_word_eqI)
  fix n assume n: "n < LENGTH('a)"
  then have "n div 8 < m" using assms by (simp add: less_mult_imp_div_less mult.commute)
  then have "m - Suc (m - Suc (n div 8)) = n div 8" by simp
  with \<open>n div 8 < m\<close> n show "bit (be (to_be m v) :: 'a word) n = bit v n"
    by (simp add: bit_be rev_nth bit_to_be)
qed

lemma to_be_be [simp, wire_simps]:
  assumes "length xs = m" "8 * m \<le> LENGTH('a)"
  shows "to_be m (be xs :: 'a::len word) = xs"
proof (rule nth_equalityI)
  show "length (to_be m (be xs :: 'a word)) = length xs" by (simp add: assms)
next
  fix i assume "i < length (to_be m (be xs :: 'a word))"
  then have i: "i < m" by simp
  show "to_be m (be xs :: 'a word) ! i = xs ! i"
  proof (rule bit_word_eqI)
    fix j assume "j < LENGTH(8)"
    then have j: "j < 8" by simp
    have pos: "(m - 1 - i) * 8 + j < LENGTH('a)"
    proof -
      have "(m - 1 - i) * 8 + j < (m - 1 - i) * 8 + 8" using j by simp
      also have "\<dots> \<le> 8 * m" using i by (simp add: algebra_simps)
      finally show ?thesis using assms(2) by simp
    qed
    have "((m - 1 - i) * 8 + j) div 8 = m - 1 - i" "((m - 1 - i) * 8 + j) mod 8 = j"
      using j by simp_all
    moreover have "m - Suc (m - Suc i) = i" using i by simp
    ultimately show "bit (to_be m (be xs :: 'a word) ! i) j = bit (xs ! i) j"
      using i j pos assms(1) by (simp add: bit_to_be bit_be rev_nth)
  qed
qed

lemma length_copy_to [simp]: "k + length xs \<le> length b \<Longrightarrow> length (copy_to b k xs) = length b"
  by (simp add: copy_to_def)

lemma copy_to_append:
  "k + length xs + length ys \<le> length b \<Longrightarrow> k' = k + length xs \<Longrightarrow>
     copy_to (copy_to b k xs) k' ys = copy_to b k (xs @ ys)"
  by (simp add: copy_to_def ac_simps)

lemma copy_to_0: "copy_to b 0 xs = xs @ drop (length xs) b"
  by (simp add: copy_to_def)

lemma list_update_copy: "k < length b \<Longrightarrow> b[k := x] = copy_to b k [x]"
  by (simp add: copy_to_def upd_conv_take_nth_drop)

lemma take_drop_nths: "k + n \<le> length b \<Longrightarrow> take n (drop k b) = map (\<lambda>i. b ! (k + i)) [0..<n]"
  by (rule nth_equalityI) simp_all

lemma upt_2: "[0..<2] = [0, 1::nat]"
  by (simp add: upt_rec)

lemma upt_16: "[0..<16] = [0, 1, 2, 3, 4, 5, 6, 7, 8, 9, 10, 11, 12, 13, 14, 15::nat]"
  by (simp add: upt_rec)

lemma upt_4: "[0..<4] = [0, 1, 2, 3::nat]"
  by (simp add: upt_rec)

lemma upt_8: "[0..<8] = [0, 1, 2, 3, 4, 5, 6, 7::nat]"
  by (simp add: upt_rec)

lemma read_u16_be: "k + 2 \<le> length b \<Longrightarrow> read_u16 b k = be (take 2 (drop k b))"
  by (simp add: read_u16_def be_def take_drop_nths upt_rec)

lemma read_u32_be: "k + 4 \<le> length b \<Longrightarrow> read_u32 b k = be (take 4 (drop k b))"
  by (simp add: read_u32_def be_def take_drop_nths upt_4 push_bit_or or.assoc)

lemma read_u64_be: "k + 8 \<le> length b \<Longrightarrow> read_u64 b k = be (take 8 (drop k b))"
  by (simp add: read_u64_def be_def take_drop_nths upt_8)

lemma and_255_ucast: "(ucast (v AND 255) :: byte) = ucast v" for v :: u32
proof -
  have mask: "(255 :: u32) = mask 8" by (simp add: mask_eq_exp_minus_1)
  show ?thesis unfolding mask by (rule bit_word_eqI) (auto simp: bit_simps)
qed

lemma write_u16_be: "k + 2 \<le> length b \<Longrightarrow> write_u16 b k v = copy_to b k (to_be 2 v)"
  by (simp add: write_u16_def to_be_def list_update_copy copy_to_append upt_rec)

lemma write_u32_be: "k + 4 \<le> length b \<Longrightarrow> write_u32 b k v = copy_to b k (to_be 4 v)"
  by (simp add: write_u32_def to_be_def list_update_copy copy_to_append upt_4 and_255_ucast)

lemma write_u64_be: "k + 8 \<le> length b \<Longrightarrow> write_u64 b k v = copy_to b k (to_be 8 v)"
  by (simp add: write_u64_def to_be_def list_update_copy copy_to_append upt_8)

end
