(* ===== verification/Packet.thy ===== *)
theory Packet
  imports Wire
begin

text \<open>
  The 16-byte packet header and its codec (src/packet.cpp). The enum \<^verbatim>\<open>FrameType\<close> has the fixed
  underlying type \<^verbatim>\<open>std::uint8_t\<close>, and \<^verbatim>\<open>parse_packet\<close> casts any nibble of the wire to it before
  it checks the value, so a frame type is a byte here, with the enumerators as constants.
\<close>

type_synonym FrameType = u8

abbreviation ft_data :: FrameType where "ft_data \<equiv> 1"
abbreviation ft_control :: FrameType where "ft_control \<equiv> 2"
abbreviation ft_path :: FrameType where "ft_path \<equiv> 3"
abbreviation ft_key :: FrameType where "ft_key \<equiv> 4"
abbreviation ft_error :: FrameType where "ft_error \<equiv> 5"
abbreviation ft_fec :: FrameType where "ft_fec \<equiv> 6"

definition kProtocolVersion :: u8 where "kProtocolVersion = 1"
definition kPaddingAlignment :: nat where "kPaddingAlignment = 16"
definition kPacketHeaderSize :: nat where "kPacketHeaderSize = 16"
definition kMaximumPacketSize :: nat where "kMaximumPacketSize = 65535"
definition kPreSessionKeyId :: u16 where "kPreSessionKeyId = 0"

lemmas packet_consts = kProtocolVersion_def kPacketHeaderSize_def kMaximumPacketSize_def
  kPreSessionKeyId_def

definition padded_length :: "nat \<Rightarrow> nat" where
  "padded_length len =
     (let remainder = len mod kPaddingAlignment
      in if remainder = 0 then len else len + (kPaddingAlignment - remainder))"

record PacketHeader =
  ph_version :: u8
  ph_type :: FrameType
  ph_flags :: u8
  ph_key_id :: u16
  ph_header_length :: u16
  ph_counter :: u64
  ph_payload_length :: u16

record PacketView =
  pv_header :: PacketHeader
  pv_payload :: bytes

definition valid_frame_type :: "FrameType \<Rightarrow> bool" where
  "valid_frame_type t \<longleftrightarrow> t \<ge> ft_data \<and> t \<le> ft_fec"

definition parse_packet :: "bytes \<Rightarrow> Error + PacketView" where
  "parse_packet b =
     (if length b < kPacketHeaderSize then Inl malformed_packet
      else if length b > kMaximumPacketSize then Inl packet_too_large
      else let version = drop_bit 4 (b ! 0);
               type = (b ! 0) AND 15;
               flags = b ! 1;
               header_length = read_u16 b 4;
               payload_length = read_u16 b 14
      in if version \<noteq> kProtocolVersion then Inl unsupported_version
      else if \<not> valid_frame_type type then Inl malformed_packet
      else if flags \<noteq> 0 then Inl unsupported_flags
      else if unat header_length \<noteq> kPacketHeaderSize then Inl malformed_packet
      else if unat payload_length \<noteq> length b - kPacketHeaderSize then Inl payload_length_mismatch
      else if read_u16 b 2 = kPreSessionKeyId \<and> type = ft_data then Inl reserved_key_id
      else Inr \<lparr>pv_header = \<lparr>ph_version = version, ph_type = type, ph_flags = flags,
                   ph_key_id = read_u16 b 2, ph_header_length = header_length,
                   ph_counter = read_u64 b 6, ph_payload_length = payload_length\<rparr>,
                 pv_payload = drop kPacketHeaderSize b\<rparr>)"

definition serialize_header :: "PacketHeader \<Rightarrow> nat \<Rightarrow> bytes \<Rightarrow> Error + bytes" where
  "serialize_header h payload_length out =
     (if ph_version h \<noteq> kProtocolVersion then Inl unsupported_version
      else if \<not> valid_frame_type (ph_type h) then Inl malformed_packet
      else if ph_flags h \<noteq> 0 then Inl unsupported_flags
      else if unat (ph_header_length h) \<noteq> kPacketHeaderSize then Inl malformed_packet
      else if ph_key_id h = kPreSessionKeyId \<and> ph_type h = ft_data then Inl reserved_key_id
      else if payload_length > kMaximumPacketSize - kPacketHeaderSize then Inl packet_too_large
      else if length out < kPacketHeaderSize then Inl malformed_packet
      else
        let out = out[0 := push_bit 4 (ph_version h) OR ph_type h];
            out = out[1 := ph_flags h];
            out = write_u16 out 2 (ph_key_id h);
            out = write_u16 out 4 (ph_header_length h);
            out = write_u64 out 6 (ph_counter h);
            out = write_u16 out 14 (of_nat payload_length)
        in Inr out)"

definition serialize_packet :: "PacketHeader \<Rightarrow> bytes \<Rightarrow> Error + bytes" where
  "serialize_packet h payload =
     (case serialize_header h (length payload) (replicate kPacketHeaderSize 0) of
        Inl e \<Rightarrow> Inl e
      | Inr prefix \<Rightarrow>
          let b = replicate (kPacketHeaderSize + length payload) 0;
              b = copy_to b 0 prefix;
              b = copy_to b kPacketHeaderSize payload
          in Inr b)"

subsection \<open>The header as a byte string\<close>

text \<open>A header that \<^verbatim>\<open>serialize_header\<close> accepts.\<close>

definition sendable :: "PacketHeader \<Rightarrow> bool" where
  "sendable h \<longleftrightarrow> ph_version h = 1 \<and> valid_frame_type (ph_type h) \<and> ph_flags h = 0 \<and>
     ph_header_length h = 16 \<and> \<not> (ph_key_id h = 0 \<and> ph_type h = ft_data)"

definition header_bytes :: "PacketHeader \<Rightarrow> nat \<Rightarrow> bytes" where
  "header_bytes h n = [push_bit 4 (ph_version h) OR ph_type h, ph_flags h] @
     to_be 2 (ph_key_id h) @ to_be 2 (ph_header_length h) @ to_be 8 (ph_counter h) @
     to_be 2 (of_nat n :: u16)"

lemma length_header_bytes [simp]: "length (header_bytes h n) = 16"
  by (simp add: header_bytes_def)

lemma unat_eq_16: "(unat (x :: u16) = 16) = (x = 16)"
  by (simp add: word_unat_eq_iff)

lemma header_writes:
  assumes "16 \<le> length out"
  shows "write_u16 (write_u64 (write_u16 (write_u16
           (out[0 := push_bit 4 (ph_version h) OR ph_type h, 1 := ph_flags h])
           2 (ph_key_id h)) 4 (ph_header_length h)) 6 (ph_counter h)) 14 (of_nat n) =
         header_bytes h n @ drop 16 out" (is "?bytes = _")
proof -
  have "0 < length out" using assms by linarith
  then have "?bytes = copy_to out 0 (header_bytes h n)"
    using assms
    by (simp add: list_update_copy write_u16_be write_u64_be copy_to_append
          header_bytes_def del: length_greater_0_conv)
  then show ?thesis by (simp add: copy_to_0)
qed

lemma serialize_header_ok:
  "serialize_header h n out = Inr out' \<longleftrightarrow>
     sendable h \<and> n \<le> 65519 \<and> 16 \<le> length out \<and> out' = header_bytes h n @ drop 16 out"
  using header_writes [of out h n]
  by (auto simp: serialize_header_def sendable_def packet_consts unat_eq_16 Let_def)

lemma serialize_packet_ok:
  "serialize_packet h p = Inr b \<longleftrightarrow>
     sendable h \<and> length p \<le> 65519 \<and> b = header_bytes h (length p) @ p"
proof (cases "serialize_header h (length p) (replicate kPacketHeaderSize 0)")
  case (Inl e)
  then have "\<not> (sendable h \<and> length p \<le> 65519)"
    using serialize_header_ok [of h "length p" "replicate 16 0" "header_bytes h (length p)"]
    by (auto simp: kPacketHeaderSize_def)
  with Inl show ?thesis by (auto simp: serialize_packet_def)
next
  case (Inr b')
  then show ?thesis
    using serialize_header_ok [of h "length p" "replicate 16 0" b']
    by (auto simp: serialize_packet_def kPacketHeaderSize_def copy_to_def)
qed

lemma valid_frame_type_iff:
  "valid_frame_type t \<longleftrightarrow> t \<in> {ft_data, ft_control, ft_path, ft_key, ft_error, ft_fec}"
proof -
  have "(1 \<le> unat t \<and> unat t \<le> 6) = (unat t \<in> {1, 2, 3, 4, 5, 6})" by auto
  then show ?thesis
    by (simp add: valid_frame_type_def word_le_nat_alt word_unat_eq_iff)
qed

lemma nibbles:
  assumes "valid_frame_type t"
  shows "drop_bit 4 (push_bit 4 1 OR t) = 1" "(push_bit 4 1 OR t) AND 15 = t"
  using assms by (auto simp: valid_frame_type_iff)

lemma nibbles_join: "push_bit 4 (drop_bit 4 b) OR (b AND 15) = (b :: byte)"
proof -
  have mask: "(15 :: byte) = mask 4" by (simp add: mask_eq_exp_minus_1)
  show ?thesis unfolding mask by (rule bit_word_eqI) (auto simp: bit_simps)
qed

text \<open>Reading back the fields of a header string.\<close>

lemma read_header_bytes [wire_simps]:
  "(header_bytes h n @ p) ! 0 = push_bit 4 (ph_version h) OR ph_type h"
  "(header_bytes h n @ p) ! Suc 0 = ph_flags h"
  "read_u16 (header_bytes h n @ p) 2 = ph_key_id h"
  "read_u16 (header_bytes h n @ p) 4 = ph_header_length h"
  "read_u64 (header_bytes h n @ p) 6 = ph_counter h"
  "read_u16 (header_bytes h n @ p) 14 = of_nat n"
  by (simp_all add: read_u16_be read_u64_be) (simp_all add: header_bytes_def)

lemma parse_packet_header_bytes:
  assumes "sendable h" "length p \<le> 65519"
  shows "parse_packet (header_bytes h (length p) @ p) =
           Inr \<lparr>pv_header = h\<lparr>ph_payload_length := of_nat (length p)\<rparr>, pv_payload = p\<rparr>"
proof -
  have "unat (of_nat (length p) :: u16) = length p"
    using assms(2) by (simp add: unat_of_nat)
  then show ?thesis
    using assms nibbles [of "ph_type h"]
    by (auto simp: parse_packet_def sendable_def packet_consts wire_simps Let_def)
qed

text \<open>A header string is determined by what the reader sees in it.\<close>

lemma header_bytes_of_parsed:
  assumes "16 \<le> length b"
    and "ph_version h = drop_bit 4 (b ! 0)" "ph_type h = (b ! 0) AND 15" "ph_flags h = b ! 1"
    and "ph_key_id h = read_u16 b 2" "ph_header_length h = read_u16 b 4"
    and "ph_counter h = read_u64 b 6" "of_nat n = read_u16 b 14"
  shows "header_bytes h n @ drop 16 b = b"
proof -
  have "header_bytes h n = [b ! 0, b ! 1] @ take 2 (drop 2 b) @ take 2 (drop 4 b) @
          take 8 (drop 6 b) @ take 2 (drop 14 b)"
    using assms by (simp add: header_bytes_def nibbles_join read_u16_be read_u64_be)
  also have "\<dots> = take 16 b"
    using assms(1) by (simp add: take_drop_nths [of 0, simplified] take_drop_nths
      upt_2 upt_8 upt_16) (simp add: numeral_2_eq_2 numeral_3_eq_3)
  finally show ?thesis by simp
qed

lemma parse_packet_ok:
  "parse_packet b = Inr v \<longleftrightarrow>
     16 \<le> length b \<and> length b \<le> 65535 \<and> sendable (pv_header v) \<and>
     unat (ph_payload_length (pv_header v)) = length b - 16 \<and>
     v = \<lparr>pv_header = \<lparr>ph_version = drop_bit 4 (b ! 0), ph_type = (b ! 0) AND 15,
            ph_flags = b ! 1, ph_key_id = read_u16 b 2, ph_header_length = read_u16 b 4,
            ph_counter = read_u64 b 6, ph_payload_length = read_u16 b 14\<rparr>,
          pv_payload = drop 16 b\<rparr>" (is "?parsed \<longleftrightarrow> ?ok")
proof
  assume ?parsed
  then show ?ok
    unfolding parse_packet_def packet_consts Let_def
    by (simp split: if_split_asm add: sendable_def unat_eq_16) auto
next
  assume ?ok
  then show ?parsed
    unfolding parse_packet_def packet_consts Let_def sendable_def by auto
qed

lemma serialize_parsed:
  assumes "parse_packet b = Inr v"
  shows "b = header_bytes (pv_header v) (length (pv_payload v)) @ pv_payload v"
proof -
  have "unat (read_u16 b 14) = length b - 16"
    using assms by (auto simp: parse_packet_ok)
  then have "of_nat (length b - 16) = read_u16 b 14" by (rule of_nat_unat_eq)
  then show ?thesis
    using header_bytes_of_parsed [of b "pv_header v" "length (pv_payload v)"] assms
    by (auto simp: parse_packet_ok)
qed

subsection \<open>Properties\<close>

text \<open>
  C13: what \<^verbatim>\<open>serialize_packet\<close> writes, \<^verbatim>\<open>parse_packet\<close> reads back: the same header, with the
  payload length filled in, and the same payload.
\<close>

theorem parse_serialize_packet:
  assumes "serialize_packet h p = Inr b"
  shows "parse_packet b =
           Inr \<lparr>pv_header = h\<lparr>ph_payload_length := of_nat (length p)\<rparr>, pv_payload = p\<rparr>"
  using assms by (simp add: serialize_packet_ok parse_packet_header_bytes)

lemmas packet_eval = serialize_packet_ok sendable_def header_bytes_def to_be_def parse_packet_def
  packet_consts valid_frame_type_def read_u16_def read_u64_def upt_2 upt_8

definition example_header :: PacketHeader where
  "example_header = \<lparr>ph_version = 1, ph_type = ft_control, ph_flags = 0, ph_key_id = 7,
     ph_header_length = 16, ph_counter = 258, ph_payload_length = 0\<rparr>"

theorem parse_serialize_packet_witness:
  "parse_packet [18, 0, 0, 7, 0, 16, 0, 0, 0, 0, 0, 0, 1, 2, 0, 1, 170] =
     Inr \<lparr>pv_header = example_header\<lparr>ph_payload_length := 1\<rparr>, pv_payload = [170]\<rparr>"
proof -
  have "serialize_packet example_header [170] =
          Inr [18, 0, 0, 7, 0, 16, 0, 0, 0, 0, 0, 0, 1, 2, 0, 1, 170]"
    by (simp add: example_header_def packet_eval)
  from parse_serialize_packet [OF this] show ?thesis by simp
qed

text \<open>
  The format is canonical. A datagram that \<^verbatim>\<open>parse_packet\<close> accepts is byte for byte the one that
  \<^verbatim>\<open>serialize_packet\<close> writes for the parsed header and payload, so there are no two encodings of
  one packet and no bits the parser ignores.
\<close>

lemma serialize_parse_packet:
  assumes "parse_packet b = Inr v"
  shows "serialize_packet (pv_header v) (pv_payload v) = Inr b"
  using assms serialize_parsed [OF assms] by (auto simp: serialize_packet_ok parse_packet_ok)

end
