(* ===== verification/Gf256.thy ===== *)
theory Gf256
  imports Norr_Prelude
begin

text \<open>
  Arithmetic in the field with 256 elements (namespace \<^verbatim>\<open>gf256\<close> and the tables of src/fec.cpp). The
  exponential and logarithm tables are computed as the constructor of \<^verbatim>\<open>Tables\<close> computes them; the
  product table is the function of its two indices that fills it. The vector routines of
  \<^verbatim>\<open>multiply_add\<close> work on 32 (AVX2) or 16 (NEON) bytes at a time, each byte by itself; the argument
  \<open>lanes\<close> is that number, or 0 where there is no vector unit.
\<close>

subsection \<open>Tables\<close>

definition gf_double :: "u32 \<Rightarrow> u32" where
  "gf_double value =
     (let value = push_bit 1 value in if value AND 256 \<noteq> 0 then value XOR 0x11D else value)"

record Tables =
  gt_exp :: "u8 list"
  gt_log :: "u8 list"

definition exp_log_loop :: "nat \<Rightarrow> u32 \<times> u8 list \<times> u8 list" where
  "exp_log_loop n =
     fold (\<lambda>index (value, exp, log).
         (gf_double value, exp[index := ucast value], log[unat value := of_nat index]))
       [0..<n] (1, replicate 512 0, replicate 256 0)"

definition extend_exp :: "nat \<Rightarrow> u8 list \<Rightarrow> u8 list" where
  "extend_exp n exp = fold (\<lambda>index exp. exp[index := exp ! (index - 255)]) [255..<n] exp"

definition tables :: Tables where
  "tables =
     (case exp_log_loop 255 of (value, exp, log) \<Rightarrow> \<lparr>gt_exp = extend_exp 512 exp, gt_log = log\<rparr>)"

definition product :: "u8 \<Rightarrow> u8 \<Rightarrow> u8" where
  "product left right =
     (if left = 0 \<or> right = 0 then 0
      else gt_exp tables ! (unat (gt_log tables ! unat left) + unat (gt_log tables ! unat right)))"

definition nibbles :: "u8 \<Rightarrow> nat \<Rightarrow> u8" where
  "nibbles coefficient i =
     (if i < 16 then product coefficient (of_nat i)
      else product coefficient (push_bit 4 (of_nat (i - 16))))"

definition multiply :: "u8 \<Rightarrow> u8 \<Rightarrow> u8" where
  "multiply left right = product left right"

definition gf_inverse :: "u8 \<Rightarrow> u8" where
  "gf_inverse v = (if v = 0 then 0 else gt_exp tables ! (255 - unat (gt_log tables ! unat v)))"

definition kMaximumFecData :: nat where "kMaximumFecData = 64"
definition kMaximumFecParity :: nat where "kMaximumFecParity = 16"

definition cauchy :: "nat \<Rightarrow> nat \<Rightarrow> u8" where
  "cauchy parity_row data_column =
     (let x = of_nat (kMaximumFecData + parity_row); y = of_nat data_column
      in gf_inverse (x XOR y))"

definition scale :: "bytes \<Rightarrow> u8 \<Rightarrow> bytes" where
  "scale row coefficient = map (\<lambda>octet. product coefficient octet) row"

definition multiply_add_lanes :: "nat \<Rightarrow> bytes \<Rightarrow> bytes \<Rightarrow> nat \<Rightarrow> u8 \<Rightarrow> nat \<times> bytes" where
  "multiply_add_lanes lanes accumulator source len coefficient =
     (let done = len div lanes * lanes
      in (done, fold (\<lambda>index acc.
              let low = nibbles coefficient (unat (source ! index AND 15));
                  high = nibbles coefficient (16 + unat (drop_bit 4 (source ! index)))
              in acc[index := acc ! index XOR (low XOR high)]) [0..<done] accumulator))"

definition multiply_add :: "nat \<Rightarrow> bytes \<Rightarrow> bytes \<Rightarrow> u8 \<Rightarrow> bytes" where
  "multiply_add lanes accumulator source coefficient =
     (let len = min (length accumulator) (length source)
      in if coefficient = 0 then accumulator
      else if coefficient = 1
      then fold (\<lambda>index acc. acc[index := acc ! index XOR source ! index]) [0..<len] accumulator
      else let (index, accumulator) =
             (if lanes = 0 then (0, accumulator)
              else multiply_add_lanes lanes accumulator source len coefficient)
      in fold (\<lambda>index acc. acc[index := acc ! index XOR product coefficient (source ! index)])
           [index..<len] accumulator)"

subsection \<open>Doubling generates the nonzero bytes\<close>

text \<open>Multiplication by the generator: shift, and reduce by the polynomial.\<close>

definition xt :: "byte \<Rightarrow> byte" where
  "xt a = (if bit a 7 then push_bit 1 a XOR 29 else push_bit 1 a)"

lemma xt_eval:
  "bit (numeral n :: byte) 7 \<Longrightarrow> xt (numeral n) = push_bit 1 (numeral n) XOR 29"
  "\<not> bit (numeral n :: byte) 7 \<Longrightarrow> xt (numeral n) = push_bit 1 (numeral n)"
  "xt 1 = 2"
  by (simp_all add: xt_def)

lemma xt_power_15: "(xt ^^ 15) 1 = 38"
  by (simp add: numeral_eq_Suc) (simp add: xt_eval)

lemma xt_power_51: "(xt ^^ 51) 1 = 10"
  by (simp add: numeral_eq_Suc) (simp add: xt_eval)

lemma xt_power_85: "(xt ^^ 85) 1 = 214"
  by (simp add: numeral_eq_Suc) (simp add: xt_eval)

lemma xt_power_255: "(xt ^^ 255) 1 = 1"
  by (simp add: numeral_eq_Suc) (simp add: xt_eval)

lemma bit_29: "bit (29 :: byte) n \<longleftrightarrow> n \<in> {0, 2, 3, 4}"
proof (cases "n < 8")
  case True
  then have "n \<in> {0, 1, 2, 3, 4, 5, 6, 7}" by auto
  then show ?thesis by auto
qed (auto dest: bit_imp_le_length)

lemma bit_xt: "bit (xt a) n \<longleftrightarrow> (if n = 0 then bit a 7 else n < 8 \<and> bit a (n - 1) \<noteq> (bit a 7 \<and> n \<in> {2, 3, 4}))"
proof -
  have push: "bit (push_bit 1 a) n \<longleftrightarrow> 1 \<le> n \<and> n < 8 \<and> bit a (n - 1)"
    by (simp only: bit_push_bit_iff possible_bit_word) simp
  have reduce: "bit (push_bit 1 a XOR 29) n \<longleftrightarrow> (1 \<le> n \<and> n < 8 \<and> bit a (n - 1)) \<noteq> (n \<in> {0, 2, 3, 4})"
    by (simp only: bit_xor_iff bit_29 push)
  show ?thesis
    by (cases "bit a 7") (simp_all only: xt_def push reduce if_True if_False, auto)
qed

lemma xt_xor: "xt (a XOR b) = xt a XOR xt b"
  by (rule bit_word_eqI) (auto simp: bit_xt bit_xor_iff)

lemma xt_0 [simp]: "xt 0 = 0"
  by (simp add: xt_def)

lemma xt_eq_0: "xt a = 0 \<longleftrightarrow> a = 0"
proof
  assume "xt a = 0"
  then have *: "\<not> bit (xt a) n" for n by simp
  have "\<not> bit a 7" using * [of 0] by (simp add: bit_xt)
  then have "\<not> bit a n" if "n < 8" for n using * [of "Suc n"] that by (cases "n = 7") (auto simp: bit_xt)
  then show "a = 0" by (intro bit_word_eqI) simp
qed simp

lemma xt_power_xor: "(xt ^^ n) (a XOR b) = (xt ^^ n) a XOR (xt ^^ n) b"
  by (induction n) (simp_all add: xt_xor)

lemma xt_power_eq_0: "(xt ^^ n) a = 0 \<longleftrightarrow> a = 0"
  by (induction n) (simp_all add: xt_eq_0)

lemma inj_xt_power: "inj (xt ^^ n)"
proof (rule injI)
  fix a b assume "(xt ^^ n) a = (xt ^^ n) b"
  then have "(xt ^^ n) (a XOR b) = 0" by (simp add: xt_power_xor)
  then have "a XOR b = 0" by (simp only: xt_power_eq_0)
  then have "(a XOR b) XOR b = b" by simp
  then show "a = b" by (simp only: xor.assoc xor_self_eq xor.right_neutral)
qed

lemma xt_power_add: "(xt ^^ (m + n)) a = (xt ^^ m) ((xt ^^ n) a)"
  by (simp add: funpow_add)

lemma xt_power_mult_1:
  assumes "(xt ^^ m) 1 = 1"
  shows "(xt ^^ (k * m)) 1 = 1"
  using assms by (induction k) (simp_all add: xt_power_add)

lemma proper_divisor_255:
  assumes "g dvd (255 :: nat)" "g \<noteq> 255"
  shows "g dvd 15 \<or> g dvd 51 \<or> g dvd 85"
proof -
  have *: "list_all (\<lambda>g. g dvd 255 \<longrightarrow> g dvd 15 \<or> g dvd 51 \<or> g dvd (85 :: nat)) [2..<255]"
    by simp
  have "g \<le> 255" using assms(1) by (rule dvd_imp_le) simp
  moreover have "g \<noteq> 0" using assms(1) by (rule contrapos_pn) simp
  ultimately consider "g = 1" | "2 \<le> g" "g < 255" using assms(2) by linarith
  then show ?thesis
  proof cases
    case 2
    then have "g \<in> set [2..<255]" by (simp only: atLeastLessThan_iff set_upt)
    with * have "g dvd 255 \<longrightarrow> g dvd 15 \<or> g dvd 51 \<or> g dvd 85" unfolding list_all_iff by (rule bspec)
    with assms(1) show ?thesis by (rule mp [rotated])
  qed simp
qed

lemma xt_order:
  assumes "(xt ^^ d) 1 = 1" "d < 255"
  shows "d = 0"
proof (rule ccontr)
  assume "d \<noteq> 0"
  define g where "g = gcd d 255"
  obtain u v where uv: "u * d = v * 255 + g"
    using bezout_nat [of d 255] \<open>d \<noteq> 0\<close> by (auto simp: g_def mult.commute)
  have "(xt ^^ (u * d)) 1 = 1" "(xt ^^ (v * 255)) 1 = 1"
    using assms(1) xt_power_255 by (simp_all only: xt_power_mult_1)
  then have "(xt ^^ g) 1 = 1"
    unfolding uv by (simp only: add.commute [of "v * 255" g] xt_power_add)
  then have power: "(xt ^^ n) 1 = 1" if "g dvd n" for n
    using that xt_power_mult_1 by (metis dvd_div_mult_self)
  have "g \<le> d" unfolding g_def using \<open>d \<noteq> 0\<close> by (rule gcd_le1_nat)
  then have "g \<noteq> 255" using assms(2) by linarith
  then have "g dvd 15 \<or> g dvd 51 \<or> g dvd 85"
    by (intro proper_divisor_255) (simp_all add: g_def)
  then show False
    using power [of 15] power [of 51] power [of 85]
    by (elim disjE) (simp_all add: xt_power_15 xt_power_51 xt_power_85)
qed

lemma xt_powers_distinct:
  assumes "i < 255" "j < 255" "(xt ^^ i) 1 = (xt ^^ j) 1"
  shows "i = j"
  using assms
proof (induction i j rule: linorder_wlog)
  case (le i j)
  then have "(xt ^^ i) 1 = (xt ^^ i) ((xt ^^ (j - i)) 1)" by (simp flip: xt_power_add)
  then have "(xt ^^ (j - i)) 1 = 1" using inj_xt_power by (metis injD)
  then show ?case using xt_order [of "j - i"] le(1,3) by linarith
qed simp

lemma xt_powers_surj:
  assumes "a \<noteq> 0"
  obtains i where "i < 255" "(xt ^^ i) 1 = a"
proof -
  let ?P = "(\<lambda>i. (xt ^^ i) 1) ` {..<255}"
  have "?P \<subseteq> - {0}" by (auto simp: xt_power_eq_0)
  moreover have "card ?P = 255"
    using xt_powers_distinct by (subst card_image) (auto intro!: inj_onI)
  moreover have "card (- {0 :: byte}) = 255" by (simp add: Compl_eq_Diff_UNIV card_word)
  ultimately have "?P = - {0}" by (intro card_subset_eq) simp_all
  then show thesis using assms that by (metis (no_types, lifting) ComplI imageE lessThan_iff singletonD)
qed

lemma xt_power_mod: "(xt ^^ n) 1 = (xt ^^ (n mod 255)) 1"
proof -
  have "(xt ^^ (n mod 255 + n div 255 * 255)) 1 = (xt ^^ (n mod 255)) 1"
    using xt_power_mult_1 [OF xt_power_255] by (simp only: xt_power_add)
  then show ?thesis by simp
qed

subsection \<open>What the tables hold\<close>

lemma gf_double_xt: "gf_double (ucast a) = ucast (xt a)" for a :: byte
proof -
  have test: "push_bit 1 (ucast a :: u32) AND 256 \<noteq> 0 \<longleftrightarrow> bit a 7"
    using and_bit_neq_0 [of "push_bit 1 (ucast a :: u32)" 8]
    by (simp add: bit_push_bit_iff bit_ucast_iff del: push_bit_Suc push_bit_of_1)
  have "(0x11D :: u32) = 2 ^ 8 OR ucast (29 :: byte)" by simp
  then have bit_poly: "bit (0x11D :: u32) n \<longleftrightarrow> n \<in> {0, 2, 3, 4, 8}" for n
    by (simp only: bit_or_iff bit_exp_iff bit_ucast_iff bit_29) auto
  have push: "bit (push_bit 1 (ucast a :: u32)) n \<longleftrightarrow> 1 \<le> n \<and> n < 9 \<and> bit a (n - 1)" for n
    using bit_imp_le_length [of a "n - 1"]
    by (auto simp only: bit_push_bit_iff bit_ucast_iff possible_bit_word) auto
  have reduce: "bit (push_bit 1 (ucast a) XOR (0x11D :: u32)) n \<longleftrightarrow>
      (1 \<le> n \<and> n < 9 \<and> bit a (n - 1)) \<noteq> (n \<in> {0, 2, 3, 4, 8})" for n
    by (simp only: bit_xor_iff bit_poly push)
  show ?thesis
  proof (rule bit_word_eqI)
    fix n :: nat
    have "n = 8 \<or> n \<noteq> 8 \<and> (n < 9 \<longleftrightarrow> n < 8)" by linarith
    then show "bit (gf_double (ucast a)) n = bit (ucast (xt a) :: u32) n"
      unfolding gf_double_def Let_def test
      by (cases "bit a 7"; elim disjE) (simp_all only: push reduce bit_ucast_iff bit_xt if_True if_False, auto)
  qed
qed

lemma ucast_ucast_byte: "ucast (ucast a :: u32) = a" for a :: byte
  by (rule bit_word_eqI) (simp add: bit_ucast_iff)

definition power_tables :: "nat \<Rightarrow> u32 \<times> u8 list \<times> u8 list \<Rightarrow> bool" where
  "power_tables n = (\<lambda>(value, exp, log).
     value = ucast ((xt ^^ n) 1) \<and> length exp = 512 \<and> length log = 256 \<and>
     (\<forall>i<n. exp ! i = (xt ^^ i) 1 \<and> log ! unat ((xt ^^ i) 1) = of_nat i))"

lemma power_tables_loop:
  assumes "n \<le> 255"
  shows "power_tables n (exp_log_loop n)"
  using assms
proof (induction n)
  case 0
  then show ?case by (simp add: power_tables_def exp_log_loop_def)
next
  case (Suc n)
  obtain v e l where vel: "exp_log_loop n = (v, e, l)" by (metis prod_cases3)
  have *: "power_tables n (v, e, l)" using Suc vel by simp
  have new: "unat ((xt ^^ n) 1) \<noteq> unat ((xt ^^ i) 1)" if "i < n" for i
    using xt_powers_distinct [of i n] that Suc(2) by (auto dest: word_unat_eq_iff [THEN iffD2])
  have "exp_log_loop (Suc n) = (gf_double v, e[n := ucast v], l[unat v := of_nat n])"
    using vel by (simp add: exp_log_loop_def)
  moreover have "unat ((xt ^^ n) 1) < 256" using unsigned_less [of "(xt ^^ n) 1", where 'a = nat] by simp
  ultimately show ?case
    using * new Suc(2)
    by (auto simp: power_tables_def gf_double_xt less_Suc_eq nth_list_update unat_ucast_up ucast_ucast_byte)
qed

lemma tables_power:
  obtains v e l where "power_tables 255 (v, e, l)" "tables = \<lparr>gt_exp = extend_exp 512 e, gt_log = l\<rparr>"
proof -
  obtain v e l where "exp_log_loop 255 = (v, e, l)" by (metis prod_cases3)
  with power_tables_loop [of 255] show thesis
    by (intro that [of v e l]) (simp_all only: tables_def prod.case order.refl)
qed

lemma extend_exp_powers:
  assumes "length e = 512" "\<forall>i<255. e ! i = (xt ^^ i) 1"
  shows "255 \<le> n \<Longrightarrow> n \<le> 512 \<Longrightarrow>
    length (extend_exp n e) = 512 \<and> (\<forall>i<n. extend_exp n e ! i = (xt ^^ i) 1)"
proof (induction n rule: dec_induct)
  case base
  then show ?case using assms by (simp add: extend_exp_def)
next
  case (step n)
  have "(xt ^^ n) 1 = (xt ^^ (n - 255)) 1"
    using xt_power_mod [of n] xt_power_mod [of "n - 255"] step(1) by (simp only: le_mod_geq)
  moreover have "extend_exp (Suc n) e = (extend_exp n e)[n := extend_exp n e ! (n - 255)]"
    using step(1) by (simp add: extend_exp_def)
  ultimately show ?case using step by (simp add: less_Suc_eq all_conj_distrib nth_list_update)
qed

lemma tables_exp:
  assumes "i < 512"
  shows "gt_exp tables ! i = (xt ^^ i) 1"
proof -
  obtain v e l where "power_tables 255 (v, e, l)"
    and t: "tables = \<lparr>gt_exp = extend_exp 512 e, gt_log = l\<rparr>"
    by (rule tables_power)
  then have "length e = 512" "\<forall>i<255. e ! i = (xt ^^ i) 1" by (simp_all add: power_tables_def)
  from extend_exp_powers [OF this, of 512] assms show ?thesis by (simp add: t)
qed

lemma tables_log:
  assumes "i < 255"
  shows "gt_log tables ! unat ((xt ^^ i) 1) = of_nat i"
proof -
  obtain v e l where "power_tables 255 (v, e, l)"
    and t: "tables = \<lparr>gt_exp = extend_exp 512 e, gt_log = l\<rparr>"
    by (rule tables_power)
  then show ?thesis using assms by (simp add: t power_tables_def)
qed

text \<open>Multiplying by a nonzero byte is doubling as often as its logarithm says.\<close>

lemma product_power:
  assumes "i < 255"
  shows "product ((xt ^^ i) 1) a = (xt ^^ i) a"
proof (cases "a = 0")
  case True
  then show ?thesis by (simp add: product_def xt_power_eq_0)
next
  case False
  then obtain j where j: "j < 255" "(xt ^^ j) 1 = a" by (rule xt_powers_surj)
  have "product ((xt ^^ i) 1) a = gt_exp tables ! (i + j)"
    using assms j False tables_log [OF assms] tables_log [OF j(1)]
    by (simp add: product_def xt_power_eq_0 unat_of_nat)
  also have "\<dots> = (xt ^^ i) a"
    using assms j by (simp add: tables_exp xt_power_add)
  finally show ?thesis .
qed

lemma product_0 [simp]: "product 0 a = 0" "product a 0 = 0"
  by (simp_all add: product_def)

lemma product_commute: "product a b = product b a"
  by (simp add: product_def add.commute disj_commute)

lemma product_1 [simp]: "product 1 a = a" "product a 1 = a"
  using product_power [of 0 a] by (simp_all add: product_commute [of a 1])

lemma product_xor: "product c (a XOR b) = product c a XOR product c b"
proof (cases "c = 0")
  case False
  then obtain i where "i < 255" "(xt ^^ i) 1 = c" by (rule xt_powers_surj)
  then show ?thesis using product_power [of i] by (auto simp: xt_power_xor)
qed simp

lemma xt_power_mod_all: "(xt ^^ (n mod 255)) a = (xt ^^ n) a"
proof (cases "a = 0")
  case False
  then obtain k where k: "(xt ^^ k) 1 = a" by (rule xt_powers_surj)
  have "(xt ^^ (k + n mod 255)) 1 = (xt ^^ (k + n)) 1"
    using xt_power_mod [of n] by (simp only: xt_power_add)
  then show ?thesis by (simp only: add.commute [of k] xt_power_add k)
next
  case True
  then show ?thesis using xt_power_eq_0 [of _ 0] by simp
qed

lemma product_assoc: "product (product a b) c = product a (product b c)"
proof (cases "a = 0 \<or> b = 0")
  case False
  then obtain i j where i: "i < 255" "(xt ^^ i) 1 = a" and j: "j < 255" "(xt ^^ j) 1 = b"
    by (metis xt_powers_surj)
  have "product a b = (xt ^^ ((i + j) mod 255)) 1"
    using product_power [OF i(1), of b] by (simp only: i(2) xt_power_mod_all xt_power_add j(2))
  then have "product (product a b) c = (xt ^^ ((i + j) mod 255)) c"
    using product_power [of "(i + j) mod 255" c] by simp
  then have "product (product a b) c = (xt ^^ i) ((xt ^^ j) c)"
    by (simp only: xt_power_mod_all xt_power_add)
  then show ?thesis using product_power [OF i(1)] product_power [OF j(1)] by (simp only: i(2) j(2))
qed auto

lemma product_inverse:
  assumes "a \<noteq> 0"
  shows "product a (gf_inverse a) = 1"
proof -
  obtain i where i: "i < 255" "(xt ^^ i) 1 = a" using assms by (rule xt_powers_surj)
  have "gf_inverse a = (xt ^^ (255 - i)) 1"
    using assms tables_log [OF i(1)] i by (simp add: gf_inverse_def unat_of_nat tables_exp)
  then have "product a (gf_inverse a) = (xt ^^ (i + (255 - i))) 1"
    using product_power [OF i(1)] by (simp only: i(2) xt_power_add)
  then show ?thesis using i(1) by (simp add: xt_power_255)
qed

subsection \<open>The field\<close>

datatype gf = Gf (gf_byte: byte)

instantiation gf :: field
begin

definition "0 = Gf 0"
definition "1 = Gf 1"
definition "a + b = Gf (gf_byte a XOR gf_byte b)"
definition "a - b = Gf (gf_byte a XOR gf_byte b)" for a b :: gf
definition "- a = a" for a :: gf
definition "a * b = Gf (product (gf_byte a) (gf_byte b))"
definition "inverse a = Gf (gf_inverse (gf_byte a))"
definition "a div b = Gf (product (gf_byte a) (gf_inverse (gf_byte b)))" for a b :: gf

lemmas gf_defs = zero_gf_def one_gf_def plus_gf_def minus_gf_def uminus_gf_def times_gf_def
  inverse_gf_def divide_gf_def

instance
proof
  fix a b c :: gf
  show "a \<noteq> 0 \<Longrightarrow> inverse a * a = 1"
    by (cases a) (simp add: gf_defs product_inverse product_commute [of "gf_inverse _"])
  show "a * b * c = a * (b * c)" by (simp add: gf_defs product_assoc)
  show "a * b = b * a" by (simp add: gf_defs product_commute)
  show "(a + b) * c = a * c + b * c"
    by (simp add: gf_defs product_commute [of _ "gf_byte c"] product_xor)
  show "inverse (0 :: gf) = 0" by (simp add: gf_defs gf_inverse_def)
qed (simp_all add: gf_defs xor.assoc, simp add: xor.commute)

end

lemma gf_byte_simps [simp]:
  "gf_byte 0 = 0" "gf_byte 1 = 1" "gf_byte (a + b) = gf_byte a XOR gf_byte b"
  "gf_byte (a - b) = gf_byte a XOR gf_byte b" "gf_byte (a * b) = product (gf_byte a) (gf_byte b)"
  "gf_byte (inverse a) = gf_inverse (gf_byte a)" "gf_byte (- a) = gf_byte a"
  by (simp_all add: gf_defs)

lemma gf_char_2: "a + a = 0" for a :: gf
  by (simp add: gf_defs)

lemma gf_sub_is_add: "a - b = a + b" for a b :: gf
  by (simp add: gf_defs)

text \<open>
  The tables built at start-up make the bytes a field: with exclusive or as addition and
  \<^verbatim>\<open>gf256::multiply\<close> as multiplication, multiplication is associative, commutative and distributes over
  addition, 1 is its unit, and \<^verbatim>\<open>gf256::inverse\<close> gives the inverse of every nonzero byte.
\<close>
lemma multiply_field:
  "multiply (multiply a b) c = multiply a (multiply b c) \<and>
   multiply a b = multiply b a \<and>
   multiply c (a XOR b) = multiply c a XOR multiply c b \<and>
   multiply 1 a = a \<and>
   multiply a (gf_inverse a) = (if a = 0 then 0 else 1)"
  unfolding multiply_def
  by (intro conjI product_assoc product_commute product_xor) (simp_all add: product_inverse)

subsection \<open>Rows of bytes\<close>

lemma nibble_split: "a = (a AND 15) XOR push_bit 4 (drop_bit 4 a)" for a :: byte
proof -
  have mask: "(15 :: byte) = mask 4" by (simp add: mask_eq_exp_minus_1)
  show ?thesis
    unfolding mask by (rule bit_word_eqI) (auto simp: bit_simps)
qed

lemma nibbles_product:
  "nibbles c (unat (a AND 15)) XOR nibbles c (16 + unat (drop_bit 4 a)) = product c a"
proof -
  have "unat (a AND 15) < 16" using word_and_le1 [of a 15] by (simp add: word_le_nat_alt)
  then have "nibbles c (unat (a AND 15)) = product c (a AND 15)" by (simp add: nibbles_def)
  moreover have "nibbles c (16 + unat (drop_bit 4 a)) = product c (push_bit 4 (drop_bit 4 a))"
    by (simp add: nibbles_def)
  ultimately show ?thesis using nibble_split [of a] product_xor by metis
qed

text \<open>A loop that updates each position from itself alone.\<close>

lemma fold_pointwise:
  assumes "n \<le> length xs"
  shows "fold (\<lambda>i acc. acc[i := f i (acc ! i)]) [m..<n] xs =
    map (\<lambda>i. if m \<le> i \<and> i < n then f i (xs ! i) else xs ! i) [0..<length xs]"
  using assms
proof (induction n)
  case 0
  then show ?case by (simp add: map_nth)
next
  case (Suc n)
  then show ?case by (cases "m \<le> n") (auto intro!: nth_equalityI simp: nth_list_update less_Suc_eq)
qed

definition row_add :: "bytes \<Rightarrow> bytes \<Rightarrow> u8 \<Rightarrow> bytes" where
  "row_add acc src c =
     map (\<lambda>i. if i < length src then acc ! i XOR product c (src ! i) else acc ! i) [0..<length acc]"

lemma multiply_add_row_add: "multiply_add lanes acc src c = row_add acc src c"
proof -
  let ?n = "min (length acc) (length src)"
  let ?row = "\<lambda>n. map (\<lambda>i. if i < n then acc ! i XOR product c (src ! i) else acc ! i) [0..<length acc]"
  note loop = fold_pointwise [where f = "\<lambda>i x. x XOR product c (src ! i)"]
    and loop_1 = fold_pointwise [where f = "\<lambda>i x. x XOR src ! i"]
  define k where "k = (if lanes = 0 then 0 else ?n div lanes * lanes)"
  have k: "k \<le> ?n" by (cases "lanes = 0") (simp_all only: k_def div_times_less_eq_dividend simp_thms if_True if_False le0)
  then have vec: "(if lanes = 0 then (0, acc) else multiply_add_lanes lanes acc src ?n c) = (k, ?row k)"
    by (cases "lanes = 0") (simp_all add: multiply_add_lanes_def nibbles_product loop map_nth Let_def k_def)
  have "multiply_add lanes acc src c = ?row ?n"
    unfolding multiply_add_def Let_def vec using k
    by (auto simp: loop loop_1 map_nth intro!: nth_equalityI)
  then show ?thesis by (auto simp: row_add_def)
qed

text \<open>
  C32: Every path of \<^verbatim>\<open>gf256::multiply_add\<close>, the two shortcuts for the coefficients 0 and 1, the vector
  loops of any width with their split into low and high nibbles, and the scalar loop for the rest,
  adds the coefficient times the source byte to each byte both rows have and leaves the others.
\<close>
theorem multiply_add_bytes:
  "multiply_add lanes acc src c =
     map (\<lambda>i. if i < length src then acc ! i XOR multiply c (src ! i) else acc ! i) [0..<length acc]"
  by (simp add: multiply_add_row_add row_add_def multiply_def)

end
