(* ===== verification/Fec.thy ===== *)
theory Fec
  imports Complex_Main Wire Packet Gf256
begin

text \<open>
  Forward error correction, sending side (include/norr/fec.hpp, src/fec.cpp): the plans, the loss
  statistics that choose them, the symbol header, and the encoder with its interleaved lanes. A
  \<^verbatim>\<open>double\<close> is a \<open>real\<close>. The scratch buffers of the encoder (\<^verbatim>\<open>symbol_\<close>, \<^verbatim>\<open>output_\<close>) are local to each
  call here: the span that \<^verbatim>\<open>add\<close> and \<^verbatim>\<open>flush\<close> return is the first component of the result.
\<close>

definition kMaximumOutstandingBlocks :: nat where "kMaximumOutstandingBlocks = 128"
definition kFecLengthPrefix :: nat where "kFecLengthPrefix = 2"
definition kFecRecoveryDeadline :: duration where "kFecRecoveryDeadline = milliseconds 250"
definition kFecFlushInterval :: duration where "kFecFlushInterval = milliseconds 5"
definition kMaximumFecLanes :: nat where "kMaximumFecLanes = 4"
definition kFecTargetBlockFailure :: real where "kFecTargetBlockFailure = 1 / 1000"
definition kFecHeaderSize :: nat where "kFecHeaderSize = 11"

lemmas fec_consts = kMaximumFecData_def kMaximumFecParity_def kMaximumOutstandingBlocks_def
  kFecLengthPrefix_def kMaximumFecLanes_def kFecHeaderSize_def

subsection \<open>Plans\<close>

datatype FecMode = fec_off | fec_light | fec_moderate | fec_aggressive | fec_automatic

definition fec_mode_name :: "FecMode \<Rightarrow> string" where
  "fec_mode_name mode = (case mode of
      fec_off \<Rightarrow> ''off''
    | fec_light \<Rightarrow> ''light''
    | fec_moderate \<Rightarrow> ''moderate''
    | fec_aggressive \<Rightarrow> ''aggressive''
    | fec_automatic \<Rightarrow> ''auto'')"

definition block_size_for :: "FecMode \<Rightarrow> nat" where
  "block_size_for mode = (case mode of
      fec_light \<Rightarrow> 16 | fec_moderate \<Rightarrow> 10 | fec_aggressive \<Rightarrow> 8 | _ \<Rightarrow> 0)"

definition parity_count_for :: "FecMode \<Rightarrow> nat" where
  "parity_count_for mode = (case mode of
      fec_light \<Rightarrow> 2 | fec_moderate \<Rightarrow> 3 | fec_aggressive \<Rightarrow> 4 | _ \<Rightarrow> 0)"

record FecPlan =
  fp_data :: nat
  fp_parity :: nat
  fp_lanes :: nat
  fp_loss :: real

definition no_plan :: FecPlan where
  "no_plan = \<lparr>fp_data = 0, fp_parity = 0, fp_lanes = 1, fp_loss = 0\<rparr>"

definition plan_active :: "FecPlan \<Rightarrow> bool" where
  "plan_active plan \<longleftrightarrow> fp_data plan > 0 \<and> fp_parity plan > 0"

definition same_shape :: "FecPlan \<Rightarrow> FecPlan \<Rightarrow> bool" where
  "same_shape plan other \<longleftrightarrow>
     fp_data plan = fp_data other \<and> fp_parity plan = fp_parity other \<and> fp_lanes plan = fp_lanes other"

definition plan_for_mode :: "FecMode \<Rightarrow> FecPlan" where
  "plan_for_mode mode =
     \<lparr>fp_data = block_size_for mode, fp_parity = parity_count_for mode, fp_lanes = 1, fp_loss = 0\<rparr>"

text \<open>The inner loop of \<^verbatim>\<open>parity_needed\<close>: the last term and the sum of the terms so far.\<close>

definition covered_loop :: "nat \<Rightarrow> real \<Rightarrow> nat \<Rightarrow> real \<times> real" where
  "covered_loop symbols p rows =
     (let odds = p / (1 - p); term = (1 - p) ^ symbols
      in fold (\<lambda>lost (term, covered).
           let term = term * (real (symbols - lost) / real (lost + 1) * odds)
           in (term, covered + term)) [0..<rows] (term, term))"

function parity_rows_loop :: "nat \<Rightarrow> real \<Rightarrow> nat \<Rightarrow> nat \<Rightarrow> nat" where
  "parity_rows_loop data p limit rows =
     (if rows < limit
      then if 1 - snd (covered_loop (data + rows) p rows) \<le> kFecTargetBlockFailure then rows
           else parity_rows_loop data p limit (rows + 1)
      else limit)"
  by pat_completeness auto
termination by (relation "measure (\<lambda>(data, p, limit, rows). limit - rows)") auto

declare parity_rows_loop.simps [simp del]

definition parity_needed :: "nat \<Rightarrow> real \<Rightarrow> nat \<Rightarrow> nat" where
  "parity_needed data loss limit =
     (if data = 0 \<or> limit = 0 then 0
      else let p = max 0 (min (1 / 2) loss)
      in if p \<le> 0 then limit else parity_rows_loop data p limit 1)"

definition plan_for_loss :: "real \<Rightarrow> real \<Rightarrow> FecPlan" where
  "plan_for_loss loss packets_per_second =
     (let design = min (4 / 10) (loss * (3 / 2) + 2 / 1000);
          per_flush = max 0 packets_per_second * (real_of_int kFecFlushInterval / 1000000000);
          (data, lanes) =
            (if per_flush \<ge> 64 then (32, max 1 (min kMaximumFecLanes (nat \<lfloor>per_flush / 32\<rfloor>)))
             else (max 4 (min 32 (nat \<lfloor>per_flush\<rfloor>)), 1));
          data = (if design \<ge> 8 / 100 then min data 16 else data)
      in \<lparr>fp_data = data, fp_parity = parity_needed data design kMaximumFecParity,
          fp_lanes = lanes, fp_loss = design\<rparr>)"

subsection \<open>Choosing a plan from loss reports\<close>

record FecLossReport =
  lr_raw :: real
  lr_residual :: real
  lr_packets_per_second :: real
  lr_congested :: bool

record AdaptiveFec =
  af_smoothed :: real
  af_lossy_reports :: nat
  af_calm_reports :: nat
  af_ineffective_reports :: nat
  af_suppressed_until :: instant
  af_suppression :: duration

definition kEnableLoss :: real where "kEnableLoss = 8 / 1000"
definition kDisableLoss :: real where "kDisableLoss = 1 / 1000"
definition kReportsBeforeEnable :: nat where "kReportsBeforeEnable = 3"
definition kCalmBeforeDisable :: nat where "kCalmBeforeDisable = 5"
definition kMinimumRecoveredShare :: real where "kMinimumRecoveredShare = 3 / 10"
definition kIneffectiveBeforeSuppress :: nat where "kIneffectiveBeforeSuppress = 3"
definition kSuppression :: duration where "kSuppression = seconds 30"
definition kMaximumSuppression :: duration where "kMaximumSuppression = seconds 300"

definition new_adaptive :: AdaptiveFec where
  "new_adaptive = \<lparr>af_smoothed = 0, af_lossy_reports = 0, af_calm_reports = 0,
     af_ineffective_reports = 0, af_suppressed_until = 0, af_suppression = kSuppression\<rparr>"

definition distance :: "nat \<Rightarrow> nat \<Rightarrow> nat" where
  "distance left right = (if left > right then left - right else right - left)"

text \<open>The last part of \<^verbatim>\<open>decide\<close>: a running plan whose loss is not negligible.\<close>

definition replan :: "AdaptiveFec \<Rightarrow> FecPlan \<Rightarrow> FecLossReport \<Rightarrow> FecPlan option \<times> AdaptiveFec" where
  "replan a current report =
     (if af_smoothed a < kDisableLoss
      then let a = a\<lparr>af_calm_reports := af_calm_reports a + 1\<rparr>
           in if af_calm_reports a < kCalmBeforeDisable then (None, a)
              else (Some no_plan, a\<lparr>af_calm_reports := 0\<rparr>)
      else let a = a\<lparr>af_calm_reports := 0\<rparr>;
               wanted = plan_for_loss (af_smoothed a) (lr_packets_per_second report);
               settled = (fp_lanes wanted = fp_lanes current \<and>
                 distance (fp_parity wanted) (fp_parity current) < 2 \<and>
                 distance (fp_data wanted) (fp_data current) * 4 \<le> fp_data current)
           in if settled then (None, a) else (Some wanted, a))"

definition decide :: "AdaptiveFec \<Rightarrow> FecPlan \<Rightarrow> FecLossReport \<Rightarrow> instant \<Rightarrow> FecPlan option \<times> AdaptiveFec" where
  "decide a current report now =
     (if lr_congested report then (None, a\<lparr>af_lossy_reports := 0\<rparr>)
      else let raw = max 0 (min 1 (lr_raw report));
               a = a\<lparr>af_smoothed := (if raw \<ge> af_smoothed a then raw
                                    else 6 / 10 * af_smoothed a + 4 / 10 * raw)\<rparr>
      in if now < af_suppressed_until a
      then ((if plan_active current then Some no_plan else None), a\<lparr>af_lossy_reports := 0\<rparr>)
      else if \<not> plan_active current
      then let a = a\<lparr>af_calm_reports := 0, af_ineffective_reports := 0\<rparr>
           in if af_smoothed a < kEnableLoss then (None, a\<lparr>af_lossy_reports := 0\<rparr>)
           else let a = a\<lparr>af_lossy_reports := af_lossy_reports a + 1\<rparr>
           in if af_lossy_reports a < kReportsBeforeEnable then (None, a)
           else (Some (plan_for_loss (af_smoothed a) (lr_packets_per_second report)),
                 a\<lparr>af_lossy_reports := 0\<rparr>)
      else if raw \<ge> 2 / 1000
      then let recovered_share = (raw - max 0 (min raw (lr_residual report))) / raw
           in if recovered_share < kMinimumRecoveredShare
           then let a = a\<lparr>af_ineffective_reports := af_ineffective_reports a + 1\<rparr>
                in if af_ineffective_reports a \<ge> kIneffectiveBeforeSuppress
                then (Some no_plan,
                      a\<lparr>af_ineffective_reports := 0, af_calm_reports := 0,
                        af_suppressed_until := now + af_suppression a,
                        af_suppression := min (af_suppression a * 2) kMaximumSuppression\<rparr>)
                else replan a current report
           else replan (a\<lparr>af_ineffective_reports := 0, af_suppression := kSuppression\<rparr>) current report
      else replan a current report)"

subsection \<open>Symbol headers\<close>

record FecStats =
  fs_blocks_encoded :: u64
  fs_parity_sent :: u64
  fs_symbols_received :: u64
  fs_recovered :: u64
  fs_unrecoverable :: u64
  fs_expired :: u64

record FecSymbolHeader =
  sh_block_id :: u32
  sh_index :: u8
  sh_block_size :: u8
  sh_parity_count :: u8
  sh_parity :: bool
  sh_original_length :: u16

definition kFecTag :: byte where
  "kFecTag = push_bit 4 kProtocolVersion OR ft_fec"

definition looks_like_fec_symbol :: "bytes \<Rightarrow> bool" where
  "looks_like_fec_symbol b \<longleftrightarrow> b \<noteq> [] \<and> b ! 0 = kFecTag"

definition serialize_fec_header :: "FecSymbolHeader \<Rightarrow> bytes \<Rightarrow> nat \<times> bytes" where
  "serialize_fec_header header out =
     (if length out < kFecHeaderSize then (0, out)
      else let out = out[0 := kFecTag];
               out = write_u32 out 1 (sh_block_id header);
               out = out[5 := sh_index header, 6 := sh_block_size header,
                         7 := sh_parity_count header, 8 := (if sh_parity header then 1 else 0),
                         9 := ucast (drop_bit 8 (sh_original_length header) AND 255),
                         10 := ucast (sh_original_length header AND 255)]
           in (kFecHeaderSize, out))"

definition parse_fec_header :: "bytes \<Rightarrow> FecSymbolHeader option" where
  "parse_fec_header b =
     (if length b < kFecHeaderSize then None
      else if b ! 0 \<noteq> kFecTag then None
      else let flags = b ! 8
      in if flags AND NOT 1 \<noteq> 0 then None
      else let header = \<lparr>sh_block_id = read_u32 b 1, sh_index = b ! 5, sh_block_size = b ! 6,
                         sh_parity_count = b ! 7, sh_parity = (flags AND 1 \<noteq> 0),
                         sh_original_length = push_bit 8 (ucast (b ! 9)) OR ucast (b ! 10)\<rparr>
      in if sh_block_size header = 0 \<or> unat (sh_block_size header) > kMaximumFecData then None
      else if sh_parity_count header = 0 \<or> unat (sh_parity_count header) > kMaximumFecParity then None
      else if (if sh_parity header then sh_index header \<ge> sh_parity_count header
               else sh_index header \<ge> sh_block_size header) then None
      else Some header)"

subsection \<open>Encoder\<close>

record Lane =
  ln_block_id :: u32
  ln_index :: nat
  ln_width :: nat
  ln_parity :: "bytes list"

record FecEncoder =
  en_plan :: FecPlan
  en_lanes :: "Lane list"
  en_cursor :: nat
  en_next_block :: u32
  en_stats :: FecStats

definition new_stats :: FecStats where
  "new_stats = \<lparr>fs_blocks_encoded = 0, fs_parity_sent = 0, fs_symbols_received = 0,
     fs_recovered = 0, fs_unrecoverable = 0, fs_expired = 0\<rparr>"

definition blank_encoder :: FecEncoder where
  "blank_encoder = \<lparr>en_plan = no_plan,
     en_lanes = replicate kMaximumFecLanes \<lparr>ln_block_id = 0, ln_index = 0, ln_width = 0, ln_parity = []\<rparr>,
     en_cursor = 0, en_next_block = 0, en_stats = new_stats\<rparr>"

definition configure :: "FecEncoder \<Rightarrow> FecPlan \<Rightarrow> FecEncoder" where
  "configure e plan =
     (let plan = plan\<lparr>fp_data := min (fp_data plan) kMaximumFecData,
                      fp_parity := min (fp_parity plan) kMaximumFecParity,
                      fp_lanes := max 1 (min kMaximumFecLanes (fp_lanes plan))\<rparr>;
          plan = (if \<not> plan_active plan then no_plan else plan);
          (lanes, next_block) = fold (\<lambda>lane (lanes, next_block).
              (lanes @ [lane\<lparr>ln_index := 0, ln_width := 0,
                             ln_parity := replicate (fp_parity plan) [],
                             ln_block_id := next_block\<rparr>], next_block + 1))
            (en_lanes e) ([], en_next_block e)
      in e\<lparr>en_plan := plan, en_cursor := 0, en_lanes := lanes, en_next_block := next_block\<rparr>)"

definition new_encoder :: "FecPlan \<Rightarrow> FecEncoder" where
  "new_encoder plan = configure blank_encoder plan"

definition resume_at :: "FecEncoder \<Rightarrow> u32 \<Rightarrow> FecEncoder" where
  "resume_at e block_id =
     (let (lanes, next_block) = fold (\<lambda>lane (lanes, next_block).
              if ln_index lane = 0
              then (lanes @ [lane\<lparr>ln_block_id := next_block\<rparr>], next_block + 1)
              else (lanes @ [lane], next_block))
            (en_lanes e) ([], block_id)
      in e\<lparr>en_lanes := lanes, en_next_block := next_block\<rparr>)"

definition pending :: "FecEncoder \<Rightarrow> nat" where
  "pending e = fold (\<lambda>index total. total + ln_index (en_lanes e ! index)) [0..<fp_lanes (en_plan e)] 0"

definition next_header :: "FecEncoder \<Rightarrow> nat \<Rightarrow> FecSymbolHeader" where
  "next_header e sealed_length =
     (let lane = en_lanes e ! en_cursor e
      in \<lparr>sh_block_id = ln_block_id lane, sh_index = of_nat (ln_index lane),
          sh_block_size = of_nat (fp_data (en_plan e)),
          sh_parity_count = of_nat (fp_parity (en_plan e)), sh_parity = False,
          sh_original_length = of_nat sealed_length\<rparr>)"

definition parity_symbol :: "FecPlan \<Rightarrow> Lane \<Rightarrow> nat \<Rightarrow> bytes" where
  "parity_symbol plan lane row =
     (let header = \<lparr>sh_block_id = ln_block_id lane, sh_index = of_nat row,
                    sh_block_size = of_nat (ln_index lane),
                    sh_parity_count = of_nat (fp_parity plan), sh_parity = True,
                    sh_original_length = of_nat (ln_width lane)\<rparr>;
          symbol = replicate (kFecHeaderSize + ln_width lane) 0;
          symbol = snd (serialize_fec_header header symbol)
      in copy_to symbol kFecHeaderSize (ln_parity lane ! row))"

definition emit :: "FecEncoder \<Rightarrow> nat \<Rightarrow> nat \<Rightarrow> bytes list \<times> FecEncoder" where
  "emit e index rows =
     (let lane = en_lanes e ! index;
          output = map (parity_symbol (en_plan e) lane) [0..<rows];
          lane = lane\<lparr>ln_parity := map (\<lambda>row. []) (ln_parity lane),
                      ln_block_id := en_next_block e, ln_index := 0, ln_width := 0\<rparr>
      in (output,
          e\<lparr>en_lanes := (en_lanes e)[index := lane], en_next_block := en_next_block e + 1,
            en_stats := (en_stats e)\<lparr>fs_blocks_encoded := fs_blocks_encoded (en_stats e) + 1,
              fs_parity_sent := fs_parity_sent (en_stats e) + of_nat rows\<rparr>\<rparr>))"

definition length_prefixed :: "bytes \<Rightarrow> bytes" where
  "length_prefixed packet =
     [of_nat (length packet div 256 mod 256), of_nat (length packet mod 256)] @ packet"

definition resize :: "nat \<Rightarrow> 'a \<Rightarrow> 'a list \<Rightarrow> 'a list" where
  "resize n v xs = take n xs @ replicate (n - length xs) v"

text \<open>What \<^verbatim>\<open>add\<close> does to the lane, before the lane is full.\<close>

definition add_to_lane :: "nat \<Rightarrow> FecPlan \<Rightarrow> Lane \<Rightarrow> bytes \<Rightarrow> Lane" where
  "add_to_lane simd plan lane packet =
     (let len = kFecLengthPrefix + length packet;
          lane = (if len > ln_width lane
                  then lane\<lparr>ln_width := len, ln_parity := map (resize len 0) (ln_parity lane)\<rparr>
                  else lane);
          symbol = length_prefixed packet
      in lane\<lparr>ln_parity := fold (\<lambda>row parity.
                  parity[row := multiply_add simd (parity ! row) symbol (cauchy row (ln_index lane))])
                [0..<fp_parity plan] (ln_parity lane),
              ln_index := ln_index lane + 1\<rparr>)"

definition add :: "nat \<Rightarrow> FecEncoder \<Rightarrow> bytes \<Rightarrow> bytes list \<times> FecEncoder" where
  "add simd e packet =
     (if \<not> plan_active (en_plan e) \<or> length packet > 0xFFFF then ([], e)
      else let index = en_cursor e;
               lane = add_to_lane simd (en_plan e) (en_lanes e ! index) packet;
               e = e\<lparr>en_cursor := (en_cursor e + 1) mod fp_lanes (en_plan e),
                     en_lanes := (en_lanes e)[index := lane]\<rparr>
      in if ln_index lane \<ge> fp_data (en_plan e) then emit e index (fp_parity (en_plan e))
         else ([], e))"

definition flush :: "FecEncoder \<Rightarrow> bytes list \<times> FecEncoder" where
  "flush e =
     (if \<not> plan_active (en_plan e) then ([], e)
      else let (output, e) = fold (\<lambda>index (output, e).
               let lane = en_lanes e ! index
               in if ln_index lane = 0 then (output, e)
               else let rows = (if fp_loss (en_plan e) > 0
                                then parity_needed (ln_index lane) (fp_loss (en_plan e)) (fp_parity (en_plan e))
                                else fp_parity (en_plan e));
                        (symbols, e) = emit e index rows
               in (output @ symbols, e)) [0..<fp_lanes (en_plan e)] ([], e)
      in (output, e\<lparr>en_cursor := 0\<rparr>))"

subsection \<open>Headers survive the wire\<close>

definition header_ok :: "FecSymbolHeader \<Rightarrow> bool" where
  "header_ok h \<longleftrightarrow>
     0 < unat (sh_block_size h) \<and> unat (sh_block_size h) \<le> kMaximumFecData \<and>
     0 < unat (sh_parity_count h) \<and> unat (sh_parity_count h) \<le> kMaximumFecParity \<and>
     unat (sh_index h) < (if sh_parity h then unat (sh_parity_count h) else unat (sh_block_size h))"

definition fec_header_bytes :: "FecSymbolHeader \<Rightarrow> bytes" where
  "fec_header_bytes h = [kFecTag] @ to_be 4 (sh_block_id h) @
     [sh_index h, sh_block_size h, sh_parity_count h, if sh_parity h then 1 else 0] @
     to_be 2 (sh_original_length h)"

lemma length_fec_header_bytes [simp]: "length (fec_header_bytes h) = 11"
  by (simp add: fec_header_bytes_def)

lemma and_255_ucast_u16: "(ucast (v AND 255) :: byte) = ucast v" for v :: u16
proof -
  have mask: "(255 :: u16) = mask 8" by (simp add: mask_eq_exp_minus_1)
  show ?thesis unfolding mask by (rule bit_word_eqI) (auto simp: bit_simps)
qed

lemma serialize_fec_header_bytes:
  assumes "11 \<le> length out"
  shows "serialize_fec_header h out = (11, fec_header_bytes h @ drop 11 out)"
proof -
  have "0 < length out" using assms by linarith
  then have "snd (serialize_fec_header h out) = copy_to out 0 (fec_header_bytes h)"
    using assms
    by (simp add: serialize_fec_header_def Let_def list_update_copy write_u32_be copy_to_append
          fec_header_bytes_def kFecHeaderSize_def to_be_def [where m = 2] upt_2 and_255_ucast_u16
          del: length_greater_0_conv)
  then show ?thesis
    using assms by (simp add: copy_to_0 serialize_fec_header_def Let_def kFecHeaderSize_def)
qed

lemma read_fec_header_bytes [wire_simps]:
  "(fec_header_bytes h @ p) ! 0 = kFecTag"
  "read_u32 (fec_header_bytes h @ p) (Suc 0) = sh_block_id h"
  "(fec_header_bytes h @ p) ! 5 = sh_index h"
  "(fec_header_bytes h @ p) ! 6 = sh_block_size h"
  "(fec_header_bytes h @ p) ! 7 = sh_parity_count h"
  "(fec_header_bytes h @ p) ! 8 = (if sh_parity h then 1 else 0)"
  "push_bit 8 (ucast ((fec_header_bytes h @ p) ! 9)) OR ucast ((fec_header_bytes h @ p) ! 10) = sh_original_length h"
  subgoal by (simp add: fec_header_bytes_def)
  subgoal by (simp add: read_u32_be) (simp add: fec_header_bytes_def)
  subgoal by (simp add: fec_header_bytes_def nth_append)
  subgoal by (simp add: fec_header_bytes_def nth_append)
  subgoal by (simp add: fec_header_bytes_def nth_append)
  subgoal by (simp add: fec_header_bytes_def nth_append)
  subgoal using read_u16_be [of 9 "fec_header_bytes h @ p"]
    by (simp add: read_u16_def) (simp add: fec_header_bytes_def)
  done

lemma parse_fec_header_bytes:
  "parse_fec_header (fec_header_bytes h @ rest) = (if header_ok h then Some h else None)"
  by (auto simp: parse_fec_header_def header_ok_def fec_consts wire_simps Let_def word_le_nat_alt
      unat_eq_0 split: if_splits)

text \<open>
  A symbol header written by \<^verbatim>\<open>serialize_fec_header\<close> into a buffer of at least eleven bytes leaves
  the bytes after it alone, and \<^verbatim>\<open>parse_fec_header\<close> reads the same header back exactly when its
  counts are within the limits and its index within the count it belongs to; any other header is
  refused.
\<close>
lemma fec_header_roundtrip:
  assumes "kFecHeaderSize \<le> length out"
  shows "drop kFecHeaderSize (snd (serialize_fec_header h out)) = drop kFecHeaderSize out \<and>
    parse_fec_header (snd (serialize_fec_header h out)) = (if header_ok h then Some h else None)"
  using assms by (simp add: kFecHeaderSize_def serialize_fec_header_bytes parse_fec_header_bytes)

subsection \<open>What the parity rows hold\<close>

definition symbol_byte :: "bytes \<Rightarrow> nat \<Rightarrow> gf" where
  "symbol_byte packet t =
     (if t < length (length_prefixed packet) then Gf (length_prefixed packet ! t) else 0)"

definition parity_byte :: "nat \<Rightarrow> bytes list \<Rightarrow> nat \<Rightarrow> gf" where
  "parity_byte r ps t = (\<Sum>j<length ps. Gf (cauchy r j) * symbol_byte (ps ! j) t)"

definition block_width :: "bytes list \<Rightarrow> nat" where
  "block_width ps = fold (\<lambda>p w. max w (kFecLengthPrefix + length p)) ps 0"

definition parity_row :: "nat \<Rightarrow> bytes list \<Rightarrow> bytes" where
  "parity_row r ps = map (\<lambda>t. gf_byte (parity_byte r ps t)) [0..<block_width ps]"

definition lane_encodes :: "FecPlan \<Rightarrow> bytes list \<Rightarrow> Lane \<Rightarrow> bool" where
  "lane_encodes plan ps lane \<longleftrightarrow>
     ln_index lane = length ps \<and> ln_width lane = block_width ps \<and>
     ln_parity lane = map (\<lambda>r. parity_row r ps) [0..<fp_parity plan]"

lemma length_length_prefixed [simp]: "length (length_prefixed p) = 2 + length p"
  by (simp add: length_prefixed_def)

lemma block_width_Nil [simp]: "block_width [] = 0"
  by (simp add: block_width_def)

lemma block_width_snoc [simp]: "block_width (ps @ [p]) = max (block_width ps) (2 + length p)"
  by (simp add: block_width_def kFecLengthPrefix_def)

lemma block_width_ge: "p \<in> set ps \<Longrightarrow> 2 + length p \<le> block_width ps"
  by (induction ps rule: rev_induct) auto

lemma length_parity_row [simp]: "length (parity_row r ps) = block_width ps"
  by (simp add: parity_row_def)

lemma symbol_byte_beyond: "p \<in> set ps \<Longrightarrow> block_width ps \<le> t \<Longrightarrow> symbol_byte p t = 0"
  using block_width_ge [of p ps] by (simp add: symbol_byte_def)

lemma parity_byte_beyond: "block_width ps \<le> t \<Longrightarrow> parity_byte r ps t = 0"
  by (simp add: parity_byte_def symbol_byte_beyond [OF nth_mem])

lemma parity_byte_snoc:
  "parity_byte r (ps @ [p]) t = parity_byte r ps t + Gf (cauchy r (length ps)) * symbol_byte p t"
  by (simp add: parity_byte_def nth_append)

lemma resize_parity_row:
  assumes "block_width ps \<le> w"
  shows "resize w 0 (parity_row r ps) = map (\<lambda>t. gf_byte (parity_byte r ps t)) [0..<w]"
  using assms
  by (auto intro!: nth_equalityI simp: resize_def nth_append parity_row_def parity_byte_beyond)

lemma parity_row_snoc:
  fixes p ps
  defines "w \<equiv> max (block_width ps) (2 + length p)"
  shows "row_add (map (\<lambda>t. gf_byte (parity_byte r ps t)) [0..<w]) (length_prefixed p) (cauchy r (length ps)) =
    parity_row r (ps @ [p])"
  by (auto intro!: nth_equalityI simp: w_def row_add_def parity_row_def parity_byte_snoc symbol_byte_def)

lemma lane_encodes_Nil:
  "ln_index lane = 0 \<Longrightarrow> ln_width lane = 0 \<Longrightarrow> ln_parity lane = replicate (fp_parity plan) [] \<Longrightarrow>
    lane_encodes plan [] lane"
  by (simp add: lane_encodes_def parity_row_def map_replicate_const)

lemma add_to_lane_encodes:
  assumes "lane_encodes plan ps lane"
  shows "lane_encodes plan (ps @ [packet]) (add_to_lane simd plan lane packet)"
proof -
  let ?w = "max (block_width ps) (2 + length packet)"
  define lane' where "lane' = (if 2 + length packet > ln_width lane
      then lane\<lparr>ln_width := 2 + length packet, ln_parity := map (resize (2 + length packet) 0) (ln_parity lane)\<rparr>
      else lane)"
  have rows: "ln_parity lane' = map (\<lambda>r. map (\<lambda>t. gf_byte (parity_byte r ps t)) [0..<?w]) [0..<fp_parity plan]"
    using assms by (auto simp: lane'_def lane_encodes_def resize_parity_row max_def) (auto simp: parity_row_def)
  have "fold (\<lambda>row parity. parity[row := multiply_add simd (parity ! row) (length_prefixed packet)
          (cauchy row (length ps))]) [0..<fp_parity plan] (ln_parity lane') =
      map (\<lambda>r. parity_row r (ps @ [packet])) [0..<fp_parity plan]"
    unfolding rows
    by (subst fold_pointwise [where f = "\<lambda>row x. multiply_add simd x (length_prefixed packet) (cauchy row (length ps))"])
      (simp_all add: multiply_add_row_add parity_row_snoc del: upt_Suc add_2_eq_Suc add_2_eq_Suc')
  moreover have "ln_index lane' = length ps" "ln_width lane' = ?w"
    using assms by (auto simp: lane'_def lane_encodes_def)
  ultimately show ?thesis
    unfolding add_to_lane_def Let_def kFecLengthPrefix_def lane'_def [symmetric]
    by (simp add: lane_encodes_def)
qed

subsection \<open>The encoder as a set of open blocks\<close>

text \<open>
  The specification keeps, per lane, the block number and the packets of the block, and computes the
  parity symbols from the packets when the block is closed.
\<close>

record OpenBlock =
  ob_id :: u32
  ob_packets :: "bytes list"

record EncoderSpec =
  es_blocks :: "OpenBlock list"
  es_cursor :: nat
  es_next_block :: u32

definition parity_header :: "nat \<Rightarrow> OpenBlock \<Rightarrow> nat \<Rightarrow> FecSymbolHeader" where
  "parity_header parity b r =
     \<lparr>sh_block_id = ob_id b, sh_index = of_nat r, sh_block_size = of_nat (length (ob_packets b)),
      sh_parity_count = of_nat parity, sh_parity = True,
      sh_original_length = of_nat (block_width (ob_packets b))\<rparr>"

definition block_symbols :: "nat \<Rightarrow> OpenBlock \<Rightarrow> nat \<Rightarrow> bytes list" where
  "block_symbols parity b rows =
     map (\<lambda>r. fec_header_bytes (parity_header parity b r) @ parity_row r (ob_packets b)) [0..<rows]"

definition spec_close :: "nat \<Rightarrow> EncoderSpec \<Rightarrow> nat \<Rightarrow> nat \<Rightarrow> bytes list \<times> EncoderSpec" where
  "spec_close parity s i rows =
     (block_symbols parity (es_blocks s ! i) rows,
      s\<lparr>es_blocks := (es_blocks s)[i := \<lparr>ob_id = es_next_block s, ob_packets = []\<rparr>],
        es_next_block := es_next_block s + 1\<rparr>)"

definition spec_add :: "FecPlan \<Rightarrow> EncoderSpec \<Rightarrow> bytes \<Rightarrow> bytes list \<times> EncoderSpec" where
  "spec_add plan s packet =
     (if \<not> plan_active plan \<or> length packet > 0xFFFF then ([], s)
      else let i = es_cursor s; b = es_blocks s ! i; b = b\<lparr>ob_packets := ob_packets b @ [packet]\<rparr>;
               s = s\<lparr>es_cursor := (i + 1) mod fp_lanes plan, es_blocks := (es_blocks s)[i := b]\<rparr>
      in if length (ob_packets b) \<ge> fp_data plan then spec_close (fp_parity plan) s i (fp_parity plan)
         else ([], s))"

definition spec_rows :: "FecPlan \<Rightarrow> nat \<Rightarrow> nat" where
  "spec_rows plan n =
     (if fp_loss plan > 0 then parity_needed n (fp_loss plan) (fp_parity plan) else fp_parity plan)"

definition spec_flush :: "FecPlan \<Rightarrow> EncoderSpec \<Rightarrow> bytes list \<times> EncoderSpec" where
  "spec_flush plan s =
     (if \<not> plan_active plan then ([], s)
      else let (out, s) = fold (\<lambda>i (out, s).
               let ps = ob_packets (es_blocks s ! i)
               in if ps = [] then (out, s)
               else let (symbols, s) = spec_close (fp_parity plan) s i (spec_rows plan (length ps))
               in (out @ symbols, s)) [0..<fp_lanes plan] ([], s)
      in (out, s\<lparr>es_cursor := 0\<rparr>))"

datatype fec_op = FecAdd bytes | FecFlush

primrec encoder_step :: "nat \<Rightarrow> FecEncoder \<Rightarrow> fec_op \<Rightarrow> bytes list \<times> FecEncoder" where
  "encoder_step simd e (FecAdd packet) = add simd e packet"
| "encoder_step simd e FecFlush = flush e"

primrec spec_step :: "FecPlan \<Rightarrow> EncoderSpec \<Rightarrow> fec_op \<Rightarrow> bytes list \<times> EncoderSpec" where
  "spec_step plan s (FecAdd packet) = spec_add plan s packet"
| "spec_step plan s FecFlush = spec_flush plan s"

definition plan_ok :: "FecPlan \<Rightarrow> bool" where
  "plan_ok plan \<longleftrightarrow> fp_data plan \<le> kMaximumFecData \<and> fp_parity plan \<le> kMaximumFecParity \<and>
     1 \<le> fp_lanes plan \<and> fp_lanes plan \<le> kMaximumFecLanes"

definition encodes :: "FecPlan \<Rightarrow> FecEncoder \<Rightarrow> EncoderSpec \<Rightarrow> bool" where
  "encodes plan e s \<longleftrightarrow>
     en_plan e = plan \<and> plan_ok plan \<and> en_cursor e = es_cursor s \<and> es_cursor s < fp_lanes plan \<and>
     en_next_block e = es_next_block s \<and>
     list_all2 (\<lambda>lane b. ln_block_id lane = ob_id b \<and> lane_encodes plan (ob_packets b) lane)
       (en_lanes e) (es_blocks s) \<and>
     length (es_blocks s) = kMaximumFecLanes"

lemma parity_symbol_eq:
  assumes "lane_encodes plan (ob_packets b) lane" "ln_block_id lane = ob_id b" "r < fp_parity plan"
  shows "parity_symbol plan lane r =
    fec_header_bytes (parity_header (fp_parity plan) b r) @ parity_row r (ob_packets b)"
  using assms
  by (simp add: parity_symbol_def lane_encodes_def kFecHeaderSize_def serialize_fec_header_bytes
      parity_header_def copy_to_def)

lemma emit_encodes:
  assumes "encodes plan e s" "i < kMaximumFecLanes" "rows \<le> fp_parity plan"
  shows "fst (emit e i rows) = fst (spec_close (fp_parity plan) s i rows)"
    "encodes plan (snd (emit e i rows)) (snd (spec_close (fp_parity plan) s i rows))"
proof -
  have lane: "ln_block_id (en_lanes e ! i) = ob_id (es_blocks s ! i)"
    "lane_encodes plan (ob_packets (es_blocks s ! i)) (en_lanes e ! i)"
    using assms by (auto simp: encodes_def list_all2_conv_all_nth)
  then show "fst (emit e i rows) = fst (spec_close (fp_parity plan) s i rows)"
    using assms(1,3) by (simp add: emit_def spec_close_def block_symbols_def parity_symbol_eq encodes_def Let_def)
  have "length (ln_parity (en_lanes e ! i)) = fp_parity plan"
    using lane(2) by (simp add: lane_encodes_def)
  then have "lane_encodes plan [] ((en_lanes e ! i)\<lparr>ln_parity := map (\<lambda>row. []) (ln_parity (en_lanes e ! i)),
      ln_block_id := en_next_block e, ln_index := 0, ln_width := 0\<rparr>)"
    by (intro lane_encodes_Nil) (simp_all add: map_replicate_const)
  then show "encodes plan (snd (emit e i rows)) (snd (spec_close (fp_parity plan) s i rows))"
    using assms(1) by (simp add: emit_def spec_close_def encodes_def Let_def list_all2_update_cong)
qed

lemma add_encodes:
  assumes "encodes plan e s"
  shows "fst (add simd e packet) = fst (spec_add plan s packet) \<and>
    encodes plan (snd (add simd e packet)) (snd (spec_add plan s packet))"
proof (cases "plan_active plan \<and> length packet \<le> 0xFFFF")
  case True
  let ?i = "es_cursor s"
  let ?b = "es_blocks s ! ?i"
  let ?e = "e\<lparr>en_cursor := (en_cursor e + 1) mod fp_lanes plan,
    en_lanes := (en_lanes e)[?i := add_to_lane simd plan (en_lanes e ! ?i) packet]\<rparr>"
  let ?s = "s\<lparr>es_cursor := (?i + 1) mod fp_lanes plan,
    es_blocks := (es_blocks s)[?i := ?b\<lparr>ob_packets := ob_packets ?b @ [packet]\<rparr>]\<rparr>"
  have i: "?i < kMaximumFecLanes" and lanes: "fp_lanes plan > 0"
    using assms by (auto simp: encodes_def plan_ok_def)
  then have lane: "ln_block_id (en_lanes e ! ?i) = ob_id ?b" "lane_encodes plan (ob_packets ?b) (en_lanes e ! ?i)"
    using assms by (auto simp: encodes_def list_all2_conv_all_nth)
  note new = add_to_lane_encodes [OF lane(2), of packet simd]
  have id: "ln_block_id (add_to_lane simd plan (en_lanes e ! ?i) packet) = ob_id ?b"
    using lane(1) by (simp add: add_to_lane_def Let_def)
  have step: "encodes plan ?e ?s"
    using assms new id lanes by (simp add: encodes_def list_all2_update_cong)
  have full: "ln_index (add_to_lane simd plan (en_lanes e ! ?i) packet) = length (ob_packets ?b) + 1"
    using new by (simp add: lane_encodes_def)
  show ?thesis
    using emit_encodes [OF step i, of "fp_parity plan"] step True full assms i
    by (simp add: add_def spec_add_def Let_def encodes_def)
qed (use assms in \<open>auto simp: add_def spec_add_def encodes_def\<close>)

lemma parity_rows_loop_le: "rows \<le> limit \<Longrightarrow> parity_rows_loop data p limit rows \<le> limit"
  by (induction data p limit rows rule: parity_rows_loop.induct) (subst parity_rows_loop.simps, auto)

lemma parity_needed_le: "parity_needed data loss limit \<le> limit"
  using parity_rows_loop_le [of 1 limit] by (auto simp: parity_needed_def Let_def)

lemma flush_encodes:
  assumes "encodes plan e s"
  shows "fst (flush e) = fst (spec_flush plan s) \<and> encodes plan (snd (flush e)) (snd (spec_flush plan s))"
proof (cases "plan_active plan")
  case True
  define R where "R = (\<lambda>(out, e) (out', s). out = (out' :: bytes list) \<and> encodes plan e s)"
  define f where "f = (\<lambda>index (output, e). let lane = en_lanes e ! index
      in if ln_index lane = 0 then (output, e)
      else let rows = (if fp_loss (en_plan e) > 0
                       then parity_needed (ln_index lane) (fp_loss (en_plan e)) (fp_parity (en_plan e))
                       else fp_parity (en_plan e));
               (symbols, e) = emit e index rows
           in (output @ symbols, e))"
  define g where "g = (\<lambda>i (out, s). let ps = ob_packets (es_blocks s ! i)
      in if ps = [] then (out, s)
      else let (symbols, s) = spec_close (fp_parity plan) s i (spec_rows plan (length ps))
           in (out @ symbols, s))"
  have step: "R (f i x) (g i y)" if "i < kMaximumFecLanes" "R x y" for i x y
  proof -
    obtain out e s where xy: "x = (out, e)" "y = (out, s)" "encodes plan e s"
      using \<open>R x y\<close> by (cases x; cases y) (auto simp: R_def)
    then have "ln_index (en_lanes e ! i) = length (ob_packets (es_blocks s ! i))"
      using that(1) by (auto simp: encodes_def list_all2_conv_all_nth lane_encodes_def)
    moreover have "en_plan e = plan" using xy(3) by (simp add: encodes_def)
    moreover have "spec_rows plan n \<le> fp_parity plan" for n by (simp add: spec_rows_def parity_needed_le)
    ultimately show ?thesis
      using emit_encodes [OF xy(3) that(1), of "spec_rows plan (length (ob_packets (es_blocks s ! i)))"] xy
      by (cases "fp_loss plan > 0") (simp_all add: f_def g_def R_def Let_def split_beta spec_rows_def)
  qed
  have "fp_lanes plan \<le> kMaximumFecLanes" using assms by (simp add: encodes_def plan_ok_def)
  then have "R (f i x) (g i y)" if "i \<in> set [0..<fp_lanes plan]" "R x y" for i x y
    using step [OF _ that(2)] that(1) by simp
  moreover have "R ([], e) ([], s)" using assms by (simp add: R_def)
  ultimately have "R (fold f [0..<fp_lanes plan] ([], e)) (fold g [0..<fp_lanes plan] ([], s))"
    by (rule fold_refine [rotated])
  moreover have "flush e = (case fold f [0..<fp_lanes plan] ([], e) of (out, e) \<Rightarrow> (out, e\<lparr>en_cursor := 0\<rparr>))"
    using True assms by (simp add: flush_def f_def encodes_def Let_def)
  moreover have "spec_flush plan s = (case fold g [0..<fp_lanes plan] ([], s) of (out, s) \<Rightarrow> (out, s\<lparr>es_cursor := 0\<rparr>))"
    using True by (simp add: spec_flush_def g_def Let_def)
  ultimately show ?thesis by (auto simp: R_def encodes_def split: prod.splits)
qed (use assms in \<open>simp add: flush_def spec_flush_def encodes_def\<close>)

definition spec_init :: EncoderSpec where
  "spec_init = \<lparr>es_blocks = map (\<lambda>i. \<lparr>ob_id = of_nat i, ob_packets = []\<rparr>) [0..<kMaximumFecLanes],
     es_cursor = 0, es_next_block = 4\<rparr>"

lemma new_encoder_encodes: "encodes (en_plan (new_encoder plan)) (new_encoder plan) spec_init"
  by (auto simp: new_encoder_def configure_def blank_encoder_def encodes_def spec_init_def fec_consts
      plan_ok_def no_plan_def Let_def replicate_numeral upt_4 lane_encodes_Nil)

lemmas encoder_step_encodes = add_encodes flush_encodes

text \<open>
  C6: Along every sequence of packets and flushes, with any number of lanes and on every vector path,
  the encoder emits exactly the symbols of the specification: when a block is full or flushed, its
  rows are the linear combinations of its length-prefixed packets with the coefficients of
  \<^verbatim>\<open>gf256::cauchy\<close>, under the headers that name the block, its true size and the row.
\<close>
theorem encoder_refines_blocks:
  "outs (encoder_step simd) (new_encoder plan) ops =
     outs (spec_step (en_plan (new_encoder plan))) spec_init ops"
proof (rule outs_refine [where R = "encodes (en_plan (new_encoder plan))"])
  fix e s op
  assume "encodes (en_plan (new_encoder plan)) e s"
  then show "fst (encoder_step simd e op) = fst (spec_step (en_plan (new_encoder plan)) s op)"
    "encodes (en_plan (new_encoder plan)) (snd (encoder_step simd e op))
      (snd (spec_step (en_plan (new_encoder plan)) s op))"
    by (cases op; simp add: encoder_step_encodes)+
qed (rule new_encoder_encodes)

subsection \<open>How much parity a loss rate needs\<close>

text \<open>The chance that at most \<open>rows\<close> of \<open>n\<close> symbols are lost when each is lost with probability \<open>p\<close>.\<close>

definition at_most_lost :: "nat \<Rightarrow> real \<Rightarrow> nat \<Rightarrow> real" where
  "at_most_lost n p rows = (\<Sum>l\<le>rows. real (n choose l) * p ^ l * (1 - p) ^ (n - l))"

lemma covered_loop_binomial:
  assumes "p < 1" "rows \<le> n"
  shows "covered_loop n p rows =
    (real (n choose rows) * p ^ rows * (1 - p) ^ (n - rows), at_most_lost n p rows)"
  using assms(2)
proof (induction rows)
  case 0
  then show ?case by (simp add: covered_loop_def at_most_lost_def Let_def)
next
  case (Suc rows)
  have odds: "(1 - p) ^ (n - rows) * (p / (1 - p)) = p * (1 - p) ^ (n - Suc rows)"
    using assms(1) Suc.prems by (simp add: Suc_diff_Suc [symmetric] del: Suc_diff_Suc)
  have "real (Suc rows) * real (n choose Suc rows) = real (n - rows) * real (n choose rows)"
    using binomial_absorb_comp [of n rows] Suc.prems
    by (metis (no_types, lifting) binomial_absorption mult.commute of_nat_mult)
  then have choose: "real (n choose rows) * (real (n - rows) / real (rows + 1)) = real (n choose Suc rows)"
    by (simp add: field_simps)
  have "covered_loop n p (Suc rows) =
      (let (term, covered) = covered_loop n p rows;
           term = term * (real (n - rows) / real (rows + 1) * (p / (1 - p)))
       in (term, covered + term))"
    by (simp add: covered_loop_def Let_def split_beta)
  moreover have "real (n choose rows) * p ^ rows * (1 - p) ^ (n - rows) * (real (n - rows) / real (rows + 1) * (p / (1 - p))) =
      real (n choose Suc rows) * p ^ Suc rows * (1 - p) ^ (n - Suc rows)"
    (is "?lhs = ?rhs")
  proof -
    have "?lhs = (real (n choose rows) * (real (n - rows) / real (rows + 1))) * p ^ rows *
        ((1 - p) ^ (n - rows) * (p / (1 - p)))" by (simp only: mult_ac)
    also have "\<dots> = real (n choose Suc rows) * p ^ rows * (p * (1 - p) ^ (n - Suc rows))"
      by (simp only: odds choose)
    finally show ?thesis by (simp only: mult_ac power_Suc)
  qed
  ultimately show ?case using Suc by (simp only: Let_def prod.case at_most_lost_def) simp
qed

lemma parity_rows_loop_minimal:
  fixes data rows limit :: nat
  assumes "p < 1" "rows \<le> limit"
  defines "r \<equiv> parity_rows_loop data p limit rows"
  shows "rows \<le> r \<and> r \<le> limit \<and>
    (r < limit \<longrightarrow> 1 - at_most_lost (data + r) p r \<le> kFecTargetBlockFailure) \<and>
    (\<forall>k. rows \<le> k \<and> k < r \<longrightarrow> 1 - at_most_lost (data + k) p k > kFecTargetBlockFailure)"
  using assms(1,2) unfolding r_def
proof (induction data p limit rows rule: parity_rows_loop.induct)
  case (1 data p limit rows)
  let ?done = "1 - at_most_lost (data + rows) p rows \<le> kFecTargetBlockFailure"
  have step: "parity_rows_loop data p limit rows =
      (if rows < limit then if ?done then rows else parity_rows_loop data p limit (rows + 1) else limit)"
    using 1(2) by (subst parity_rows_loop.simps) (simp add: covered_loop_binomial)
  show ?case
  proof (cases "rows < limit \<and> \<not> ?done")
    case True
    then have "\<not> 1 - snd (covered_loop (data + rows) p rows) \<le> kFecTargetBlockFailure"
      using 1(2) by (simp add: covered_loop_binomial)
    note IH = 1(1) [OF _ this 1(2)]
    have "rows \<le> k \<longleftrightarrow> k = rows \<or> rows + 1 \<le> k" for k by auto
    then show ?thesis using IH True step by auto
  next
    case False
    then show ?thesis using step 1(3) by auto
  qed
qed

text \<open>
  For a loss rate up to one half, \<^verbatim>\<open>parity_needed\<close> returns the least number of parity rows, from 1
  to the limit, with which a block of that many data packets loses no more symbols than it has rows
  except with probability at most 1/1000 under independent losses, and the limit where no smaller
  number is enough. The running term of its loop is the binomial probability.
\<close>
lemma parity_needed_minimal:
  assumes "0 < data" "0 < limit" "0 < loss" "loss \<le> 1 / 2"
  shows "let r = parity_needed data loss limit in
    1 \<le> r \<and> r \<le> limit \<and>
    (r < limit \<longrightarrow> 1 - at_most_lost (data + r) loss r \<le> 1 / 1000) \<and>
    (\<forall>k. 1 \<le> k \<and> k < r \<longrightarrow> 1 - at_most_lost (data + k) loss k > 1 / 1000)"
proof -
  have "max 0 (min (1 / 2) loss) = loss" using assms by simp
  then have "parity_needed data loss limit = parity_rows_loop data loss limit 1"
    using assms by (simp add: parity_needed_def Let_def)
  then show ?thesis
    using parity_rows_loop_minimal [of loss 1 limit data] assms
    by (simp add: Let_def kFecTargetBlockFailure_def)
qed

subsection \<open>The adaptive controller stays within its bounds\<close>

definition adaptive_ok :: "AdaptiveFec \<Rightarrow> bool" where
  "adaptive_ok a \<longleftrightarrow>
     0 \<le> af_smoothed a \<and> af_smoothed a \<le> 1 \<and>
     af_lossy_reports a < kReportsBeforeEnable \<and> af_calm_reports a < kCalmBeforeDisable \<and>
     af_ineffective_reports a < kIneffectiveBeforeSuppress \<and>
     kSuppression \<le> af_suppression a \<and> af_suppression a \<le> kMaximumSuppression"

lemmas adaptive_consts = kReportsBeforeEnable_def kCalmBeforeDisable_def kIneffectiveBeforeSuppress_def
  kSuppression_def kMaximumSuppression_def

definition sane_plan :: "FecPlan \<Rightarrow> bool" where
  "sane_plan plan \<longleftrightarrow> plan_ok plan \<and> 4 \<le> fp_data plan \<and> fp_data plan \<le> 32 \<and> 1 \<le> fp_parity plan"

lemma parity_needed_pos: "0 < data \<Longrightarrow> 0 < limit \<Longrightarrow> 1 \<le> parity_needed data loss limit"
  using parity_rows_loop_minimal [of "max 0 (min (1 / 2) loss)" 1 limit data]
  by (auto simp: parity_needed_def Let_def)

lemma plan_for_loss_sane: "sane_plan (plan_for_loss loss pps)"
proof -
  have sane: "sane_plan \<lparr>fp_data = d, fp_parity = parity_needed d l kMaximumFecParity, fp_lanes = n, fp_loss = l\<rparr>"
    if "4 \<le> d" "d \<le> 32" "1 \<le> n" "n \<le> kMaximumFecLanes" for d n l
    using that parity_needed_le [of d l kMaximumFecParity] parity_needed_pos [of d kMaximumFecParity l]
    by (simp add: sane_plan_def plan_ok_def fec_consts)
  show ?thesis
    unfolding plan_for_loss_def Let_def split_beta
    by (rule sane) (simp_all only: fst_conv snd_conv kMaximumFecLanes_def max_def min_def split: if_split, auto)
qed

definition decision_ok :: "FecPlan option \<times> AdaptiveFec \<Rightarrow> bool" where
  "decision_ok = (\<lambda>(choice, a). adaptive_ok a \<and> pred_option (\<lambda>plan. plan = no_plan \<or> sane_plan plan) choice)"

lemma decision_ok_simps [simp]:
  "decision_ok (None, a) = adaptive_ok a"
  "decision_ok (Some no_plan, a) = adaptive_ok a"
  "decision_ok (Some (plan_for_loss loss pps), a) = adaptive_ok a"
  by (simp_all add: decision_ok_def plan_for_loss_sane)

lemma replan_ok:
  assumes "adaptive_ok a"
  shows "decision_ok (replan a current report)"
  using assms unfolding replan_def Let_def
  by (auto simp: adaptive_ok_def adaptive_consts)

lemma smoothed_bounds:
  assumes "0 \<le> raw" "raw \<le> 1" "0 \<le> s" "s \<le> 1"
  shows "0 \<le> (if raw \<ge> s then raw else 6 / 10 * s + 4 / 10 * raw) \<and>
    (if raw \<ge> s then raw else 6 / 10 * s + 4 / 10 * raw) \<le> (1 :: real)"
  using assms by (auto simp: field_simps)

lemma decide_ok:
  assumes "adaptive_ok a"
  shows "decision_ok (decide a current report now)"
proof (cases "lr_congested report")
  case True
  then show ?thesis using assms by (simp add: decide_def adaptive_ok_def adaptive_consts)
next
  case False
  define raw where "raw = max 0 (min 1 (lr_raw report))"
  define a' where "a' = a\<lparr>af_smoothed := (if raw \<ge> af_smoothed a then raw
      else 6 / 10 * af_smoothed a + 4 / 10 * raw)\<rparr>"
  have ok: "adaptive_ok a'"
    using assms smoothed_bounds [of raw "af_smoothed a"] by (simp add: a'_def adaptive_ok_def raw_def)
  then have more: "decision_ok (replan (a'\<lparr>af_ineffective_reports := n\<rparr>) current report)" if "n < 3" for n
    using that by (intro replan_ok) (simp add: adaptive_ok_def adaptive_consts)
  from ok have reset: "decision_ok (replan (a'\<lparr>af_ineffective_reports := 0, af_suppression := kSuppression\<rparr>) current report)"
    by (intro replan_ok) (simp add: adaptive_ok_def adaptive_consts)
  show ?thesis
    using False ok more reset replan_ok [OF ok]
    unfolding decide_def Let_def raw_def [symmetric] a'_def [symmetric]
    by (auto simp: adaptive_ok_def adaptive_consts)
qed

definition decide_step :: "AdaptiveFec \<Rightarrow> FecPlan \<times> FecLossReport \<times> instant \<Rightarrow> FecPlan option \<times> AdaptiveFec" where
  "decide_step a = (\<lambda>(current, report, now). decide a current report now)"

text \<open>
  Whatever loss reports, plans in force and times it is given, the adaptive controller's smoothed
  loss stays in [0, 1], its three counters stay below the thresholds that reset them, its suppression
  time stays between 30 and 300 seconds, and every plan it returns either switches correction off or
  has 4 to 32 data packets, 1 to 16 parity rows and 1 to 4 lanes.
\<close>
lemma adaptive_controller_bounds:
  "adaptive_ok (final decide_step new_adaptive reports) \<and>
   list_all (pred_option (\<lambda>plan. plan = no_plan \<or> sane_plan plan)) (outs decide_step new_adaptive reports)"
proof -
  have step: "decision_ok (decide_step a i)" if "adaptive_ok a" for a i
    using that by (simp add: decide_step_def decide_ok split: prod.split)
  have "adaptive_ok (final decide_step a reports) \<and>
      list_all (pred_option (\<lambda>plan. plan = no_plan \<or> sane_plan plan)) (outs decide_step a reports)"
    if "adaptive_ok a" for a
    using that
  proof (induction reports arbitrary: a)
    case (Cons i reports)
    with step [OF Cons.prems, of i] show ?case by (auto simp: decision_ok_def split_beta)
  qed simp
  moreover have "adaptive_ok new_adaptive" by (simp add: adaptive_ok_def new_adaptive_def adaptive_consts)
  ultimately show ?thesis by blast
qed

end
