(* ===== verification/Linear_Code.thy ===== *)
theory Linear_Code
  imports Norr_Prelude
begin

text \<open>
  Linear algebra behind the erasure code: square systems with only the trivial kernel, the row
  operations of Gaussian elimination on them, the pivot such a system always has, and that the
  matrices of Cauchy's form have a trivial kernel. Matrices are functions of the row and the column
  over any field.
\<close>

type_synonym 'f mat = "nat \<Rightarrow> nat \<Rightarrow> 'f"

definition trivial_kernel :: "nat \<Rightarrow> 'f::field mat \<Rightarrow> bool" where
  "trivial_kernel n M \<longleftrightarrow> (\<forall>v. (\<forall>r<n. (\<Sum>c<n. M r c * v c) = 0) \<longrightarrow> (\<forall>c<n. v c = 0))"

text \<open>The right-hand sides \<open>S\<close> (one column per byte position) are the matrix times the unknowns \<open>X\<close>.\<close>

definition solves :: "nat \<Rightarrow> nat \<Rightarrow> 'f::field mat \<Rightarrow> 'f mat \<Rightarrow> 'f mat \<Rightarrow> bool" where
  "solves n w M S X \<longleftrightarrow> (\<forall>r<n. \<forall>t<w. S r t = (\<Sum>c<n. M r c * X c t))"

definition unit_columns :: "nat \<Rightarrow> nat \<Rightarrow> 'f::field mat \<Rightarrow> bool" where
  "unit_columns n k M \<longleftrightarrow> (\<forall>r<n. \<forall>c<k. M r c = (if r = c then 1 else 0))"

text \<open>Only the entries within the bounds matter.\<close>

lemma solves_cong:
  assumes "\<And>r c. r < n \<Longrightarrow> c < n \<Longrightarrow> M r c = M' r c" "\<And>r t. r < n \<Longrightarrow> t < w \<Longrightarrow> S r t = S' r t"
  shows "solves n w M S X = solves n w M' S' X"
  using assms by (simp add: solves_def)

lemma trivial_kernel_cong:
  assumes "\<And>r c. r < n \<Longrightarrow> c < n \<Longrightarrow> M r c = M' r c"
  shows "trivial_kernel n M = trivial_kernel n M'"
  using assms by (simp add: trivial_kernel_def)

lemma unit_columns_cong:
  assumes "\<And>r c. r < n \<Longrightarrow> c < n \<Longrightarrow> M r c = M' r c" "k \<le> n"
  shows "unit_columns n k M = unit_columns n k M'"
  using assms by (simp add: unit_columns_def)

subsection \<open>Row operations\<close>

text \<open>A new system whose rows are combinations of the old ones, and conversely.\<close>

definition swap_rows :: "nat \<Rightarrow> nat \<Rightarrow> 'f mat \<Rightarrow> 'f mat" where
  "swap_rows i j M = (\<lambda>r. if r = i then M j else if r = j then M i else M r)"

definition scale_row :: "nat \<Rightarrow> 'f::field \<Rightarrow> 'f mat \<Rightarrow> 'f mat" where
  "scale_row k f M = (\<lambda>r c. if r = k then f * M k c else M r c)"

definition clear_rows :: "nat \<Rightarrow> (nat \<Rightarrow> 'f::field) \<Rightarrow> 'f mat \<Rightarrow> 'f mat" where
  "clear_rows k m M = (\<lambda>r c. if r = k then M k c else M r c - m r * M k c)"

lemmas row_op_defs = swap_rows_def scale_row_def clear_rows_def

lemma solves_swap: "solves n w M S X \<Longrightarrow> i < n \<Longrightarrow> j < n \<Longrightarrow> solves n w (swap_rows i j M) (swap_rows i j S) X"
  by (simp add: solves_def swap_rows_def)

lemma solves_scale: "solves n w M S X \<Longrightarrow> k < n \<Longrightarrow> solves n w (scale_row k f M) (scale_row k f S) X"
  by (simp add: solves_def scale_row_def sum_distrib_left mult.assoc)

lemma solves_clear: "solves n w M S X \<Longrightarrow> k < n \<Longrightarrow> solves n w (clear_rows k m M) (clear_rows k m S) X"
  by (simp add: solves_def clear_rows_def sum_distrib_left mult.assoc left_diff_distrib sum_subtractf)

lemma trivial_kernel_mono:
  assumes "trivial_kernel n M"
    and "\<And>v. \<forall>r<n. (\<Sum>c<n. N r c * v c) = 0 \<Longrightarrow> \<forall>r<n. (\<Sum>c<n. M r c * v c) = 0"
  shows "trivial_kernel n N"
  using assms by (simp add: trivial_kernel_def)

lemma trivial_kernel_swap:
  assumes "trivial_kernel n M" "i < n" "j < n"
  shows "trivial_kernel n (swap_rows i j M)"
proof (rule trivial_kernel_mono [OF assms(1)], intro allI impI)
  fix v r
  assume *: "\<forall>r<n. (\<Sum>c<n. swap_rows i j M r c * v c) = 0" and "r < n"
  have "M r = swap_rows i j M (if r = i then j else if r = j then i else r)"
    by (simp add: swap_rows_def)
  with * \<open>r < n\<close> assms(2,3) show "(\<Sum>c<n. M r c * v c) = 0" by simp
qed

lemma trivial_kernel_scale:
  assumes "trivial_kernel n M" "f \<noteq> 0"
  shows "trivial_kernel n (scale_row k f M)"
proof (rule trivial_kernel_mono [OF assms(1)], intro allI impI)
  fix v r
  assume *: "\<forall>r<n. (\<Sum>c<n. scale_row k f M r c * v c) = 0" and "r < n"
  show "(\<Sum>c<n. M r c * v c) = 0"
  proof (cases "r = k")
    case True
    have "f * (\<Sum>c<n. M r c * v c) = (\<Sum>c<n. scale_row k f M r c * v c)"
      by (simp add: scale_row_def True sum_distrib_left mult.assoc)
    with * \<open>r < n\<close> assms(2) show ?thesis by simp
  next
    case False
    with * [rule_format, OF \<open>r < n\<close>] show ?thesis by (simp add: scale_row_def)
  qed
qed

lemma trivial_kernel_clear:
  assumes "trivial_kernel n M" "k < n"
  shows "trivial_kernel n (clear_rows k m M)"
proof (rule trivial_kernel_mono [OF assms(1)], intro allI impI)
  fix v r
  assume *: "\<forall>r<n. (\<Sum>c<n. clear_rows k m M r c * v c) = 0" and "r < n"
  have k: "(\<Sum>c<n. M k c * v c) = 0" using * [rule_format, OF assms(2)] by (simp add: clear_rows_def)
  have "(\<Sum>c<n. (M r c - m r * M k c) * v c) = 0" if "r \<noteq> k"
    using * [rule_format, OF \<open>r < n\<close>] that by (simp add: clear_rows_def)
  then show "(\<Sum>c<n. M r c * v c) = 0"
    using k by (cases "r = k") (simp_all add: left_diff_distrib sum_subtractf mult.assoc flip: sum_distrib_left)
qed

text \<open>One column of the elimination: the pivot row scaled to 1, the others cleared.\<close>

lemma unit_columns_step:
  assumes "unit_columns n k M" "k < n" "M k k \<noteq> 0"
  defines "N \<equiv> scale_row k (inverse (M k k)) M"
  shows "unit_columns n (Suc k) (clear_rows k (\<lambda>r. N r k) N)"
  using assms by (auto simp: unit_columns_def row_op_defs less_Suc_eq)

lemma unit_columns_swap:
  assumes "unit_columns n k M" "k \<le> i" "k \<le> j" "i < n" "j < n"
  shows "unit_columns n k (swap_rows i j M)"
  using assms by (auto simp: unit_columns_def swap_rows_def)

lemma sum_unit: "(\<Sum>c<n. (if r = c then 1 else 0) * f c) = (if r < n then f r else 0)"
  for f :: "nat \<Rightarrow> 'f::field" and n :: nat
proof -
  have "(if r = c then 1 else 0) * f c = (if r = c then f c else 0)" for c by simp
  then show ?thesis by (simp only: sum.delta' finite_lessThan lessThan_iff)
qed

lemma pivot_exists:
  assumes "trivial_kernel n M" "unit_columns n k M" "k < n"
  shows "\<exists>r. k \<le> r \<and> r < n \<and> M r k \<noteq> 0"
proof (rule ccontr)
  assume "\<not> ?thesis"
  then have none: "M r k = 0" if "k \<le> r" "r < n" for r using that by auto
  define v where "v c = (if c < k then - M c k else if c = k then 1 else 0)" for c
  have "(\<Sum>c<n. M r c * v c) = 0" if "r < n" for r
  proof -
    have "(\<Sum>c<n. M r c * v c) = (\<Sum>c<Suc k. M r c * v c)"
      using \<open>k < n\<close> by (intro sum.mono_neutral_right) (auto simp: v_def)
    also have "\<dots> = (\<Sum>c<k. (if r = c then - M c k else 0)) + M r k"
      using assms(2) that by (simp add: v_def unit_columns_def sum_negf sum_unit)
    also have "\<dots> = 0" using none [of r] that by simp
    finally show ?thesis .
  qed
  with assms(1,3) have "v k = 0" by (simp add: trivial_kernel_def)
  then show False by (simp add: v_def)
qed

lemma solves_unit:
  assumes "solves n w M S X" "unit_columns n n M" "r < n" "t < w"
  shows "S r t = X r t"
proof -
  have "S r t = (\<Sum>c<n. (if r = c then 1 else 0) * X c t)"
    using assms by (simp add: solves_def unit_columns_def)
  then show ?thesis using assms(3) by (simp add: sum_unit)
qed

subsection \<open>Cauchy matrices\<close>

lemma cauchy_difference:
  fixes x y x' y' :: "'f::field"
  assumes "x \<noteq> y" "x' \<noteq> y"
  shows "(x - y') * inverse (x - y) - (x' - y') * inverse (x' - y) =
    (x - x') * (y' - y) * inverse (x' - y) * inverse (x - y)"
proof -
  have "x - y \<noteq> 0" "x' - y \<noteq> 0" using assms by simp_all
  then show ?thesis by (simp add: field_simps)
qed

lemma trivial_kernel_cauchy:
  fixes x y :: "nat \<Rightarrow> 'f::field"
  assumes "inj_on x {..<n}" "inj_on y {..<n}" "\<forall>r<n. \<forall>c<n. x r \<noteq> y c"
  shows "trivial_kernel n (\<lambda>r c. inverse (x r - y c))"
  using assms
proof (induction n)
  case 0
  then show ?case by (simp add: trivial_kernel_def)
next
  case (Suc n)
  show ?case unfolding trivial_kernel_def
  proof (intro allI impI)
    fix v c
    assume zero: "\<forall>r<Suc n. (\<Sum>c<Suc n. inverse (x r - y c) * v c) = 0" and "c < Suc n"
    define w where "w c = (y n - y c) * inverse (x n - y c) * v c" for c
    have ne: "x r \<noteq> y c" if "r \<le> n" "c \<le> n" for r c using Suc.prems(3) that by simp
    have "(\<Sum>c<n. inverse (x r - y c) * w c) = 0" if "r < n" for r
    proof -
      have "x r \<noteq> x n" using Suc.prems(1) that by (auto dest: inj_onD)
      have "(x r - x n) * (\<Sum>c<n. inverse (x r - y c) * w c) =
          (\<Sum>c<n. ((x r - y n) * inverse (x r - y c) - (x n - y n) * inverse (x n - y c)) * v c)"
        using that ne by (simp add: sum_distrib_left w_def cauchy_difference mult_ac)
      also have "\<dots> = (\<Sum>c<Suc n. ((x r - y n) * inverse (x r - y c) - (x n - y n) * inverse (x n - y c)) * v c)"
        using that ne [of r n] ne [of n n] by simp
      also have "\<dots> = (x r - y n) * (\<Sum>c<Suc n. inverse (x r - y c) * v c) -
          (x n - y n) * (\<Sum>c<Suc n. inverse (x n - y c) * v c)"
        by (simp only: sum_distrib_left left_diff_distrib sum_subtractf mult.assoc)
      also have "\<dots> = 0" using zero that by (simp del: sum.lessThan_Suc)
      finally show ?thesis using \<open>x r \<noteq> x n\<close> by simp
    qed
    moreover have "trivial_kernel n (\<lambda>r c. inverse (x r - y c))"
      using Suc.prems by (intro Suc.IH) (auto simp: inj_on_def)
    ultimately have "\<forall>c<n. w c = 0" by (simp add: trivial_kernel_def)
    moreover have "y n \<noteq> y c" if "c < n" for c using Suc.prems(2) that by (auto dest: inj_onD)
    ultimately have v0: "\<forall>c<n. v c = 0" using ne [of n] by (fastforce simp: w_def)
    then have "inverse (x n - y n) * v n = 0" using zero by (auto dest: spec [of _ n])
    then have "v n = 0" using ne [of n n] by simp
    with v0 show "v c = 0" using \<open>c < Suc n\<close> by (auto simp: less_Suc_eq)
  qed
qed

subsection \<open>Erasure codes\<close>

text \<open>The unknowns among \<open>k\<close> summands, listed by \<open>cs\<close>, are what is left when the others are taken away.\<close>

lemma sum_missing:
  fixes f :: "nat \<Rightarrow> 'f::field"
  assumes "distinct cs" "set cs \<subseteq> {..<k}"
  shows "(\<Sum>j<k. f j) - (\<Sum>j<k. if j \<in> set cs then 0 else f j) = (\<Sum>c<length cs. f (cs ! c))"
proof -
  have "(\<Sum>j<k. f j) - (\<Sum>j<k. if j \<in> set cs then 0 else f j) = (\<Sum>j<k. if j \<in> set cs then f j else 0)"
    by (simp flip: sum_subtractf) (intro sum.cong, simp_all)
  also have "\<dots> = (\<Sum>j\<in>set cs. f j)"
    using assms(2) by (simp add: sum.inter_restrict [symmetric] Int_absorb1)
  also have "\<dots> = (\<Sum>c<length cs. f (cs ! c))"
    using assms(1) by (simp add: sum.distinct_set_conv_list sum_list_sum_nth atLeast0LessThan)
  finally show ?thesis .
qed

text \<open>
  The contract of a systematic code: row \<open>r\<close> of the parity is the combination of the data with the
  coefficients \<open>coef r\<close>, and any choice of as many rows as columns is independent.
\<close>

locale erasure_code =
  fixes coef :: "nat \<Rightarrow> nat \<Rightarrow> 'f::field" and parity data :: nat
  assumes independent:
    "distinct rs \<Longrightarrow> distinct cs \<Longrightarrow> length rs = length cs \<Longrightarrow> set rs \<subseteq> {..<parity} \<Longrightarrow>
      set cs \<subseteq> {..<data} \<Longrightarrow> trivial_kernel (length cs) (\<lambda>r c. coef (rs ! r) (cs ! c))"
begin

lemma missing_system:
  assumes "distinct cs" "set cs \<subseteq> {..<k}"
    and "\<And>r t. r < length cs \<Longrightarrow> t < w \<Longrightarrow>
      S r t = (\<Sum>j<k. coef (rs ! r) j * x j t) - (\<Sum>j<k. if j \<in> set cs then 0 else coef (rs ! r) j * x j t)"
  shows "solves (length cs) w (\<lambda>r c. coef (rs ! r) (cs ! c)) S (\<lambda>c. x (cs ! c))"
  using assms by (simp add: solves_def sum_missing)

lemma missing_unique:
  assumes "distinct rs" "distinct cs" "length rs = length cs" "set rs \<subseteq> {..<parity}" "set cs \<subseteq> {..<data}" "k \<le> data"
    and "\<And>j. j < k \<Longrightarrow> j \<notin> set cs \<Longrightarrow> x j = y j" "set cs \<subseteq> {..<k}"
    and "\<And>r. r \<in> set rs \<Longrightarrow> (\<Sum>j<k. coef r j * x j) = (\<Sum>j<k. coef r j * y j)"
  shows "j < k \<Longrightarrow> x j = y j"
proof -
  assume "j < k"
  have "(\<Sum>c<length cs. coef (rs ! r) (cs ! c) * (x (cs ! c) - y (cs ! c))) = 0" if "r < length cs" for r
  proof -
    have "(\<Sum>j<k. if j \<in> set cs then 0 else coef (rs ! r) j * (x j - y j)) = 0"
      using assms(7) by (intro sum.neutral) simp
    moreover have "(\<Sum>j<k. coef (rs ! r) j * (x j - y j)) = 0"
      using assms(9) [of "rs ! r"] that assms(3) by (simp add: right_diff_distrib sum_subtractf)
    ultimately show ?thesis
      using sum_missing [OF assms(2,8), of "\<lambda>j. coef (rs ! r) j * (x j - y j)"] by simp
  qed
  then have "\<forall>c<length cs. x (cs ! c) - y (cs ! c) = 0"
    using independent [OF assms(1-5)]
    by (auto simp: trivial_kernel_def dest!: spec [of _ "\<lambda>c. x (cs ! c) - y (cs ! c)"])
  then have "x j = y j" if "j \<in> set cs" using that by (auto simp: in_set_conv_nth)
  then show ?thesis using assms(7) [OF \<open>j < k\<close>] by blast
qed

end

end
