(* ===== verification/Std_Heap.thy ===== *)
theory Std_Heap
  imports Norr_Prelude
begin

text \<open>
  \<^verbatim>\<open>std::push_heap\<close>, \<^verbatim>\<open>std::pop_heap\<close> and \<^verbatim>\<open>std::make_heap\<close> on a vector, as the usual binary heap
  (sift up, sift down), and the contract of the C++ standard that clients may rely on: the locale
  \<open>std_heap\<close>, with what follows from it for a loop that drains the heap. The comparison orders by
  a key, latest first, so the front of the heap has the smallest key.
\<close>

subsection \<open>The algorithms\<close>

definition swap_at :: "nat \<Rightarrow> nat \<Rightarrow> 'a list \<Rightarrow> 'a list" where
  "swap_at i j xs = xs[i := xs ! j, j := xs ! i]"

definition parent :: "nat \<Rightarrow> nat" where
  "parent i = (i - 1) div 2"

lemma parent_less: "0 < i \<Longrightarrow> parent i < i"
  by (simp add: parent_def)

lemma parent_iff: "0 < j \<Longrightarrow> parent j = i \<longleftrightarrow> j = 2 * i + 1 \<or> j = 2 * i + 2"
  by (auto simp: parent_def)

function sift_up :: "('a \<Rightarrow> 'a \<Rightarrow> bool) \<Rightarrow> nat \<Rightarrow> 'a list \<Rightarrow> 'a list" where
  "sift_up cmp i xs =
     (if 0 < i \<and> cmp (xs ! parent i) (xs ! i)
      then sift_up cmp (parent i) (swap_at i (parent i) xs)
      else xs)"
  by pat_completeness auto
termination by (relation "measure (\<lambda>(_, i, _). i)") (auto simp: parent_less)

definition top_child :: "('a \<Rightarrow> 'a \<Rightarrow> bool) \<Rightarrow> nat \<Rightarrow> nat \<Rightarrow> 'a list \<Rightarrow> nat" where
  "top_child cmp n i xs =
     (if 2 * i + 2 < n \<and> cmp (xs ! (2 * i + 1)) (xs ! (2 * i + 2)) then 2 * i + 2 else 2 * i + 1)"

function sift_down :: "('a \<Rightarrow> 'a \<Rightarrow> bool) \<Rightarrow> nat \<Rightarrow> nat \<Rightarrow> 'a list \<Rightarrow> 'a list" where
  "sift_down cmp n i xs =
     (let c = top_child cmp n i xs
      in if c < n \<and> cmp (xs ! i) (xs ! c)
         then sift_down cmp n c (swap_at i c xs)
         else xs)"
  by pat_completeness auto
termination
  by (relation "measure (\<lambda>(_, n, i, _). n - i)") (auto simp: top_child_def)

declare sift_up.simps [simp del] sift_down.simps [simp del]

definition push_heap :: "('a \<Rightarrow> 'a \<Rightarrow> bool) \<Rightarrow> 'a list \<Rightarrow> 'a list" where
  "push_heap cmp xs = sift_up cmp (length xs - 1) xs"

definition pop_heap :: "('a \<Rightarrow> 'a \<Rightarrow> bool) \<Rightarrow> 'a list \<Rightarrow> 'a list" where
  "pop_heap cmp xs =
     (if length xs < 2 then xs
      else sift_down cmp (length xs - 1) 0 (swap_at 0 (length xs - 1) xs))"

definition make_heap :: "('a \<Rightarrow> 'a \<Rightarrow> bool) \<Rightarrow> 'a list \<Rightarrow> 'a list" where
  "make_heap cmp xs = fold (sift_down cmp (length xs)) (rev [0..<length xs div 2]) xs"

subsection \<open>Sifting keeps the elements\<close>

lemma length_swap_at [simp]: "length (swap_at i j xs) = length xs"
  by (simp add: swap_at_def)

lemma mset_swap_at [simp]:
  "i < length xs \<Longrightarrow> j < length xs \<Longrightarrow> mset (swap_at i j xs) = mset xs"
  unfolding swap_at_def by (rule mset_swap)

lemma nth_swap_at:
  "i < length xs \<Longrightarrow> j < length xs \<Longrightarrow>
     swap_at i j xs ! k = (if k = i then xs ! j else if k = j then xs ! i else xs ! k)"
  by (auto simp: swap_at_def nth_list_update)

lemma sift_up_mset: "i < length xs \<Longrightarrow> mset (sift_up cmp i xs) = mset xs"
proof (induction cmp i xs rule: sift_up.induct)
  case (1 cmp i xs)
  show ?case
  proof (cases "0 < i \<and> cmp (xs ! parent i) (xs ! i)")
    case True
    moreover have "parent i < length xs" using 1(2) True parent_less [of i] by linarith
    ultimately show ?thesis using 1 by (subst sift_up.simps) simp
  qed (subst sift_up.simps, auto)
qed

lemma top_child_gt: "i < top_child cmp n i xs"
  by (simp add: top_child_def)

lemma sift_down_mset:
  "n \<le> length xs \<Longrightarrow> i < n \<Longrightarrow> mset (sift_down cmp n i xs) = mset xs \<and>
     (\<forall>k\<ge>n. sift_down cmp n i xs ! k = xs ! k)"
proof (induction cmp n i xs rule: sift_down.induct)
  case (1 cmp n i xs)
  let ?c = "top_child cmp n i xs"
  show ?case
  proof (cases "?c < n \<and> cmp (xs ! i) (xs ! ?c)")
    case True
    then have "mset (sift_down cmp n ?c (swap_at i ?c xs)) = mset (swap_at i ?c xs) \<and>
        (\<forall>k\<ge>n. sift_down cmp n ?c (swap_at i ?c xs) ! k = swap_at i ?c xs ! k)"
      using 1 by simp
    then show ?thesis
      using True 1(2,3) by (subst (1 2) sift_down.simps) (auto simp: Let_def nth_swap_at)
  qed (subst (1 2) sift_down.simps, auto simp: Let_def)
qed

subsection \<open>Sifting restores the heap\<close>

text \<open>\<open>heap_below key n k xs\<close>: every parent at \<open>k\<close> or later has no larger key than its children
  among the first \<open>n\<close> elements.\<close>

definition heap_below :: "('a \<Rightarrow> 'b::linorder) \<Rightarrow> nat \<Rightarrow> nat \<Rightarrow> 'a list \<Rightarrow> bool" where
  "heap_below key n k xs \<longleftrightarrow>
     (\<forall>j<n. 0 < j \<longrightarrow> k \<le> parent j \<longrightarrow> key (xs ! parent j) \<le> key (xs ! j))"

abbreviation is_heap :: "('a \<Rightarrow> 'b::linorder) \<Rightarrow> 'a list \<Rightarrow> bool" where
  "is_heap key xs \<equiv> heap_below key (length xs) 0 xs"

abbreviation later :: "('a \<Rightarrow> 'b::linorder) \<Rightarrow> 'a \<Rightarrow> 'a \<Rightarrow> bool" where
  "later key a b \<equiv> key b < key a"

lemma heap_front:
  assumes "heap_below key n 0 xs" "i < n"
  shows "key (xs ! 0) \<le> key (xs ! i)"
  using assms(2)
proof (induction i rule: less_induct)
  case (less i)
  show ?case
  proof (cases "i = 0")
    case False
    then have "parent i < i" by (simp add: parent_less)
    with less have "key (xs ! 0) \<le> key (xs ! parent i)" by simp
    also have "\<dots> \<le> key (xs ! i)" using assms(1) less.prems False by (simp add: heap_below_def)
    finally show ?thesis .
  qed simp
qed

text \<open>A heap but for the element at \<open>i\<close>, whose parent may be larger.\<close>

definition hole_up :: "('a \<Rightarrow> 'b::linorder) \<Rightarrow> nat \<Rightarrow> 'a list \<Rightarrow> bool" where
  "hole_up key i xs \<longleftrightarrow> (\<forall>j<length xs. 0 < j \<longrightarrow>
     (j \<noteq> i \<longrightarrow> key (xs ! parent j) \<le> key (xs ! j)) \<and>
     (0 < i \<longrightarrow> parent j = i \<longrightarrow> key (xs ! parent i) \<le> key (xs ! j)))"

lemma sift_up_heap:
  fixes key :: "'a \<Rightarrow> 'b::linorder"
  shows "i < length xs \<Longrightarrow> hole_up key i xs \<Longrightarrow> is_heap key (sift_up (later key) i xs)"
proof (induction i arbitrary: xs rule: less_induct)
  case (less i)
  let ?p = "parent i"
  show ?case
  proof (cases "0 < i \<and> later key (xs ! ?p) (xs ! i)")
    case True
    then have p: "?p < i" "?p < length xs"
      using less.prems parent_less [of i] by auto
    note nth = nth_swap_at [OF less.prems(1) p(2)]
    have hole: "hole_up key ?p (swap_at i ?p xs)"
      unfolding hole_up_def
    proof (intro allI impI conjI)
      fix j assume j: "j < length (swap_at i ?p xs)" "0 < j"
      have up: "key (xs ! parent j) \<le> key (xs ! j)" if "j \<noteq> i"
        using less.prems(2) j that by (simp add: hole_up_def)
      have below: "key (xs ! ?p) \<le> key (xs ! j)" if "parent j = i"
        using less.prems(2) j that True by (simp add: hole_up_def)
      show "key (swap_at i ?p xs ! parent j) \<le> key (swap_at i ?p xs ! j)" if "j \<noteq> ?p"
      proof -
        consider "j = i" | "j \<noteq> i" "parent j = i" | "j \<noteq> i" "parent j = ?p" | "j \<noteq> i" "parent j \<noteq> i" "parent j \<noteq> ?p"
          by blast
        then show ?thesis
          using True up below that p by cases (auto simp: nth)
      qed
      show "key (swap_at i ?p xs ! parent ?p) \<le> key (swap_at i ?p xs ! j)"
        if "0 < ?p" "parent j = ?p"
      proof -
        have "key (xs ! parent ?p) \<le> key (xs ! ?p)"
          using less.prems(2) p that(1) by (simp add: hole_up_def)
        moreover have "parent ?p \<noteq> i" "parent ?p \<noteq> ?p"
          using p(1) parent_less [OF that(1)] by auto
        moreover have "j \<noteq> ?p" using that(2) parent_less [OF j(2)] by auto
        ultimately show ?thesis using up that by (auto simp: nth)
      qed
    qed
    have "is_heap key (sift_up (later key) ?p (swap_at i ?p xs))"
      using less.IH [OF p(1), of "swap_at i ?p xs"] p(2) hole by simp
    then show ?thesis using True by (subst (1 2) sift_up.simps) simp
  next
    case False
    then have "is_heap key xs"
      using less.prems(2) by (auto simp: heap_below_def hole_up_def not_less)
    then show ?thesis using False by (subst (1 2) sift_up.simps) auto
  qed
qed

text \<open>A heap from \<open>k\<close> on but for the element at \<open>i\<close>, whose children may be smaller.\<close>

definition hole_down :: "('a \<Rightarrow> 'b::linorder) \<Rightarrow> nat \<Rightarrow> nat \<Rightarrow> nat \<Rightarrow> 'a list \<Rightarrow> bool" where
  "hole_down key n k i xs \<longleftrightarrow> (\<forall>j<n. 0 < j \<longrightarrow> k \<le> parent j \<longrightarrow>
     (parent j \<noteq> i \<longrightarrow> key (xs ! parent j) \<le> key (xs ! j)) \<and>
     (parent j = i \<longrightarrow> 0 < i \<longrightarrow> k \<le> parent i \<longrightarrow> key (xs ! parent i) \<le> key (xs ! j)))"

lemma top_child_least:
  fixes key :: "'a \<Rightarrow> 'b::linorder"
  assumes "j < n" "0 < j" "parent j = i"
  shows "key (xs ! top_child (later key) n i xs) \<le> key (xs ! j)" "top_child (later key) n i xs < n"
    "parent (top_child (later key) n i xs) = i"
  using assms by (auto simp: parent_iff top_child_def)

lemma hole_down_swap:
  fixes key :: "'a \<Rightarrow> 'b::linorder" and xs :: "'a list"
  defines "c \<equiv> \<lambda>n i xs. top_child (later key) n i xs"
  assumes "n \<le> length xs" "hole_down key n k i xs" "c n i xs < n" "later key (xs ! i) (xs ! c n i xs)"
  shows "hole_down key n k (c n i xs) (swap_at i (c n i xs) xs)"
proof -
  let ?c = "c n i xs"
  have c: "i < ?c" "0 < ?c" "parent ?c = i"
    using parent_iff [of ?c i] top_child_gt [of i] by (auto simp: c_def top_child_def)
  have len: "i < length xs" "?c < length xs" using assms(2,4) c by simp_all
  note nth = nth_swap_at [OF len]
  have above: "key (xs ! parent i) \<le> key (xs ! ?c)" if "0 < i" "k \<le> parent i"
    using assms(3) [unfolded hole_down_def, rule_format, of ?c] assms(4) c that parent_less [of i]
    by simp
  show ?thesis
    unfolding hole_down_def
  proof (intro allI impI conjI)
    fix j assume j: "j < n" "0 < j" "k \<le> parent j"
    have up: "key (xs ! parent j) \<le> key (xs ! j)" if "parent j \<noteq> i"
      using assms(3) j that by (simp add: hole_down_def)
    have "parent j < j" using parent_less [OF j(2)] .
    show "key (swap_at i ?c xs ! parent j) \<le> key (swap_at i ?c xs ! j)" if "parent j \<noteq> ?c"
    proof (cases "parent j = i")
      case True
      then show ?thesis
        using top_child_least(1) [OF j(1,2) True, of key xs] assms(5) c \<open>parent j < j\<close>
        unfolding nth by (auto simp: c_def)
    next
      case False
      then show ?thesis
        using up [OF False] that above j c by (auto simp: nth)
    qed
    show "key (swap_at i ?c xs ! parent ?c) \<le> key (swap_at i ?c xs ! j)"
      if "parent j = ?c" "0 < ?c" "k \<le> parent ?c"
      using up that c \<open>parent j < j\<close> by (auto simp: nth)
  qed
qed

lemma sift_down_heap:
  fixes key :: "'a \<Rightarrow> 'b::linorder"
  assumes "n \<le> length xs" "i < n" "hole_down key n k i xs"
  shows "heap_below key n k (sift_down (later key) n i xs)"
  using assms
proof (induction "n - i" arbitrary: i xs rule: less_induct)
  case (less i xs)
  let ?c = "top_child (later key) n i xs"
  show ?case
  proof (cases "?c < n \<and> later key (xs ! i) (xs ! ?c)")
    case True
    have "heap_below key n k (sift_down (later key) n ?c (swap_at i ?c xs))"
    proof (rule less.hyps)
      show "n - ?c < n - i" using True less.prems(2) top_child_gt [of i "later key" n xs] by linarith
      show "hole_down key n k ?c (swap_at i ?c xs)"
        using hole_down_swap less.prems(1,3) True by blast
    qed (use True less.prems in auto)
    then show ?thesis using True by (subst sift_down.simps) (simp add: Let_def)
  next
    case False
    have "key (xs ! parent j) \<le> key (xs ! j)" if j: "j < n" "0 < j" "k \<le> parent j" for j
    proof (cases "parent j = i")
      case True
      then show ?thesis using top_child_least [OF j(1,2) True, of key xs] False by auto
    next
      case ne: False
      then show ?thesis using less.prems(3) j by (simp add: hole_down_def)
    qed
    then have "heap_below key n k xs" by (simp add: heap_below_def)
    moreover have "sift_down (later key) n i xs = xs"
      using False by (subst sift_down.simps) (auto simp: Let_def)
    ultimately show ?thesis by simp
  qed
qed

lemma push_heap_correct:
  fixes key :: "'a \<Rightarrow> 'b::linorder"
  assumes "xs \<noteq> []" "is_heap key (butlast xs)"
  shows "is_heap key (push_heap (later key) xs)"
    "mset (push_heap cmp xs) = mset xs"
proof -
  let ?n = "length xs - 1"
  have n: "?n < length xs" using assms(1) by simp
  show "mset (push_heap cmp xs) = mset xs"
    using sift_up_mset [OF n] by (simp add: push_heap_def)
  have "hole_up key ?n xs"
    unfolding hole_up_def
  proof (intro allI impI conjI)
    fix j assume j: "j < length xs" "0 < j"
    have p: "parent j < j" using j parent_less by blast
    show "key (xs ! parent j) \<le> key (xs ! j)" if "j \<noteq> ?n"
    proof -
      have "j < ?n" using j that by simp
      then show ?thesis
        using assms(2) j(2) p by (auto simp: heap_below_def nth_butlast)
    qed
    show "key (xs ! parent ?n) \<le> key (xs ! j)" if "parent j = ?n"
      using that p j(1) by simp
  qed
  then show "is_heap key (push_heap (later key) xs)"
    using sift_up_heap [OF n] by (simp add: push_heap_def)
qed

lemma pop_heap_correct:
  fixes key :: "'a \<Rightarrow> 'b::linorder"
  assumes "xs \<noteq> []" "is_heap key xs"
  shows "is_heap key (butlast (pop_heap (later key) xs))"
    "mset (pop_heap (later key) xs) = mset xs"
    "last (pop_heap (later key) xs) = hd xs"
proof -
  let ?n = "length xs - 1" and ?ys = "pop_heap (later key) xs"
  have *: "heap_below key ?n 0 ?ys \<and> mset ?ys = mset xs \<and> ?ys ! ?n = xs ! 0"
  proof (cases "length xs < 2")
    case True
    then have "?n = 0" by simp
    then show ?thesis using True by (simp add: pop_heap_def heap_below_def)
  next
    case False
    let ?zs = "swap_at 0 ?n xs"
    have n: "?n < length xs" "0 < ?n" "0 < length xs" using False by auto
    have "hole_down key ?n 0 0 ?zs"
      unfolding hole_down_def
    proof (intro allI impI conjI)
      fix j assume j: "j < ?n" "0 < j"
      assume "parent j \<noteq> 0"
      then show "key (?zs ! parent j) \<le> key (?zs ! j)"
        using assms(2) j parent_less [OF j(2)] n by (auto simp: heap_below_def nth_swap_at)
    qed simp
    then have "heap_below key ?n 0 (sift_down (later key) ?n 0 ?zs)"
      using n by (intro sift_down_heap) simp_all
    moreover note sift_down_mset [of ?n ?zs 0 "later key"]
    ultimately show ?thesis using False n by (simp add: pop_heap_def nth_swap_at)
  qed
  have len: "length ?ys = length xs" using * mset_eq_length by blast
  show "is_heap key (butlast ?ys)"
    unfolding heap_below_def
  proof (intro allI impI)
    fix j assume j: "j < length (butlast ?ys)" "0 < j"
    then have "parent j < length (butlast ?ys)" using parent_less [OF j(2)] by simp
    then show "key (butlast ?ys ! parent j) \<le> key (butlast ?ys ! j)"
      using * j len by (simp add: heap_below_def nth_butlast)
  qed
  show "mset ?ys = mset xs" using * by blast
  show "last ?ys = hd xs"
    using * len assms(1) by (metis hd_conv_nth last_conv_nth length_0_conv)
qed

lemma make_heap_correct:
  fixes key :: "'a \<Rightarrow> 'b::linorder"
  shows "is_heap key (make_heap (later key) xs)" "mset (make_heap (later key) xs) = mset xs"
proof -
  let ?n = "length xs"
  have "heap_below key ?n (?n div 2 - m) ys \<and> mset ys = mset xs"
    if "m \<le> ?n div 2" "ys = fold (sift_down (later key) ?n) (rev [?n div 2 - m..<?n div 2]) xs" for m ys
    using that
  proof (induction m arbitrary: ys)
    case 0
    then show ?case by (auto simp: heap_below_def parent_def)
  next
    case (Suc m)
    let ?i = "?n div 2 - Suc m"
    define zs where "zs = fold (sift_down (later key) ?n) (rev [?n div 2 - m..<?n div 2]) xs"
    have IH: "heap_below key ?n (?n div 2 - m) zs \<and> mset zs = mset xs"
      using Suc zs_def by simp
    have i: "Suc ?i = ?n div 2 - m" "?i < ?n" using Suc.prems(1) by auto
    have "[?i..<?n div 2] = ?i # [?n div 2 - m..<?n div 2]"
      using i Suc.prems(1) by (subst upt_rec) auto
    then have ys: "ys = sift_down (later key) ?n ?i zs" by (simp add: Suc.prems(2) zs_def)
    have len: "length zs = ?n" using IH mset_eq_length by blast
    have "hole_down key ?n ?i ?i zs"
      using IH i parent_less [of ?i] by (auto simp: hole_down_def heap_below_def)
    then show ?case
      using sift_down_heap [of ?n zs ?i key ?i] sift_down_mset [of ?n zs ?i "later key"] IH i len
      by (simp add: ys)
  qed
  from this [of "?n div 2"] have "heap_below key ?n 0 (make_heap (later key) xs) \<and>
      mset (make_heap (later key) xs) = mset xs" by (simp add: make_heap_def)
  then show "is_heap key (make_heap (later key) xs)" "mset (make_heap (later key) xs) = mset xs"
    using mset_eq_length by metis+
qed

lemma length_pop_heap [simp]: "length (pop_heap cmp xs) = length xs"
proof (cases "length xs < 2")
  case False
  let ?zs = "swap_at 0 (length xs - 1) xs"
  have "mset (sift_down cmp (length xs - 1) 0 ?zs) = mset ?zs"
    using False sift_down_mset [of "length xs - 1" ?zs 0 cmp] by simp
  then show ?thesis using False mset_eq_length by (fastforce simp: pop_heap_def)
qed (simp add: pop_heap_def)

subsection \<open>The contract and what a client gets from it\<close>

locale std_heap =
  fixes key :: "'a \<Rightarrow> 'b::linorder"
    and push :: "'a list \<Rightarrow> 'a list"
    and pop :: "'a list \<Rightarrow> 'a list"
    and make :: "'a list \<Rightarrow> 'a list"
  assumes push_heap: "xs \<noteq> [] \<Longrightarrow> is_heap key (butlast xs) \<Longrightarrow> is_heap key (push xs)"
    and push_mset: "xs \<noteq> [] \<Longrightarrow> is_heap key (butlast xs) \<Longrightarrow> mset (push xs) = mset xs"
    and pop_heap: "xs \<noteq> [] \<Longrightarrow> is_heap key xs \<Longrightarrow> is_heap key (butlast (pop xs))"
    and pop_mset: "xs \<noteq> [] \<Longrightarrow> is_heap key xs \<Longrightarrow> mset (pop xs) = mset xs"
    and pop_last: "xs \<noteq> [] \<Longrightarrow> is_heap key xs \<Longrightarrow> last (pop xs) = hd xs"
    and make_heap: "is_heap key (make xs)"
    and make_mset: "mset (make xs) = mset xs"
begin

lemma front_least:
  assumes "is_heap key xs" "x \<in> set xs"
  shows "key (hd xs) \<le> key x"
proof -
  obtain i where "i < length xs" "x = xs ! i" using assms(2) by (metis in_set_conv_nth)
  moreover have "hd xs = xs ! 0" using assms(2) by (intro hd_conv_nth) auto
  ultimately show ?thesis using heap_front [OF assms(1)] by simp
qed

lemma insert_heap:
  assumes "is_heap key xs"
  shows "is_heap key (push (xs @ [x]))" "mset (push (xs @ [x])) = add_mset x (mset xs)"
  using assms push_heap [of "xs @ [x]"] push_mset [of "xs @ [x]"] by simp_all

lemma remove_front:
  assumes "is_heap key xs" "xs \<noteq> []"
  shows "mset xs = add_mset (hd xs) (mset (butlast (pop xs)))"
proof -
  have "pop xs \<noteq> []" using assms pop_mset by fastforce
  then have "mset (pop xs) = add_mset (last (pop xs)) (mset (butlast (pop xs)))"
    by (metis add_mset_add_single append_butlast_last_id mset.simps(1) mset.simps(2) mset_append)
  then show ?thesis using assms pop_mset pop_last by simp
qed

end

text \<open>A loop that pops the front while its key is not above a limit.\<close>

locale heap_drain = std_heap key push pop make
  for key :: "'a \<Rightarrow> 'b::linorder" and push pop make +
  fixes drain :: "'b \<Rightarrow> 'a list \<Rightarrow> 'a list \<times> 'a list"
  assumes drain_unfold: "drain now xs =
    (if xs \<noteq> [] \<and> key (hd xs) \<le> now
     then let ys = pop xs; (due, rest) = drain now (butlast ys) in (last ys # due, rest)
     else ([], xs))"
begin

lemma drain_correct:
  assumes "is_heap key xs" "drain now xs = (due, rest)"
  shows "is_heap key rest \<and> sorted (map key due) \<and>
    mset due = {#x \<in># mset xs. key x \<le> now#} \<and> mset rest = {#x \<in># mset xs. \<not> key x \<le> now#}"
  using assms
proof (induction "length xs" arbitrary: xs due rule: less_induct)
  case less
  show ?case
  proof (cases "xs \<noteq> [] \<and> key (hd xs) \<le> now")
    case True
    let ?ys = "butlast (pop xs)"
    obtain due' where due': "drain now ?ys = (due', rest)" "due = hd xs # due'"
      using less.prems True drain_unfold [of now xs] pop_last
      by (auto simp: Let_def split: prod.splits)
    have xs: "mset xs = add_mset (hd xs) (mset ?ys)"
      using less.prems(1) True by (intro remove_front) auto
    then have "length ?ys < length xs"
      by (metis length_butlast lessI size_add_mset size_mset)
    moreover have "is_heap key ?ys" using less.prems(1) True pop_heap by blast
    ultimately have IH: "is_heap key rest \<and> sorted (map key due') \<and>
        mset due' = {#x \<in># mset ?ys. key x \<le> now#} \<and> mset rest = {#x \<in># mset ?ys. \<not> key x \<le> now#}"
      using less.hyps due'(1) by blast
    moreover have "key (hd xs) \<le> key x" if "x \<in> set due'" for x
    proof -
      have "mset due' = {#x \<in># mset ?ys. key x \<le> now#}" using IH by blast
      then have "set due' = {x \<in> set ?ys. key x \<le> now}"
        by (metis set_mset_filter set_mset_mset)
      then have "x \<in># mset ?ys" using that by simp
      then have "x \<in># mset xs" by (simp only: xs) simp
      then show ?thesis using front_least [OF less.prems(1)] by simp
    qed
    ultimately show ?thesis using True xs due'(2) by simp
  next
    case False
    then have *: "due = []" "rest = xs" using less.prems(2) drain_unfold [of now xs] by auto
    have "\<not> key x \<le> now" if "x \<in> set xs" for x
    proof -
      have "key (hd xs) \<le> key x" using that by (rule front_least [OF less.prems(1)])
      moreover have "now < key (hd xs)" using False that by auto
      ultimately show ?thesis by simp
    qed
    then have "filter (\<lambda>x. key x \<le> now) xs = []" "filter (\<lambda>x. \<not> key x \<le> now) xs = xs"
      by (simp_all add: filter_empty_conv filter_id_conv)
    then have "{#x \<in># mset xs. key x \<le> now#} = {#}" "{#x \<in># mset xs. \<not> key x \<le> now#} = mset xs"
      by (simp_all flip: mset_filter)
    then show ?thesis using * less.prems(1) by simp
  qed
qed

end

end
