(* ===== verification/Fec_Decoder.thy ===== *)
theory Fec_Decoder
  imports Fec Linear_Code Std_Heap
begin

text \<open>
  Forward error correction, receiving side (\<^verbatim>\<open>FecDecoder\<close> in src/fec.cpp): blocks being collected,
  recovery by Gaussian elimination over the bytes, and the list of blocks that are finished. An empty
  vector in a slot means that the symbol has not arrived, as in the code. The pool of spare buffers
  (\<^verbatim>\<open>take_buffer\<close>, \<^verbatim>\<open>recycle\<close>) only saves allocations: a buffer taken from it is cleared, so it is
  left out.
\<close>

record Block =
  fb_id :: u32
  fb_data_count :: nat
  fb_parity_count :: nat
  fb_data_received :: nat
  fb_data :: "bytes list"
  fb_parity :: "bytes list"
  fb_created :: instant

record FecDecoder =
  de_blocks :: "Block list"
  de_finished :: "u32 list"
  de_stats :: FecStats

definition new_decoder :: FecDecoder where
  "new_decoder = \<lparr>de_blocks = [], de_finished = [], de_stats = new_stats\<rparr>"

definition recently_finished :: "FecDecoder \<Rightarrow> u32 \<Rightarrow> bool" where
  "recently_finished d ident \<longleftrightarrow> ident \<in> set (de_finished d)"

function trim_finished :: "u32 list \<Rightarrow> u32 list" where
  "trim_finished finished =
     (if length finished > kMaximumOutstandingBlocks * 2 then trim_finished (tl finished) else finished)"
  by pat_completeness auto
termination by (relation "measure length") (auto simp: kMaximumOutstandingBlocks_def)

declare trim_finished.simps [simp del]

definition finish :: "FecDecoder \<Rightarrow> u32 \<Rightarrow> FecDecoder" where
  "finish d ident =
     d\<lparr>de_blocks := filter (\<lambda>block. fb_id block \<noteq> ident) (de_blocks d),
       de_finished := trim_finished (de_finished d @ [ident])\<rparr>"

definition find_block :: "Block list \<Rightarrow> u32 \<Rightarrow> nat" where
  "find_block blocks ident = length (takeWhile (\<lambda>block. fb_id block \<noteq> ident) blocks)"

text \<open>The position of the block, and the decoder with it in place.\<close>

definition find_or_create :: "FecDecoder \<Rightarrow> FecSymbolHeader \<Rightarrow> instant \<Rightarrow> nat \<times> FecDecoder" where
  "find_or_create d header now =
     (if find_block (de_blocks d) (sh_block_id header) < length (de_blocks d)
      then (find_block (de_blocks d) (sh_block_id header), d)
      else let d = (if length (de_blocks d) \<ge> kMaximumOutstandingBlocks
                    then d\<lparr>de_blocks := tl (de_blocks d),
                           de_stats := (de_stats d)\<lparr>fs_unrecoverable := fs_unrecoverable (de_stats d) + 1\<rparr>\<rparr>
                    else d);
               block = \<lparr>fb_id = sh_block_id header, fb_data_count = unat (sh_block_size header),
                        fb_parity_count = unat (sh_parity_count header), fb_data_received = 0,
                        fb_data = replicate (unat (sh_block_size header)) [],
                        fb_parity = replicate (unat (sh_parity_count header)) [],
                        fb_created = now\<rparr>
      in (length (de_blocks d), d\<lparr>de_blocks := de_blocks d @ [block]\<rparr>))"

subsection \<open>Recovery\<close>

type_synonym linear_system = "u8 list list \<times> bytes list"

definition missing_symbols :: "Block \<Rightarrow> nat list" where
  "missing_symbols block = filter (\<lambda>index. fb_data block ! index = []) [0..<fb_data_count block]"

definition parity_rows :: "Block \<Rightarrow> nat list" where
  "parity_rows block = filter (\<lambda>index. fb_parity block ! index \<noteq> []) [0..<fb_parity_count block]"

definition syndrome_row :: "nat \<Rightarrow> Block \<Rightarrow> nat \<Rightarrow> bytes" where
  "syndrome_row simd block row =
     fold (\<lambda>index syndrome.
         if fb_data block ! index = [] then syndrome
         else multiply_add simd syndrome (fb_data block ! index) (cauchy row index))
       [0..<fb_data_count block] (fb_parity block ! row)"

definition recovery_system :: "nat \<Rightarrow> Block \<Rightarrow> nat list \<Rightarrow> nat list \<Rightarrow> linear_system" where
  "recovery_system simd block rows missing =
     (map (\<lambda>r. map (\<lambda>c. if r < length missing \<and> c < length missing then cauchy (rows ! r) (missing ! c) else 0)
         [0..<kMaximumFecParity]) [0..<kMaximumFecParity],
      map (\<lambda>row. syndrome_row simd block row) rows)"

function find_pivot :: "u8 list list \<Rightarrow> nat \<Rightarrow> nat \<Rightarrow> nat \<Rightarrow> nat" where
  "find_pivot matrix n column pivot =
     (if pivot < n \<and> matrix ! pivot ! column = 0 then find_pivot matrix n column (pivot + 1)
      else pivot)"
  by pat_completeness auto
termination by (relation "measure (\<lambda>(matrix, n, column, pivot). n - pivot)") auto

declare find_pivot.simps [simp del]

definition clear_column :: "nat \<Rightarrow> nat \<Rightarrow> nat \<Rightarrow> linear_system \<Rightarrow> linear_system" where
  "clear_column simd n column system =
     fold (\<lambda>r (matrix, syndrome).
         if r = column \<or> matrix ! r ! column = 0 then (matrix, syndrome)
         else let coefficient = matrix ! r ! column
              in (matrix[r := fold (\<lambda>c row. row[c := row ! c XOR multiply coefficient (matrix ! column ! c)])
                                [0..<n] (matrix ! r)],
                  syndrome[r := multiply_add simd (syndrome ! r) (syndrome ! column) coefficient]))
       [0..<n] system"

definition eliminate_column :: "nat \<Rightarrow> nat \<Rightarrow> nat \<Rightarrow> linear_system \<Rightarrow> linear_system option" where
  "eliminate_column simd n column system =
     (let (matrix, syndrome) = system; pivot = find_pivot matrix n column column
      in if pivot = n then None
      else let matrix = swap_at pivot column matrix; syndrome = swap_at pivot column syndrome;
               factor = gf_inverse (matrix ! column ! column);
               matrix = matrix[column := map (\<lambda>v. multiply v factor) (matrix ! column)];
               syndrome = syndrome[column := scale (syndrome ! column) factor]
           in Some (clear_column simd n column (matrix, syndrome)))"

definition eliminate :: "nat \<Rightarrow> nat \<Rightarrow> linear_system \<Rightarrow> linear_system option" where
  "eliminate simd n system =
     fold (\<lambda>column st. Option.bind st (eliminate_column simd n column)) [0..<n] (Some system)"

definition recovered_packet :: "bytes \<Rightarrow> bytes option" where
  "recovered_packet symbol =
     (let len = unat (symbol ! 0) * 256 + unat (symbol ! 1)
      in if len = 0 \<or> kFecLengthPrefix + len > length symbol then None
      else Some (take len (drop kFecLengthPrefix symbol)))"

definition collect_recovered :: "bytes list \<Rightarrow> FecStats \<Rightarrow> bytes list \<times> FecStats" where
  "collect_recovered symbols stats =
     fold (\<lambda>symbol (recovered, stats).
         if length symbol < kFecLengthPrefix then (recovered, stats)
         else case recovered_packet symbol of
           None \<Rightarrow> (recovered, stats\<lparr>fs_unrecoverable := fs_unrecoverable stats + 1\<rparr>)
         | Some packet \<Rightarrow> (recovered @ [packet], stats\<lparr>fs_recovered := fs_recovered stats + 1\<rparr>))
       symbols ([], stats)"

definition try_recover :: "nat \<Rightarrow> FecDecoder \<Rightarrow> Block \<Rightarrow> bytes list \<times> FecDecoder" where
  "try_recover simd d block =
     (let missing = missing_symbols block; rows = parity_rows block
      in if missing = [] \<or> length rows < length missing then ([], d)
      else let rows = take (length missing) rows; width = length (fb_parity block ! hd rows)
      in if \<exists>row\<in>set rows. length (fb_parity block ! row) \<noteq> width then ([], d)
      else if \<exists>symbol\<in>set (fb_data block). length symbol > width then ([], d)
      else let n = length missing
      in if n > kMaximumFecParity then ([], d)
      else case eliminate simd n (recovery_system simd block rows missing) of
        None \<Rightarrow> ([], d)
      | Some (matrix, syndrome) \<Rightarrow>
          let (recovered, stats) = collect_recovered syndrome (de_stats d)
          in (recovered, finish (d\<lparr>de_stats := stats\<rparr>) (fb_id block)))"

subsection \<open>Arrival and expiry\<close>

text \<open>What \<^verbatim>\<open>receive\<close> stores of a symbol in its block; the flag is \<open>False\<close> where it returns early.\<close>

definition shrink_block :: "Block \<Rightarrow> nat \<Rightarrow> Block" where
  "shrink_block block block_size =
     (if block_size < fb_data_count block
      then block\<lparr>fb_data_received := fold (\<lambda>index received.
                   if fb_data block ! index \<noteq> [] then received - 1 else received)
                 [block_size..<fb_data_count block] (fb_data_received block),
               fb_data_count := block_size, fb_data := take block_size (fb_data block)\<rparr>
      else block)"

definition store_parity :: "Block \<Rightarrow> FecSymbolHeader \<Rightarrow> bytes \<Rightarrow> Block \<times> bool" where
  "store_parity block header payload =
     (let block = shrink_block block (unat (sh_block_size header)); index = unat (sh_index header)
      in if fb_parity block ! index \<noteq> [] then (block, False)
      else (block\<lparr>fb_parity := (fb_parity block)[index := payload]\<rparr>, True))"

definition store_data :: "Block \<Rightarrow> FecSymbolHeader \<Rightarrow> bytes \<Rightarrow> Block \<times> bool" where
  "store_data block header payload =
     (let index = unat (sh_index header)
      in if index \<ge> fb_data_count block then (block, False)
      else if fb_data block ! index \<noteq> [] then (block, False)
      else (block\<lparr>fb_data := (fb_data block)[index := length_prefixed payload],
                  fb_data_received := fb_data_received block + 1\<rparr>, True))"

definition fec_receive :: "nat \<Rightarrow> FecDecoder \<Rightarrow> FecSymbolHeader \<Rightarrow> bytes \<Rightarrow> instant \<Rightarrow> bytes list \<times> FecDecoder" where
  "fec_receive simd d header payload now =
     (let d = d\<lparr>de_stats := (de_stats d)\<lparr>fs_symbols_received := fs_symbols_received (de_stats d) + 1\<rparr>\<rparr>
      in if recently_finished d (sh_block_id header) then ([], d)
      else let (pos, d) = find_or_create d header now; block = de_blocks d ! pos
      in if fb_parity_count block \<noteq> unat (sh_parity_count header) then ([], d)
      else let (block, stored) =
             (if sh_parity header then store_parity block header payload
              else store_data block header payload);
             d = d\<lparr>de_blocks := (de_blocks d)[pos := block]\<rparr>
      in if \<not> stored then ([], d)
      else if fb_data_received block = fb_data_count block then ([], finish d (fb_id block))
      else try_recover simd d block)"

function expire_blocks :: "FecDecoder \<Rightarrow> instant \<Rightarrow> nat \<Rightarrow> nat \<times> FecDecoder" where
  "expire_blocks d now removed =
     (if de_blocks d \<noteq> [] \<and> now - fb_created (hd (de_blocks d)) \<ge> kFecRecoveryDeadline
      then expire_blocks
             (d\<lparr>de_finished := de_finished d @ [fb_id (hd (de_blocks d))],
                de_blocks := tl (de_blocks d),
                de_stats := (de_stats d)\<lparr>fs_expired := fs_expired (de_stats d) + 1\<rparr>\<rparr>) now (removed + 1)
      else (removed, d))"
  by pat_completeness auto
termination by (relation "measure (\<lambda>(d, now, removed). length (de_blocks d))") auto

declare expire_blocks.simps [simp del]

definition expire_fec :: "FecDecoder \<Rightarrow> instant \<Rightarrow> nat \<times> FecDecoder" where
  "expire_fec d now =
     (let (removed, d) = expire_blocks d now 0
      in (removed, d\<lparr>de_finished := trim_finished (de_finished d)\<rparr>))"

end
