(* ===== verification/Fec_Recovery.thy ===== *)
theory Fec_Recovery
  imports Fec_Decoder
begin

text \<open>
  What the erasure code promises: a block from which as many symbols arrived as it has data packets is
  recovered completely, whichever symbols they are and in whatever order they came. The elimination
  of src/fec.cpp is related to the row operations of \<^verbatim>\<open>Linear_Code\<close>, the blocks of the decoder to the
  sets of symbols that arrived.
\<close>

subsection \<open>Elimination on rows of bytes\<close>

definition mat :: "u8 list list \<Rightarrow> gf mat" where
  "mat m = (\<lambda>r c. Gf (m ! r ! c))"

definition shaped :: "nat \<Rightarrow> nat \<Rightarrow> linear_system \<Rightarrow> bool" where
  "shaped n w = (\<lambda>(m, s). n \<le> 16 \<and> length m = 16 \<and> (\<forall>r<16. length (m ! r) = 16) \<and>
     length s = n \<and> (\<forall>r<n. length (s ! r) = w))"

definition system_inv :: "nat \<Rightarrow> nat \<Rightarrow> gf mat \<Rightarrow> nat \<Rightarrow> linear_system \<Rightarrow> bool" where
  "system_inv n w X k = (\<lambda>(m, s). shaped n w (m, s) \<and> solves n w (mat m) (mat s) X \<and>
     trivial_kernel n (mat m) \<and> unit_columns n k (mat m))"

lemma mat_swap: "i < length m \<Longrightarrow> j < length m \<Longrightarrow> mat (swap_at i j m) = swap_rows i j (mat m)"
  by (auto simp: fun_eq_iff mat_def swap_at_def swap_rows_def nth_list_update)

lemma shaped_swap: "shaped n w (m, s) \<Longrightarrow> i < n \<Longrightarrow> j < n \<Longrightarrow> shaped n w (swap_at i j m, swap_at i j s)"
  by (auto simp: shaped_def swap_at_def nth_list_update)

lemma system_inv_swap:
  assumes "system_inv n w X k (m, s)" "k \<le> i" "k \<le> j" "i < n" "j < n"
  shows "system_inv n w X k (swap_at i j m, swap_at i j s)"
  using assms shaped_swap [of n w m s i j]
  by (auto simp: system_inv_def mat_swap shaped_def solves_swap trivial_kernel_swap unit_columns_swap)

text \<open>One column once its pivot is in place, as the code computes it and as a row operation.\<close>

definition row_sub :: "u8 list \<Rightarrow> u8 list \<Rightarrow> u8 \<Rightarrow> nat \<Rightarrow> u8 list" where
  "row_sub row pivot c n = map (\<lambda>i. if i < n then row ! i XOR multiply c (pivot ! i) else row ! i) [0..<length row]"

lemma row_sub_fold:
  assumes "n \<le> length row"
  shows "fold (\<lambda>i row. row[i := row ! i XOR multiply c (pivot ! i)]) [0..<n] row = row_sub row pivot c n"
  using assms fold_pointwise [where f = "\<lambda>i x. x XOR multiply c (pivot ! i)" and xs = row and m = 0 and n = n]
  by (simp add: row_sub_def)

lemma clear_column_rows:
  assumes "shaped n w (m, s)" "k < n" "j \<le> n"
  shows "fold (\<lambda>r (m, s). if r = k \<or> m ! r ! k = 0 then (m, s)
         else let c = m ! r ! k
              in (m[r := fold (\<lambda>i row. row[i := row ! i XOR multiply c (m ! k ! i)]) [0..<n] (m ! r)],
                  s[r := multiply_add simd (s ! r) (s ! k) c])) [0..<j] (m, s) =
    (map (\<lambda>r. if r < j \<and> r \<noteq> k \<and> m ! r ! k \<noteq> 0 then row_sub (m ! r) (m ! k) (m ! r ! k) n else m ! r) [0..<16],
     map (\<lambda>r. if r < j \<and> r \<noteq> k \<and> m ! r ! k \<noteq> 0 then row_add (s ! r) (s ! k) (m ! r ! k) else s ! r) [0..<n])"
  using assms(3)
proof (induction j)
  case 0
  then show ?case using assms by (auto simp: shaped_def map_nth intro!: nth_equalityI)
next
  case (Suc j)
  then show ?case
    using assms(1,2)
    by (auto simp: Let_def shaped_def row_sub_fold multiply_add_row_add nth_list_update less_Suc_eq
        intro!: nth_equalityI)
qed

lemma clear_column_eq:
  assumes "shaped n w (m, s)" "k < n"
  obtains m' s' where "clear_column simd n k (m, s) = (m', s')" "shaped n w (m', s')"
    "\<And>r c. r < n \<Longrightarrow> c < n \<Longrightarrow> mat m' r c = clear_rows k (\<lambda>r. mat m r k) (mat m) r c"
    "\<And>r t. r < n \<Longrightarrow> t < w \<Longrightarrow> mat s' r t = clear_rows k (\<lambda>r. mat m r k) (mat s) r t"
proof
  let ?m = "map (\<lambda>r. if r < n \<and> r \<noteq> k \<and> m ! r ! k \<noteq> 0 then row_sub (m ! r) (m ! k) (m ! r ! k) n else m ! r) [0..<16]"
  let ?s = "map (\<lambda>r. if r < n \<and> r \<noteq> k \<and> m ! r ! k \<noteq> 0 then row_add (s ! r) (s ! k) (m ! r ! k) else s ! r) [0..<n]"
  show "clear_column simd n k (m, s) = (?m, ?s)"
    using clear_column_rows [OF assms order.refl, of simd] by (simp add: clear_column_def)
  show "shaped n w (?m, ?s)"
    using assms(1) by (auto simp: shaped_def row_sub_def row_add_def)
  show "mat ?m r c = clear_rows k (\<lambda>r. mat m r k) (mat m) r c" if "r < n" "c < n" for r c
    using assms that by (auto simp: mat_def clear_rows_def shaped_def row_sub_def gf_defs multiply_def)
  show "mat ?s r t = clear_rows k (\<lambda>r. mat m r k) (mat s) r t" if "r < n" "t < w" for r t
    using assms that by (auto simp: mat_def clear_rows_def shaped_def row_add_def gf_defs)
qed

lemma scale_pivot_eq:
  fixes f :: u8
  assumes "shaped n w (m, s)" "k < n"
  defines "m' \<equiv> m[k := map (\<lambda>v. multiply v f) (m ! k)]" and "s' \<equiv> s[k := scale (s ! k) f]"
  shows "shaped n w (m', s')"
    "r < n \<Longrightarrow> c < n \<Longrightarrow> mat m' r c = scale_row k (Gf f) (mat m) r c"
    "r < n \<Longrightarrow> t < w \<Longrightarrow> mat s' r t = scale_row k (Gf f) (mat s) r t"
  using assms
  by (auto simp: mat_def shaped_def scale_row_def gf_defs multiply_def scale_def nth_list_update
      product_commute [of _ f])

lemma find_pivot_least:
  "p \<le> n \<Longrightarrow> p \<le> find_pivot m n k p \<and> find_pivot m n k p \<le> n \<and>
    (find_pivot m n k p < n \<longrightarrow> m ! find_pivot m n k p ! k \<noteq> 0) \<and>
    (\<forall>r. p \<le> r \<and> r < find_pivot m n k p \<longrightarrow> m ! r ! k = 0)"
proof (induction m n k p rule: find_pivot.induct)
  case (1 m n k p)
  show ?case
  proof (cases "p < n \<and> m ! p ! k = 0")
    case True
    have "p \<le> r \<longleftrightarrow> r = p \<or> p + 1 \<le> r" for r by auto
    then show ?thesis using 1 True by (subst (1 2 3 4 5) find_pivot.simps) auto
  next
    case False
    then show ?thesis using 1(2) by (subst (1 2 3 4 5) find_pivot.simps) auto
  qed
qed

lemma find_pivot_found:
  assumes "k < n" "\<exists>r. k \<le> r \<and> r < n \<and> m ! r ! k \<noteq> 0"
  shows "k \<le> find_pivot m n k k \<and> find_pivot m n k k < n \<and> m ! find_pivot m n k k ! k \<noteq> 0"
  using assms find_pivot_least [of k n m k] by (metis leD le_less_linear less_imp_le_nat nless_le)

lemma eliminate_column_inv:
  assumes "system_inv n w X k (m, s)" "k < n"
  shows "\<exists>m' s'. eliminate_column simd n k (m, s) = Some (m', s') \<and> system_inv n w X (Suc k) (m', s')"
proof -
  let ?p = "find_pivot m n k k"
  have "\<exists>r. k \<le> r \<and> r < n \<and> m ! r ! k \<noteq> 0"
    using pivot_exists [of n "mat m" k] assms by (auto simp: system_inv_def mat_def gf_defs)
  then have p: "k \<le> ?p" "?p < n" "m ! ?p ! k \<noteq> 0"
    using find_pivot_found [OF assms(2)] by auto
  define m1 s1 where "m1 = swap_at ?p k m" and "s1 = swap_at ?p k s"
  have inv1: "system_inv n w X k (m1, s1)"
    unfolding m1_def s1_def using assms p by (intro system_inv_swap) auto
  have pivot: "m1 ! k ! k \<noteq> 0"
    using assms p by (auto simp: m1_def swap_at_def nth_list_update system_inv_def shaped_def)
  define f where "f = gf_inverse (m1 ! k ! k)"
  define m2 s2 where "m2 = m1[k := map (\<lambda>v. multiply v f) (m1 ! k)]" and "s2 = s1[k := scale (s1 ! k) f]"
  have shaped1: "shaped n w (m1, s1)" using inv1 by (simp add: system_inv_def)
  note scale = scale_pivot_eq [OF shaped1 assms(2), where f = f, folded m2_def s2_def]
  have inverse: "Gf f = inverse (mat m1 k k)" by (simp add: f_def mat_def inverse_gf_def)
  obtain m3 s3 where clear: "clear_column simd n k (m2, s2) = (m3, s3)" "shaped n w (m3, s3)"
    "\<And>r c. r < n \<Longrightarrow> c < n \<Longrightarrow> mat m3 r c = clear_rows k (\<lambda>r. mat m2 r k) (mat m2) r c"
    "\<And>r t. r < n \<Longrightarrow> t < w \<Longrightarrow> mat s3 r t = clear_rows k (\<lambda>r. mat m2 r k) (mat s2) r t"
    using clear_column_eq [OF scale(1) assms(2), where simd = simd] by metis
  have "eliminate_column simd n k (m, s) = Some (m3, s3)"
    using p(2) clear(1) by (simp add: eliminate_column_def Let_def m2_def s2_def f_def m1_def s1_def)
  moreover have "system_inv n w X (Suc k) (m3, s3)"
  proof -
    define N T where "N = scale_row k (inverse (mat m1 k k)) (mat m1)"
      and "T = scale_row k (inverse (mat m1 k k)) (mat s1)"
    have m3: "mat m3 r c = clear_rows k (\<lambda>r. N r k) N r c" if "r < n" "c < n" for r c
      using that clear(3) scale(2) assms(2) by (simp add: clear_rows_def N_def inverse)
    have s3: "mat s3 r t = clear_rows k (\<lambda>r. N r k) T r t" if "r < n" "t < w" for r t
      using that clear(4) scale(2,3) assms(2) by (simp add: clear_rows_def N_def T_def inverse)
    have ne: "mat m1 k k \<noteq> 0" using pivot by (simp add: mat_def gf_defs)
    have "solves n w N T X" "trivial_kernel n N"
      using inv1 ne assms(2) by (auto simp: N_def T_def system_inv_def solves_scale trivial_kernel_scale)
    moreover have "unit_columns n (Suc k) (clear_rows k (\<lambda>r. N r k) N)"
      unfolding N_def using inv1 ne assms(2) by (intro unit_columns_step) (auto simp: system_inv_def)
    ultimately show ?thesis
      using clear(2) assms(2)
      by (simp add: system_inv_def solves_cong [OF m3 s3] trivial_kernel_cong [OF m3]
          unit_columns_cong [OF m3] solves_clear trivial_kernel_clear)
  qed
  ultimately show ?thesis by blast
qed

lemma eliminate_solves:
  assumes "system_inv n w X 0 system"
  shows "\<exists>m s. eliminate simd n system = Some (m, s) \<and> shaped n w (m, s) \<and>
    (\<forall>r<n. \<forall>t<w. Gf (s ! r ! t) = X r t)"
proof -
  have "\<exists>ms. fold (\<lambda>column st. Option.bind st (eliminate_column simd n column)) [0..<k] (Some system) = Some ms \<and>
      system_inv n w X k ms" if "k \<le> n" for k
    using that
  proof (induction k)
    case (Suc k)
    then obtain m s where "fold (\<lambda>column st. Option.bind st (eliminate_column simd n column)) [0..<k] (Some system) = Some (m, s)"
      "system_inv n w X k (m, s)" by auto
    then show ?case using eliminate_column_inv [of n w X k m s simd] Suc.prems by auto
  qed (use assms in simp)
  from this [of n] obtain m s where "eliminate simd n system = Some (m, s)" "system_inv n w X n (m, s)"
    by (auto simp: eliminate_def)
  moreover from this(2) have "Gf (s ! r ! t) = X r t" if "r < n" "t < w" for r t
    using solves_unit [of n w "mat m" "mat s" X r t] that by (auto simp: system_inv_def mat_def)
  ultimately show ?thesis by (auto simp: system_inv_def)
qed

subsection \<open>The code\<close>

lemma cauchy_gf: "Gf (cauchy r c) = inverse (Gf (of_nat (64 + r)) - Gf (of_nat c))"
  by (simp add: cauchy_def kMaximumFecData_def inverse_gf_def minus_gf_def Let_def)

lemma of_nat_byte_inject: "m < 256 \<Longrightarrow> n < 256 \<Longrightarrow> (of_nat m :: byte) = of_nat n \<longleftrightarrow> m = n"
  by (simp add: word_of_nat_eq_iff take_bit_nat_eq_self)

interpretation cauchy_code: erasure_code "\<lambda>r c. Gf (cauchy r c)" kMaximumFecParity kMaximumFecData
proof
  fix rs cs :: "nat list"
  assume *: "distinct rs" "distinct cs" "length rs = length cs"
    "set rs \<subseteq> {..<kMaximumFecParity}" "set cs \<subseteq> {..<kMaximumFecData}"
  then have bounds: "rs ! i < 16" "cs ! i < 64" if "i < length cs" for i
    using that subsetD [OF *(4) nth_mem] subsetD [OF *(5) nth_mem] by (auto simp: fec_consts)
  show "trivial_kernel (length cs) (\<lambda>r c. Gf (cauchy (rs ! r) (cs ! c)))"
    unfolding cauchy_gf
  proof (rule trivial_kernel_cauchy)
    show "inj_on (\<lambda>i. Gf (of_nat (64 + rs ! i))) {..<length cs}"
    proof (rule inj_onI)
      fix i j assume ij: "i \<in> {..<length cs}" "j \<in> {..<length cs}"
        "Gf (of_nat (64 + rs ! i)) = Gf (of_nat (64 + rs ! j))"
      then have "64 + rs ! i = 64 + rs ! j" using bounds [of i] bounds [of j] by (simp only: gf.inject) (subst (asm) of_nat_byte_inject, auto)
      then show "i = j" using ij * by (simp add: nth_eq_iff_index_eq)
    qed
    show "inj_on (\<lambda>i. Gf (of_nat (cs ! i))) {..<length cs}"
    proof (rule inj_onI)
      fix i j assume ij: "i \<in> {..<length cs}" "j \<in> {..<length cs}" "Gf (of_nat (cs ! i)) = Gf (of_nat (cs ! j))"
      then have "cs ! i = cs ! j" using bounds [of i] bounds [of j] by (simp add: of_nat_byte_inject)
      then show "i = j" using ij * by (simp add: nth_eq_iff_index_eq)
    qed
    show "\<forall>r<length cs. \<forall>c<length cs. Gf (of_nat (64 + rs ! r)) \<noteq> Gf (of_nat (cs ! c))"
    proof (intro allI impI)
      fix r c assume "r < length cs" "c < length cs"
      then show "Gf (of_nat (64 + rs ! r)) \<noteq> Gf (of_nat (cs ! c))"
        using bounds [of r] bounds [of c] by (simp only: gf.inject) (subst of_nat_byte_inject, auto)
    qed
  qed
qed

subsection \<open>Blocks and the symbols that arrived\<close>

text \<open>
  \<open>D\<close> and \<open>P\<close> are the data packets and parity rows of the block that arrived. Data symbols announce
  the block size of the plan, parity symbols the true one; the first parity symbol shrinks the block.
\<close>

definition block_ok :: "nat \<Rightarrow> nat \<Rightarrow> OpenBlock \<Rightarrow> bool" where
  "block_ok d p b \<longleftrightarrow>
     0 < length (ob_packets b) \<and> length (ob_packets b) \<le> d \<and> d \<le> kMaximumFecData \<and>
     0 < p \<and> p \<le> kMaximumFecParity \<and>
     (\<forall>q\<in>set (ob_packets b). 0 < length q \<and> length q \<le> 0xFFFF)"

definition slots :: "nat \<Rightarrow> OpenBlock \<Rightarrow> nat set \<Rightarrow> nat" where
  "slots d b P = (if P = {} then d else length (ob_packets b))"

definition holds_at :: "nat \<Rightarrow> nat \<Rightarrow> OpenBlock \<Rightarrow> nat set \<Rightarrow> nat set \<Rightarrow> Block \<Rightarrow> bool" where
  "holds_at n p b D P block \<longleftrightarrow>
     fb_id block = ob_id b \<and> fb_data_count block = n \<and> fb_parity_count block = p \<and>
     fb_data_received block = card D \<and>
     fb_data block = map (\<lambda>j. if j \<in> D then length_prefixed (ob_packets b ! j) else []) [0..<n] \<and>
     fb_parity block = map (\<lambda>r. if r \<in> P then parity_row r (ob_packets b) else []) [0..<p] \<and>
     D \<subseteq> {..<length (ob_packets b)} \<and> P \<subseteq> {..<p}"

abbreviation holds_block :: "nat \<Rightarrow> nat \<Rightarrow> OpenBlock \<Rightarrow> nat set \<Rightarrow> nat set \<Rightarrow> Block \<Rightarrow> bool" where
  "holds_block d p b D P \<equiv> holds_at (slots d b P) p b D P"

lemma length_prefixed_ne [simp]: "length_prefixed q \<noteq> []"
  by (simp add: length_prefixed_def)

lemma block_width_pos: "ps \<noteq> [] \<Longrightarrow> 2 \<le> block_width ps"
  using block_width_ge [of "hd ps" ps] by simp

lemma parity_row_ne: "ps \<noteq> [] \<Longrightarrow> parity_row r ps \<noteq> []"
  using block_width_pos [of ps] length_parity_row [of r ps] by (cases "parity_row r ps") auto

lemma missing_symbols_block:
  assumes "holds_block d p b D P block"
  shows "missing_symbols block = filter (\<lambda>j. j \<notin> D) [0..<slots d b P]"
  using assms by (auto simp: missing_symbols_def holds_at_def intro!: filter_cong)

lemma parity_rows_block:
  assumes "holds_block d p b D P block" "block_ok d p b"
  shows "parity_rows block = filter (\<lambda>r. r \<in> P) [0..<p]"
  using assms by (auto simp: parity_rows_def holds_at_def block_ok_def parity_row_ne intro!: filter_cong split: if_splits)

lemma length_filter_mem: "A \<subseteq> {..<n} \<Longrightarrow> length (filter (\<lambda>j. j \<in> A) [0..<n]) = card A"
  using distinct_card [of "filter (\<lambda>j. j \<in> A) [0..<n]"]
  by (simp add: Collect_conj_eq Int_absorb1 flip: lessThan_def)

lemma length_filter_not_mem: "A \<subseteq> {..<n} \<Longrightarrow> length (filter (\<lambda>j. j \<notin> A) [0..<n]) = n - card A"
  using sum_length_filter_compl [of "\<lambda>j. j \<in> A" "[0..<n]"] length_filter_mem [of A n] by simp

lemma length_row_add [simp]: "length (row_add acc src c) = length acc"
  by (simp add: row_add_def)

lemma row_add_byte:
  "t < length acc \<Longrightarrow> Gf (row_add acc (length_prefixed q) c ! t) = Gf (acc ! t) + Gf c * symbol_byte q t"
  by (simp add: row_add_def symbol_byte_def gf_defs)

lemma syndrome_row_bytes:
  assumes "holds_block d p b D P block" "r \<in> P" "P \<noteq> {}"
  shows "length (syndrome_row simd block r) = block_width (ob_packets b) \<and>
    (\<forall>t<block_width (ob_packets b). Gf (syndrome_row simd block r ! t) =
       parity_byte r (ob_packets b) t +
       (\<Sum>j<length (ob_packets b). if j \<in> D then Gf (cauchy r j) * symbol_byte (ob_packets b ! j) t else 0))"
proof -
  let ?f = "\<lambda>index syndrome. if fb_data block ! index = [] then syndrome
      else multiply_add simd syndrome (fb_data block ! index) (cauchy r index)"
  have data: "fb_data block ! j = (if j \<in> D then length_prefixed (ob_packets b ! j) else [])"
    if "j < length (ob_packets b)" for j
    using assms that by (simp add: holds_at_def slots_def)
  have "length (fold ?f [0..<n] (parity_row r (ob_packets b))) = block_width (ob_packets b) \<and>
    (\<forall>t<block_width (ob_packets b). Gf (fold ?f [0..<n] (parity_row r (ob_packets b)) ! t) =
       parity_byte r (ob_packets b) t +
       (\<Sum>j<n. if j \<in> D then Gf (cauchy r j) * symbol_byte (ob_packets b ! j) t else 0))"
    if "n \<le> length (ob_packets b)" for n
    using that
  proof (induction n)
    case 0
    then show ?case by (simp add: parity_row_def)
  next
    case (Suc n)
    then show ?case using data [of n] by (simp add: multiply_add_row_add row_add_byte add.assoc)
  qed
  moreover have "fb_data_count block = length (ob_packets b)" "fb_parity block ! r = parity_row r (ob_packets b)"
    using assms by (auto simp: holds_at_def slots_def)
  ultimately show ?thesis by (simp add: syndrome_row_def)
qed

text \<open>A recovered row is the length-prefixed packet padded with zeros, and yields the packet.\<close>

lemma length_prefix_value:
  assumes "n \<le> 0xFFFF"
  shows "unat (of_nat (n div 256 mod 256) :: byte) * 256 + unat (of_nat (n mod 256) :: byte) = n"
proof -
  have "n div 256 < 256" using assms by simp
  then show ?thesis by (simp add: unat_of_nat)
qed

lemma recovered_packet_symbol:
  assumes "length s = w" "\<forall>t<w. Gf (s ! t) = symbol_byte q t" "2 + length q \<le> w"
    "0 < length q" "length q \<le> 0xFFFF"
  shows "recovered_packet s = Some q"
proof -
  have byte: "s ! t = length_prefixed q ! t" if "t < 2 + length q" for t
    using assms(2,3) that by (auto simp: symbol_byte_def dest: spec [of _ t])
  have "s ! 0 = of_nat (length q div 256 mod 256)" "s ! 1 = of_nat (length q mod 256)"
    using byte [of 0] byte [of 1] by (simp_all add: length_prefixed_def)
  then have len: "unat (s ! 0) * 256 + unat (s ! 1) = length q"
    using length_prefix_value [OF assms(5)] by simp
  have "take (length q) (drop 2 s) = q"
    using assms(1,3) byte by (intro nth_equalityI) (auto simp: length_prefixed_def)
  then show ?thesis
    using assms(1,3,4) len by (simp add: recovered_packet_def kFecLengthPrefix_def Let_def)
qed

lemma collect_recovered_all:
  assumes "\<forall>s\<in>set ss. 2 \<le> length s \<and> recovered_packet s = Some (g s)"
  shows "fst (collect_recovered ss stats) = map g ss"
proof -
  let ?f = "\<lambda>symbol (recovered, stats). if length symbol < kFecLengthPrefix then (recovered, stats)
      else case recovered_packet symbol of
        None \<Rightarrow> (recovered, stats\<lparr>fs_unrecoverable := fs_unrecoverable stats + 1\<rparr>)
      | Some packet \<Rightarrow> (recovered @ [packet], stats\<lparr>fs_recovered := fs_recovered stats + 1\<rparr>)"
  have "fst (fold ?f ss (out, stats)) = out @ map g ss" for out and stats :: FecStats
    using assms by (induction ss arbitrary: out stats) (auto simp: kFecLengthPrefix_def)
  then show ?thesis by (simp add: collect_recovered_def)
qed

lemma recovery_system_inv:
  assumes "holds_block d p b D P block" "block_ok d p b" "P \<noteq> {}"
    and "missing = filter (\<lambda>j. j \<notin> D) [0..<length (ob_packets b)]" "length missing \<le> card P"
    and "rows = take (length missing) (filter (\<lambda>r. r \<in> P) [0..<p])"
  shows "system_inv (length missing) (block_width (ob_packets b))
    (\<lambda>c. symbol_byte (ob_packets b ! (missing ! c))) 0 (recovery_system simd block rows missing)"
proof -
  let ?ps = "ob_packets b"
  let ?k = "length ?ps"
  let ?n = "length missing"
  have P: "P \<subseteq> {..<p}" and D: "D \<subseteq> {..<?k}" using assms(1) by (auto simp: holds_at_def)
  have rows: "distinct rows" "length rows = ?n" "set rows \<subseteq> P"
    using assms(5,6) length_filter_mem [OF P] by (auto dest!: in_set_takeD)
  have missing: "distinct missing" "set missing = {..<?k} - D" using assms(4) by auto
  have bounds: "set rows \<subseteq> {..<kMaximumFecParity}" "set missing \<subseteq> {..<kMaximumFecData}" "?n \<le> 16"
    using assms(2,5) rows(3) P missing card_mono [OF _ P]
    by (auto simp: block_ok_def fec_consts)
  have syndrome: "length (syndrome_row simd block (rows ! r)) = block_width ?ps"
    "\<And>t. t < block_width ?ps \<Longrightarrow> Gf (syndrome_row simd block (rows ! r) ! t) =
       (\<Sum>j<?k. Gf (cauchy (rows ! r) j) * symbol_byte (?ps ! j) t) -
       (\<Sum>j<?k. if j \<in> set missing then 0 else Gf (cauchy (rows ! r) j) * symbol_byte (?ps ! j) t)"
    if "r < ?n" for r
  proof -
    have "rows ! r \<in> P" using rows that nth_mem [of r rows] by auto
    note row = syndrome_row_bytes [OF assms(1) this assms(3), of simd]
    show "length (syndrome_row simd block (rows ! r)) = block_width ?ps" using row by simp
    fix t assume "t < block_width ?ps"
    with row show "Gf (syndrome_row simd block (rows ! r) ! t) =
       (\<Sum>j<?k. Gf (cauchy (rows ! r) j) * symbol_byte (?ps ! j) t) -
       (\<Sum>j<?k. if j \<in> set missing then 0 else Gf (cauchy (rows ! r) j) * symbol_byte (?ps ! j) t)"
      using D by (auto simp: gf_sub_is_add parity_byte_def missing(2) intro!: sum.cong)
  qed
  let ?M = "\<lambda>r c. Gf (cauchy (rows ! r) (missing ! c))"
  obtain m s where ms: "recovery_system simd block rows missing = (m, s)"
    "m = map (\<lambda>r. map (\<lambda>c. if r < ?n \<and> c < ?n then cauchy (rows ! r) (missing ! c) else 0) [0..<16]) [0..<16]"
    "s = map (syndrome_row simd block) rows"
    by (simp add: recovery_system_def kMaximumFecParity_def)
  have m: "mat m r c = ?M r c" if "r < ?n" "c < ?n" for r c using that bounds(3) by (simp add: ms mat_def)
  have "shaped ?n (block_width ?ps) (m, s)"
    using bounds(3) rows(2) syndrome(1) by (auto simp: shaped_def ms)
  moreover have "solves ?n (block_width ?ps) ?M (mat s) (\<lambda>c. symbol_byte (?ps ! (missing ! c)))"
    using missing rows(2) syndrome(2) by (intro cauchy_code.missing_system [where k = ?k]) (auto simp: mat_def ms)
  moreover have "trivial_kernel ?n ?M"
    using rows missing(1) bounds by (intro cauchy_code.independent) auto
  ultimately show ?thesis
    by (simp add: system_inv_def ms(1) solves_cong [OF m refl] trivial_kernel_cong [OF m] unit_columns_def)
qed

lemma try_recover_waits:
  assumes "holds_block d p b D P block" "block_ok d p b"
    and "P = {} \<or> card D + card P < length (ob_packets b)"
  shows "try_recover simd dec block = ([], dec)"
proof -
  have "D \<subseteq> {..<slots d b P}" "P \<subseteq> {..<p}" "length (ob_packets b) \<le> d"
    using assms(1,2) by (auto simp: holds_at_def slots_def block_ok_def)
  then have "length (missing_symbols block) = 0 \<or> length (parity_rows block) < length (missing_symbols block)"
    using assms(3)
    by (auto simp: missing_symbols_block [OF assms(1)] parity_rows_block [OF assms(1,2)]
        length_filter_mem length_filter_not_mem slots_def simp del: length_0_conv length_greater_0_conv)
  then show ?thesis by (auto simp: try_recover_def Let_def)
qed

lemma try_recover_succeeds:
  assumes "holds_block d p b D P block" "block_ok d p b"
    and "card D < length (ob_packets b)" "length (ob_packets b) \<le> card D + card P"
  shows "\<exists>stats. try_recover simd dec block =
    (map ((!) (ob_packets b)) (filter (\<lambda>j. j \<notin> D) [0..<length (ob_packets b)]),
     finish (dec\<lparr>de_stats := stats\<rparr>) (ob_id b))"
proof -
  let ?ps = "ob_packets b"
  let ?w = "block_width ?ps"
  let ?rows = "filter (\<lambda>r. r \<in> P) [0..<p]"
  define missing where "missing = filter (\<lambda>j. j \<notin> D) [0..<length ?ps]"
  have "P \<noteq> {}" using assms(3,4) by auto
  have P: "P \<subseteq> {..<p}" and D: "D \<subseteq> {..<length ?ps}" using assms(1) by (auto simp: holds_at_def)
  have counts: "length missing = length ?ps - card D" "length ?rows = card P"
    using length_filter_not_mem [OF D] length_filter_mem [OF P] by (simp_all add: missing_def)
  then have enough: "missing \<noteq> []" "length missing \<le> card P" using assms(3,4) by auto
  define rows where "rows = take (length missing) ?rows"
  have rows: "rows \<noteq> []" "set rows \<subseteq> P"
    using enough counts by (auto simp: rows_def dest: in_set_takeD)
  have width: "length (fb_parity block ! r) = ?w" if "r \<in> P" for r
    using that assms(1) P by (auto simp: holds_at_def)
  have narrow: "length x \<le> ?w" if "x \<in> set (fb_data block)" for x
    using that assms(1) D block_width_ge [OF nth_mem, of _ ?ps] by (auto simp: holds_at_def)
  have "card P \<le> p" using card_mono [OF _ P] by simp
  then have small: "length missing \<le> kMaximumFecParity" using enough(2) assms(2) by (simp add: block_ok_def)
  obtain m s where elim: "eliminate simd (length missing) (recovery_system simd block rows missing) = Some (m, s)"
    "shaped (length missing) ?w (m, s)"
    "\<forall>r<length missing. \<forall>t<?w. Gf (s ! r ! t) = symbol_byte (?ps ! (missing ! r)) t"
    using eliminate_solves [OF recovery_system_inv [OF assms(1,2) \<open>P \<noteq> {}\<close> missing_def enough(2) rows_def]]
    by blast
  have packet: "recovered_packet (s ! r) = Some (?ps ! (missing ! r))" "2 \<le> length (s ! r)"
    if "r < length missing" for r
  proof -
    have "?ps ! (missing ! r) \<in> set ?ps" using nth_mem [OF that] by (auto simp: missing_def)
    then show "recovered_packet (s ! r) = Some (?ps ! (missing ! r))" "2 \<le> length (s ! r)"
      using that elim(2,3) assms(2) block_width_ge [of "?ps ! (missing ! r)" ?ps]
      by (auto simp: shaped_def block_ok_def intro!: recovered_packet_symbol)
  qed
  have "fst (collect_recovered s (de_stats dec)) = map (the \<circ> recovered_packet) s"
    using packet elim(2) by (subst collect_recovered_all) (auto simp: shaped_def in_set_conv_nth)
  also have "\<dots> = map ((!) ?ps) missing"
    using packet elim(2) by (auto simp: shaped_def intro!: nth_equalityI)
  finally have "fst (collect_recovered s (de_stats dec)) = map ((!) ?ps) missing" .
  moreover have "missing_symbols block = missing" "parity_rows block = ?rows"
    using missing_symbols_block [OF assms(1)] parity_rows_block [OF assms(1,2)] \<open>P \<noteq> {}\<close>
    by (simp_all add: slots_def missing_def)
  moreover have "fb_id block = ob_id b" using assms(1) by (simp add: holds_at_def)
  moreover have "hd rows \<in> P" using rows by (metis hd_in_set subsetD)
  ultimately show ?thesis
    using enough counts(2) rows(2) width narrow small elim(1)
    by (simp add: try_recover_def Let_def split_beta not_less not_le subset_eq flip: rows_def missing_def) auto
qed

subsection \<open>Arrival of a symbol\<close>

datatype symbol_id = DataSym nat | ParitySym nat

primrec arrival :: "nat \<Rightarrow> nat \<Rightarrow> OpenBlock \<Rightarrow> symbol_id \<Rightarrow> FecSymbolHeader \<times> bytes" where
  "arrival d p b (DataSym j) =
     (\<lparr>sh_block_id = ob_id b, sh_index = of_nat j, sh_block_size = of_nat d, sh_parity_count = of_nat p,
       sh_parity = False, sh_original_length = of_nat (length (ob_packets b ! j))\<rparr>, ob_packets b ! j)"
| "arrival d p b (ParitySym r) = (parity_header p b r, parity_row r (ob_packets b))"

primrec valid_symbol :: "nat \<Rightarrow> OpenBlock \<Rightarrow> symbol_id \<Rightarrow> bool" where
  "valid_symbol p b (DataSym j) \<longleftrightarrow> j < length (ob_packets b)"
| "valid_symbol p b (ParitySym r) \<longleftrightarrow> r < p"

definition data_of :: "symbol_id set \<Rightarrow> nat set" where "data_of S = {j. DataSym j \<in> S}"
definition parity_of :: "symbol_id set \<Rightarrow> nat set" where "parity_of S = {r. ParitySym r \<in> S}"

lemma trim_finished_drop: "trim_finished xs = drop (length xs - 256) xs"
proof (induction xs rule: trim_finished.induct)
  case (1 xs)
  show ?case
  proof (cases "length xs > 256")
    case True
    then have "trim_finished xs = trim_finished (tl xs)"
      by (subst trim_finished.simps) (simp add: kMaximumOutstandingBlocks_def)
    also have "\<dots> = drop (length xs - 256) xs"
    proof -
      have "Suc (length xs - 257) = length xs - 256" using True by simp
      with 1 True show ?thesis by (simp add: kMaximumOutstandingBlocks_def drop_Suc [symmetric])
    qed
    finally show ?thesis .
  next
    case False
    then show ?thesis by (subst trim_finished.simps) (simp add: kMaximumOutstandingBlocks_def)
  qed
qed

lemma finish_finished: "ident \<in> set (de_finished (finish dec ident))"
  by (simp add: finish_def trim_finished_drop drop_append)

lemma store_data_new:
  assumes "holds_at n p b D P block" "j < length (ob_packets b)" "length (ob_packets b) \<le> n" "n \<le> 64"
  shows "store_data block (fst (arrival d p b (DataSym j))) (ob_packets b ! j) =
    (if j \<in> D then (block, False)
     else (block\<lparr>fb_data := (fb_data block)[j := length_prefixed (ob_packets b ! j)],
                 fb_data_received := fb_data_received block + 1\<rparr>, True))"
proof -
  have "unat (of_nat j :: u8) = j" using assms by (simp add: unat_of_nat)
  then show ?thesis using assms by (auto simp: store_data_def holds_at_def Let_def)
qed

lemma holds_at_data:
  assumes "holds_at n p b D P block" "j < length (ob_packets b)" "j \<notin> D" "length (ob_packets b) \<le> n"
  shows "holds_at n p b (insert j D) P
    (block\<lparr>fb_data := (fb_data block)[j := length_prefixed (ob_packets b ! j)],
           fb_data_received := fb_data_received block + 1\<rparr>)"
proof -
  have "finite D" using assms(1) finite_subset by (auto simp: holds_at_def)
  with assms show ?thesis
    by (auto simp: holds_at_def nth_list_update intro!: nth_equalityI)
qed

lemma shrink_block_holds:
  assumes "holds_at n p b D P block" "length (ob_packets b) \<le> n"
  shows "holds_at (length (ob_packets b)) p b D P (shrink_block block (length (ob_packets b)))"
proof -
  let ?k = "length (ob_packets b)"
  have "fold (\<lambda>index received. if fb_data block ! index \<noteq> [] then received - 1 else received) xs c = c"
    if "set xs \<subseteq> {?k..<n}" for xs and c :: nat
    using that assms by (induction xs) (auto simp: holds_at_def)
  then have "fold (\<lambda>index received. if fb_data block ! index \<noteq> [] then received - 1 else received)
      [?k..<n] (fb_data_received block) = fb_data_received block"
    by simp
  then show ?thesis
    using assms by (auto simp: shrink_block_def holds_at_def take_map)
qed

lemma store_parity_new:
  assumes "holds_at n p b D P block" "r < p" "block_ok d p b" "length (ob_packets b) \<le> n"
  shows "store_parity block (parity_header p b r) (parity_row r (ob_packets b)) =
    (let block = shrink_block block (length (ob_packets b))
     in if r \<in> P then (block, False)
        else (block\<lparr>fb_parity := (fb_parity block)[r := parity_row r (ob_packets b)]\<rparr>, True))"
proof -
  have "unat (of_nat r :: u8) = r" "unat (of_nat (length (ob_packets b)) :: u8) = length (ob_packets b)"
    using assms by (simp_all add: unat_of_nat block_ok_def fec_consts)
  moreover have "fb_parity (shrink_block block m) = fb_parity block" for m by (simp add: shrink_block_def)
  moreover have "parity_row r (ob_packets b) \<noteq> []" using assms(3) by (auto simp: block_ok_def parity_row_ne)
  ultimately show ?thesis using assms by (simp add: store_parity_def parity_header_def Let_def holds_at_def)
qed

lemma holds_at_parity:
  assumes "holds_at n p b D P block" "r < p"
  shows "holds_at n p b D (insert r P) (block\<lparr>fb_parity := (fb_parity block)[r := parity_row r (ob_packets b)]\<rparr>)"
  using assms by (auto simp: holds_at_def nth_list_update intro!: nth_equalityI)

definition has_id :: "OpenBlock \<Rightarrow> Block \<Rightarrow> bool" where
  "has_id b block \<longleftrightarrow> fb_id block = ob_id b"

definition decoder_waits :: "nat \<Rightarrow> nat \<Rightarrow> OpenBlock \<Rightarrow> nat set \<Rightarrow> nat set \<Rightarrow> FecDecoder \<Rightarrow> bool" where
  "decoder_waits d p b D P dec \<longleftrightarrow>
     ob_id b \<notin> set (de_finished dec) \<and>
     (if D = {} \<and> P = {} then \<forall>block\<in>set (de_blocks dec). \<not> has_id b block
      else \<exists>pre block. de_blocks dec = pre @ [block] \<and> (\<forall>block\<in>set pre. \<not> has_id b block) \<and>
             holds_block d p b D P block)"

definition enough :: "nat \<Rightarrow> OpenBlock \<Rightarrow> nat set \<Rightarrow> nat set \<Rightarrow> bool" where
  "enough d b D P \<longleftrightarrow> card D = slots d b P \<or> P \<noteq> {} \<and> length (ob_packets b) \<le> card D + card P"

lemma find_block_last:
  assumes "\<forall>block\<in>set pre. \<not> has_id b block"
  shows "has_id b block \<Longrightarrow> find_block (pre @ [block]) (ob_id b) = length pre"
    "find_block pre (ob_id b) = length pre"
  using assms by (auto simp: find_block_def has_id_def takeWhile_append2 takeWhile_eq_all_conv [THEN iffD2])

text \<open>The block the symbol goes to: the one that waits, or a new one of the announced size.\<close>

lemma find_or_create_waits:
  assumes "decoder_waits d p b D P dec" "block_ok d p b" "valid_symbol p b y"
  obtains pre block n dec' where
    "find_or_create dec (fst (arrival d p b y)) now = (length pre, dec')"
    "de_blocks dec' = pre @ [block]" "de_finished dec' = de_finished dec"
    "\<forall>block\<in>set pre. \<not> has_id b block" "holds_at n p b D P block" "length (ob_packets b) \<le> n" "n \<le> 64"
    "P \<noteq> {} \<or> (\<exists>j. y = DataSym j) \<Longrightarrow> n = slots d b P"
proof (cases "D = {} \<and> P = {}")
  case True
  let ?h = "fst (arrival d p b y)"
  define dec1 where "dec1 = (if length (de_blocks dec) \<ge> kMaximumOutstandingBlocks
      then dec\<lparr>de_blocks := tl (de_blocks dec),
               de_stats := (de_stats dec)\<lparr>fs_unrecoverable := fs_unrecoverable (de_stats dec) + 1\<rparr>\<rparr>
      else dec)"
  define block where "block = \<lparr>fb_id = sh_block_id ?h, fb_data_count = unat (sh_block_size ?h),
      fb_parity_count = unat (sh_parity_count ?h), fb_data_received = 0,
      fb_data = replicate (unat (sh_block_size ?h)) [], fb_parity = replicate (unat (sh_parity_count ?h)) [],
      fb_created = now\<rparr>"
  have none: "\<forall>block\<in>set (de_blocks dec). \<not> has_id b block" using assms(1) True by (simp add: decoder_waits_def)
  have id: "sh_block_id ?h = ob_id b" by (cases y) (simp_all add: parity_header_def)
  have sizes: "unat (of_nat p :: u8) = p" "unat (of_nat d :: u8) = d"
    "unat (of_nat (length (ob_packets b)) :: u8) = length (ob_packets b)"
    using assms(2) by (simp_all add: unat_of_nat block_ok_def fec_consts)
  have "find_or_create dec ?h now = (length (de_blocks dec1), dec1\<lparr>de_blocks := de_blocks dec1 @ [block]\<rparr>)"
    unfolding find_or_create_def id find_block_last(2) [OF none]
    by (simp add: Let_def dec1_def block_def id)
  moreover have "holds_at (unat (sh_block_size ?h)) p b D P block"
    using True sizes by (cases y) (auto simp: holds_at_def block_def parity_header_def map_replicate_const)
  moreover have "\<forall>block\<in>set (de_blocks dec1). \<not> has_id b block"
    using none by (cases "de_blocks dec") (auto simp: dec1_def)
  moreover have "length (ob_packets b) \<le> unat (sh_block_size ?h)" "unat (sh_block_size ?h) \<le> 64"
    using assms(2) sizes by (cases y; simp add: block_ok_def parity_header_def fec_consts)+
  moreover have "unat (sh_block_size ?h) = slots d b P" if "\<exists>j. y = DataSym j"
    using that True sizes by (auto simp: slots_def)
  ultimately show thesis
    using True by (intro that [of "de_blocks dec1" "dec1\<lparr>de_blocks := de_blocks dec1 @ [block]\<rparr>" block "unat (sh_block_size ?h)"])
      (auto simp: dec1_def)
next
  case False
  with assms(1) have "\<exists>pre block. de_blocks dec = pre @ [block] \<and> (\<forall>block\<in>set pre. \<not> has_id b block) \<and>
      holds_block d p b D P block"
    by (simp only: decoder_waits_def if_False)
  then obtain pre block where pre: "de_blocks dec = pre @ [block]" "\<forall>block\<in>set pre. \<not> has_id b block"
    "holds_block d p b D P block"
    by blast
  have "sh_block_id (fst (arrival d p b y)) = ob_id b" by (cases y) (simp_all add: parity_header_def)
  moreover have "find_block (de_blocks dec) (ob_id b) = length pre"
    using find_block_last(1) [OF pre(2)] pre(1,3) by (simp add: has_id_def holds_at_def)
  ultimately have "find_or_create dec (fst (arrival d p b y)) now = (length pre, dec)"
    using pre(1) by (simp add: find_or_create_def)
  then show thesis
    using pre assms(2) by (intro that [of pre dec block "slots d b P"]) (auto simp: slots_def block_ok_def fec_consts)
qed

lemma decoder_waits_block:
  assumes "de_blocks dec = pre @ [block]" "\<forall>block\<in>set pre. \<not> has_id b block" "holds_block d p b D P block"
    "ob_id b \<notin> set (de_finished dec)" "D \<noteq> {} \<or> P \<noteq> {}"
  shows "decoder_waits d p b D P dec"
  using assms by (auto simp: decoder_waits_def)

lemma data_of_insert [simp]:
  "data_of (insert (DataSym j) S) = insert j (data_of S)" "data_of (insert (ParitySym r) S) = data_of S"
  by (auto simp: data_of_def)

lemma parity_of_insert [simp]:
  "parity_of (insert (ParitySym r) S) = insert r (parity_of S)" "parity_of (insert (DataSym j) S) = parity_of S"
  by (auto simp: parity_of_def)

text \<open>What \<^verbatim>\<open>receive\<close> does once the symbol is stored.\<close>

lemma receive_tail:
  fixes simd :: nat
  assumes "holds_block d p b D P block" "block_ok d p b"
    and "de_blocks dec = pre @ [block]" "\<forall>block\<in>set pre. \<not> has_id b block"
    and "ob_id b \<notin> set (de_finished dec)" "D \<noteq> {} \<or> P \<noteq> {}"
  defines "r \<equiv> (if fb_data_received block = fb_data_count block then ([], finish dec (fb_id block))
    else try_recover simd dec block)"
  shows "if enough d b D P
    then fst r = map ((!) (ob_packets b)) (filter (\<lambda>j. j \<notin> D) [0..<length (ob_packets b)]) \<and>
      ob_id b \<in> set (de_finished (snd r))
    else fst r = [] \<and> decoder_waits d p b D P (snd r)"
proof -
  let ?k = "length (ob_packets b)"
  have D: "D \<subseteq> {..<?k}" and counts: "fb_data_received block = card D" "fb_data_count block = slots d b P"
    and id: "fb_id block = ob_id b"
    using assms(1) by (auto simp: holds_at_def)
  have card: "card D \<le> ?k" using card_mono [OF _ D] by simp
  have k: "?k \<le> slots d b P" using assms(2) by (simp add: slots_def block_ok_def)
  consider (all) "card D = slots d b P" | (recover) "card D \<noteq> slots d b P" "enough d b D P"
    | (wait) "\<not> enough d b D P" by blast
  then show ?thesis
  proof cases
    case all
    then have "card D = card {..<?k}" using card k by simp
    then have "D = {..<?k}" by (intro card_subset_eq D) simp
    moreover have "enough d b D P" using all by (simp add: enough_def)
    ultimately show ?thesis using all counts id finish_finished [of "ob_id b" dec] by (simp add: r_def)
  next
    case recover
    then have "P \<noteq> {}" "?k \<le> card D + card P" by (auto simp: enough_def)
    moreover from this recover have "card D < ?k" using card by (simp add: slots_def)
    ultimately obtain stats where "try_recover simd dec block =
        (map ((!) (ob_packets b)) (filter (\<lambda>j. j \<notin> D) [0..<?k]), finish (dec\<lparr>de_stats := stats\<rparr>) (ob_id b))"
      using try_recover_succeeds [OF assms(1,2)] by blast
    then show ?thesis using recover counts finish_finished by (simp add: r_def)
  next
    case wait
    then have "P = {} \<or> card D + card P < ?k" "card D \<noteq> slots d b P" by (auto simp: enough_def)
    then have "r = ([], dec)" using try_recover_waits [OF assms(1,2)] counts by (simp add: r_def)
    moreover have "decoder_waits d p b D P dec" using assms by (intro decoder_waits_block)
    ultimately show ?thesis using wait by simp
  qed
qed

lemma receive_step:
  fixes simd :: nat and now :: instant
  assumes "decoder_waits d p b (data_of S) (parity_of S) dec" "block_ok d p b" "valid_symbol p b y"
    and "\<not> enough d b (data_of S) (parity_of S)"
  defines "S' \<equiv> insert y S"
    and "r \<equiv> fec_receive simd dec (fst (arrival d p b y)) (snd (arrival d p b y)) now"
  shows "if enough d b (data_of S') (parity_of S')
    then fst r = map ((!) (ob_packets b)) (filter (\<lambda>j. j \<notin> data_of S') [0..<length (ob_packets b)]) \<and>
      ob_id b \<in> set (de_finished (snd r))
    else fst r = [] \<and> decoder_waits d p b (data_of S') (parity_of S') (snd r)"
proof -
  let ?h = "fst (arrival d p b y)" and ?k = "length (ob_packets b)"
  define dec0 where "dec0 = dec\<lparr>de_stats := (de_stats dec)\<lparr>fs_symbols_received := fs_symbols_received (de_stats dec) + 1\<rparr>\<rparr>"
  have "decoder_waits d p b (data_of S) (parity_of S) dec0"
    using assms(1) by (simp add: decoder_waits_def dec0_def)
  then obtain pre block n dec' where
    find: "find_or_create dec0 ?h now = (length pre, dec')" and
    blocks: "de_blocks dec' = pre @ [block]" and fin: "de_finished dec' = de_finished dec0" and
    pre: "\<forall>block\<in>set pre. \<not> has_id b block" and
    holds: "holds_at n p b (data_of S) (parity_of S) block" and n: "?k \<le> n" "n \<le> 64" and
    slots: "parity_of S \<noteq> {} \<or> (\<exists>j. y = DataSym j) \<Longrightarrow> n = slots d b (parity_of S)"
    using find_or_create_waits [OF _ assms(2,3)] by metis
  have id: "sh_block_id ?h = ob_id b" "unat (sh_parity_count ?h) = p"
    using assms(2) by (cases y; simp add: parity_header_def unat_of_nat block_ok_def fec_consts)+
  have open_block: "ob_id b \<notin> set (de_finished dec')" "\<not> recently_finished dec0 (ob_id b)"
    using assms(1) fin by (simp_all add: decoder_waits_def dec0_def recently_finished_def)
  have "fb_parity_count block = p" using holds by (simp add: holds_at_def)
  then have r: "r = (case if sh_parity ?h then store_parity block ?h (snd (arrival d p b y))
        else store_data block ?h (snd (arrival d p b y)) of (block, stored) \<Rightarrow>
      let dec = dec'\<lparr>de_blocks := pre @ [block]\<rparr>
      in if \<not> stored then ([], dec)
      else if fb_data_received block = fb_data_count block then ([], finish dec (fb_id block))
      else try_recover simd dec block)"
    using id open_block(2) find blocks
    by (simp add: r_def fec_receive_def Let_def split_beta flip: dec0_def)
  have ne: "data_of S' \<noteq> {} \<or> parity_of S' \<noteq> {}" by (cases y) (auto simp: S'_def)
  have tail: ?thesis
    if "(if sh_parity ?h then store_parity block ?h (snd (arrival d p b y))
        else store_data block ?h (snd (arrival d p b y))) = (block', True)"
      "holds_block d p b (data_of S') (parity_of S') block'" for block'
  proof -
    show ?thesis
      using ne receive_tail [OF that(2) assms(2), of "dec'\<lparr>de_blocks := pre @ [block']\<rparr>" pre simd] pre open_block(1)
      unfolding r that(1) prod.case Let_def by simp
  qed
  have dup: ?thesis
    if "(if sh_parity ?h then store_parity block ?h (snd (arrival d p b y))
        else store_data block ?h (snd (arrival d p b y))) = (block', False)"
      "holds_block d p b (data_of S') (parity_of S') block'" "data_of S' = data_of S" "parity_of S' = parity_of S" for block'
  proof -
    have "decoder_waits d p b (data_of S') (parity_of S') (dec'\<lparr>de_blocks := pre @ [block']\<rparr>)"
      using ne pre open_block(1) that(2) by (intro decoder_waits_block) simp_all
    moreover have "r = ([], dec'\<lparr>de_blocks := pre @ [block']\<rparr>)" unfolding r that(1) by (simp add: Let_def)
    ultimately show ?thesis using assms(4) that(3,4) by simp
  qed
  show ?thesis
  proof (cases y)
    case (DataSym j)
    then have "n = slots d b (parity_of S)" "j < ?k" using slots assms(3) by auto
    then show ?thesis
      using store_data_new [OF holds, of j d] holds_at_data [OF holds, of j] n holds DataSym dup tail
      by (cases "j \<in> data_of S") (auto simp: S'_def insert_absorb)
  next
    case (ParitySym i)
    then have i: "i < p" using assms(3) by simp
    note shrunk = shrink_block_holds [OF holds n(1)]
    have "slots d b (parity_of S') = ?k" using ParitySym by (simp add: S'_def slots_def)
    then show ?thesis
      using store_parity_new [OF holds i assms(2) n(1)] shrunk holds_at_parity [OF shrunk i] ParitySym dup tail
      by (cases "i \<in> parity_of S") (auto simp: S'_def insert_absorb parity_header_def Let_def)
  qed
qed

subsection \<open>Every sufficient set of symbols recovers the block\<close>

definition receive_symbol :: "nat \<Rightarrow> nat \<Rightarrow> nat \<Rightarrow> OpenBlock \<Rightarrow> FecDecoder \<Rightarrow> symbol_id \<times> instant \<Rightarrow> bytes list \<times> FecDecoder" where
  "receive_symbol simd d p b dec =
     (\<lambda>(y, now). fec_receive simd dec (fst (arrival d p b y)) (snd (arrival d p b y)) now)"

lemma receive_finished:
  assumes "ob_id b \<in> set (de_finished dec)"
  shows "concat (outs (receive_symbol simd d p b) dec rs) = []"
  using assms
proof (induction rs arbitrary: dec)
  case (Cons r rs)
  have "sh_block_id (fst (arrival d p b y)) = ob_id b" for y
    by (cases y) (simp_all add: parity_header_def)
  then have "fst (receive_symbol simd d p b dec r) = []"
    "de_finished (snd (receive_symbol simd d p b dec r)) = de_finished dec"
    using Cons.prems
    by (simp_all add: receive_symbol_def fec_receive_def recently_finished_def Let_def split_beta)
  with Cons.prems Cons.IH [of "snd (receive_symbol simd d p b dec r)"] show ?case by simp
qed simp

lemma receive_run:
  assumes "decoder_waits d p b (data_of S) (parity_of S) dec" "block_ok d p b"
    and "\<not> enough d b (data_of S) (parity_of S)" "\<forall>(y, now)\<in>set rs. valid_symbol p b y"
  defines "T \<equiv> S \<union> fst ` set rs"
  shows "\<exists>js. concat (outs (receive_symbol simd d p b) dec rs) = map ((!) (ob_packets b)) js \<and>
    distinct js \<and> set js \<subseteq> {..<length (ob_packets b)} \<and>
    (enough d b (data_of T) (parity_of T) \<longrightarrow> {..<length (ob_packets b)} \<subseteq> data_of T \<union> set js)"
  using assms(1,3,4) unfolding T_def
proof (induction rs arbitrary: S dec)
  case Nil
  then show ?case by auto
next
  case (Cons r rs)
  obtain y now where r: "r = (y, now)" by force
  let ?S = "insert y S"
  let ?o = "fec_receive simd dec (fst (arrival d p b y)) (snd (arrival d p b y)) now"
  have "valid_symbol p b y" using Cons.prems(3) r by simp
  note step = receive_step [OF Cons.prems(1) assms(2) this Cons.prems(2), where simd = simd and now = now]
  have outs: "outs (receive_symbol simd d p b) dec (r # rs) = fst ?o # outs (receive_symbol simd d p b) (snd ?o) rs"
    by (simp add: receive_symbol_def r)
  have T: "S \<union> fst ` set (r # rs) = ?S \<union> fst ` set rs" by (simp add: r)
  show ?case
  proof (cases "enough d b (data_of ?S) (parity_of ?S)")
    case True
    let ?js = "filter (\<lambda>j. j \<notin> data_of ?S) [0..<length (ob_packets b)]"
    have "concat (outs (receive_symbol simd d p b) dec (r # rs)) = map ((!) (ob_packets b)) ?js"
      using True step receive_finished [of b "snd ?o" simd d p rs] by (simp only: outs concat.simps if_True) simp
    moreover have "{..<length (ob_packets b)} \<subseteq> data_of (S \<union> fst ` set (r # rs)) \<union> set ?js"
      unfolding T by (auto simp: data_of_def)
    ultimately show ?thesis by (intro exI [of _ ?js]) auto
  next
    case False
    then have "fst ?o = []" "decoder_waits d p b (data_of ?S) (parity_of ?S) (snd ?o)" using step by auto
    moreover have "\<forall>(y, now)\<in>set rs. valid_symbol p b y" using Cons.prems(3) by simp
    ultimately show ?thesis using Cons.IH [of ?S "snd ?o"] False unfolding outs T by simp
  qed
qed

lemma card_symbols:
  assumes "finite T"
  shows "card T = card (data_of T) + card (parity_of T)"
proof -
  have T: "T = DataSym ` data_of T \<union> ParitySym ` parity_of T"
    by (auto simp: data_of_def parity_of_def image_iff) (metis symbol_id.exhaust)
  have "finite (data_of T)" "finite (parity_of T)"
    using assms finite_imageI [OF assms, of "case_symbol_id id id"]
    by (auto simp: data_of_def parity_of_def intro!: finite_vimageI [unfolded vimage_def] injI)
  then have "card (DataSym ` data_of T \<union> ParitySym ` parity_of T) = card (data_of T) + card (parity_of T)"
    by (subst card_Un_disjoint) (auto simp: card_image inj_on_def)
  then show ?thesis using T by simp
qed

text \<open>
  C4: Take any block of 1 to 64 packets of at most 65535 bytes, with at most 16 parity rows, whether it
  was filled or flushed early. Deliver any of its data and parity symbols to a decoder that does not
  know the block yet, in any order, with any repetitions and at any times. Whatever the decoder
  returns are packets of the block, each at most once; and as soon as at least as many different
  symbols arrived as the block has packets, every packet has either arrived itself or been returned,
  byte for byte.
\<close>
theorem fec_recovers_block:
  assumes "block_ok d p b"
    and "\<forall>(y, now)\<in>set rs. valid_symbol p b y"
    and "ob_id b \<notin> set (de_finished dec)" "\<forall>block\<in>set (de_blocks dec). fb_id block \<noteq> ob_id b"
  shows "\<exists>js. concat (outs (receive_symbol simd d p b) dec rs) = map ((!) (ob_packets b)) js \<and>
    distinct js \<and> set js \<subseteq> {..<length (ob_packets b)} \<and>
    (length (ob_packets b) \<le> card (fst ` set rs) \<longrightarrow>
       {..<length (ob_packets b)} \<subseteq> data_of (fst ` set rs) \<union> set js)"
proof -
  let ?T = "fst ` set rs" and ?k = "length (ob_packets b)"
  have "decoder_waits d p b (data_of {}) (parity_of {}) dec"
    using assms(3,4) by (simp add: decoder_waits_def data_of_def parity_of_def has_id_def)
  moreover have "\<not> enough d b (data_of {}) (parity_of {})"
    using assms(1) by (cases "ob_packets b") (auto simp: enough_def data_of_def parity_of_def slots_def block_ok_def)
  ultimately obtain js where js: "concat (outs (receive_symbol simd d p b) dec rs) = map ((!) (ob_packets b)) js"
    "distinct js" "set js \<subseteq> {..<?k}" "enough d b (data_of ?T) (parity_of ?T) \<longrightarrow> {..<?k} \<subseteq> data_of ?T \<union> set js"
    using receive_run [OF _ assms(1) _ assms(2), of "{}" dec simd] by auto
  moreover have "{..<?k} \<subseteq> data_of ?T \<union> set js" if "?k \<le> card ?T"
  proof (cases "enough d b (data_of ?T) (parity_of ?T)")
    case False
    then have "?k \<le> card (data_of ?T)"
      using that card_symbols [of ?T] by (cases "parity_of ?T = {}") (auto simp: enough_def)
    moreover have "data_of ?T \<subseteq> {..<?k}" using assms(2) by (fastforce simp: data_of_def)
    ultimately have "data_of ?T = {..<?k}" by (metis card_lessThan card_seteq finite_lessThan)
    then show ?thesis by blast
  qed (use js in blast)
  ultimately show ?thesis by blast
qed

theorem fec_recovers_block_witness:
  "\<exists>js. concat (outs (receive_symbol 0 2 2 \<lparr>ob_id = 5, ob_packets = [[1, 2, 3], [4]]\<rparr>) new_decoder
       [(ParitySym 1, 0), (DataSym 1, 7)]) = map ((!) [[1, 2, 3], [4]]) js \<and> 0 \<in> set js"
proof -
  let ?b = "\<lparr>ob_id = 5, ob_packets = [[1, 2, 3], [4]]\<rparr>" and ?rs = "[(ParitySym 1, 0), (DataSym 1, 7 :: instant)]"
  have "block_ok 2 2 ?b" "\<forall>(y, now)\<in>set ?rs. valid_symbol 2 ?b y"
    "ob_id ?b \<notin> set (de_finished new_decoder)" "\<forall>block\<in>set (de_blocks new_decoder). fb_id block \<noteq> ob_id ?b"
    by (simp_all add: block_ok_def fec_consts new_decoder_def)
  from fec_recovers_block [OF this, of 0] obtain js
    where "concat (outs (receive_symbol 0 2 2 ?b) new_decoder ?rs) = map ((!) (ob_packets ?b)) js"
      "length (ob_packets ?b) \<le> card (fst ` set ?rs) \<longrightarrow>
        {..<length (ob_packets ?b)} \<subseteq> data_of (fst ` set ?rs) \<union> set js"
    by blast
  moreover from this(2) have "0 \<in> set js" by (auto simp: data_of_def)
  ultimately show ?thesis by (intro exI [of _ js]) simp
qed

text \<open>The data symbols of a block are the packets under the headers the encoder announces for them.\<close>

lemma next_header_arrival:
  assumes "encodes plan e s"
  defines "b \<equiv> es_blocks s ! es_cursor s"
  shows "next_header e (length q) =
    fst (arrival (fp_data plan) (fp_parity plan) (b\<lparr>ob_packets := ob_packets b @ q # qs\<rparr>)
      (DataSym (length (ob_packets b))))"
  using assms
  by (auto simp: next_header_def encodes_def list_all2_conv_all_nth lane_encodes_def plan_ok_def Let_def)

subsection \<open>The decoder's memory is bounded\<close>

datatype decoder_op = ReceiveOp FecSymbolHeader bytes instant | ExpireOp instant

primrec decoder_step :: "nat \<Rightarrow> FecDecoder \<Rightarrow> decoder_op \<Rightarrow> bytes list \<times> FecDecoder" where
  "decoder_step simd dec (ReceiveOp h payload now) = fec_receive simd dec h payload now"
| "decoder_step simd dec (ExpireOp now) = ([], snd (expire_fec dec now))"

definition decoder_bounded :: "FecDecoder \<Rightarrow> bool" where
  "decoder_bounded dec \<longleftrightarrow> length (de_blocks dec) \<le> kMaximumOutstandingBlocks \<and>
     length (de_finished dec) \<le> 2 * kMaximumOutstandingBlocks"

lemma decoder_bounded_finish [simp]: "decoder_bounded dec \<Longrightarrow> decoder_bounded (finish dec ident)"
  using length_filter_le [of "\<lambda>block. fb_id block \<noteq> ident" "de_blocks dec"]
  by (auto simp: decoder_bounded_def finish_def trim_finished_drop kMaximumOutstandingBlocks_def
      simp del: length_filter_le)

lemma decoder_bounded_stats [simp]: "decoder_bounded (dec\<lparr>de_stats := st\<rparr>) = decoder_bounded dec"
  by (simp add: decoder_bounded_def)

lemma decoder_bounded_update [simp]:
  "decoder_bounded dec \<Longrightarrow> decoder_bounded (dec\<lparr>de_blocks := (de_blocks dec)[i := block]\<rparr>)"
  by (simp add: decoder_bounded_def)

lemma decoder_bounded_try_recover: "decoder_bounded dec \<Longrightarrow> decoder_bounded (snd (try_recover simd dec block))"
  by (simp add: try_recover_def Let_def split_beta split: option.split)

lemma decoder_bounded_find: "decoder_bounded dec \<Longrightarrow> decoder_bounded (snd (find_or_create dec h now))"
  by (auto simp: find_or_create_def Let_def decoder_bounded_def kMaximumOutstandingBlocks_def)

lemma decoder_bounded_receive:
  assumes "decoder_bounded dec"
  shows "decoder_bounded (snd (fec_receive simd dec h payload now))"
  using assms decoder_bounded_find [OF decoder_bounded_stats [THEN iffD2, OF assms]]
  by (simp add: fec_receive_def Let_def split_beta decoder_bounded_try_recover)

lemma expire_blocks_shrinks: "length (de_blocks (snd (expire_blocks dec now n))) \<le> length (de_blocks dec)"
proof (induction dec now n rule: expire_blocks.induct)
  case (1 dec now n)
  then show ?case by (subst expire_blocks.simps) auto
qed

text \<open>
  C39: Whatever symbols with whatever headers arrive, and whenever old blocks are expired, the decoder
  never holds more than 128 open blocks nor remembers more than 256 finished ones.
\<close>
theorem decoder_memory_bounded: "decoder_bounded (final (decoder_step simd) new_decoder ops)"
proof (rule final_invariant)
  show "decoder_bounded new_decoder" by (simp add: decoder_bounded_def new_decoder_def)
next
  fix dec op
  assume *: "decoder_bounded dec"
  show "decoder_bounded (snd (decoder_step simd dec op))"
  proof (cases op)
    case (ReceiveOp h payload now)
    then show ?thesis using * by (simp add: decoder_bounded_receive)
  next
    case (ExpireOp now)
    then show ?thesis
      using * expire_blocks_shrinks [of dec now 0]
      by (auto simp: expire_fec_def decoder_bounded_def split_beta trim_finished_drop kMaximumOutstandingBlocks_def)
  qed
qed

end
