(* ===== verification/Nonce.thy ===== *)
theory Nonce
  imports Wire
begin

text \<open>
  Packet counters and the AEAD nonces made of them (src/nonce.cpp; src/crypto.cpp repeats
  \<^verbatim>\<open>make_nonce\<close> as \<^verbatim>\<open>aead_nonce\<close>).
\<close>

definition make_nonce :: "u64 \<Rightarrow> bytes" where
  "make_nonce counter =
     fold (\<lambda>index nonce. nonce[4 + index := ucast (drop_bit (index * 8) counter)])
       [0..<8] (replicate 12 0)"

record PacketCounter =
  pc_value :: u64
  pc_exhausted :: bool

definition new_counter :: "u64 \<Rightarrow> PacketCounter" where
  "new_counter initial = \<lparr>pc_value = initial, pc_exhausted = False\<rparr>"

definition next_counter :: "PacketCounter \<Rightarrow> (Error + u64) \<times> PacketCounter" where
  "next_counter c =
     (if pc_exhausted c then (Inl counter_exhausted, c)
      else (Inr (pc_value c),
            if pc_value c = 0xFFFFFFFFFFFFFFFF then c\<lparr>pc_exhausted := True\<rparr>
            else c\<lparr>pc_value := pc_value c + 1\<rparr>))"

subsection \<open>Nonces are distinct\<close>

lemma make_nonce_bytes: "make_nonce c = replicate 4 0 @ rev (to_be 8 c)"
  by (simp add: make_nonce_def to_be_def upt_8 replicate_numeral)

lemma inj_make_nonce: "inj make_nonce"
proof (rule injI)
  fix c d assume "make_nonce c = make_nonce d"
  then have "to_be 8 c = to_be 8 d" by (simp add: make_nonce_bytes)
  then have "be (to_be 8 c) = (be (to_be 8 d) :: u64)" by simp
  then show "c = d" by simp
qed

text \<open>The counters that are still to be handed out.\<close>

definition remaining :: "PacketCounter \<Rightarrow> u64 set" where
  "remaining c = (if pc_exhausted c then {} else {pc_value c..})"

lemma next_counter_remaining:
  assumes "next_counter c = (Inr n, c')"
  shows "n \<in> remaining c" "remaining c' = remaining c - {n}"
proof -
  have n: "n = pc_value c" and "\<not> pc_exhausted c"
    using assms by (auto simp: next_counter_def split: if_splits)
  then show "n \<in> remaining c" by (simp add: remaining_def)
  show "remaining c' = remaining c - {n}"
  proof (cases "pc_value c = - 1")
    case True
    then have "{pc_value c..} = {pc_value c}" by (auto simp: word_order.extremum_unique)
    with True assms show ?thesis
      by (auto simp: next_counter_def remaining_def split: if_splits)
  next
    case False
    then have "{pc_value c + 1..} = {pc_value c..} - {pc_value c}"
      using add_one_le_iff [OF False] by blast
    moreover have "c' = c\<lparr>pc_value := pc_value c + 1\<rparr>"
      using False assms by (auto simp: next_counter_def split: if_split_asm)
    ultimately show ?thesis using n \<open>\<not> pc_exhausted c\<close> by (simp add: remaining_def)
  qed
qed

definition counters_of :: "(Error + u64) list \<Rightarrow> u64 list" where
  "counters_of rs = concat (map (case_sum (\<lambda>_. []) (\<lambda>n. [n])) rs)"

lemma counters_of_simps [simp]:
  "counters_of [] = []"
  "counters_of (Inl e # rs) = counters_of rs"
  "counters_of (Inr n # rs) = n # counters_of rs"
  by (simp_all add: counters_of_def)

lemma next_counter_Inl: "next_counter c = (Inl e, c') \<Longrightarrow> c' = c"
  by (simp add: next_counter_def split: if_splits)

lemma counters_distinct:
  "distinct (counters_of (outs (\<lambda>c _. next_counter c) c us)) \<and>
   set (counters_of (outs (\<lambda>c _. next_counter c) c us)) \<subseteq> remaining c"
proof (induction us arbitrary: c)
  case Nil
  then show ?case by simp
next
  case (Cons u us)
  obtain r c' where step: "next_counter c = (r, c')" by fastforce
  show ?case
  proof (cases r)
    case (Inl e)
    with step have "c' = c" using next_counter_Inl by simp
    with Inl step show ?thesis using Cons.IH [of c] by simp
  next
    case (Inr n)
    with step show ?thesis
      using Cons.IH [of c'] next_counter_remaining [of c n c'] by auto
  qed
qed

text \<open>
  A nonce is never used twice under one key. However often \<^verbatim>\<open>PacketCounter::next\<close> is called,
  the nonces made of the counters it hands out are pairwise distinct; the counter reports
  exhaustion rather than wrapping around.
\<close>

lemma nonces_never_repeat:
  "distinct (map make_nonce
     (counters_of (outs (\<lambda>c (u :: unit). next_counter c) (new_counter initial) us)))"
  using counters_distinct [of "new_counter initial" us] inj_make_nonce
  by (auto simp: distinct_map intro: inj_on_subset)

end
