(* ===== verification/Handshake.thy ===== *)
theory Handshake
  imports Norr_Prelude
begin

text \<open>
  The handshake state machine (src/handshake.cpp). \<^verbatim>\<open>HandshakeMessage\<close> has the underlying type
  \<^verbatim>\<open>int\<close> and the frame parser casts any byte of the wire to it, so a message is an \<open>int\<close> here, with
  the enumerators as constants.
\<close>

datatype HandshakeRole = role_initiator | role_responder

datatype HandshakeState = hs_idle | hs_init_sent | hs_response_received | hs_response_sent
  | hs_confirm_sent | hs_established | hs_rekeying | hs_closing | hs_closed

type_synonym HandshakeMessage = int

abbreviation hm_none :: HandshakeMessage where "hm_none \<equiv> 0"
abbreviation hm_init :: HandshakeMessage where "hm_init \<equiv> 1"
abbreviation hm_response :: HandshakeMessage where "hm_response \<equiv> 2"
abbreviation hm_confirm :: HandshakeMessage where "hm_confirm \<equiv> 3"
abbreviation hm_rekey_init :: HandshakeMessage where "hm_rekey_init \<equiv> 4"
abbreviation hm_rekey_ack :: HandshakeMessage where "hm_rekey_ack \<equiv> 5"
abbreviation hm_cookie_reply :: HandshakeMessage where "hm_cookie_reply \<equiv> 6"

datatype HandshakeError = invalid_role | invalid_transition | unauthenticated_message
  | generation_exhausted

type_synonym KeyGeneration = u32

definition kMaximumKeyGeneration :: KeyGeneration where
  "kMaximumKeyGeneration = 0xFFFFFFFF"

record HandshakeMachine =
  hm_role :: HandshakeRole
  hm_state :: HandshakeState
  hm_generation :: KeyGeneration

definition new_machine :: "HandshakeRole \<Rightarrow> HandshakeMachine" where
  "new_machine r = \<lparr>hm_role = r, hm_state = hs_idle, hm_generation = 0\<rparr>"

type_synonym machine_result = "(HandshakeError + HandshakeMessage) \<times> HandshakeMachine"

definition start :: "HandshakeMachine \<Rightarrow> machine_result" where
  "start m =
     (if hm_role m \<noteq> role_initiator then (Inl invalid_role, m)
      else if hm_state m \<noteq> hs_idle then (Inl invalid_transition, m)
      else (Inr hm_init, m\<lparr>hm_state := hs_init_sent\<rparr>))"

definition receive :: "HandshakeMachine \<Rightarrow> HandshakeMessage \<Rightarrow> bool \<Rightarrow> machine_result" where
  "receive m message authenticated =
     (if \<not> authenticated then (Inl unauthenticated_message, m)
      else if hm_role m = role_initiator \<and> hm_state m = hs_init_sent \<and> message = hm_response
      then (Inr hm_confirm, m\<lparr>hm_state := hs_response_received\<rparr>)
      else if hm_role m = role_responder \<and> hm_state m = hs_idle \<and> message = hm_init
      then (Inr hm_response, m\<lparr>hm_state := hs_response_sent\<rparr>)
      else if hm_role m = role_responder \<and> hm_state m = hs_response_sent \<and> message = hm_confirm
      then (Inr hm_none, m\<lparr>hm_state := hs_established\<rparr>)
      else if hm_role m = role_initiator \<and> hm_state m = hs_confirm_sent \<and> message = hm_none
      then (Inr hm_none, m\<lparr>hm_state := hs_established\<rparr>)
      else if hm_state m = hs_established \<and> message = hm_rekey_init
      then if hm_generation m = kMaximumKeyGeneration then (Inl generation_exhausted, m)
           else (Inr hm_rekey_ack, m\<lparr>hm_state := hs_rekeying\<rparr>)
      else if hm_state m = hs_rekeying \<and> message = hm_rekey_ack
      then (Inr hm_none, m\<lparr>hm_generation := hm_generation m + 1, hm_state := hs_established\<rparr>)
      else if hm_state m = hs_rekeying \<and> message = hm_none
      then (Inr hm_none, m\<lparr>hm_generation := hm_generation m + 1, hm_state := hs_established\<rparr>)
      else (Inl invalid_transition, m))"

definition send_confirm :: "HandshakeMachine \<Rightarrow> machine_result" where
  "send_confirm m =
     (if hm_role m \<noteq> role_initiator then (Inl invalid_role, m)
      else if hm_state m \<noteq> hs_response_received then (Inl invalid_transition, m)
      else (Inr hm_confirm, m\<lparr>hm_state := hs_confirm_sent\<rparr>))"

definition start_rekey :: "HandshakeMachine \<Rightarrow> machine_result" where
  "start_rekey m =
     (if hm_state m \<noteq> hs_established then (Inl invalid_transition, m)
      else if hm_generation m = kMaximumKeyGeneration then (Inl generation_exhausted, m)
      else (Inr hm_rekey_init, m\<lparr>hm_state := hs_rekeying\<rparr>))"

definition close_machine :: "HandshakeMachine \<Rightarrow> HandshakeMachine" where
  "close_machine m = m\<lparr>hm_state := hs_closed\<rparr>"

definition begin_close :: "HandshakeMachine \<Rightarrow> HandshakeMachine" where
  "begin_close m = m\<lparr>hm_state := hs_closing\<rparr>"

subsection \<open>Runs of the machine\<close>

text \<open>
  The calls a client can make, as a step relation labelled with whether the call completed a
  rekey; \<open>machine_run m k m'\<close> says that some sequence of calls takes \<open>m\<close> to \<open>m'\<close> and completes
  \<open>k\<close> rekeys.
\<close>

inductive machine_step :: "HandshakeMachine \<Rightarrow> bool \<Rightarrow> HandshakeMachine \<Rightarrow> bool" where
  step_start: "machine_step m False (snd (start m))"
| step_receive:
    "machine_step m (hm_state m = hs_rekeying \<and> hm_state (snd (receive m msg auth)) = hs_established)
       (snd (receive m msg auth))"
| step_confirm: "machine_step m False (snd (send_confirm m))"
| step_rekey: "machine_step m False (snd (start_rekey m))"
| step_close: "machine_step m False (close_machine m)"
| step_begin_close: "machine_step m False (begin_close m)"

inductive machine_run :: "HandshakeMachine \<Rightarrow> nat \<Rightarrow> HandshakeMachine \<Rightarrow> bool" where
  run_refl: "machine_run m 0 m"
| run_step: "machine_run m k m' \<Longrightarrow> machine_step m' done m'' \<Longrightarrow>
    machine_run m (if done then Suc k else k) m''"

text \<open>A machine that is rekeying has a generation left.\<close>

definition machine_ok :: "HandshakeMachine \<Rightarrow> bool" where
  "machine_ok m \<longleftrightarrow> (hm_state m = hs_rekeying \<longrightarrow> hm_generation m < kMaximumKeyGeneration)"

lemma max_generation: "kMaximumKeyGeneration = - 1"
  by (simp add: kMaximumKeyGeneration_def)

lemma below_max_generation: "g < kMaximumKeyGeneration \<longleftrightarrow> g \<noteq> kMaximumKeyGeneration"
  unfolding max_generation using word_order.not_eq_extremum [of g] by simp

lemma receive_generation:
  "hm_generation (snd (receive m msg auth)) = hm_generation m +
     (if hm_state m = hs_rekeying \<and> hm_state (snd (receive m msg auth)) = hs_established
      then 1 else 0)"
  by (simp add: receive_def)

lemma receive_rekeying:
  "hm_state (snd (receive m msg auth)) = hs_rekeying \<Longrightarrow>
     hm_generation (snd (receive m msg auth)) = hm_generation m \<and>
     (hm_state m = hs_rekeying \<or> hm_generation m \<noteq> kMaximumKeyGeneration)"
  by (simp add: receive_def split: if_split_asm)

lemmas simple_ops = start_def send_confirm_def start_rekey_def close_machine_def begin_close_def

lemma machine_step_ok [inv_intros]:
  assumes "machine_step m d m'" "machine_ok m"
  shows "machine_ok m'"
  using assms
proof cases
  case (step_receive msg auth)
  then show ?thesis
    using assms(2) receive_rekeying [of m msg auth]
    by (auto simp: machine_ok_def below_max_generation)
qed (auto simp: machine_ok_def simple_ops below_max_generation)

lemma machine_step_generation:
  assumes "machine_step m d m'" "machine_ok m"
  shows "unat (hm_generation m') = unat (hm_generation m) + (if d then 1 else 0)"
  using assms
proof cases
  case (step_receive msg auth)
  then show ?thesis
    using assms(2) unat_add_one_less [of "hm_generation m" kMaximumKeyGeneration]
    by (simp add: machine_ok_def receive_generation)
qed (auto simp: simple_ops)

lemma machine_run_ok:
  assumes "machine_run m k m'" "machine_ok m"
  shows "machine_ok m'"
  using assms by (induction rule: machine_run.induct) (auto intro: inv_intros)

text \<open>
  Key generations are counted exactly. After any sequence of calls on a new machine, whatever
  messages it was handed, the generation is the number of rekeys that completed: it never wraps
  around to a generation used before, and no other call changes it.
\<close>

lemma generation_counts_rekeys:
  assumes "machine_run (new_machine r) k m"
  shows "unat (hm_generation m) = k"
proof -
  have "machine_ok m \<and> unat (hm_generation m) = k"
    using assms
  proof (induction "new_machine r" k m rule: machine_run.induct)
    case run_refl
    then show ?case by (simp add: machine_ok_def new_machine_def)
  next
    case (run_step k m' d m'')
    then show ?case using machine_step_ok machine_step_generation by auto
  qed
  then show ?thesis ..
qed

end
