(* ===== verification/Crypto.thy ===== *)
theory Crypto
  imports Wire Nonce Handshake
begin

text \<open>
  Key labels (src/key_schedule.cpp) and the authenticated encryption of packets under a traffic key
  (\<^verbatim>\<open>TrafficKeys\<close> in src/crypto.cpp). The cipher itself, ChaCha20-Poly1305 of libsodium or OpenSSL, is
  the pair of parameters \<open>encrypt\<close> and \<open>decrypt\<close>: key, nonce, associated data and message to the
  result, or \<open>None\<close> when the library call reports failure.
\<close>

datatype CryptoError = ce_unsupported_platform | ce_initialisation_failed | ce_authentication_failed
  | ce_buffer_too_small | ce_invalid_key_length | ce_invalid_nonce | ce_counter_exhausted
  | ce_weak_public_key

definition kAeadTagSize :: nat where "kAeadTagSize = 16"
definition kKeyLength :: nat where "kKeyLength = 32"

subsection \<open>Key labels\<close>

datatype KeyDirection = initiator_to_responder | responder_to_initiator

definition kProtocolLabel :: string where "kProtocolLabel = ''norr v1''"
definition kDataLabel :: string where "kDataLabel = ''data''"
definition kControlLabel :: string where "kControlLabel = ''control''"

definition direction_label :: "KeyDirection \<Rightarrow> string" where
  "direction_label d = (if d = initiator_to_responder then ''i2r'' else ''r2i'')"

record KeyLabel =
  kl_bytes :: bytes
  kl_size :: nat

definition label_view :: "KeyLabel \<Rightarrow> bytes" where
  "label_view l = take (kl_size l) (kl_bytes l)"

definition byte_of_char :: "char \<Rightarrow> byte" where
  "byte_of_char c = of_nat (of_char c)"

definition append_u32 :: "KeyLabel \<Rightarrow> u32 \<Rightarrow> KeyLabel" where
  "append_u32 l value =
     l\<lparr>kl_bytes := fold (\<lambda>index b. b[kl_size l + index := ucast (drop_bit ((3 - index) * 8) value)])
         [0..<4] (kl_bytes l),
       kl_size := kl_size l + 4\<rparr>"

definition append_text :: "KeyLabel \<Rightarrow> string \<Rightarrow> KeyLabel option" where
  "append_text l text =
     (if kl_size l + length text > length (kl_bytes l) then None
      else Some (fold (\<lambda>character l.
             l\<lparr>kl_bytes := (kl_bytes l)[kl_size l := byte_of_char character],
               kl_size := kl_size l + 1\<rparr>) text l))"

fun append_texts :: "KeyLabel \<Rightarrow> string list \<Rightarrow> KeyLabel option" where
  "append_texts l [] = Some l"
| "append_texts l (t # ts) =
     (case append_text l t of None \<Rightarrow> None | Some l' \<Rightarrow> append_texts l' ts)"

definition make_key_label :: "string \<Rightarrow> KeyDirection \<Rightarrow> KeyGeneration \<Rightarrow> Error + KeyLabel" where
  "make_key_label domain direction generation =
     (if domain = [] then Inl malformed_packet
      else case append_texts \<lparr>kl_bytes = replicate 64 0, kl_size = 0\<rparr>
                  [kProtocolLabel, '':'', domain, '':'', direction_label direction, '':''] of
             None \<Rightarrow> Inl packet_too_large
           | Some l \<Rightarrow>
               if kl_size l + 4 > length (kl_bytes l) then Inl packet_too_large
               else Inr (append_u32 l generation))"

lemma inj_byte_of_char: "byte_of_char c = byte_of_char d \<Longrightarrow> c = d"
proof -
  assume eq: "byte_of_char c = byte_of_char d"
  have "unat (byte_of_char x) = of_char x" for x
    by (simp add: byte_of_char_def unat_of_nat)
  then have "(of_char c :: nat) = of_char d" using eq by metis
  then show "c = d" by simp
qed

lemma append_text_view:
  assumes "append_text l s = Some l'"
  shows "label_view l' = label_view l @ map byte_of_char s \<and> length (kl_bytes l') = length (kl_bytes l) \<and>
    kl_size l' = kl_size l + length s"
proof -
  let ?f = "\<lambda>character l. l\<lparr>kl_bytes := (kl_bytes l)[kl_size l := byte_of_char character],
               kl_size := kl_size l + 1\<rparr>"
  have "kl_size l + length s \<le> length (kl_bytes l)" "l' = fold ?f s l"
    using assms by (simp_all add: append_text_def split: if_split_asm)
  then show ?thesis
  proof (induction s arbitrary: l l')
    case (Cons c s)
    have "label_view (?f c l) = label_view l @ [byte_of_char c]"
      using Cons.prems(1) by (simp add: label_view_def take_Suc_conv_app_nth)
    moreover have "label_view l' = label_view (?f c l) @ map byte_of_char s \<and>
        length (kl_bytes l') = length (kl_bytes (?f c l)) \<and> kl_size l' = kl_size (?f c l) + length s"
      using Cons.prems by (intro Cons.IH) simp_all
    ultimately show ?case by simp
  qed (simp add: label_view_def)
qed

lemma append_texts_view:
  "append_texts l ts = Some l' \<Longrightarrow>
     label_view l' = label_view l @ map byte_of_char (concat ts) \<and>
     length (kl_bytes l') = length (kl_bytes l) \<and> kl_size l' = kl_size l + length (concat ts)"
proof (induction ts arbitrary: l)
  case (Cons t ts)
  then obtain l1 where "append_text l t = Some l1" "append_texts l1 ts = Some l'"
    by (auto split: option.splits)
  then show ?case using Cons.IH [of l1] append_text_view [of l t l1] by simp
qed (simp add: label_view_def)

lemma append_u32_view:
  assumes "kl_size l + 4 \<le> length (kl_bytes l)"
  shows "label_view (append_u32 l g) = label_view l @ to_be 4 g"
proof -
  have "fold (\<lambda>index b. b[kl_size l + index := ucast (drop_bit ((3 - index) * 8) g)]) [0..<4] (kl_bytes l) =
      copy_to (kl_bytes l) (kl_size l) (to_be 4 g)"
    using assms by (simp add: upt_4 to_be_def list_update_copy copy_to_append)
  then show ?thesis using assms by (simp add: append_u32_def label_view_def copy_to_def)
qed

lemma make_key_label_view:
  assumes "make_key_label domain direction g = Inr l"
  shows "label_view l =
    map byte_of_char (kProtocolLabel @ '':'' @ domain @ '':'' @ direction_label direction @ '':'') @ to_be 4 g"
proof -
  obtain l' where l': "append_texts \<lparr>kl_bytes = replicate 64 0, kl_size = 0\<rparr>
      [kProtocolLabel, '':'', domain, '':'', direction_label direction, '':''] = Some l'"
    "kl_size l' + 4 \<le> length (kl_bytes l')" "l = append_u32 l' g"
    using assms by (auto simp: make_key_label_def split: if_split_asm option.split_asm)
  have "label_view \<lparr>kl_bytes = replicate 64 0, kl_size = 0\<rparr> = []" by (simp add: label_view_def)
  then show ?thesis
    using append_texts_view [OF l'(1)] append_u32_view [OF l'(2)] l'(3) by simp
qed

text \<open>
  Key labels are unambiguous. Two labels are equal only when domain, direction and key
  generation are, so no two traffic keys are derived from the same label.
\<close>

lemma key_labels_unambiguous:
  assumes "make_key_label domain direction g = Inr l" "make_key_label domain' direction' g' = Inr l'"
    and "label_view l = label_view l'"
  shows "domain = domain' \<and> direction = direction' \<and> g = g'"
proof -
  let ?t = "\<lambda>domain direction. kProtocolLabel @ '':'' @ domain @ '':'' @ direction_label direction @ '':''"
  have eq: "map byte_of_char (?t domain direction) @ to_be 4 g =
      map byte_of_char (?t domain' direction') @ to_be 4 g'"
    using assms by (simp only: make_key_label_view)
  then have "to_be 4 g = to_be 4 g'"
    and t: "map byte_of_char (?t domain direction) = map byte_of_char (?t domain' direction')"
    by (simp_all only: append_eq_append_conv length_to_be simp_thms)
  then have "be (to_be 4 g) = (be (to_be 4 g') :: u32)" by simp
  then have g: "g = g'" by simp
  have "inj byte_of_char" by (rule injI) (rule inj_byte_of_char)
  then have "?t domain direction = ?t domain' direction'" by (rule map_injective [OF t])
  then have "domain @ '':'' @ direction_label direction = domain' @ '':'' @ direction_label direction'"
    by simp
  moreover have "length (direction_label d) = 3" for d by (simp add: direction_label_def)
  ultimately have "domain = domain' \<and> direction_label direction = direction_label direction'"
    by (simp add: append_eq_append_conv)
  then show ?thesis using g by (cases direction; cases direction') (simp_all add: direction_label_def)
qed

subsection \<open>Sealing and opening\<close>

record TrafficKeys =
  tk_key :: bytes
  tk_generation :: KeyGeneration

type_synonym aead = "bytes \<Rightarrow> bytes \<Rightarrow> bytes \<Rightarrow> bytes \<Rightarrow> bytes option"

text \<open>What the documentation of the cipher promises: the ciphertext is the message plus a 16-byte tag,
  and decryption under the same key, nonce and associated data gives the message back.\<close>

definition aead_laws :: "aead \<Rightarrow> aead \<Rightarrow> bool" where
  "aead_laws encrypt decrypt \<longleftrightarrow>
     (\<forall>key nonce ad p c. encrypt key nonce ad p = Some c \<longrightarrow>
        length c = length p + 16 \<and> decrypt key nonce ad c = Some p)"

definition aead_nonce :: "u64 \<Rightarrow> bytes" where
  "aead_nonce counter =
     fold (\<lambda>index nonce. nonce[4 + index := ucast (drop_bit (index * 8) counter)])
       [0..<8] (replicate 12 0)"

definition secure_zero :: "nat \<Rightarrow> bytes \<Rightarrow> bytes" where
  "secure_zero n buffer = replicate (min n (length buffer)) 0 @ drop n buffer"

definition seal_keys :: "aead \<Rightarrow> TrafficKeys \<Rightarrow> u64 \<Rightarrow> bytes \<Rightarrow> bytes \<Rightarrow> bytes \<Rightarrow>
    (CryptoError + nat) \<times> bytes" where
  "seal_keys encrypt k counter associated_data plaintext out =
     (if length out < length plaintext + kAeadTagSize then (Inl ce_buffer_too_small, out)
      else case encrypt (tk_key k) (aead_nonce counter) associated_data plaintext of
             None \<Rightarrow> (Inl ce_authentication_failed, out)
           | Some c \<Rightarrow> (Inr (length c), copy_to out 0 c))"

definition open_keys :: "aead \<Rightarrow> TrafficKeys \<Rightarrow> u64 \<Rightarrow> bytes \<Rightarrow> bytes \<Rightarrow> bytes \<Rightarrow>
    (CryptoError + nat) \<times> bytes" where
  "open_keys decrypt k counter associated_data ciphertext out =
     (if length ciphertext < kAeadTagSize then (Inl ce_authentication_failed, out)
      else if length out < length ciphertext - kAeadTagSize then (Inl ce_buffer_too_small, out)
      else case decrypt (tk_key k) (aead_nonce counter) associated_data ciphertext of
             None \<Rightarrow> (Inl ce_authentication_failed,
                       secure_zero (min (length out) (length ciphertext)) out)
           | Some p \<Rightarrow> (Inr (length p), copy_to out 0 p))"

lemma aead_nonce_eq: "aead_nonce = make_nonce"
  by (simp add: fun_eq_iff aead_nonce_def make_nonce_def)

lemma open_seal_keys:
  assumes "aead_laws encrypt decrypt" "tk_key k = tk_key k'"
    and "seal_keys encrypt k counter ad p out = (Inr n, out')" "length p \<le> length buf"
  shows "n = length p + 16" "length out' = length out" "n \<le> length out"
    "open_keys decrypt k' counter ad (take n out') buf = (Inr (length p), copy_to buf 0 p)"
proof -
  obtain c where c: "encrypt (tk_key k) (aead_nonce counter) ad p = Some c"
    "n = length c" "out' = copy_to out 0 c" "length p + 16 \<le> length out"
    using assms(3) by (auto simp: seal_keys_def kAeadTagSize_def split: if_split_asm option.split_asm)
  have laws: "length c = length p + 16" "decrypt (tk_key k) (aead_nonce counter) ad c = Some p"
    using assms(1) c(1) by (auto simp: aead_laws_def)
  then show "n = length p + 16" "length out' = length out" "n \<le> length out"
    using c by simp_all
  have "take n out' = c" using c by (simp add: copy_to_0)
  then show "open_keys decrypt k' counter ad (take n out') buf = (Inr (length p), copy_to buf 0 p)"
    using laws assms(2,4) by (simp add: open_keys_def kAeadTagSize_def)
qed

end
