(* ===== verification/Replay_Window.thy ===== *)
theory Replay_Window
  imports Norr_Prelude
begin

text \<open>
  The anti-replay window of a session (src/replay\_window.cpp): a ring of 8192 bits, kept in 128
  words, that says which of the last 8192 packet counters have been accepted.
\<close>

datatype ReplayResult = rr_accepted | rr_replayed | rr_too_old

record ReplayWindow =
  rw_initialized :: bool
  rw_highest :: u64
  rw_seen :: "u64 list"

definition kWindowSize :: u64 where
  "kWindowSize = 8192"

definition kWordCount :: nat where
  "kWordCount = 128"

definition new_window :: ReplayWindow where
  "new_window = \<lparr>rw_initialized = False, rw_highest = 0, rw_seen = replicate kWordCount 0\<rparr>"

definition word_of :: "u64 \<Rightarrow> nat" where
  "word_of counter = unat ((counter div 64) mod (kWindowSize div 64))"

definition bit_of :: "u64 \<Rightarrow> u64" where
  "bit_of counter = push_bit (unat (counter mod 64)) 1"

definition test :: "ReplayWindow \<Rightarrow> u64 \<Rightarrow> bool" where
  "test w counter \<longleftrightarrow> (rw_seen w ! word_of counter) AND bit_of counter \<noteq> 0"

definition set_seen :: "ReplayWindow \<Rightarrow> u64 \<Rightarrow> ReplayWindow" where
  "set_seen w counter =
     w\<lparr>rw_seen := (rw_seen w)[word_of counter := (rw_seen w ! word_of counter) OR bit_of counter]\<rparr>"

text \<open>The loop of \<^verbatim>\<open>clear_range\<close>, which leaves with \<^verbatim>\<open>break\<close> at \<open>last\<close> so that a \<open>last\<close> of
  \<^verbatim>\<open>UINT64_MAX\<close> does not wrap.\<close>

function clear_loop :: "u64 \<Rightarrow> u64 \<Rightarrow> u64 list \<Rightarrow> u64 list" where
  "clear_loop counter lst seen =
     (if counter \<le> lst
      then let seen' = seen[word_of counter := (seen ! word_of counter) AND NOT (bit_of counter)]
           in if counter = lst then seen' else clear_loop (counter + 1) lst seen'
      else seen)"
  by pat_completeness auto
termination
proof (relation "measure (\<lambda>(c, l, s). unat l - unat c)", goal_cases)
  case 1
  then show ?case by simp
next
  case (2 c l s s')
  then have "c < l" by simp
  then show ?case by (simp add: unat_add_one_less word_less_nat_alt)
qed

declare clear_loop.simps [simp del]

definition clear_range :: "ReplayWindow \<Rightarrow> u64 \<Rightarrow> u64 \<Rightarrow> ReplayWindow" where
  "clear_range w frst lst =
     (if lst - frst + 1 \<ge> kWindowSize then w\<lparr>rw_seen := replicate kWordCount 0\<rparr>
      else w\<lparr>rw_seen := clear_loop frst lst (rw_seen w)\<rparr>)"

definition accept :: "ReplayWindow \<Rightarrow> u64 \<Rightarrow> ReplayResult \<times> ReplayWindow" where
  "accept w counter =
     (if \<not> rw_initialized w then
        (rr_accepted, set_seen (w\<lparr>rw_initialized := True, rw_highest := counter\<rparr>) counter)
      else if counter > rw_highest w then
        (rr_accepted,
         set_seen ((clear_range w (rw_highest w + 1) counter)\<lparr>rw_highest := counter\<rparr>) counter)
      else if rw_highest w - counter \<ge> kWindowSize then (rr_too_old, w)
      else if test w counter then (rr_replayed, w)
      else (rr_accepted, set_seen w counter))"


subsection \<open>The ring of bits\<close>

text \<open>Auxiliary view: the counter \<open>c\<close> lives in bit \<open>slot c\<close> of the ring.\<close>

definition slot :: "u64 \<Rightarrow> nat" where
  "slot c = unat c mod 8192"

definition ring_bit :: "u64 list \<Rightarrow> nat \<Rightarrow> bool" where
  "ring_bit seen i = bit (seen ! (i div 64)) (i mod 64)"

lemma slot_less [simp]: "slot c < 8192"
  by (simp add: slot_def)

lemma mod_8192_div_64: "m mod 8192 div 64 = m div 64 mod (128::nat)"
proof -
  have ring: "(8192::nat) = 64 * 128" by simp
  have "m mod (64 * 128) div 64 = (64 * (m div 64 mod 128) + m mod 64) div 64"
    by (rule arg_cong [OF mod_mult2_eq])
  also have "\<dots> = m div 64 mod 128" by simp
  finally show ?thesis unfolding ring .
qed

lemma word_of_slot: "word_of c = slot c div 64"
  by (simp add: word_of_def slot_def kWindowSize_def unat_mod unat_div mod_8192_div_64)

lemma bit_of_slot: "bit_of c = 2 ^ (slot c mod 64)"
  by (simp add: bit_of_def slot_def unat_mod mod_mod_cancel)

lemma word_of_less [simp]: "word_of c < 128"
  using slot_less [of c] by (simp add: word_of_slot less_mult_imp_div_less)

lemma test_ring: "test w c = ring_bit (rw_seen w) (slot c)"
  by (simp add: test_def ring_bit_def word_of_slot bit_of_slot and_bit_neq_0)

lemma slot_split: "i div 64 = j div 64 \<Longrightarrow> i mod 64 = j mod 64 \<Longrightarrow> i = (j::nat)"
  by (metis div_mult_mod_eq)

lemma ring_bit_set:
  assumes "length seen = 128" "i < 8192"
  shows "ring_bit (seen[word_of c := (seen ! word_of c) OR bit_of c]) i =
           (i = slot c \<or> ring_bit seen i)"
  using assms
  by (cases "i div 64 = slot c div 64")
     (auto simp: ring_bit_def word_of_slot bit_of_slot bit_or_iff bit_exp_iff nth_list_update less_mult_imp_div_less
        dest: slot_split)

lemma ring_bit_clear:
  assumes "length seen = 128" "i < 8192"
  shows "ring_bit (seen[word_of c := (seen ! word_of c) AND NOT (bit_of c)]) i =
           (i \<noteq> slot c \<and> ring_bit seen i)"
  using assms
  by (cases "i div 64 = slot c div 64")
     (auto simp: ring_bit_def word_of_slot bit_of_slot bit_and_iff bit_not_iff bit_exp_iff
        nth_list_update less_mult_imp_div_less dest: slot_split bit_imp_le_length)

lemma ring_bit_zero: "i < 8192 \<Longrightarrow> \<not> ring_bit (replicate kWordCount 0) i"
  by (simp add: ring_bit_def kWordCount_def)

lemma length_clear_loop [simp]: "length (clear_loop c l seen) = length seen"
  by (induction c l seen rule: clear_loop.induct)
     (subst clear_loop.simps, simp add: Let_def)

text \<open>The loop clears exactly the slots of the counters of its range.\<close>

lemma ring_bit_clear_loop:
  assumes "length seen = 128" "i < 8192"
  shows "ring_bit (clear_loop f l seen) i =
           (ring_bit seen i \<and> \<not> (\<exists>c. f \<le> c \<and> c \<le> l \<and> slot c = i))"
  using assms
proof (induction f l seen rule: clear_loop.induct)
  case (1 c l seen)
  define seen' where "seen' = seen[word_of c := (seen ! word_of c) AND NOT (bit_of c)]"
  have seen': "length seen' = 128" "ring_bit seen' i = (i \<noteq> slot c \<and> ring_bit seen i)"
    using "1.prems" by (simp_all add: seen'_def ring_bit_clear)
  consider "\<not> c \<le> l" | "c = l" | "c < l"
    using le_less [of c l] by blast
  then show ?case
  proof cases
    case 1
    then have "clear_loop c l seen = seen"
      by (subst clear_loop.simps) simp
    with 1 show ?thesis by (auto dest: order_trans)
  next
    case 2
    then have "clear_loop c l seen = seen'"
      by (subst clear_loop.simps) (simp add: seen'_def)
    with 2 seen' show ?thesis by (auto dest: order_antisym)
  next
    case 3
    then have range: "(c + 1 \<le> d) = (c < d)" for d
      using unat_add_one_less [OF 3] by (simp add: word_le_nat_alt word_less_nat_alt Suc_le_eq)
    have "clear_loop c l seen = clear_loop (c + 1) l seen'"
      using 3 by (simp add: clear_loop.simps [of c l seen] seen'_def less_imp_le less_imp_neq)
    moreover have "ring_bit (clear_loop (c + 1) l seen') i =
        (ring_bit seen' i \<and> \<not> (\<exists>d. c + 1 \<le> d \<and> d \<le> l \<and> slot d = i))"
      by (rule "1.IH" [OF less_imp_le [OF 3] seen'_def less_imp_neq [OF 3] seen'(1) "1.prems"(2)])
    moreover have "(\<exists>d. c \<le> d \<and> d \<le> l \<and> slot d = i) =
        (slot c = i \<or> (\<exists>d. c < d \<and> d \<le> l \<and> slot d = i))"
      using 3 le_less by blast
    ultimately show ?thesis
      using seen'(2) by (auto simp: range)
  qed
qed

subsection \<open>What the window promises\<close>

text \<open>
  The abstract filter keeps the set of all counters it ever accepted. It refuses a counter that
  is 8192 or more below the greatest accepted one, and one it has accepted before.
\<close>

definition spec_accept :: "u64 set \<Rightarrow> u64 \<Rightarrow> ReplayResult \<times> u64 set" where
  "spec_accept S c =
     (if S = {} \<or> Max S < c then (rr_accepted, insert c S)
      else if unat (Max S) - unat c \<ge> 8192 then (rr_too_old, S)
      else if c \<in> S then (rr_replayed, S)
      else (rr_accepted, insert c S))"

definition window_rel :: "ReplayWindow \<Rightarrow> u64 set \<Rightarrow> bool" where
  "window_rel w S \<longleftrightarrow>
     finite S \<and> length (rw_seen w) = 128 \<and> (rw_initialized w \<longleftrightarrow> S \<noteq> {}) \<and>
     (S = {} \<longrightarrow> (\<forall>i < 8192. \<not> ring_bit (rw_seen w) i)) \<and>
     (S \<noteq> {} \<longrightarrow> rw_highest w = Max S \<and>
        (\<forall>c \<le> Max S. unat (Max S) - unat c < 8192 \<longrightarrow> test w c = (c \<in> S)))"


lemma window_rel_new: "window_rel new_window {}"
  by (simp add: window_rel_def new_window_def kWordCount_def ring_bit_zero [unfolded kWordCount_def])

lemma set_seen_simps [simp]:
  "rw_initialized (set_seen w c) = rw_initialized w"
  "rw_highest (set_seen w c) = rw_highest w"
  "length (rw_seen (set_seen w c)) = length (rw_seen w)"
  by (simp_all add: set_seen_def)

lemma clear_range_simps [simp]:
  "rw_initialized (clear_range w f l) = rw_initialized w"
  "rw_highest (clear_range w f l) = rw_highest w"
  "length (rw_seen w) = 128 \<Longrightarrow> length (rw_seen (clear_range w f l)) = 128"
  by (simp_all add: clear_range_def kWordCount_def)

lemma test_set_seen:
  "length (rw_seen w) = 128 \<Longrightarrow> test (set_seen w c) d = (slot d = slot c \<or> test w d)"
  by (simp add: test_ring set_seen_def ring_bit_set)

lemma slot_inj:
  assumes "slot c = slot d" "c \<le> d" "unat d - unat c < 8192"
  shows "c = d"
proof -
  have "unat c \<le> unat d"
    using assms(2) by (simp add: word_le_nat_alt)
  then have "8192 dvd unat d - unat c"
    using assms(1) mod_eq_dvd_iff_nat [of "unat c" "unat d" 8192] by (simp add: slot_def)
  then have "unat d - unat c = 0"
    using assms(3) nat_dvd_not_less by blast
  with \<open>unat c \<le> unat d\<close> show ?thesis by (simp add: word_unat_eq_iff)
qed

lemma slot_inj_window:
  assumes "slot c = slot d" "c \<le> m" "d \<le> m" "unat m - unat c < 8192" "unat m - unat d < 8192"
  shows "c = d"
proof (cases "c \<le> d")
  case True
  moreover have "unat d - unat c < 8192"
    using assms(3,4) by (simp add: word_le_nat_alt)
  ultimately show ?thesis using slot_inj [OF assms(1)] by blast
next
  case False
  then have "d \<le> c" by simp
  moreover have "unat c - unat d < 8192"
    using assms(2,5) by (simp add: word_le_nat_alt)
  ultimately show ?thesis using slot_inj [OF assms(1) [symmetric]] by blast
qed

text \<open>Clearing forgets every counter between the old and the new greatest one, and nothing that
  the new window still covers.\<close>

lemma test_clear_range:
  assumes len: "length (rw_seen w) = 128" and less: "h < c"
    and d: "d \<le> c" "unat c - unat d < 8192"
  shows "test (clear_range w (h + 1) c) d = (d \<le> h \<and> test w d)"
proof -
  have h: "unat (h + 1) = Suc (unat h)"
    using less by (rule unat_add_one_less)
  have size: "unat (c - (h + 1) + 1) = unat c - unat h"
    using less by (simp add: unat_sub_le less_imp_le)
  have bound: "(kWindowSize \<le> c - h) = (8192 \<le> unat c - unat h)"
    using size by (simp add: kWindowSize_def word_le_nat_alt)
  show ?thesis
  proof (cases "8192 \<le> unat c - unat h")
    case True
    then have "\<not> d \<le> h"
      using d by (auto simp: word_le_nat_alt)
    with True show ?thesis
      by (simp add: clear_range_def bound test_ring ring_bit_zero)
  next
    case False
    have "(\<exists>e. h + 1 \<le> e \<and> e \<le> c \<and> slot e = slot d) = (\<not> d \<le> h)"
    proof
      assume "\<exists>e. h + 1 \<le> e \<and> e \<le> c \<and> slot e = slot d"
      then obtain e where e: "h + 1 \<le> e" "e \<le> c" "slot e = slot d" by blast
      show "\<not> d \<le> h"
      proof
        assume "d \<le> h"
        then have "d \<le> e" "unat e - unat d < 8192" and "d \<noteq> e"
          using e h d(2) by (auto simp: word_le_nat_alt)
        then show False
          using slot_inj [of d e] e(3) by simp
      qed
    next
      assume "\<not> d \<le> h"
      then have "h + 1 \<le> d"
        using h by (simp add: word_le_nat_alt)
      then show "\<exists>e. h + 1 \<le> e \<and> e \<le> c \<and> slot e = slot d"
        using d(1) by blast
    qed
    with False len show ?thesis
      by (auto simp: clear_range_def bound test_ring ring_bit_clear_loop)
  qed
qed


lemma unat_Max_diff: "c \<le> m \<Longrightarrow> (kWindowSize \<le> m - c) = (8192 \<le> unat m - unat c)"
  by (simp add: kWindowSize_def word_le_nat_alt unat_sub_le)

lemma accept_refines_spec:
  assumes "window_rel w S"
  shows "fst (accept w c) = fst (spec_accept S c) \<and>
         window_rel (snd (accept w c)) (snd (spec_accept S c))"
proof (cases "S = {}")
  case True
  then show ?thesis
    using assms
    by (auto simp: accept_def spec_accept_def window_rel_def test_ring set_seen_def ring_bit_set
          dest: slot_inj)
next
  case False
  then have S: "finite S" "length (rw_seen w) = 128" "rw_initialized w" "rw_highest w = Max S"
    and seen: "\<And>d. d \<le> Max S \<Longrightarrow> unat (Max S) - unat d < 8192 \<Longrightarrow> test w d = (d \<in> S)"
    using assms by (auto simp: window_rel_def)
  show ?thesis
  proof (cases "Max S < c")
    case True
    let ?w = "clear_range w (Max S + 1) c\<lparr>rw_highest := c\<rparr>"
    have "accept w c = (rr_accepted, set_seen ?w c)"
      using S True by (simp add: accept_def)
    moreover have "window_rel (set_seen ?w c) (insert c S)"
    proof -
      have "Max (insert c S) = c"
        using True S False by (intro Max_eqI) auto
      moreover have "test (set_seen ?w c) d = (d \<in> insert c S)"
        if d: "d \<le> c" "unat c - unat d < 8192" for d
      proof -
        have "test ?w d = (d \<le> Max S \<and> test w d)"
          using test_clear_range [OF S(2) True d] by (simp add: test_ring)
        moreover have "unat (Max S) - unat d < 8192"
          using d True by (simp add: word_less_nat_alt)
        ultimately show ?thesis
          using seen [of d] S(1,2) d slot_inj [of d c] Max_ge [of S d] by (auto simp: test_set_seen)
      qed
      ultimately show ?thesis
        using S by (simp add: window_rel_def)
    qed
    ultimately show ?thesis
      using True by (simp add: spec_accept_def)
  next
    case le: False
    then have c: "c \<le> Max S" by simp
    show ?thesis
    proof (cases "unat (Max S) - unat c \<ge> 8192")
      case True
      then show ?thesis
        using S(2-4) le c False assms
        by (simp add: accept_def spec_accept_def unat_Max_diff del: Max_less_iff)
    next
      case near: False
      have "Max (insert c S) = Max S"
        using S False c by (simp add: max_def)
      moreover have "test (set_seen w c) d = (d \<in> insert c S)"
        if d: "d \<le> Max S" "unat (Max S) - unat d < 8192" for d
      proof -
        have "slot d = slot c \<longleftrightarrow> d = c"
          using slot_inj_window [of d c "Max S"] d near c by auto
        then show ?thesis
          using seen d S by (auto simp: test_set_seen)
      qed
      ultimately have "window_rel (set_seen w c) (insert c S)"
        using S by (simp add: window_rel_def)
      then show ?thesis
        using S(2-4) le c False assms near seen [of c]
        by (simp add: accept_def spec_accept_def unat_Max_diff del: Max_less_iff)
    qed
  qed
qed


lemma spec_accept_accepted:
  "fst (spec_accept S c) = rr_accepted \<Longrightarrow> finite S \<Longrightarrow> c \<notin> S \<and> snd (spec_accept S c) = insert c S"
  using Max_ge [of S c] by (auto simp: spec_accept_def not_le [symmetric] split: if_splits)

lemma spec_accept_refused:
  "fst (spec_accept S c) \<noteq> rr_accepted \<Longrightarrow> snd (spec_accept S c) = S"
  by (auto simp: spec_accept_def split: if_splits)

text \<open>The counters of a run of calls that a filter accepted.\<close>

definition accepted_of :: "('s \<Rightarrow> u64 \<Rightarrow> ReplayResult \<times> 's) \<Rightarrow> 's \<Rightarrow> u64 list \<Rightarrow> u64 list" where
  "accepted_of f s cs = map fst (filter (\<lambda>(c, r). r = rr_accepted) (zip cs (outs f s cs)))"

lemma accepted_of_simps [simp]:
  "accepted_of f s [] = []"
  "accepted_of f s (c # cs) =
     (if fst (f s c) = rr_accepted then [c] else []) @ accepted_of f (snd (f s c)) cs"
  by (simp_all add: accepted_of_def)

lemma spec_accepted_set:
  assumes "finite S"
  shows "distinct (accepted_of spec_accept S cs) \<and> set (accepted_of spec_accept S cs) \<inter> S = {}"
  using assms
proof (induction cs arbitrary: S)
  case Nil
  then show ?case by simp
next
  case (Cons c cs)
  show ?case
  proof (cases "fst (spec_accept S c) = rr_accepted")
    case True
    then show ?thesis
      using Cons.IH [of "insert c S"] Cons.prems spec_accept_accepted [OF True Cons.prems] by auto
  next
    case False
    then show ?thesis
      using Cons.IH [of S] Cons.prems spec_accept_refused [OF False] by auto
  qed
qed

lemmas spec_accepted_distinct = spec_accepted_set [OF finite.emptyI, THEN conjunct1]

subsection \<open>The contract the session relies on\<close>

text \<open>
  A replay filter, as \<^verbatim>\<open>Session\<close> uses it: a state, related to the set of counters it has accepted,
  whose \<open>accept\<close> answers as the abstract filter does.
\<close>

locale replay_filter =
  fixes start :: 's
    and acc :: "'s \<Rightarrow> u64 \<Rightarrow> ReplayResult \<times> 's"
    and rel :: "'s \<Rightarrow> u64 set \<Rightarrow> bool"
  assumes rel_start: "rel start {}"
    and acc_result: "rel w S \<Longrightarrow> fst (acc w c) = fst (spec_accept S c)"
    and acc_rel: "rel w S \<Longrightarrow> rel (snd (acc w c)) (snd (spec_accept S c))"
begin

lemma outs_spec: "outs acc start cs = outs spec_accept {} cs"
  by (rule outs_refine [where R = rel]) (simp_all add: rel_start acc_result acc_rel)

lemma accepted_spec: "accepted_of acc start cs = accepted_of spec_accept {} cs"
  by (simp add: accepted_of_def outs_spec)

lemma distinct_accepted: "distinct (accepted_of acc start cs)"
  by (simp add: accepted_spec spec_accepted_distinct)

end

interpretation rw: replay_filter new_window accept window_rel
  using accept_refines_spec by unfold_locales (auto simp: window_rel_new)

subsection \<open>Properties\<close>

text \<open>
  C9: the window is a faithful replay filter. Along every sequence of counters, the 128-word ring
  answers exactly as the filter that remembers every counter ever accepted: a counter above the
  greatest one, or a new one less than 8192 below it, is accepted; one seen before is replayed;
  one that far below or further is too old.
\<close>

theorem accept_implements_filter:
  "outs accept new_window cs = outs spec_accept {} cs"
  by (rule rw.outs_spec)

text \<open>
  No packet counter is accepted twice, whatever order the packets arrive in.
\<close>

lemma accept_at_most_once:
  "distinct (accepted_of accept new_window cs)"
  by (rule rw.distinct_accepted)

end
