(* ===== verification/Timers.thy ===== *)
theory Timers
  imports Std_Heap
begin

text \<open>
  Timers (src/timers.cpp): the retry backoff and the timer wheel, a binary heap of events ordered by
  due time. \<open>later_first\<close> is the comparison the code passes to the heap algorithms.
\<close>

datatype TimerKind = handshake_timeout | handshake_retry | keepalive | rekey | session_expiry
  | path_probe | dead_peer | provisional_timeout

record TimerEvent =
  te_kind :: TimerKind
  te_subject :: u32
  te_due :: instant

definition kHandshakeTimeout :: duration where "kHandshakeTimeout = seconds 5"
definition kHandshakeRetryBase :: duration where "kHandshakeRetryBase = milliseconds 500"
definition kHandshakeRetryMax :: duration where "kHandshakeRetryMax = seconds 30"
definition kKeepaliveInterval :: duration where "kKeepaliveInterval = seconds 25"
definition kDeadPeerTimeout :: duration where "kDeadPeerTimeout = seconds 90"
definition kRekeyAfter :: duration where "kRekeyAfter = seconds 120"
definition kSessionExpiry :: duration where "kSessionExpiry = seconds 180"
definition kRekeyAfterMessages :: u64 where "kRekeyAfterMessages = push_bit 60 1"
definition kRejectAfterMessages :: u64 where
  "kRejectAfterMessages = 0xFFFFFFFFFFFFFFFF - push_bit 13 1"
definition kRetireAfter :: duration where "kRetireAfter = seconds 10"

definition later_first :: "TimerEvent \<Rightarrow> TimerEvent \<Rightarrow> bool" where
  "later_first l r = (te_due l > te_due r)"

function backoff_loop :: "nat \<Rightarrow> nat \<Rightarrow> duration \<Rightarrow> duration" where
  "backoff_loop step attempt delay =
     (if step < attempt \<and> delay < kHandshakeRetryMax
      then backoff_loop (step + 1) attempt (delay * 2)
      else delay)"
  by pat_completeness auto
termination by (relation "measure (\<lambda>(step, attempt, _). attempt - step)") auto

declare backoff_loop.simps [simp del]

definition retry_backoff :: "u32 \<Rightarrow> duration" where
  "retry_backoff attempt =
     min (backoff_loop 0 (unat attempt) kHandshakeRetryBase) kHandshakeRetryMax"

record TimerWheel =
  tw_timers :: "TimerEvent list"

definition new_wheel :: TimerWheel where "new_wheel = \<lparr>tw_timers = []\<rparr>"

definition kMaximumTimers :: nat where "kMaximumTimers = 8192"

definition schedule :: "TimerWheel \<Rightarrow> TimerKind \<Rightarrow> u32 \<Rightarrow> instant \<Rightarrow> bool \<times> TimerWheel" where
  "schedule w kind subject due =
     (if length (tw_timers w) \<ge> kMaximumTimers then (False, w)
      else let timers = tw_timers w @ [\<lparr>te_kind = kind, te_subject = subject, te_due = due\<rparr>]
           in (True, w\<lparr>tw_timers := push_heap later_first timers\<rparr>))"

text \<open>\<^verbatim>\<open>std::erase_if\<close> and the rebuild of the heap when it removed something.\<close>

definition erase_timers :: "(TimerEvent \<Rightarrow> bool) \<Rightarrow> TimerWheel \<Rightarrow> nat \<times> TimerWheel" where
  "erase_timers P w =
     (let kept = filter (\<lambda>e. \<not> P e) (tw_timers w);
          removed = length (tw_timers w) - length kept
      in (removed, w\<lparr>tw_timers := if removed > 0 then make_heap later_first kept else kept\<rparr>))"

definition cancel :: "TimerWheel \<Rightarrow> TimerKind \<Rightarrow> u32 \<Rightarrow> nat \<times> TimerWheel" where
  "cancel w kind subject = erase_timers (\<lambda>e. te_kind e = kind \<and> te_subject e = subject) w"

definition cancel_subject :: "TimerWheel \<Rightarrow> u32 \<Rightarrow> nat \<times> TimerWheel" where
  "cancel_subject w subject = erase_timers (\<lambda>e. te_subject e = subject) w"

function expire_loop :: "instant \<Rightarrow> TimerEvent list \<Rightarrow> TimerEvent list \<times> TimerEvent list" where
  "expire_loop now timers =
     (if timers \<noteq> [] \<and> te_due (hd timers) \<le> now
      then let timers = pop_heap later_first timers;
               (due, rest) = expire_loop now (butlast timers)
           in (last timers # due, rest)
      else ([], timers))"
  by pat_completeness auto
termination by (relation "measure (\<lambda>(_, timers). length timers)") auto

declare expire_loop.simps [simp del]

definition expire :: "TimerWheel \<Rightarrow> instant \<Rightarrow> TimerEvent list \<times> TimerWheel" where
  "expire w now =
     (let (due, rest) = expire_loop now (tw_timers w) in (due, w\<lparr>tw_timers := rest\<rparr>))"

definition next_due :: "TimerWheel \<Rightarrow> instant" where
  "next_due w = (if tw_timers w = [] then 0 else te_due (hd (tw_timers w)))"

subsection \<open>The heap contract for timer events\<close>

lemma later_first_key: "later_first = later te_due"
  by (simp add: later_first_def fun_eq_iff)

interpretation tq: heap_drain te_due "push_heap later_first" "pop_heap later_first"
  "make_heap later_first" expire_loop
  using push_heap_correct [of _ te_due] pop_heap_correct [of _ te_due] make_heap_correct [of te_due]
  unfolding later_first_key
  by unfold_locales (simp_all add: expire_loop.simps later_first_key)

text \<open>The wheels that can arise.\<close>

inductive wheel :: "TimerWheel \<Rightarrow> bool" where
  wheel_new: "wheel new_wheel"
| wheel_schedule: "wheel w \<Longrightarrow> wheel (snd (schedule w kind subject due))"
| wheel_cancel: "wheel w \<Longrightarrow> wheel (snd (cancel w kind subject))"
| wheel_cancel_subject: "wheel w \<Longrightarrow> wheel (snd (cancel_subject w subject))"
| wheel_expire: "wheel w \<Longrightarrow> wheel (snd (expire w now))"

abbreviation pending :: "TimerWheel \<Rightarrow> TimerEvent multiset" where
  "pending w \<equiv> mset (tw_timers w)"

definition wheel_ok :: "TimerWheel \<Rightarrow> bool" where
  "wheel_ok w \<longleftrightarrow> is_heap te_due (tw_timers w) \<and> length (tw_timers w) \<le> kMaximumTimers"

lemma schedule_ok [inv_intros]:
  assumes "wheel_ok w"
  shows "wheel_ok (snd (schedule w kind subject due))"
proof (cases "length (tw_timers w) < kMaximumTimers")
  case True
  let ?ts = "push_heap later_first (tw_timers w @ [\<lparr>te_kind = kind, te_subject = subject, te_due = due\<rparr>])"
  have "is_heap te_due ?ts" "mset ?ts = add_mset \<lparr>te_kind = kind, te_subject = subject, te_due = due\<rparr> (pending w)"
    using assms tq.insert_heap by (simp_all add: wheel_ok_def)
  moreover from this(2) have "length ?ts = Suc (length (tw_timers w))"
    by (metis size_add_mset size_mset)
  ultimately show ?thesis using True by (simp add: wheel_ok_def schedule_def)
qed (use assms in \<open>simp add: schedule_def\<close>)

lemma schedule_abs:
  assumes "wheel_ok w"
  shows "(fst (schedule w kind subject due), pending (snd (schedule w kind subject due))) =
      (if size (pending w) \<ge> 8192 then (False, pending w)
       else (True, add_mset \<lparr>te_kind = kind, te_subject = subject, te_due = due\<rparr> (pending w)))"
proof -
  have "is_heap te_due (tw_timers w)" using assms by (simp add: wheel_ok_def)
  note insert = tq.insert_heap(2) [OF this]
  show ?thesis unfolding schedule_def kMaximumTimers_def by (auto simp: Let_def insert simp del: mset_single_iff)
qed

lemma erase_timers_abs:
  "pending (snd (erase_timers P w)) = {#e \<in># pending w. \<not> P e#}"
  "fst (erase_timers P w) = size {#e \<in># pending w. P e#}"
proof -
  show "pending (snd (erase_timers P w)) = {#e \<in># pending w. \<not> P e#}"
    by (simp add: erase_timers_def Let_def tq.make_mset)
  have "length (tw_timers w) = length (filter P (tw_timers w)) + length (filter (\<lambda>e. \<not> P e) (tw_timers w))"
    by (simp add: sum_length_filter_compl)
  then show "fst (erase_timers P w) = size {#e \<in># pending w. P e#}"
    by (simp add: erase_timers_def Let_def flip: mset_filter)
qed

lemma erase_timers_ok [inv_intros]:
  assumes "wheel_ok w"
  shows "wheel_ok (snd (erase_timers P w))"
proof -
  let ?kept = "filter (\<lambda>e. \<not> P e) (tw_timers w)"
  have len: "length (make_heap later_first ?kept) = length ?kept"
    using tq.make_mset mset_eq_length by blast
  show ?thesis
  proof (cases "length ?kept < length (tw_timers w)")
    case True
    then show ?thesis
      using assms tq.make_heap [of ?kept] len by (simp add: wheel_ok_def erase_timers_def Let_def)
  next
    case False
    then have "?kept = tw_timers w" by (metis filter_id_conv length_filter_less)
    then show ?thesis using assms by (simp add: wheel_ok_def erase_timers_def)
  qed
qed

lemma expire_abs:
  assumes "wheel_ok w" "expire w now = (due, w')"
  shows "mset due = {#e \<in># pending w. te_due e \<le> now#} \<and> sorted (map te_due due) \<and>
    pending w' = {#e \<in># pending w. \<not> te_due e \<le> now#} \<and> wheel_ok w'"
proof -
  obtain rest where rest: "expire_loop now (tw_timers w) = (due, rest)" "w' = w\<lparr>tw_timers := rest\<rparr>"
    using assms(2) by (auto simp: expire_def split: prod.splits)
  have heap: "is_heap te_due (tw_timers w)" using assms(1) by (simp add: wheel_ok_def)
  note drained = tq.drain_correct [OF heap rest(1)]
  then have "length rest \<le> length (tw_timers w)"
    by (metis multiset_filter_subset size_mset size_mset_mono)
  then show ?thesis using drained rest(2) assms(1) by (simp add: wheel_ok_def)
qed

lemma wheel_wheel_ok: "wheel w \<Longrightarrow> wheel_ok w"
proof (induction rule: wheel.induct)
  case wheel_new
  then show ?case by (simp add: wheel_ok_def new_wheel_def heap_below_def)
next
  case (wheel_expire w now)
  then show ?case using expire_abs [of w now] by (metis prod.collapse)
qed (auto simp: cancel_def cancel_subject_def intro: inv_intros)

text \<open>
  C23: timers fire exactly when they are due. On every wheel that calls of \<^verbatim>\<open>schedule\<close>, \<^verbatim>\<open>cancel\<close>,
  \<^verbatim>\<open>cancel_subject\<close> and \<^verbatim>\<open>expire\<close> can build, \<^verbatim>\<open>expire\<close> returns exactly the pending events that are
  due, each once, in the order of their due times, and leaves exactly the others pending.
\<close>

theorem expire_exact:
  assumes "wheel w" "expire w now = (due, w')"
  shows "mset due = {#e \<in># pending w. te_due e \<le> now#} \<and> sorted (map te_due due) \<and>
    pending w' = {#e \<in># pending w. \<not> te_due e \<le> now#}"
  using expire_abs [OF wheel_wheel_ok [OF assms(1)] assms(2)] by blast

definition two_timers :: TimerWheel where
  "two_timers = snd (schedule (snd (schedule new_wheel rekey 1 20)) keepalive 2 10)"

theorem expire_exact_witness:
  "pending (snd (expire two_timers 15)) = {#\<lparr>te_kind = rekey, te_subject = 1, te_due = 20\<rparr>#}"
proof -
  have w: "wheel two_timers"
    unfolding two_timers_def by (intro wheel_schedule wheel_new)
  have "pending two_timers = {#\<lparr>te_kind = rekey, te_subject = 1, te_due = 20\<rparr>,
      \<lparr>te_kind = keepalive, te_subject = 2, te_due = 10\<rparr>#}"
    by (simp add: two_timers_def schedule_def new_wheel_def kMaximumTimers_def push_heap_def
      sift_up.simps swap_at_def later_first_def parent_def)
  with expire_exact [OF w, of 15 "fst (expire two_timers 15)" "snd (expire two_timers 15)"]
  show ?thesis by simp
qed

text \<open>
  C24: the wheel is a multiset of events. On every wheel that can be built, \<^verbatim>\<open>schedule\<close> adds its event
  unless 8192 are pending, \<^verbatim>\<open>cancel\<close> and \<^verbatim>\<open>cancel_subject\<close> remove exactly the matching events and
  return their number, and \<^verbatim>\<open>next_due\<close> is the earliest due time.
\<close>

theorem wheel_refines_multiset:
  assumes "wheel w"
  shows "(fst (schedule w kind subject due), pending (snd (schedule w kind subject due))) =
      (if size (pending w) \<ge> 8192 then (False, pending w)
       else (True, add_mset \<lparr>te_kind = kind, te_subject = subject, te_due = due\<rparr> (pending w))) \<and>
    (fst (cancel w kind subject), pending (snd (cancel w kind subject))) =
      (size {#e \<in># pending w. te_kind e = kind \<and> te_subject e = subject#},
       {#e \<in># pending w. \<not> (te_kind e = kind \<and> te_subject e = subject)#}) \<and>
    (fst (cancel_subject w subject), pending (snd (cancel_subject w subject))) =
      (size {#e \<in># pending w. te_subject e = subject#}, {#e \<in># pending w. te_subject e \<noteq> subject#}) \<and>
    next_due w = (if pending w = {#} then 0 else Min (te_due ` set_mset (pending w)))"
proof -
  have heap: "is_heap te_due (tw_timers w)"
    using wheel_wheel_ok [OF assms] by (simp add: wheel_ok_def)
  have "next_due w = Min (te_due ` set_mset (pending w))" if "tw_timers w \<noteq> []"
    using that tq.front_least [OF heap]
    by (auto simp: next_due_def intro!: Min_eqI [symmetric])
  moreover have "next_due w = 0" if "tw_timers w = []" using that by (simp add: next_due_def)
  ultimately show ?thesis
    using schedule_abs [OF wheel_wheel_ok [OF assms], of kind subject due]
    by (simp add: cancel_def cancel_subject_def erase_timers_abs)
qed

theorem wheel_refines_multiset_witness:
  "next_due two_timers = 10 \<and> fst (cancel two_timers rekey 1) = 1"
proof -
  have w: "wheel two_timers"
    unfolding two_timers_def by (intro wheel_schedule wheel_new)
  have "pending two_timers = {#\<lparr>te_kind = rekey, te_subject = 1, te_due = 20\<rparr>,
      \<lparr>te_kind = keepalive, te_subject = 2, te_due = 10\<rparr>#}"
    by (simp add: two_timers_def schedule_def new_wheel_def kMaximumTimers_def push_heap_def
      sift_up.simps swap_at_def later_first_def parent_def)
  with wheel_refines_multiset [OF w, of rekey 1 0] show ?thesis by simp
qed

text \<open>
  The handshake retry delay doubles from half a second with every attempt and is capped at
  thirty seconds; the loop that computes it ends for every attempt number.
\<close>

lemma retry_backoff_doubles:
  "retry_backoff attempt = min (milliseconds 500 * 2 ^ unat attempt) (seconds 30)"
proof -
  have "min (backoff_loop step n d) kHandshakeRetryMax = min (d * 2 ^ (n - step)) kHandshakeRetryMax"
    if "0 < d" for step n d
    using that
  proof (induction step n d rule: backoff_loop.induct)
    case (1 step n d)
    show ?case
    proof (cases "step < n \<and> d < kHandshakeRetryMax")
      case True
      then have "n - step = Suc (n - (step + 1))" by (simp add: Suc_diff_Suc)
      then show ?thesis using True 1 by (subst backoff_loop.simps) (simp add: mult.assoc)
    next
      case False
      have "d \<le> d * 2 ^ (n - step)" using 1(2) by simp
      then show ?thesis using False by (subst backoff_loop.simps) (auto simp: min_def)
    qed
  qed
  from this [of kHandshakeRetryBase 0] show ?thesis
    by (simp add: retry_backoff_def kHandshakeRetryBase_def kHandshakeRetryMax_def)
qed

end
