(* ===== verification/Text_View.thy ===== *)
theory Text_View
  imports Norr_Prelude
begin

text \<open>
  What the text formats use of the C++ standard library: \<^verbatim>\<open>std::string_view\<close> searching and slicing,
  and \<^verbatim>\<open>std::from_chars\<close> / \<^verbatim>\<open>std::to_chars\<close> for unsigned integers. \<^verbatim>\<open>npos\<close> is \<open>None\<close>.
\<close>

subsection \<open>Searching and slicing\<close>

fun index_of :: "('a \<Rightarrow> bool) \<Rightarrow> 'a list \<Rightarrow> nat option" where
  "index_of P [] = None"
| "index_of P (x # xs) = (if P x then Some 0 else map_option Suc (index_of P xs))"

definition find_char :: "char \<Rightarrow> nat \<Rightarrow> string \<Rightarrow> nat option" where
  "find_char c offset text = map_option (\<lambda>i. i + offset) (index_of (\<lambda>x. x = c) (drop offset text))"

definition rfind_char :: "char \<Rightarrow> string \<Rightarrow> nat option" where
  "rfind_char c text =
     map_option (\<lambda>i. length text - 1 - i) (index_of (\<lambda>x. x = c) (rev text))"

fun starts_with :: "string \<Rightarrow> string \<Rightarrow> bool" where
  "starts_with [] text = True"
| "starts_with (p # ps) [] = False"
| "starts_with (p # ps) (c # cs) = (p = c \<and> starts_with ps cs)"

fun index_of_text :: "string \<Rightarrow> string \<Rightarrow> nat option" where
  "index_of_text needle [] = (if needle = [] then Some 0 else None)"
| "index_of_text needle (c # cs) =
     (if starts_with needle (c # cs) then Some 0 else map_option Suc (index_of_text needle cs))"

definition find_text :: "string \<Rightarrow> nat \<Rightarrow> string \<Rightarrow> nat option" where
  "find_text needle offset text =
     (if length text < offset then None
      else map_option (\<lambda>i. i + offset) (index_of_text needle (drop offset text)))"

definition substr :: "nat \<Rightarrow> nat \<Rightarrow> string \<Rightarrow> string" where
  "substr offset len text = take len (drop offset text)"

text \<open>The field that starts at \<open>offset\<close> and ends before \<open>stop\<close>, or at the end of the text.\<close>

definition field_at :: "nat \<Rightarrow> nat option \<Rightarrow> string \<Rightarrow> string" where
  "field_at offset stop text =
     (case stop of None \<Rightarrow> drop offset text | Some e \<Rightarrow> substr offset (e - offset) text)"

lemma index_of_None: "index_of P xs = None \<longleftrightarrow> (\<forall>x\<in>set xs. \<not> P x)"
  by (induction xs) auto

lemma index_of_append:
  "\<forall>x\<in>set xs. \<not> P x \<Longrightarrow> index_of P (xs @ ys) = map_option (\<lambda>i. i + length xs) (index_of P ys)"
  by (induction xs) (auto simp: option.map_comp comp_def option.map_ident)

lemma find_char_next:
  assumes "drop offset text = f @ c # rest" "c \<notin> set f"
  shows "find_char c offset text = Some (offset + length f)"
proof -
  have "index_of (\<lambda>x. x = c) (f @ c # rest) = Some (length f)"
    using assms(2) by (subst index_of_append) auto
  then show ?thesis using assms(1) by (simp add: find_char_def)
qed

lemma find_char_None: "c \<notin> set (drop offset text) \<Longrightarrow> find_char c offset text = None"
  by (simp add: find_char_def index_of_None) blast

lemma find_char_first: "c \<notin> set f \<Longrightarrow> find_char c 0 (f @ c # rest) = Some (length f)"
  using find_char_next [of 0 "f @ c # rest" f] by simp

lemma index_of_bound: "index_of P xs = Some i \<Longrightarrow> i < length xs \<and> P (xs ! i)"
  by (induction xs arbitrary: i) (auto split: if_splits)

lemma find_char_bound:
  "find_char c offset text = Some i \<Longrightarrow> offset \<le> i \<and> i < length text"
  by (auto simp: find_char_def dest: index_of_bound)

lemma rfind_char_last:
  assumes "c \<notin> set rest"
  shows "rfind_char c (f @ c # rest) = Some (length f)"
proof -
  have "index_of (\<lambda>x. x = c) (rev rest @ c # rev f) = Some (length rest)"
    using assms by (subst index_of_append) auto
  then show ?thesis by (simp add: rfind_char_def)
qed

lemma field_at_next:
  "drop offset text = f @ rest \<Longrightarrow> field_at offset (Some (offset + length f)) text = f"
  by (simp add: field_at_def substr_def)

lemma field_at_None [simp]: "field_at offset None text = drop offset text"
  by (simp add: field_at_def)

lemma starts_with_two: "starts_with [a, b] cs \<longleftrightarrow> take 2 cs = [a, b]"
  by (cases cs; cases "tl cs") auto

subsection \<open>Numbers\<close>

definition digit_value :: "nat \<Rightarrow> char \<Rightarrow> nat option" where
  "digit_value base c =
     (let k = of_char c :: nat;
          v = if 48 \<le> k \<and> k \<le> 57 then k - 48
              else if 97 \<le> k \<and> k \<le> 122 then k - 87
              else if 65 \<le> k \<and> k \<le> 90 then k - 55
              else base
      in if v < base then Some v else None)"

definition digits_value :: "nat \<Rightarrow> string \<Rightarrow> nat" where
  "digits_value base s = foldl (\<lambda>acc c. acc * base + the (digit_value base c)) 0 s"

text \<open>\<^verbatim>\<open>std::from_chars\<close> into an unsigned type with largest value \<open>maximum\<close>: the number and how many
  characters it took, or \<open>None\<close> when \<^verbatim>\<open>ec\<close> is set (no digit, or out of range).\<close>

definition from_chars :: "nat \<Rightarrow> nat \<Rightarrow> string \<Rightarrow> (nat \<times> nat) option" where
  "from_chars base maximum s =
     (let ds = takeWhile (\<lambda>c. digit_value base c \<noteq> None) s
      in if ds = [] then None
         else if digits_value base ds > maximum then None
         else Some (digits_value base ds, length ds))"

definition kDigits :: string where "kDigits = ''0123456789abcdef''"

text \<open>\<^verbatim>\<open>std::to_chars\<close> of an unsigned number in base 10.\<close>

fun to_chars :: "nat \<Rightarrow> string" where
  "to_chars n = (if n < 10 then [kDigits ! n] else to_chars (n div 10) @ [kDigits ! (n mod 10)])"

declare to_chars.simps [simp del]

lemma digit_value_kDigits:
  "d < 16 \<Longrightarrow> digit_value 16 (kDigits ! d) = Some d"
  "d < 10 \<Longrightarrow> digit_value 10 (kDigits ! d) = Some d"
proof -
  have "list_all (\<lambda>d. digit_value 16 (kDigits ! d) = Some d) [0..<16]"
    "list_all (\<lambda>d. digit_value 10 (kDigits ! d) = Some d) [0..<10]"
    by (simp_all add: upt_rec digit_value_def kDigits_def)
  then show "d < 16 \<Longrightarrow> digit_value 16 (kDigits ! d) = Some d"
    "d < 10 \<Longrightarrow> digit_value 10 (kDigits ! d) = Some d" by (auto simp: list_all_iff)
qed

lemma digits_value_snoc:
  "digits_value base (s @ [c]) = digits_value base s * base + the (digit_value base c)"
  by (simp add: digits_value_def)

lemma from_chars_all:
  assumes "s \<noteq> []" "\<forall>c\<in>set s. digit_value base c \<noteq> None"
  shows "from_chars base maximum s =
    (if digits_value base s > maximum then None else Some (digits_value base s, length s))"
proof -
  have "takeWhile (\<lambda>c. digit_value base c \<noteq> None) s = s"
    using assms(2) by (simp add: takeWhile_eq_all_conv)
  then show ?thesis unfolding from_chars_def using assms(1) by (simp only: Let_def) simp
qed

lemma to_chars_digits: "c \<in> set (to_chars n) \<Longrightarrow> digit_value 10 c \<noteq> None"
proof (induction n rule: to_chars.induct)
  case (1 n)
  then show ?case
    by (subst (asm) (2) to_chars.simps) (auto simp: digit_value_kDigits split: if_splits)
qed

lemma to_chars_not_empty [simp]: "to_chars n \<noteq> []"
  by (subst to_chars.simps) simp

lemma digits_value_to_chars [simp]: "digits_value 10 (to_chars n) = n"
proof (induction n rule: to_chars.induct)
  case (1 n)
  show ?case
  proof (cases "n < 10")
    case True
    then show ?thesis
      by (subst to_chars.simps) (simp add: digits_value_def digit_value_kDigits)
  next
    case False
    then show ?thesis
      by (subst to_chars.simps) (simp add: digits_value_snoc digit_value_kDigits 1)
  qed
qed

lemma from_chars_to_chars:
  "n \<le> maximum \<Longrightarrow> from_chars 10 maximum (to_chars n) = Some (n, length (to_chars n))"
  by (subst from_chars_all) (auto dest: to_chars_digits)

lemma length_to_chars: "0 < k \<Longrightarrow> n < 10 ^ k \<Longrightarrow> length (to_chars n) \<le> k"
proof (induction k arbitrary: n)
  case 0
  then show ?case by simp
next
  case (Suc k)
  show ?case
  proof (cases "n < 10")
    case True
    then show ?thesis by (subst to_chars.simps) simp
  next
    case False
    then have "0 < k" using Suc.prems by (cases k) auto
    moreover have "n div 10 < 10 ^ k" using Suc.prems by (simp add: div_less_iff_less_mult mult.commute)
    ultimately have "length (to_chars (n div 10)) \<le> k" by (rule Suc.IH)
    then show ?thesis using False by (subst to_chars.simps) simp
  qed
qed

lemma to_chars_no_leading_zero: "hd (to_chars n) = CHR ''0'' \<longleftrightarrow> n = 0"
proof (induction n rule: to_chars.induct)
  case (1 n)
  show ?case
  proof (cases "n < 10")
    case True
    have "list_all (\<lambda>d. (kDigits ! d = CHR ''0'') = (d = 0)) [0..<10]"
      by (simp add: upt_rec kDigits_def)
    with True have "kDigits ! n = CHR ''0'' \<longleftrightarrow> n = 0" by (auto simp: list_all_iff)
    with True show ?thesis by (subst to_chars.simps) simp
  next
    case False
    then show ?thesis using 1 by (subst to_chars.simps) (simp add: div_eq_0_iff)
  qed
qed

lemma to_chars_0: "to_chars 0 = ''0''"
  by (subst to_chars.simps) (simp add: kDigits_def)

end
