(* ===== verification/Address.thy ===== *)
theory Address
  imports Wire Text_View
begin

text \<open>
  IP addresses and prefixes (src/address.cpp): the 16-octet representation, prefix masking and
  containment, and the text forms. Family, octets and prefix length are the fields of the classes
  \<^verbatim>\<open>Address\<close> and \<^verbatim>\<open>Prefix\<close>.
\<close>

datatype AddressFamily = ipv4 | ipv6

definition address_length :: "AddressFamily \<Rightarrow> nat" where
  "address_length f = (if f = ipv4 then 4 else 16)"

definition maximum_prefix_length :: "AddressFamily \<Rightarrow> u8" where
  "maximum_prefix_length f = (if f = ipv4 then 32 else 128)"

record Address =
  ad_family :: AddressFamily
  ad_octets :: bytes

definition from_bytes :: "AddressFamily \<Rightarrow> bytes \<Rightarrow> Address" where
  "from_bytes f b =
     (let len = min (length b) 16
      in \<lparr>ad_family = f, ad_octets = copy_to (replicate 16 0) 0 (take len b)\<rparr>)"

definition address_bytes :: "Address \<Rightarrow> bytes" where
  "address_bytes a = take (address_length (ad_family a)) (ad_octets a)"

definition address_bit :: "Address \<Rightarrow> u8 \<Rightarrow> bool" where
  "address_bit a index =
     (if index \<ge> maximum_prefix_length (ad_family a) then False
      else let octet = ad_octets a ! (unat index div 8)
           in drop_bit (7 - unat index mod 8) octet AND 1 \<noteq> 0)"

subsection \<open>Text\<close>

definition parse_decimal :: "string \<Rightarrow> nat \<Rightarrow> Error + nat" where
  "parse_decimal text maximum =
     (if text = [] \<or> length text > 3 then Inl malformed_packet
      else if length text > 1 \<and> hd text = CHR ''0'' then Inl malformed_packet
      else case from_chars 10 65535 text of
             None \<Rightarrow> Inl malformed_packet
           | Some (value, used) \<Rightarrow>
               if used \<noteq> length text \<or> value > maximum then Inl malformed_packet else Inr value)"

function parse_ipv4_loop :: "string \<Rightarrow> nat \<Rightarrow> nat \<Rightarrow> bytes \<Rightarrow> Error + (bytes \<times> nat \<times> bool)" where
  "parse_ipv4_loop text index offset octets =
     (if index < 4
      then let dot = find_char (CHR ''.'') offset text; field = field_at offset dot text
           in case parse_decimal field 255 of
                Inl e \<Rightarrow> Inl e
              | Inr value \<Rightarrow>
                  let octets = octets[index := of_nat value]; index = index + 1
                  in case dot of
                       None \<Rightarrow> Inr (octets, index, True)
                     | Some d \<Rightarrow> parse_ipv4_loop text index (d + 1) octets
      else Inr (octets, index, False))"
  by pat_completeness auto
termination by (relation "measure (\<lambda>(_, index, _, _). 4 - index)") auto

declare parse_ipv4_loop.simps [simp del]

definition parse_ipv4 :: "string \<Rightarrow> Error + Address" where
  "parse_ipv4 text =
     (case parse_ipv4_loop text 0 0 (replicate 16 0) of
        Inl e \<Rightarrow> Inl e
      | Inr (octets, index, consumed_all) \<Rightarrow>
          if index \<noteq> 4 \<or> \<not> consumed_all then Inl malformed_packet
          else Inr (from_bytes ipv4 octets))"

definition parse_hextet :: "string \<Rightarrow> Error + u16" where
  "parse_hextet text =
     (if text = [] \<or> length text > 4 then Inl malformed_packet
      else case from_chars 16 65535 text of
             None \<Rightarrow> Inl malformed_packet
           | Some (value, used) \<Rightarrow>
               if used \<noteq> length text then Inl malformed_packet else Inr (of_nat value))"

function split_loop :: "string \<Rightarrow> nat \<Rightarrow> u16 list \<Rightarrow> nat \<Rightarrow> Error + (u16 list \<times> nat)" where
  "split_loop input offset out n =
     (let colon = find_char (CHR '':'') offset input; field = field_at offset colon input
      in if n = length out then Inl malformed_packet
         else case parse_hextet field of
                Inl e \<Rightarrow> Inl e
              | Inr value \<Rightarrow>
                  let out = out[n := value]; n = n + 1
                  in case colon of
                       None \<Rightarrow> Inr (out, n)
                     | Some c \<Rightarrow> split_loop input (c + 1) out n)"
  by pat_completeness auto
termination
proof (relation "measure (\<lambda>(input, offset, _, _). length input + 1 - offset)", goal_cases)
  case 1
  then show ?case by simp
next
  case (2 input offset out n)
  then show ?case using find_char_bound by fastforce
qed

declare split_loop.simps [simp del]

definition split_hextets :: "string \<Rightarrow> u16 list \<Rightarrow> nat \<Rightarrow> Error + (u16 list \<times> nat)" where
  "split_hextets input out n = (if input = [] then Inr (out, n) else split_loop input 0 out n)"

definition octets_of_hextets :: "u16 list \<Rightarrow> bytes" where
  "octets_of_hextets hextets =
     fold (\<lambda>index octets. octets[index * 2 := ucast (drop_bit 8 (hextets ! index)),
                                index * 2 + 1 := ucast (hextets ! index AND 255)])
       [0..<8] (replicate 16 0)"

definition parse_ipv6 :: "string \<Rightarrow> Error + Address" where
  "parse_ipv6 text =
     (let compression = find_text ''::'' 0 text
      in if (case compression of None \<Rightarrow> False | Some c \<Rightarrow> find_text ''::'' (c + 1) text \<noteq> None)
         then Inl malformed_packet
         else let head_text = (case compression of None \<Rightarrow> text | Some c \<Rightarrow> substr 0 c text);
                  tail_text = (case compression of None \<Rightarrow> [] | Some c \<Rightarrow> drop (c + 2) text)
         in case split_hextets head_text (replicate 8 0) 0 of
              Inl e \<Rightarrow> Inl e
            | Inr (hextets, head) \<Rightarrow>
         (case split_hextets tail_text (replicate 8 0) 0 of
              Inl e \<Rightarrow> Inl e
            | Inr (tail_storage, tail) \<Rightarrow>
         (case compression of
              None \<Rightarrow> if head \<noteq> 8 then Inl malformed_packet
                      else Inr (from_bytes ipv6 (octets_of_hextets hextets))
            | Some _ \<Rightarrow> if head + tail \<ge> 8 then Inl malformed_packet
                        else Inr (from_bytes ipv6 (octets_of_hextets
                               (fold (\<lambda>index h. h[8 - tail + index := tail_storage ! index])
                                  [0..<tail] hextets))))))"

definition append_decimal :: "string \<Rightarrow> u16 \<Rightarrow> string" where
  "append_decimal out value = out @ to_chars (unat value)"

definition address_to_string :: "Address \<Rightarrow> string" where
  "address_to_string a =
     (if ad_family a = ipv4
      then fold (\<lambda>index out.
             append_decimal (if index \<noteq> 0 then out @ ''.'' else out) (ucast (ad_octets a ! index)))
             [0..<4] []
      else fold (\<lambda>index out.
             let out = (if index \<noteq> 0 then out @ '':'' else out);
                 high = ad_octets a ! (index * 2); low = ad_octets a ! (index * 2 + 1)
             in out @ [kDigits ! unat (drop_bit 4 high), kDigits ! unat (high AND 15),
                       kDigits ! unat (drop_bit 4 low), kDigits ! unat (low AND 15)])
             [0..<8] [])"

definition parse_address :: "string \<Rightarrow> Error + Address" where
  "parse_address text =
     (if text = [] then Inl malformed_packet
      else if find_char (CHR '':'') 0 text \<noteq> None then parse_ipv6 text
      else parse_ipv4 text)"

subsection \<open>Prefixes\<close>

record Prefix =
  px_address :: Address
  px_length :: u8

definition clear_bit :: "nat \<Rightarrow> bytes \<Rightarrow> bytes" where
  "clear_bit index octets =
     (let m = NOT (push_bit (7 - index mod 8) (1 :: u32))
      in octets[index div 8 := octets ! (index div 8) AND ucast m])"

definition create_prefix :: "Address \<Rightarrow> u8 \<Rightarrow> Error + Prefix" where
  "create_prefix a len =
     (if len > maximum_prefix_length (ad_family a) then Inl malformed_packet
      else let octets = copy_to (replicate 16 0) 0 (address_bytes a);
               octets = fold clear_bit [unat len..<address_length (ad_family a) * 8] octets
           in Inr \<lparr>px_address = from_bytes (ad_family a) octets, px_length = len\<rparr>)"

definition contains :: "Prefix \<Rightarrow> Address \<Rightarrow> bool" where
  "contains p a =
     (if ad_family a \<noteq> ad_family (px_address p) then False
      else let whole_octets = unat (px_length p) div 8; remaining_bits = unat (px_length p) mod 8;
               candidate = address_bytes a; network = address_bytes (px_address p)
           in if list_ex (\<lambda>index. candidate ! index \<noteq> network ! index) [0..<whole_octets] then False
              else if remaining_bits = 0 then True
              else let m = ucast (push_bit (8 - remaining_bits) (255 :: u32)) :: u8
                   in candidate ! whole_octets AND m = network ! whole_octets AND m)"

definition prefix_to_string :: "Prefix \<Rightarrow> string" where
  "prefix_to_string p =
     append_decimal (address_to_string (px_address p) @ ''/'') (ucast (px_length p))"

definition parse_prefix :: "string \<Rightarrow> Error + Prefix" where
  "parse_prefix text =
     (case find_char (CHR ''/'') 0 text of
        None \<Rightarrow> Inl malformed_packet
      | Some slash \<Rightarrow>
     (case parse_address (substr 0 slash text) of
        Inl e \<Rightarrow> Inl e
      | Inr address \<Rightarrow>
          let length_text = drop (slash + 1) text
          in if length_text = [] \<or> length length_text > 3 then Inl malformed_packet
             else if length length_text > 1 \<and> hd length_text = CHR ''0'' then Inl malformed_packet
             else case from_chars 10 65535 length_text of
                    None \<Rightarrow> Inl malformed_packet
                  | Some (len, used) \<Rightarrow>
                      if used \<noteq> length length_text then Inl malformed_packet
                      else if len > unat (maximum_prefix_length (ad_family address))
                      then Inl malformed_packet
                      else create_prefix address (of_nat len)))"

subsection \<open>Well-formed addresses\<close>

definition wf_address :: "Address \<Rightarrow> bool" where
  "wf_address a \<longleftrightarrow> length (ad_octets a) = 16 \<and>
     (ad_family a = ipv4 \<longrightarrow> drop 4 (ad_octets a) = replicate 12 0)"

lemma from_bytes_simps [simp]:
  "ad_family (from_bytes f b) = f"
  "length b \<le> 16 \<Longrightarrow> ad_octets (from_bytes f b) = b @ replicate (16 - length b) 0"
  by (simp_all add: from_bytes_def copy_to_def Let_def)

lemma address_length_le: "address_length f \<le> 16"
  by (simp add: address_length_def)

lemma max_prefix_bits: "unat (maximum_prefix_length f) = 8 * address_length f"
  by (simp add: maximum_prefix_length_def address_length_def)

lemma length_address_bytes [simp]:
  "wf_address a \<Longrightarrow> length (address_bytes a) = address_length (ad_family a)"
  by (simp add: address_bytes_def wf_address_def address_length_def)

lemma wf_from_bytes: "length b = 16 \<Longrightarrow> f = ipv4 \<longrightarrow> drop 4 b = replicate 12 0 \<Longrightarrow>
    wf_address (from_bytes f b)"
  by (simp add: wf_address_def)

lemma octets_address_bytes:
  assumes "wf_address a"
  shows "copy_to (replicate 16 0) 0 (address_bytes a) = ad_octets a"
proof (cases "ad_family a")
  case ipv4
  then have "drop 4 (ad_octets a) = replicate 12 0" "length (ad_octets a) = 16"
    using assms by (simp_all add: wf_address_def)
  then have "take 4 (ad_octets a) @ replicate 12 0 = ad_octets a"
    by (metis append_take_drop_id)
  then show ?thesis
    using ipv4 \<open>length (ad_octets a) = 16\<close>
    by (simp add: address_bytes_def address_length_def copy_to_def)
next
  case ipv6
  then show ?thesis
    using assms by (simp add: address_bytes_def address_length_def copy_to_def wf_address_def)
qed

subsection \<open>Bits of an octet string\<close>

definition obit :: "bytes \<Rightarrow> nat \<Rightarrow> bool" where
  "obit octets i = bit (octets ! (i div 8)) (7 - i mod 8)"

lemma address_bit_obit:
  "address_bit a i \<longleftrightarrow> unat i < 8 * address_length (ad_family a) \<and> obit (ad_octets a) (unat i)"
proof -
  have "(i \<ge> maximum_prefix_length (ad_family a)) = (\<not> unat i < 8 * address_length (ad_family a))"
    by (simp add: word_le_nat_alt max_prefix_bits not_less)
  moreover have "(drop_bit k x AND 1 \<noteq> 0) = bit x k" for x :: u8 and k
    by (simp add: and_one_eq bit_iff_odd_drop_bit odd_iff_mod_2_eq_one)
  ultimately show ?thesis by (simp add: address_bit_def obit_def Let_def)
qed

lemma bit_clear_mask: "bit (ucast (NOT ((2 :: u32) ^ k)) :: u8) n \<longleftrightarrow> n < 8 \<and> n \<noteq> k"
  by (auto simp: bit_simps)

lemma obit_clear_bit:
  assumes "i div 8 < length octets" "j div 8 < length octets"
  shows "obit (clear_bit i octets) j \<longleftrightarrow> obit octets j \<and> j \<noteq> i"
proof -
  have "j = i" if "j div 8 = i div 8" "7 - j mod 8 = 7 - i mod 8"
  proof -
    have "j mod 8 < 8" "i mod 8 < 8" by simp_all
    then have "j mod 8 = i mod 8" using that(2) by linarith
    then show ?thesis using that(1) by (metis div_mult_mod_eq)
  qed
  moreover have "7 - j mod 8 < 8" by simp
  ultimately show ?thesis
    using assms by (auto simp: obit_def clear_bit_def Let_def nth_list_update bit_and_iff bit_clear_mask)
qed

lemma length_clear_bit [simp]: "length (clear_bit i octets) = length octets"
  by (simp add: clear_bit_def)

lemma fold_clear_bit:
  assumes "\<forall>i\<in>set is. i div 8 < length octets" "j div 8 < length octets"
  shows "obit (fold clear_bit is octets) j \<longleftrightarrow> obit octets j \<and> j \<notin> set is"
    and "length (fold clear_bit is octets) = length octets"
  using assms by (induction "is" arbitrary: octets) (auto simp: obit_clear_bit)

lemma byte_eq_iff_bits: "(x :: byte) = y \<longleftrightarrow> (\<forall>i<8. bit x (7 - i) = bit y (7 - i))"
proof
  assume *: "\<forall>i<8. bit x (7 - i) = bit y (7 - i)"
  show "x = y"
  proof (rule bit_word_eqI)
    fix n assume "n < LENGTH(8)"
    then show "bit x n = bit y n" using * [rule_format, of "7 - n"] by simp
  qed
qed simp

lemma obit_split: "r < 8 \<Longrightarrow> obit b (8 * w + r) = bit (b ! w) (7 - r)"
  by (simp add: obit_def)

lemma whole_octets_bits:
  "(\<forall>k<w. b ! k = c ! k) \<longleftrightarrow> (\<forall>i<8 * w. obit b i = obit c i)"
proof
  assume *: "\<forall>k<w. b ! k = c ! k"
  show "\<forall>i<8 * w. obit b i = obit c i"
  proof (intro allI impI)
    fix i assume "i < 8 * w"
    then have "i div 8 < w" by (simp add: less_mult_imp_div_less mult.commute)
    then show "obit b i = obit c i" using * by (simp add: obit_def)
  qed
next
  assume *: "\<forall>i<8 * w. obit b i = obit c i"
  show "\<forall>k<w. b ! k = c ! k"
  proof (intro allI impI)
    fix k assume "k < w"
    have "bit (b ! k) (7 - r) = bit (c ! k) (7 - r)" if "r < 8" for r
    proof -
      have "8 * k + r < 8 * w" using \<open>k < w\<close> that by linarith
      then show ?thesis using * obit_split [OF that] by metis
    qed
    then show "b ! k = c ! k" by (simp add: byte_eq_iff_bits)
  qed
qed

lemma bit_contains_mask:
  "0 < r \<Longrightarrow> r < 8 \<Longrightarrow> bit (ucast (push_bit (8 - r) (255 :: u32)) :: u8) n \<longleftrightarrow> n < 8 \<and> 8 - r \<le> n"
proof -
  have mask: "(255 :: u32) = mask 8" by (simp add: mask_eq_exp_minus_1)
  show "0 < r \<Longrightarrow> r < 8 \<Longrightarrow> ?thesis"
    unfolding mask by (auto simp: bit_simps)
qed

lemma masked_octet_bits:
  fixes x y :: u8
  assumes "0 < r" "r < 8"
  defines "m \<equiv> ucast (push_bit (8 - r) (255 :: u32)) :: u8"
  shows "x AND m = y AND m \<longleftrightarrow> (\<forall>i<r. bit x (7 - i) = bit y (7 - i))"
proof -
  have "bit m (7 - i) \<longleftrightarrow> i < r" if "i < 8" for i
    unfolding m_def bit_contains_mask [OF assms(1,2)] using assms(1,2) that by linarith
  then have "x AND m = y AND m \<longleftrightarrow>
      (\<forall>i<8. (bit x (7 - i) \<and> i < r) = (bit y (7 - i) \<and> i < r))"
    unfolding byte_eq_iff_bits bit_and_iff by blast
  then show ?thesis using assms(2) by (auto dest: less_trans)
qed

subsection \<open>Containment is agreement on the leading bits\<close>

lemma nth_address_bytes: "k < address_length (ad_family a) \<Longrightarrow> address_bytes a ! k = ad_octets a ! k"
  by (simp add: address_bytes_def)

lemma contains_obit:
  assumes "unat (px_length p) \<le> 8 * address_length (ad_family (px_address p))"
  shows "contains p a \<longleftrightarrow> ad_family a = ad_family (px_address p) \<and>
    (\<forall>i<unat (px_length p). obit (ad_octets a) i = obit (ad_octets (px_address p)) i)"
proof (cases "ad_family a = ad_family (px_address p)")
  case True
  define w r where "w = unat (px_length p) div 8" and "r = unat (px_length p) mod 8"
  have len: "unat (px_length p) = 8 * w + r" and "r < 8" by (simp_all add: w_def r_def)
  have w: "w \<le> address_length (ad_family a)" "0 < r \<Longrightarrow> w < address_length (ad_family a)"
    using assms unfolding len True by simp_all
  have "(\<forall>i<unat (px_length p). obit (ad_octets a) i = obit (ad_octets (px_address p)) i) \<longleftrightarrow>
      (\<forall>k<w. ad_octets a ! k = ad_octets (px_address p) ! k) \<and>
      (\<forall>i<r. bit (ad_octets a ! w) (7 - i) = bit (ad_octets (px_address p) ! w) (7 - i))"
    unfolding len whole_octets_bits all_less_add using \<open>r < 8\<close> by (simp add: obit_split)
  moreover have "contains p a \<longleftrightarrow> (\<forall>k<w. ad_octets a ! k = ad_octets (px_address p) ! k) \<and>
      (0 < r \<longrightarrow> ad_octets a ! w AND ucast (push_bit (8 - r) (255 :: u32)) =
                 ad_octets (px_address p) ! w AND ucast (push_bit (8 - r) (255 :: u32)))"
    using True w
    by (auto simp: contains_def Let_def list_ex_iff nth_address_bytes simp flip: w_def r_def)
  ultimately show ?thesis
    using True \<open>r < 8\<close> masked_octet_bits [of r] by (cases "r = 0") simp_all
qed (simp add: contains_def)

lemma fold_clear_bit_nth:
  "\<forall>i\<in>set is. i div 8 \<noteq> k \<Longrightarrow> fold clear_bit is octets ! k = octets ! k"
  by (induction "is" arbitrary: octets) (auto simp: clear_bit_def Let_def)

lemma create_prefix_inv:
  assumes "create_prefix a len = Inr p" "wf_address a"
  shows "px_length p = len" "ad_family (px_address p) = ad_family a" "wf_address (px_address p)"
    "unat len \<le> 8 * address_length (ad_family a)"
    "\<And>i. i < 128 \<Longrightarrow> obit (ad_octets (px_address p)) i \<longleftrightarrow>
       obit (ad_octets a) i \<and> \<not> (unat len \<le> i \<and> i < 8 * address_length (ad_family a))"
proof -
  let ?is = "[unat len..<address_length (ad_family a) * 8]"
  define octets where "octets = fold clear_bit ?is (ad_octets a)"
  have len: "length (ad_octets a) = 16" using assms(2) by (simp add: wf_address_def)
  have small: "\<forall>i\<in>set ?is. i div 8 < length (ad_octets a)"
    using address_length_le [of "ad_family a"] len by auto
  note fold = fold_clear_bit [OF small]
  have l: "length octets = 16" using fold(2) [of 0] len by (simp add: octets_def)
  have p: "p = \<lparr>px_address = from_bytes (ad_family a) octets, px_length = len\<rparr>"
    using assms octets_address_bytes [OF assms(2)]
    by (simp add: create_prefix_def octets_def Let_def split: if_split_asm)
  show "px_length p = len" "ad_family (px_address p) = ad_family a" by (simp_all add: p)
  show "unat len \<le> 8 * address_length (ad_family a)"
    using assms(1) by (simp add: create_prefix_def word_less_nat_alt max_prefix_bits not_less
      split: if_split_asm)
  show "obit (ad_octets (px_address p)) i \<longleftrightarrow> obit (ad_octets a) i \<and>
      \<not> (unat len \<le> i \<and> i < 8 * address_length (ad_family a))" if "i < 128" for i
  proof -
    have "i div 8 < length (ad_octets a)" using that len by simp
    then show ?thesis using fold(1) [of i] l by (auto simp: p octets_def mult.commute)
  qed
  show "wf_address (px_address p)"
  proof -
    have "octets ! k = ad_octets a ! k" if "ad_family a = ipv4" "4 \<le> k" for k
      unfolding octets_def using that
      by (intro fold_clear_bit_nth) (auto simp: address_length_def)
    then have "drop 4 octets = drop 4 (ad_octets a)" if "ad_family a = ipv4"
      using that len l by (intro nth_equalityI) auto
    then show ?thesis using assms(2) l by (simp add: p wf_address_def)
  qed
qed

text \<open>
  C22: a prefix contains exactly the addresses of its family that agree with the address it was
  created from on the first \<^verbatim>\<open>length\<close> bits, whatever the bits beyond the length were.
\<close>

theorem contains_iff_leading_bits:
  assumes "wf_address net" "wf_address a" "create_prefix net len = Inr p"
  shows "contains p a \<longleftrightarrow>
    ad_family a = ad_family net \<and> (\<forall>i. i < len \<longrightarrow> address_bit a i = address_bit net i)"
proof (cases "ad_family a = ad_family net")
  case True
  note inv = create_prefix_inv [OF assms(3,1)]
  have bound: "8 * address_length (ad_family net) \<le> 128"
    using address_length_le [of "ad_family net"] by simp
  have "contains p a \<longleftrightarrow> (\<forall>i<unat len. obit (ad_octets a) i = obit (ad_octets net) i)"
    using inv bound True by (auto simp: contains_obit)
  also have "\<dots> \<longleftrightarrow> (\<forall>i. unat i < unat len \<longrightarrow> address_bit a i = address_bit net (i :: u8))"
  proof -
    have "\<exists>j :: u8. unat j = i" if "i < unat len" for i
      using that unsigned_less [of len, where 'a = nat]
      by (intro exI [of _ "of_nat i"]) (simp add: unat_of_nat)
    then show ?thesis using inv(4) True by (fastforce simp: address_bit_obit)
  qed
  finally show ?thesis using True by (simp add: word_less_nat_alt)
next
  case False
  then show ?thesis
    using create_prefix_inv(2) [OF assms(3,1)] by (simp add: contains_def)
qed

definition example_net :: Address where
  "example_net = \<lparr>ad_family = ipv4, ad_octets = [10, 1, 130, 7] @ replicate 12 0\<rparr>"

theorem contains_iff_leading_bits_witness:
  "\<exists>p. create_prefix example_net 12 = Inr p \<and> contains p example_net"
proof -
  have wf: "wf_address example_net" by (simp add: example_net_def wf_address_def)
  obtain p where p: "create_prefix example_net 12 = Inr p"
    by (auto simp: create_prefix_def example_net_def maximum_prefix_length_def Let_def)
  from contains_iff_leading_bits [OF wf wf p] have "contains p example_net" by simp
  with p show ?thesis by blast
qed

end
