(* ===== verification/Endpoint.thy ===== *)
theory Endpoint
  imports Address
begin

text \<open>
  Endpoints, an address with a port (src/endpoint.cpp), and the round trips of the text forms of
  addresses, prefixes and endpoints.
\<close>

record Endpoint =
  ep_address :: Address
  ep_port :: u16

definition parse_port :: "string \<Rightarrow> Error + u16" where
  "parse_port text =
     (if text = [] \<or> length text > 5 then Inl malformed_packet
      else if length text > 1 \<and> hd text = CHR ''0'' then Inl malformed_packet
      else case from_chars 10 4294967295 text of
             None \<Rightarrow> Inl malformed_packet
           | Some (value, used) \<Rightarrow>
               if used \<noteq> length text then Inl malformed_packet
               else if value = 0 \<or> value > 65535 then Inl malformed_packet
               else Inr (of_nat value))"

definition endpoint_to_string :: "Endpoint \<Rightarrow> string" where
  "endpoint_to_string e =
     (let is_ipv6 = ad_family (ep_address e) = ipv6;
          out = (if is_ipv6 then ''['' else []);
          out = out @ address_to_string (ep_address e);
          out = (if is_ipv6 then out @ '']'' else out);
          out = out @ '':''
      in out @ to_chars (unat (ep_port e)))"

definition parse_endpoint :: "string \<Rightarrow> Error + Endpoint" where
  "parse_endpoint text =
     (if text = [] then Inl malformed_packet
      else if hd text = CHR ''['' then
        (case find_char (CHR '']'') 0 text of
           None \<Rightarrow> Inl malformed_packet
         | Some close \<Rightarrow>
             if close + 1 \<ge> length text \<or> text ! (close + 1) \<noteq> CHR '':'' then Inl malformed_packet
             else case parse_address (substr 1 (close - 1) text) of
                    Inl e \<Rightarrow> Inl e
                  | Inr address \<Rightarrow>
                      if ad_family address \<noteq> ipv6 then Inl malformed_packet
                      else case parse_port (drop (close + 2) text) of
                             Inl e \<Rightarrow> Inl e
                           | Inr port \<Rightarrow> Inr \<lparr>ep_address = address, ep_port = port\<rparr>)
      else
        (case rfind_char (CHR '':'') text of
           None \<Rightarrow> Inl malformed_packet
         | Some colon \<Rightarrow>
             if find_char (CHR '':'') 0 text \<noteq> Some colon then Inl malformed_packet
             else case parse_address (substr 0 colon text) of
                    Inl e \<Rightarrow> Inl e
                  | Inr address \<Rightarrow>
                      if ad_family address \<noteq> ipv4 then Inl malformed_packet
                      else case parse_port (drop (colon + 1) text) of
                             Inl e \<Rightarrow> Inl e
                           | Inr port \<Rightarrow> Inr \<lparr>ep_address = address, ep_port = port\<rparr>))"

subsection \<open>Dotted quads\<close>

lemma to_chars_separators:
  "CHR ''.'' \<notin> set (to_chars n)" "CHR '':'' \<notin> set (to_chars n)" "CHR ''/'' \<notin> set (to_chars n)"
  "CHR '']'' \<notin> set (to_chars n)" "CHR ''['' \<notin> set (to_chars n)"
  using to_chars_digits [of _ n] by (fastforce simp: digit_value_def)+

lemma parse_decimal_to_chars:
  assumes "n \<le> m" "m \<le> 255"
  shows "parse_decimal (to_chars n) m = Inr n"
proof -
  have "length (to_chars n) \<le> 3" using assms by (intro length_to_chars) simp_all
  moreover have "length (to_chars n) > 1 \<Longrightarrow> hd (to_chars n) \<noteq> CHR ''0''"
    by (metis One_nat_def length_Cons less_irrefl list.size(3) to_chars_0 to_chars_no_leading_zero)
  ultimately show ?thesis using assms by (simp add: parse_decimal_def from_chars_to_chars)
qed

lemma parse_ipv4_next:
  assumes "drop offset text = to_chars (unat o1) @ CHR ''.'' # rest" "index < 4"
  shows "parse_ipv4_loop text index offset octets =
    parse_ipv4_loop text (index + 1) (offset + length (to_chars (unat (o1 :: byte))) + 1) (octets[index := o1])"
proof -
  have "find_char (CHR ''.'') offset text = Some (offset + length (to_chars (unat o1)))"
    using assms(1) to_chars_separators by (intro find_char_next)
  moreover have "field_at offset (Some (offset + length (to_chars (unat o1)))) text = to_chars (unat o1)"
    using assms(1) by (intro field_at_next)
  moreover have "unat o1 \<le> 255" using unsigned_less [of o1, where 'a = nat] by simp
  ultimately show ?thesis
    using assms(2) by (subst parse_ipv4_loop.simps) (simp add: parse_decimal_to_chars)
qed

lemma parse_ipv4_last:
  assumes "drop offset text = to_chars (unat (o1 :: byte))" "index < 4"
  shows "parse_ipv4_loop text index offset octets = Inr (octets[index := o1], index + 1, True)"
proof -
  have "find_char (CHR ''.'') offset text = None"
    using assms(1) to_chars_separators by (intro find_char_None) simp
  moreover have "unat o1 \<le> 255" using unsigned_less [of o1, where 'a = nat] by simp
  ultimately show ?thesis
    using assms by (subst parse_ipv4_loop.simps) (simp add: parse_decimal_to_chars)
qed

lemma drop_field: "drop offset text = f @ c # rest \<Longrightarrow> drop (offset + length f + 1) text = rest"
  by (metis Suc_eq_plus1 add.commute append_eq_conv_conj drop_Suc drop_drop list.sel(3) tl_drop)

lemma parse_ipv4_quad:
  assumes "text = to_chars (unat a) @ ''.'' @ to_chars (unat b) @ ''.'' @ to_chars (unat c) @ ''.'' @
    to_chars (unat (d :: byte))"
  shows "parse_ipv4 text = Inr (from_bytes ipv4 ([a, b, c, d] @ replicate 12 0))"
proof -
  have 0: "drop 0 text = to_chars (unat a) @ CHR ''.'' # to_chars (unat b) @ ''.'' @
      to_chars (unat c) @ ''.'' @ to_chars (unat d)" using assms by simp
  note 1 = drop_field [OF 0, simplified]
  note 2 = drop_field [OF 1, simplified]
  note 3 = drop_field [OF 2, simplified]
  have "parse_ipv4_loop text 0 0 (replicate 16 0) =
      Inr ((replicate 16 0)[0 := a, 1 := b, 2 := c, 3 := d], 4, True)"
    by (simp add: parse_ipv4_next [OF 0] parse_ipv4_next [OF 1] parse_ipv4_next [OF 2]
      parse_ipv4_last [OF 3] numeral_2_eq_2 numeral_3_eq_3)
  then show ?thesis by (simp add: parse_ipv4_def replicate_numeral)
qed

subsection \<open>Hextets\<close>

fun join_colons :: "string list \<Rightarrow> string" where
  "join_colons [] = []"
| "join_colons [f] = f"
| "join_colons (f # fs) = f @ CHR '':'' # join_colons fs"

lemma index_of_text_colons:
  assumes "\<forall>f\<in>set fs. f \<noteq> [] \<and> CHR '':'' \<notin> set f"
  shows "index_of_text ''::'' (join_colons fs) = None"
  using assms
proof (induction fs rule: join_colons.induct)
  case 1
  then show ?case by simp
next
  case (2 f)
  have "CHR '':'' \<notin> set g \<Longrightarrow> index_of_text ''::'' g = None" for g by (induction g) auto
  with 2 show ?case by simp
next
  case (3 f g fs)
  have "CHR '':'' \<notin> set h \<Longrightarrow> index_of_text ''::'' (h @ CHR '':'' # c # r) = None"
    if "index_of_text ''::'' (CHR '':'' # c # r) = None" for h c r
    using that by (induction h) (auto simp: starts_with_two)
  moreover obtain c r where cr: "join_colons (g # fs) = c # r" "c \<noteq> CHR '':''"
  proof -
    have "g \<noteq> []" "CHR '':'' \<notin> set g" using 3 by auto
    then obtain c g' where "g = c # g'" "c \<noteq> CHR '':''" by (cases g) auto
    then show ?thesis using that by (cases fs) auto
  qed
  ultimately show ?case using 3 by auto
qed

lemma split_loop_join:
  assumes "drop offset text = join_colons fs" "fs \<noteq> []"
    and "\<forall>f\<in>set fs. CHR '':'' \<notin> set f \<and> parse_hextet f = Inr (h f)"
    and "n + length fs \<le> length out"
  shows "split_loop text offset out n = Inr (copy_to out n (map h fs), n + length fs)"
  using assms
proof (induction fs arbitrary: offset out n rule: join_colons.induct)
  case 1
  then show ?case by simp
next
  case (2 f)
  then have "find_char (CHR '':'') offset text = None" by (intro find_char_None) simp
  with 2 show ?case by (subst split_loop.simps) (auto simp: list_update_copy Let_def)
next
  case (3 f g fs)
  have txt_eq: "drop offset text = f @ CHR '':'' # join_colons (g # fs)" using 3 by simp
  have "find_char (CHR '':'') offset text = Some (offset + length f)"
    using txt_eq 3 by (intro find_char_next) auto
  moreover have "field_at offset (Some (offset + length f)) text = f"
    using txt_eq by (intro field_at_next) simp
  ultimately have "split_loop text offset out n =
      split_loop text (offset + length f + 1) (out[n := h f]) (n + 1)"
    using 3 by (subst split_loop.simps) (auto simp: Let_def)
  also have "\<dots> = Inr (copy_to (out[n := h f]) (n + 1) (map h (g # fs)), n + 1 + length (g # fs))"
    using 3 drop_field [OF txt_eq] by (intro "3.IH") auto
  also have "\<dots> = Inr (copy_to out n (map h (f # g # fs)), n + length (f # g # fs))"
    using 3 by (simp add: list_update_copy copy_to_append)
  finally show ?case .
qed

definition hex4 :: "byte \<Rightarrow> byte \<Rightarrow> string" where
  "hex4 high low = [kDigits ! unat (drop_bit 4 high), kDigits ! unat (high AND 15),
     kDigits ! unat (drop_bit 4 low), kDigits ! unat (low AND 15)]"

lemma length_hex4 [simp]: "length (hex4 high low) = 4" "hex4 high low \<noteq> []"
  by (simp_all add: hex4_def)

lemma nibble_bounds:
  "unat (drop_bit 4 (x :: byte)) < 16" "unat (x AND 15) < 16"
  "unat (drop_bit 4 x) * 16 + unat (x AND 15) = unat x"
proof -
  have mask: "(15 :: byte) = mask 4" by (simp add: mask_eq_exp_minus_1)
  have low: "unat (x AND 15) = unat x mod 16"
    unfolding mask take_bit_eq_mask [symmetric] by (simp only: unsigned_take_bit_eq) (simp add: take_bit_eq_mod)
  have high: "unat (drop_bit 4 x) = unat x div 16"
    using unsigned_less [of x, where 'a = nat]
    by (simp only: unsigned_drop_bit_eq) (simp add: drop_bit_eq_div take_bit_nat_eq_self)
  show "unat (drop_bit 4 x) < 16" "unat (x AND 15) < 16"
    "unat (drop_bit 4 x) * 16 + unat (x AND 15) = unat x"
    using unsigned_less [of x, where 'a = nat] unfolding low high by simp_all
qed

lemma hex4_colon: "CHR '':'' \<notin> set (hex4 high low)"
proof -
  have "digit_value 16 (CHR '':'') = None" by (simp add: digit_value_def)
  then show ?thesis
    using digit_value_kDigits(1) nibble_bounds(1,2) unfolding hex4_def
    by (metis (no_types) empty_iff empty_set option.distinct(1) set_ConsD)
qed

lemma parse_hextet_hex4:
  "parse_hextet (hex4 high low) = Inr (push_bit 8 (ucast high) OR ucast low)"
proof -
  let ?n = "unat high * 256 + unat low"
  have digits: "digits_value 16 (hex4 high low) = ?n"
    using nibble_bounds(3) [of high] nibble_bounds(3) [of low]
    by (simp add: hex4_def digits_value_def digit_value_kDigits nibble_bounds)
  have "?n \<le> 65535"
    using unsigned_less [of high, where 'a = nat] unsigned_less [of low, where 'a = nat] by simp
  moreover have "(of_nat ?n :: u16) = push_bit 8 (ucast high) OR ucast low"
  proof -
    have "push_bit 8 (ucast high) OR ucast low = push_bit 8 (ucast high) + (ucast low :: u16)"
      by (intro disjunctive_add [symmetric]) (auto simp: bit_simps dest: bit_imp_le_length)
    then show ?thesis by (simp add: push_bit_eq_mult)
  qed
  ultimately show ?thesis
    using digits by (simp add: parse_hextet_def from_chars_all hex4_def digit_value_kDigits nibble_bounds)
qed

lemma octets_of_hextets_pairs:
  assumes "length octets = 16"
  shows "octets_of_hextets (map (\<lambda>i. push_bit 8 (ucast (octets ! (i * 2))) OR
           ucast (octets ! (i * 2 + 1))) [0..<8]) = octets"
proof -
  have split: "ucast (drop_bit 8 (push_bit 8 (ucast a)) OR drop_bit 8 (ucast b :: u16)) = a"
    "ucast ((push_bit 8 (ucast a) OR ucast b :: u16) AND 255) = b" for a b :: byte
  proof -
    have mask: "(255 :: u16) = mask 8" by (simp add: mask_eq_exp_minus_1)
    show "ucast (drop_bit 8 (push_bit 8 (ucast a)) OR drop_bit 8 (ucast b :: u16)) = a"
      by (rule bit_word_eqI) (auto simp: bit_simps dest: bit_imp_le_length)
    show "ucast ((push_bit 8 (ucast a) OR ucast b :: u16) AND 255) = b"
      unfolding mask by (rule bit_word_eqI) (auto simp: bit_simps)
  qed
  have "octets = map (\<lambda>i. octets ! i) [0..<16]" using assms map_nth [of octets] by simp
  then have "octets = [octets ! 0, octets ! 1, octets ! 2, octets ! 3, octets ! 4, octets ! 5,
      octets ! 6, octets ! 7, octets ! 8, octets ! 9, octets ! 10, octets ! 11, octets ! 12,
      octets ! 13, octets ! 14, octets ! 15]" by (simp add: upt_16)
  moreover have "octets_of_hextets (map (\<lambda>i. push_bit 8 (ucast (octets ! (i * 2))) OR
      ucast (octets ! (i * 2 + 1))) [0..<8]) = [octets ! 0, octets ! 1, octets ! 2, octets ! 3,
      octets ! 4, octets ! 5, octets ! 6, octets ! 7, octets ! 8, octets ! 9, octets ! 10,
      octets ! 11, octets ! 12, octets ! 13, octets ! 14, octets ! 15]"
    by (simp add: octets_of_hextets_def upt_8 split replicate_numeral)
  ultimately show ?thesis by simp
qed

subsection \<open>Addresses\<close>

lemma to_string_ipv4:
  "ad_family a = ipv4 \<Longrightarrow> address_to_string a =
     to_chars (unat (ad_octets a ! 0)) @ ''.'' @ to_chars (unat (ad_octets a ! 1)) @ ''.'' @
     to_chars (unat (ad_octets a ! 2)) @ ''.'' @ to_chars (unat (ad_octets a ! 3))"
  by (simp add: address_to_string_def append_decimal_def upt_4 unat_ucast_up)

lemma to_string_ipv6:
  "ad_family a = ipv6 \<Longrightarrow> address_to_string a =
     join_colons (map (\<lambda>i. hex4 (ad_octets a ! (i * 2)) (ad_octets a ! (i * 2 + 1))) [0..<8])"
  by (simp add: address_to_string_def hex4_def upt_8 Let_def)

lemma parse_ipv6_to_string:
  assumes "wf_address a" "ad_family a = ipv6"
  shows "parse_ipv6 (address_to_string a) = Inr a"
proof -
  let ?hex = "\<lambda>i. hex4 (ad_octets a ! (i * 2)) (ad_octets a ! (i * 2 + 1))"
  let ?val = "\<lambda>i. push_bit 8 (ucast (ad_octets a ! (i * 2))) OR ucast (ad_octets a ! (i * 2 + 1)) :: u16"
  let ?h = "\<lambda>f. case parse_hextet f of Inr v \<Rightarrow> v"
  let ?text = "join_colons (map ?hex [0..<8])"
  have "index_of_text ''::'' ?text = None"
    by (rule index_of_text_colons) (auto simp: hex4_colon)
  then have find: "find_text ''::'' 0 ?text = None" by (simp add: find_text_def)
  have "split_loop ?text 0 (replicate 8 0) 0 =
      Inr (copy_to (replicate 8 0) 0 (map ?h (map ?hex [0..<8])), 0 + length (map ?hex [0..<8]))"
    by (rule split_loop_join) (auto simp: hex4_colon parse_hextet_hex4)
  then have split: "split_loop ?text 0 (replicate 8 0) 0 = Inr (map ?val [0..<8], 8)"
    by (simp add: comp_def parse_hextet_hex4 copy_to_def)
  have "length (ad_octets a) = 16" using assms(1) by (simp add: wf_address_def)
  then have "octets_of_hextets (map ?val [0..<8]) = ad_octets a"
    by (rule octets_of_hextets_pairs)
  then have "from_bytes ipv6 (octets_of_hextets (map ?val [0..<8])) = a"
    using assms(2) \<open>length (ad_octets a) = 16\<close> by (simp only:) (simp add: from_bytes_def copy_to_def)
  moreover have "?text \<noteq> []" by (simp add: upt_8 hex4_def)
  ultimately show ?thesis
    unfolding to_string_ipv6 [OF assms(2)] parse_ipv6_def find Let_def
    by (simp add: split_hextets_def split [simplified])
qed

lemma parse_address_to_string:
  assumes "wf_address a"
  shows "parse_address (address_to_string a) = Inr a"
proof (cases "ad_family a")
  case ipv4
  let ?t = "address_to_string a"
  have octets: "ad_octets a = [ad_octets a ! 0, ad_octets a ! 1, ad_octets a ! 2, ad_octets a ! 3] @
      replicate 12 0"
  proof -
    have "ad_octets a = take 4 (ad_octets a) @ replicate 12 0"
      using assms ipv4 by (metis append_take_drop_id wf_address_def)
    moreover have "take 4 (ad_octets a) = map (\<lambda>i. ad_octets a ! i) [0..<4]"
      using assms take_drop_nths [of 0 4 "ad_octets a"] by (simp add: wf_address_def)
    ultimately show ?thesis by (simp add: upt_4)
  qed
  have "parse_ipv4 ?t = Inr (from_bytes ipv4 (ad_octets a))"
    using parse_ipv4_quad [OF to_string_ipv4 [OF ipv4]] octets by simp
  moreover have "find_char (CHR '':'') 0 ?t = None"
    by (rule find_char_None) (simp add: to_string_ipv4 [OF ipv4] to_chars_separators)
  moreover have "from_bytes ipv4 (ad_octets a) = a"
    using assms ipv4 by (simp add: from_bytes_def copy_to_def wf_address_def)
  moreover have "?t \<noteq> []" by (simp add: to_string_ipv4 [OF ipv4])
  ultimately show ?thesis by (simp add: parse_address_def)
next
  case ipv6
  have "find_char (CHR '':'') 0 (address_to_string a) = Some (0 + 4)"
    using find_char_next [of 0 "address_to_string a" "hex4 (ad_octets a ! 0) (ad_octets a ! 1)"]
      hex4_colon by (simp add: to_string_ipv6 [OF ipv6] upt_8)
  moreover have "address_to_string a \<noteq> []"
    by (simp add: to_string_ipv6 [OF ipv6] upt_8)
  ultimately show ?thesis
    using parse_ipv6_to_string [OF assms ipv6] by (simp add: parse_address_def)
qed

subsection \<open>Prefixes and endpoints\<close>

lemma wf_prefix_text:
  "CHR ''/'' \<notin> set (address_to_string a)" "CHR '']'' \<notin> set (address_to_string a)"
  "CHR ''['' \<notin> set (address_to_string a)"
proof -
  have hex: "c \<notin> set (hex4 h l)" if "digit_value 16 c = None" for c h l
    using that digit_value_kDigits(1) nibble_bounds(1,2) unfolding hex4_def
    by (metis (no_types) empty_iff empty_set option.distinct(1) set_ConsD)
  have none: "digit_value 16 (CHR ''/'') = None" "digit_value 16 (CHR '']'') = None"
    "digit_value 16 (CHR ''['') = None" by (simp_all add: digit_value_def)
  show "CHR ''/'' \<notin> set (address_to_string a)" "CHR '']'' \<notin> set (address_to_string a)"
    "CHR ''['' \<notin> set (address_to_string a)"
    by (cases "ad_family a"; simp add: to_string_ipv4 to_chars_separators to_string_ipv6 upt_8 hex none)+
qed

text \<open>A prefix as \<^verbatim>\<open>Prefix::create\<close> makes it: its length fits the family, the bits beyond it are 0.\<close>

definition wf_prefix :: "Prefix \<Rightarrow> bool" where
  "wf_prefix p \<longleftrightarrow> (\<exists>a. wf_address a \<and> create_prefix a (px_length p) = Inr p)"

lemma create_prefix_idem:
  assumes "wf_address a" "create_prefix a len = Inr p"
  shows "create_prefix (px_address p) len = Inr p"
proof -
  note inv = create_prefix_inv [OF assms(2,1)]
  obtain q where q: "create_prefix (px_address p) len = Inr q"
    using inv(2) assms(2) by (auto simp: create_prefix_def Let_def split: if_split_asm)
  note inv' = create_prefix_inv [OF q inv(3)]
  have "ad_octets (px_address q) = ad_octets (px_address p)"
  proof (rule nth_equalityI)
    show "length (ad_octets (px_address q)) = length (ad_octets (px_address p))"
      using inv(3) inv'(3) by (simp add: wf_address_def)
    fix k assume "k < length (ad_octets (px_address q))"
    then have "k < 16" using inv'(3) by (simp add: wf_address_def)
    moreover have "\<forall>k<16. ad_octets (px_address q) ! k = ad_octets (px_address p) ! k"
      unfolding whole_octets_bits using inv(2,5) inv'(2,5) by auto
    ultimately show "ad_octets (px_address q) ! k = ad_octets (px_address p) ! k" by blast
  qed
  then have "q = p" using inv(1,2) inv'(1,2) by simp
  with q show ?thesis by simp
qed

text \<open>
  C38: the text form of a prefix, IPv4 or IPv6, is parsed back to the same prefix (the printer and
  the parser of addresses are inverse to each other inside it).
\<close>

theorem parse_prefix_to_string:
  assumes "wf_prefix p"
  shows "parse_prefix (prefix_to_string p) = Inr p"
proof -
  obtain a where a: "wf_address a" "create_prefix a (px_length p) = Inr p"
    using assms by (auto simp: wf_prefix_def)
  note inv = create_prefix_inv [OF a(2,1)]
  let ?n = "unat (px_length p)"
  have n: "?n \<le> 255" "?n \<le> unat (maximum_prefix_length (ad_family (px_address p)))"
    using inv(2,4) unsigned_less [of "px_length p", where 'a = nat] by (simp_all add: max_prefix_bits)
  have "length (to_chars ?n) \<le> 3" using n by (intro length_to_chars) simp_all
  moreover have "length (to_chars ?n) > 1 \<Longrightarrow> hd (to_chars ?n) \<noteq> CHR ''0''"
    by (metis One_nat_def length_Cons less_irrefl list.size(3) to_chars_0 to_chars_no_leading_zero)
  moreover have "find_char (CHR ''/'') 0 (prefix_to_string p) =
      Some (length (address_to_string (px_address p)))"
    using find_char_first [OF wf_prefix_text(1)]
    by (simp add: prefix_to_string_def append_decimal_def unat_ucast_up)
  moreover have "create_prefix (px_address p) (px_length p) = Inr p"
    using create_prefix_idem a by blast
  ultimately show ?thesis
    using n inv(3) by (simp add: parse_prefix_def prefix_to_string_def append_decimal_def substr_def
      unat_ucast_up parse_address_to_string from_chars_to_chars Let_def)
qed

theorem parse_prefix_to_string_witness:
  "\<exists>p. create_prefix example_net 12 = Inr p \<and> parse_prefix (prefix_to_string p) = Inr p"
proof -
  have wf: "wf_address example_net" by (simp add: example_net_def wf_address_def)
  obtain p where p: "create_prefix example_net 12 = Inr p" "px_length p = 12"
    by (auto simp: create_prefix_def example_net_def maximum_prefix_length_def Let_def)
  with wf have "wf_prefix p" by (auto simp: wf_prefix_def)
  from parse_prefix_to_string [OF this] p show ?thesis by blast
qed

lemma parse_port_to_chars:
  assumes "p \<noteq> 0"
  shows "parse_port (to_chars (unat p)) = Inr p"
proof -
  have "unat p < 65536" using unsigned_less [of p, where 'a = nat] by simp
  then have "length (to_chars (unat p)) \<le> 5" by (intro length_to_chars) simp_all
  moreover have "hd (to_chars (unat p)) \<noteq> CHR ''0''"
    using assms by (simp add: to_chars_no_leading_zero unat_eq_zero)
  ultimately show ?thesis
    using assms \<open>unat p < 65536\<close> by (simp add: parse_port_def from_chars_to_chars unat_eq_zero)
qed

text \<open>
  The text form of an endpoint with a nonzero port is parsed back to the same endpoint.
\<close>

lemma parse_endpoint_to_string:
  assumes "wf_address (ep_address e)" "ep_port e \<noteq> 0"
  shows "parse_endpoint (endpoint_to_string e) = Inr e"
proof (cases "ad_family (ep_address e)")
  case ipv4
  let ?t = "address_to_string (ep_address e)"
  have t: "endpoint_to_string e = ?t @ CHR '':'' # to_chars (unat (ep_port e))"
    using ipv4 by (simp add: endpoint_to_string_def)
  have "?t \<noteq> []" by (simp add: to_string_ipv4 [OF ipv4])
  moreover have "hd ?t \<noteq> CHR ''[''"
    using wf_prefix_text(3) [of "ep_address e"] \<open>?t \<noteq> []\<close> by (metis list.set_sel(1))
  moreover have "rfind_char (CHR '':'') (endpoint_to_string e) = Some (length ?t)"
    unfolding t using to_chars_separators by (intro rfind_char_last)
  moreover have "find_char (CHR '':'') 0 (endpoint_to_string e) = Some (length ?t)"
    unfolding t by (rule find_char_first) (simp add: to_string_ipv4 [OF ipv4] to_chars_separators)
  ultimately show ?thesis
    using assms ipv4 unfolding t
    by (simp add: parse_endpoint_def substr_def parse_address_to_string parse_port_to_chars)
next
  case ipv6
  let ?t = "address_to_string (ep_address e)"
  have t: "endpoint_to_string e = CHR ''['' # ?t @ CHR '']'' # CHR '':'' # to_chars (unat (ep_port e))"
    using ipv6 by (simp add: endpoint_to_string_def)
  have "find_char (CHR '']'') 0 (endpoint_to_string e) = Some (length (CHR ''['' # ?t))"
    unfolding t using wf_prefix_text(2) [of "ep_address e"]
    by (subst append_Cons [symmetric]) (rule find_char_first, simp)
  then show ?thesis
    using assms ipv6 unfolding t
    by (simp add: parse_endpoint_def substr_def nth_append parse_address_to_string
      parse_port_to_chars)
qed

end
