(* ===== verification/Ip_Packet.thy ===== *)
theory Ip_Packet
  imports Address
begin

text \<open>
  The IP header view of a tunnelled packet and the special addresses (src/ip_packet.cpp), and the
  flow key and flow hash made of it (src/flow_hash.cpp).
\<close>

definition kIpv4HeaderSize :: nat where "kIpv4HeaderSize = 20"
definition kIpv6HeaderSize :: nat where "kIpv6HeaderSize = 40"

lemmas ip_consts = kIpv4HeaderSize_def kIpv6HeaderSize_def

record IpPacketView =
  ip_family :: AddressFamily
  ip_source :: Address
  ip_destination :: Address
  ip_protocol :: u8
  ip_hop_limit :: u8
  ip_header_length :: nat
  ip_total_length :: nat

definition parse_ipv4_packet :: "bytes \<Rightarrow> Error + IpPacketView" where
  "parse_ipv4_packet b =
     (if length b < kIpv4HeaderSize then Inl malformed_packet
      else let first = b ! 0; header_words = unat (first AND 15); header_length = header_words * 4
      in if header_length < kIpv4HeaderSize \<or> header_length > length b then Inl malformed_packet
      else let total_length = unat (read_u16 b 2)
      in if total_length < header_length then Inl malformed_packet
      else if total_length \<noteq> length b then Inl payload_length_mismatch
      else Inr \<lparr>ip_family = ipv4, ip_source = from_bytes ipv4 (take 4 (drop 12 b)),
                ip_destination = from_bytes ipv4 (take 4 (drop 16 b)), ip_protocol = b ! 9,
                ip_hop_limit = b ! 8, ip_header_length = header_length,
                ip_total_length = total_length\<rparr>)"

definition parse_ipv6_packet :: "bytes \<Rightarrow> Error + IpPacketView" where
  "parse_ipv6_packet b =
     (if length b < kIpv6HeaderSize then Inl malformed_packet
      else let payload_length = unat (read_u16 b 4); total_length = kIpv6HeaderSize + payload_length
      in if total_length \<noteq> length b then Inl payload_length_mismatch
      else Inr \<lparr>ip_family = ipv6, ip_source = from_bytes ipv6 (take 16 (drop 8 b)),
                ip_destination = from_bytes ipv6 (take 16 (drop 24 b)), ip_protocol = b ! 6,
                ip_hop_limit = b ! 7, ip_header_length = kIpv6HeaderSize,
                ip_total_length = total_length\<rparr>)"

definition declared_ip_length :: "bytes \<Rightarrow> nat option" where
  "declared_ip_length b =
     (if b = [] then None
      else let version = drop_bit 4 (b ! 0)
      in if version = 4
         then if length b < kIpv4HeaderSize then None
              else let total = unat (read_u16 b 2)
                   in if total < kIpv4HeaderSize then None else Some total
         else if version = 6
         then if length b < kIpv6HeaderSize then None
              else Some (kIpv6HeaderSize + unat (read_u16 b 4))
         else None)"

definition parse_ip_packet :: "bytes \<Rightarrow> Error + IpPacketView" where
  "parse_ip_packet b =
     (if b = [] then Inl malformed_packet
      else let version = drop_bit 4 (b ! 0)
      in if version = 4 then parse_ipv4_packet b
         else if version = 6 then parse_ipv6_packet b
         else Inl unsupported_version)"

definition is_multicast :: "Address \<Rightarrow> bool" where
  "is_multicast a =
     (let octets = address_bytes a
      in if ad_family a = ipv4 then octets ! 0 AND 240 = 224 else octets ! 0 = 255)"

definition is_unspecified :: "Address \<Rightarrow> bool" where
  "is_unspecified a = list_all (\<lambda>octet. octet = 0) (address_bytes a)"

definition is_loopback :: "Address \<Rightarrow> bool" where
  "is_loopback a =
     (let octets = address_bytes a
      in if ad_family a = ipv4 then octets ! 0 = 127
         else if list_ex (\<lambda>index. octets ! index \<noteq> 0) [0..<15] then False
         else octets ! 15 = 1)"

subsection \<open>Parsed packets are well formed\<close>

lemma parse_ipv4_packet_inv:
  assumes "parse_ipv4_packet b = Inr v"
  shows "20 \<le> length b \<and> unat (read_u16 b 2) = length b \<and> ip_header_length v \<le> length b \<and>
    ip_total_length v = length b \<and> ip_family v = ipv4 \<and>
    ip_source v = from_bytes ipv4 (take 4 (drop 12 b)) \<and>
    ip_destination v = from_bytes ipv4 (take 4 (drop 16 b))"
  using assms unfolding parse_ipv4_packet_def ip_consts Let_def
  by (simp split: if_split_asm) auto

lemma parse_ipv6_packet_inv:
  assumes "parse_ipv6_packet b = Inr v"
  shows "40 + unat (read_u16 b 4) = length b \<and> ip_header_length v \<le> length b \<and>
    ip_total_length v = length b \<and> ip_family v = ipv6 \<and>
    ip_source v = from_bytes ipv6 (take 16 (drop 8 b)) \<and>
    ip_destination v = from_bytes ipv6 (take 16 (drop 24 b))"
  using assms unfolding parse_ipv6_packet_def ip_consts Let_def
  by (simp split: if_split_asm) auto

lemma parse_ip_packet_cases:
  assumes "parse_ip_packet b = Inr v"
  obtains (v4) "drop_bit 4 (b ! 0) = 4" "parse_ipv4_packet b = Inr v" "b \<noteq> []"
    | (v6) "drop_bit 4 (b ! 0) = 6" "parse_ipv6_packet b = Inr v" "b \<noteq> []"
  using assms unfolding parse_ip_packet_def Let_def by (simp split: if_split_asm)

lemma parse_ip_packet_wf:
  assumes "parse_ip_packet b = Inr v"
  shows "wf_address (ip_source v) \<and> wf_address (ip_destination v) \<and>
    ad_family (ip_source v) = ip_family v \<and> ad_family (ip_destination v) = ip_family v \<and>
    ip_total_length v = length b \<and> ip_header_length v \<le> length b \<and>
    declared_ip_length b = Some (length b)"
  using assms
proof (cases rule: parse_ip_packet_cases)
  case v4
  then show ?thesis
    using parse_ipv4_packet_inv [OF v4(2)]
    by (auto simp: wf_address_def declared_ip_length_def ip_consts)
next
  case v6
  then show ?thesis
    using parse_ipv6_packet_inv [OF v6(2)]
    by (auto simp: wf_address_def declared_ip_length_def ip_consts)
qed

subsection \<open>Flows\<close>

record FlowKey =
  fk_source :: Address
  fk_destination :: Address
  fk_source_port :: u16
  fk_destination_port :: u16
  fk_protocol :: u8

definition kProtocolTcp :: u8 where "kProtocolTcp = 6"
definition kProtocolUdp :: u8 where "kProtocolUdp = 17"

definition kOffsetBasis :: u64 where "kOffsetBasis = 1469598103934665603"
definition kPrime :: u64 where "kPrime = 1099511628211"

definition mix :: "u64 \<Rightarrow> u64 \<Rightarrow> u64" where
  "mix hash value = (hash XOR value) * kPrime"

definition mix_address :: "u64 \<Rightarrow> Address \<Rightarrow> u64" where
  "mix_address hash a = fold (\<lambda>octet hash. mix hash (ucast octet)) (address_bytes a) hash"

definition hash_address :: "Address \<Rightarrow> u64" where
  "hash_address a = mix_address kOffsetBasis a"

definition flow_key_of :: "IpPacketView \<Rightarrow> bytes \<Rightarrow> FlowKey" where
  "flow_key_of packet frame =
     (let key = \<lparr>fk_source = ip_source packet, fk_destination = ip_destination packet,
                 fk_source_port = 0, fk_destination_port = 0, fk_protocol = ip_protocol packet\<rparr>
      in if ip_protocol packet \<noteq> kProtocolTcp \<and> ip_protocol packet \<noteq> kProtocolUdp then key
         else if length frame < ip_header_length packet + 4 then key
         else let transport = drop (ip_header_length packet) frame
              in key\<lparr>fk_source_port := push_bit 8 (ucast (transport ! 0)) OR ucast (transport ! 1),
                     fk_destination_port :=
                       push_bit 8 (ucast (transport ! 2)) OR ucast (transport ! 3)\<rparr>)"

definition hash_flow :: "FlowKey \<Rightarrow> u64" where
  "hash_flow key =
     (let source = hash_address (fk_source key) + ucast (fk_source_port key);
          destination = hash_address (fk_destination key) + ucast (fk_destination_port key);
          hash = kOffsetBasis;
          hash = mix hash (source + destination);
          hash = mix hash (ucast (fk_protocol key));
          hash = hash XOR drop_bit 33 hash;
          hash = hash * 0xFF51AFD7ED558CCD;
          hash = hash XOR drop_bit 33 hash
      in hash)"

definition worker_for :: "FlowKey \<Rightarrow> nat \<Rightarrow> nat" where
  "worker_for key worker_count =
     (if worker_count \<le> 1 then 0 else unat (hash_flow key) mod worker_count)"

text \<open>The packet and frame of the other direction of a connection.\<close>

definition reverse_flow :: "FlowKey \<Rightarrow> FlowKey" where
  "reverse_flow key = key\<lparr>fk_source := fk_destination key, fk_destination := fk_source key,
     fk_source_port := fk_destination_port key, fk_destination_port := fk_source_port key\<rparr>"

text \<open>
  Both directions of a connection are handled by the same worker, and the worker exists: a
  packet whose addresses and ports are those of another one exchanged is assigned the same worker
  index, below the worker count.
\<close>

lemma worker_for_both_directions:
  assumes "0 < n" and "flow_key_of packet' frame' = reverse_flow (flow_key_of packet frame)"
  shows "worker_for (flow_key_of packet' frame') n = worker_for (flow_key_of packet frame) n \<and>
    worker_for (flow_key_of packet frame) n < n"
proof -
  have "hash_flow (reverse_flow key) = hash_flow key" for key
    by (simp add: hash_flow_def reverse_flow_def add.commute)
  then show ?thesis using assms by (simp add: worker_for_def)
qed

end
