(* ===== verification/Routing.thy ===== *)
theory Routing
  imports Endpoint Ip_Packet
begin

text \<open>
  The routing table of inner prefixes and the forwarding decision (src/routing.cpp). The mutex only
  serialises the calls; each call is one step here. \<^verbatim>\<open>std::ranges::lower_bound\<close> with
  \<^verbatim>\<open>greater\<close> on the lengths returns the first entry that is not longer than the new prefix, on a
  vector that is ordered by descending length, which \<open>routing_ok\<close> shows it is.
\<close>

type_synonym PeerId = u32

definition kNoPeer :: PeerId where "kNoPeer = 0"

datatype RoutingError = duplicate_prefix | invalid_peer | prefix_family_mismatch | too_many_prefixes

datatype ForwardDecision = forward | deliver_local | no_route | source_not_authorized
  | multicast_denied | unspecified_address | loopback_address | hop_limit_exceeded | routing_loop

record ForwardResult =
  fr_decision :: ForwardDecision
  fr_peer :: PeerId

record RouteEntry =
  re_prefix :: Prefix
  re_peer :: PeerId

record RoutingTable =
  rt_entries :: "RouteEntry list"
  rt_local :: "Prefix list"

definition kMaximumPrefixes :: nat where "kMaximumPrefixes = 4096"

definition new_table :: RoutingTable where
  "new_table = \<lparr>rt_entries = [], rt_local = []\<rparr>"

fun find_prefix :: "Prefix \<Rightarrow> RouteEntry list \<Rightarrow> RouteEntry option" where
  "find_prefix p [] = None"
| "find_prefix p (e # es) = (if re_prefix e = p then Some e else find_prefix p es)"

definition add_route :: "RoutingTable \<Rightarrow> PeerId \<Rightarrow> Prefix \<Rightarrow> (RoutingError + unit) \<times> RoutingTable" where
  "add_route t peer p =
     (if peer = kNoPeer then (Inl invalid_peer, t)
      else if length (rt_entries t) \<ge> kMaximumPrefixes then (Inl too_many_prefixes, t)
      else case find_prefix p (rt_entries t) of
             Some e \<Rightarrow> if re_peer e = peer then (Inr (), t) else (Inl duplicate_prefix, t)
           | None \<Rightarrow>
               let longer = (\<lambda>e. px_length (re_prefix e) > px_length p)
               in (Inr (), t\<lparr>rt_entries := takeWhile longer (rt_entries t) @
                         \<lparr>re_prefix = p, re_peer = peer\<rparr> # dropWhile longer (rt_entries t)\<rparr>))"

definition add_local :: "RoutingTable \<Rightarrow> Prefix \<Rightarrow> (RoutingError + unit) \<times> RoutingTable" where
  "add_local t p =
     (if length (rt_local t) \<ge> kMaximumPrefixes then (Inl too_many_prefixes, t)
      else if p \<in> set (rt_local t) then (Inr (), t)
      else (Inr (), t\<lparr>rt_local := rt_local t @ [p]\<rparr>))"

definition is_local :: "RoutingTable \<Rightarrow> Address \<Rightarrow> bool" where
  "is_local t a =
     list_ex (\<lambda>p. ad_family (px_address p) = ad_family a \<and> contains p a) (rt_local t)"

fun lookup_entries :: "RouteEntry list \<Rightarrow> Address \<Rightarrow> PeerId" where
  "lookup_entries [] a = kNoPeer"
| "lookup_entries (e # es) a =
     (if ad_family (px_address (re_prefix e)) \<noteq> ad_family a then lookup_entries es a
      else if contains (re_prefix e) a then re_peer e
      else lookup_entries es a)"

definition lookup :: "RoutingTable \<Rightarrow> Address \<Rightarrow> PeerId" where
  "lookup t a = lookup_entries (rt_entries t) a"

fun authorized_entries :: "RouteEntry list \<Rightarrow> PeerId \<Rightarrow> Address \<Rightarrow> bool" where
  "authorized_entries [] peer a = False"
| "authorized_entries (e # es) peer a =
     (if re_peer e \<noteq> peer then authorized_entries es peer a
      else if ad_family (px_address (re_prefix e)) \<noteq> ad_family a then authorized_entries es peer a
      else if contains (re_prefix e) a then True
      else authorized_entries es peer a)"

definition is_authorized :: "RoutingTable \<Rightarrow> PeerId \<Rightarrow> Address \<Rightarrow> bool" where
  "is_authorized t peer a =
     (if peer = kNoPeer then False else authorized_entries (rt_entries t) peer a)"

definition refuse :: "ForwardDecision \<Rightarrow> ForwardResult" where
  "refuse decision = \<lparr>fr_decision = decision, fr_peer = kNoPeer\<rparr>"

definition classify :: "RoutingTable \<Rightarrow> IpPacketView \<Rightarrow> PeerId \<Rightarrow> ForwardResult" where
  "classify t packet ingress_peer =
     (if is_multicast (ip_destination packet) then refuse multicast_denied
      else if is_unspecified (ip_destination packet) \<or> is_unspecified (ip_source packet)
      then refuse unspecified_address
      else if is_loopback (ip_destination packet) \<or> is_loopback (ip_source packet)
      then refuse loopback_address
      else if ip_hop_limit packet \<le> 1 then refuse hop_limit_exceeded
      else if ingress_peer \<noteq> kNoPeer \<and> \<not> is_authorized t ingress_peer (ip_source packet)
      then refuse source_not_authorized
      else if is_local t (ip_destination packet)
      then \<lparr>fr_decision = deliver_local, fr_peer = kNoPeer\<rparr>
      else let destination_peer = lookup t (ip_destination packet)
      in if destination_peer = kNoPeer
         then if ingress_peer \<noteq> kNoPeer then \<lparr>fr_decision = deliver_local, fr_peer = kNoPeer\<rparr>
              else refuse no_route
         else if destination_peer = ingress_peer then refuse routing_loop
         else \<lparr>fr_decision = forward, fr_peer = destination_peer\<rparr>)"

definition clear_peer_routes :: "RoutingTable \<Rightarrow> RoutingTable" where
  "clear_peer_routes t = t\<lparr>rt_entries := []\<rparr>"

subsection \<open>The tables that can arise\<close>

inductive routes :: "RoutingTable \<Rightarrow> bool" where
  routes_new: "routes new_table"
| routes_add: "routes t \<Longrightarrow> wf_prefix p \<Longrightarrow> routes (snd (add_route t peer p))"
| routes_local: "routes t \<Longrightarrow> wf_prefix p \<Longrightarrow> routes (snd (add_local t p))"
| routes_clear: "routes t \<Longrightarrow> routes (clear_peer_routes t)"

abbreviation re_length :: "RouteEntry \<Rightarrow> u8" where
  "re_length e \<equiv> px_length (re_prefix e)"

definition routing_ok :: "RoutingTable \<Rightarrow> bool" where
  "routing_ok t \<longleftrightarrow> sorted_wrt (\<lambda>e f. re_length f \<le> re_length e) (rt_entries t) \<and>
     distinct (map re_prefix (rt_entries t)) \<and> length (rt_entries t) \<le> kMaximumPrefixes \<and>
     (\<forall>e\<in>set (rt_entries t). re_peer e \<noteq> kNoPeer \<and> wf_prefix (re_prefix e))"

lemma find_prefix_None: "find_prefix p es = None \<longleftrightarrow> p \<notin> re_prefix ` set es"
  by (induction es) auto

lemma sorted_wrt_insert_longer:
  fixes k :: "'a \<Rightarrow> 'b::linorder"
  assumes "sorted_wrt (\<lambda>e f. k f \<le> k e) xs"
  shows "sorted_wrt (\<lambda>e f. k f \<le> k e)
    (takeWhile (\<lambda>e. k x < k e) xs @ x # dropWhile (\<lambda>e. k x < k e) xs)"
  using assms
proof (induction xs)
  case (Cons y ys)
  have "set (takeWhile (\<lambda>e. k x < k e) ys @ x # dropWhile (\<lambda>e. k x < k e) ys) = insert x (set ys)"
    by (metis Un_insert_right list.simps(15) set_append takeWhile_dropWhile_id)
  then show ?case using Cons by (auto simp: not_less intro: order_trans)
qed simp

lemma routing_ok_add [inv_intros]:
  assumes "routing_ok t" "wf_prefix p"
  shows "routing_ok (snd (add_route t peer p))"
proof (cases "peer = kNoPeer \<or> length (rt_entries t) \<ge> kMaximumPrefixes \<or> find_prefix p (rt_entries t) \<noteq> None")
  case True
  then show ?thesis using assms(1) by (auto simp: add_route_def split: option.split)
next
  case False
  let ?e = "\<lparr>re_prefix = p, re_peer = peer\<rparr>"
  let ?longer = "\<lambda>e. px_length p < re_length e"
  define es where "es = takeWhile ?longer (rt_entries t) @ ?e # dropWhile ?longer (rt_entries t)"
  have step: "snd (add_route t peer p) = t\<lparr>rt_entries := es\<rparr>"
    using False by (simp add: add_route_def es_def Let_def)
  have mset: "mset es = add_mset ?e (mset (rt_entries t))"
    by (simp add: es_def) (metis mset_append takeWhile_dropWhile_id)
  have "sorted_wrt (\<lambda>e f. re_length f \<le> re_length e) es"
    using sorted_wrt_insert_longer [of re_length "rt_entries t" ?e] assms(1)
    by (simp add: es_def routing_ok_def)
  moreover have "distinct (map re_prefix es)"
  proof -
    have "mset (map re_prefix es) = mset (p # map re_prefix (rt_entries t))" by (simp add: mset)
    then have "distinct (map re_prefix es) = distinct (p # map re_prefix (rt_entries t))"
      by (rule mset_eq_imp_distinct_iff)
    then show ?thesis using False assms(1) by (simp add: routing_ok_def find_prefix_None)
  qed
  moreover have "set es = insert ?e (set (rt_entries t))"
    using arg_cong [OF mset, of set_mset] by simp
  moreover have "length es = Suc (length (rt_entries t))"
    using arg_cong [OF mset, of size] by simp
  ultimately show ?thesis using assms False by (auto simp: step routing_ok_def)
qed

lemma routes_ok: "routes t \<Longrightarrow> routing_ok t"
proof (induction rule: routes.induct)
  case routes_new
  then show ?case by (simp add: routing_ok_def new_table_def)
next
  case (routes_local t p)
  then show ?case by (simp add: add_local_def routing_ok_def)
next
  case (routes_clear t)
  then show ?case by (simp add: clear_peer_routes_def routing_ok_def)
qed (rule inv_intros)

subsection \<open>Longest-prefix match\<close>

lemma wf_prefix_inv:
  assumes "wf_prefix p"
  shows "wf_address (px_address p)" "unat (px_length p) \<le> 8 * address_length (ad_family (px_address p))"
    "\<And>i. unat (px_length p) \<le> i \<Longrightarrow> i < 128 \<Longrightarrow> \<not> obit (ad_octets (px_address p)) i"
proof -
  obtain a where a: "wf_address a" "create_prefix a (px_length p) = Inr p"
    using assms by (auto simp: wf_prefix_def)
  note inv = create_prefix_inv [OF a(2,1)]
  show "wf_address (px_address p)" by (rule inv(3))
  show "unat (px_length p) \<le> 8 * address_length (ad_family (px_address p))"
    using inv(2,4) by simp
  fix i assume i: "unat (px_length p) \<le> i" "i < 128"
  show "\<not> obit (ad_octets (px_address p)) i"
  proof (cases "i < 8 * address_length (ad_family a)")
    case True
    then show ?thesis using i inv(5) by blast
  next
    case False
    with i have v4: "ad_family a = ipv4" "4 \<le> i div 8" "i div 8 < 16"
      by (auto simp: address_length_def split: if_split_asm)
    have "drop 4 (ad_octets a) = replicate 12 0" using a(1) v4(1) by (simp add: wf_address_def)
    then have "ad_octets a ! (i div 8) = 0"
      using v4 nth_drop [of 4 "ad_octets a" "i div 8 - 4"] a(1) by (simp add: wf_address_def)
    then show ?thesis using i inv(5) by (simp add: obit_def)
  qed
qed

lemma prefix_unique:
  assumes "wf_prefix p" "wf_prefix q" "px_length p = px_length q" "contains p a" "contains q a"
  shows "p = q"
proof -
  note p = wf_prefix_inv [OF assms(1)] and q = wf_prefix_inv [OF assms(2)]
  have fam: "ad_family (px_address p) = ad_family (px_address q)"
    using assms(4,5) p(2) q(2) by (simp add: contains_obit)
  have "obit (ad_octets (px_address p)) i = obit (ad_octets (px_address q)) i" if "i < 8 * 16" for i
  proof (cases "i < unat (px_length p)")
    case True
    then show ?thesis using assms(3-5) p(2) q(2) by (simp add: contains_obit)
  next
    case False
    then show ?thesis using p(3) q(3) that assms(3) by simp
  qed
  then have "\<forall>k<16. ad_octets (px_address p) ! k = ad_octets (px_address q) ! k"
    unfolding whole_octets_bits by blast
  then have "ad_octets (px_address p) = ad_octets (px_address q)"
    using p(1) q(1) by (intro nth_equalityI) (auto simp: wf_address_def)
  then show ?thesis using fam assms(3) by simp
qed

lemma contains_family: "contains p a \<Longrightarrow> ad_family (px_address p) = ad_family a"
  by (auto simp: contains_def split: if_split_asm)

definition best_route :: "RoutingTable \<Rightarrow> Address \<Rightarrow> RouteEntry \<Rightarrow> bool" where
  "best_route t a e \<longleftrightarrow> e \<in> set (rt_entries t) \<and> contains (re_prefix e) a \<and>
     (\<forall>f\<in>set (rt_entries t). contains (re_prefix f) a \<longrightarrow> re_length f \<le> re_length e)"

lemma lookup_entries_first:
  "lookup_entries es a =
     (case filter (\<lambda>e. contains (re_prefix e) a) es of [] \<Rightarrow> kNoPeer | e # _ \<Rightarrow> re_peer e)"
  by (induction es) (auto dest: contains_family)

lemma lookup_best_route:
  assumes "routing_ok t"
  shows "(\<nexists>e. best_route t a e) \<and> lookup t a = kNoPeer \<or>
         (\<exists>e. best_route t a e \<and> lookup t a = re_peer e)"
proof (cases "filter (\<lambda>e. contains (re_prefix e) a) (rt_entries t)")
  case Nil
  then show ?thesis
    by (auto simp: lookup_def lookup_entries_first best_route_def filter_empty_conv)
next
  case (Cons e es)
  have "sorted_wrt (\<lambda>e f. re_length f \<le> re_length e) (e # es)"
    using assms by (simp add: routing_ok_def sorted_wrt_filter flip: Cons)
  moreover have "set (e # es) = {f \<in> set (rt_entries t). contains (re_prefix f) a}"
    by (simp flip: Cons)
  ultimately have "best_route t a e" by (auto simp: best_route_def)
  then show ?thesis using Cons by (auto simp: lookup_def lookup_entries_first)
qed

lemma best_route_unique:
  assumes "routing_ok t" "best_route t a e" "best_route t a f"
  shows "e = f"
proof -
  have "re_length e = re_length f" using assms(2,3) by (auto simp: best_route_def intro: antisym)
  then have "re_prefix e = re_prefix f"
    using assms by (intro prefix_unique [of _ _ a]) (auto simp: routing_ok_def best_route_def)
  then show ?thesis
    using assms by (auto simp: routing_ok_def best_route_def distinct_map inj_on_def)
qed

text \<open>
  C20: routing is longest-prefix match. On every table that calls of \<^verbatim>\<open>add\<close>, \<^verbatim>\<open>add_local\<close> and
  \<^verbatim>\<open>clear_peer_routes\<close> can build, \<^verbatim>\<open>lookup\<close> returns a peer exactly when that peer owns the longest
  prefix that contains the address.
\<close>

theorem lookup_longest_prefix:
  assumes "routes t"
  shows "lookup t a = peer \<and> peer \<noteq> kNoPeer \<longleftrightarrow> (\<exists>e. best_route t a e \<and> re_peer e = peer)"
proof -
  have ok: "routing_ok t" using assms by (rule routes_ok)
  have owned: "re_peer e \<noteq> kNoPeer" if "best_route t a e" for e
    using that ok by (auto simp: best_route_def routing_ok_def)
  from lookup_best_route [OF ok, of a] show ?thesis
  proof (elim disjE conjE exE)
    fix e assume e: "best_route t a e" "lookup t a = re_peer e"
    then have "\<And>f. best_route t a f \<Longrightarrow> f = e" using best_route_unique [OF ok] by blast
    then have "(\<exists>f. best_route t a f \<and> re_peer f = peer) \<longleftrightarrow> re_peer e = peer"
      using e(1) by metis
    then show ?thesis using e(2) owned [OF e(1)] by metis
  qed simp
qed

definition ten_slash_8 :: Prefix where
  "ten_slash_8 = \<lparr>px_address = \<lparr>ad_family = ipv4, ad_octets = 10 # replicate 15 0\<rparr>, px_length = 8\<rparr>"

lemma clear_zero_bits:
  assumes "\<forall>i\<in>set is. octets ! (i div 8) = 0"
  shows "fold clear_bit is octets = octets"
proof -
  have "clear_bit i octets = octets" if "octets ! (i div 8) = 0" for i
    using that list_update_id [of octets "i div 8"] by (simp add: clear_bit_def Let_def)
  with assms show ?thesis by (induction "is") auto
qed

lemma wf_ten_slash_8: "wf_prefix ten_slash_8"
proof -
  let ?octets = "10 # replicate 15 (0 :: byte)"
  have wf: "wf_address (px_address ten_slash_8)"
    by (simp add: wf_address_def ten_slash_8_def numeral_eq_Suc)
  have "?octets ! (i div 8) = 0" if "i \<in> set [8..<32]" for i
    using that by (auto simp: nth_Cons' div_eq_0_iff)
  then have "fold clear_bit [8..<32] ?octets = ?octets" by (intro clear_zero_bits) blast
  then have "create_prefix (px_address ten_slash_8) 8 = Inr ten_slash_8"
    using octets_address_bytes [OF wf]
    by (simp add: create_prefix_def ten_slash_8_def maximum_prefix_length_def address_length_def
      from_bytes_def copy_to_0)
  with wf show ?thesis by (auto simp: wf_prefix_def ten_slash_8_def)
qed

theorem lookup_longest_prefix_witness:
  "lookup (snd (add_route new_table 7 ten_slash_8)) example_net = 7"
proof -
  let ?t = "snd (add_route new_table 7 ten_slash_8)" and ?e = "\<lparr>re_prefix = ten_slash_8, re_peer = 7\<rparr>"
  have t: "routes ?t" by (intro routes_add routes_new wf_ten_slash_8)
  have "rt_entries ?t = [?e]"
    by (simp add: add_route_def new_table_def kNoPeer_def kMaximumPrefixes_def)
  moreover have "contains ten_slash_8 example_net"
    by (simp add: contains_def ten_slash_8_def example_net_def address_bytes_def address_length_def)
  ultimately have "best_route ?t example_net ?e" by (simp add: best_route_def)
  then show ?thesis using lookup_longest_prefix [OF t, of example_net 7] by auto
qed

subsection \<open>Forwarding decisions\<close>

lemma authorized_entries_iff:
  "authorized_entries es peer a \<longleftrightarrow> (\<exists>e\<in>set es. re_peer e = peer \<and> contains (re_prefix e) a)"
  by (induction es) (auto dest: contains_family)

lemma is_authorized_iff:
  "is_authorized t peer a \<longleftrightarrow>
     peer \<noteq> kNoPeer \<and> (\<exists>e\<in>set (rt_entries t). re_peer e = peer \<and> contains (re_prefix e) a)"
  by (simp add: is_authorized_def authorized_entries_iff)

definition special_address :: "Address \<Rightarrow> bool" where
  "special_address a \<longleftrightarrow> is_unspecified a \<or> is_loopback a"

text \<open>
  C21: what leaves the tunnel is legitimate, and where it goes is the route. A packet that came in
  from a peer is forwarded to a peer or delivered to the local interface only when its source
  address lies in a prefix of that peer, neither address is unspecified or loopback, the
  destination is no multicast address and the hop limit allows another hop; and it is forwarded to
  exactly the owner of the longest matching prefix of a destination that is not local, never back
  to the peer it came from.
\<close>

theorem classify_sound:
  assumes "routes t" "fr_decision (classify t packet ingress) \<in> {forward, deliver_local}"
  shows "(ingress \<noteq> kNoPeer \<longrightarrow> (\<exists>e\<in>set (rt_entries t).
           re_peer e = ingress \<and> contains (re_prefix e) (ip_source packet))) \<and>
    \<not> special_address (ip_source packet) \<and> \<not> special_address (ip_destination packet) \<and>
    \<not> is_multicast (ip_destination packet) \<and> 1 < ip_hop_limit packet \<and>
    (fr_decision (classify t packet ingress) = forward \<longrightarrow>
       fr_peer (classify t packet ingress) \<noteq> ingress \<and> \<not> is_local t (ip_destination packet) \<and>
       (\<exists>e. best_route t (ip_destination packet) e \<and>
            re_peer e = fr_peer (classify t packet ingress)))"
proof -
  have route: "(\<exists>e. best_route t (ip_destination packet) e \<and> re_peer e = lookup t (ip_destination packet))"
    if "lookup t (ip_destination packet) \<noteq> kNoPeer"
    using that lookup_best_route [OF routes_ok [OF assms(1)], of "ip_destination packet"] by auto
  show ?thesis
    using assms(2) route unfolding classify_def Let_def special_address_def
    by (auto simp: refuse_def is_authorized_iff not_le split: if_split_asm)
qed

definition example_packet :: IpPacketView where
  "example_packet = \<lparr>ip_family = ipv4, ip_source = example_net,
     ip_destination = \<lparr>ad_family = ipv4, ad_octets = [192, 168, 0, 1] @ replicate 12 0\<rparr>,
     ip_protocol = 17, ip_hop_limit = 64, ip_header_length = 20, ip_total_length = 40\<rparr>"

theorem classify_sound_witness:
  "fr_decision (classify (snd (add_route new_table 7 ten_slash_8)) example_packet 7) = deliver_local \<and>
   1 < ip_hop_limit example_packet"
proof -
  let ?t = "snd (add_route new_table 7 ten_slash_8)"
  have t: "routes ?t" by (intro routes_add routes_new wf_ten_slash_8)
  have "fr_decision (classify ?t example_packet 7) = deliver_local"
    by (simp add: classify_def example_packet_def add_route_def new_table_def kNoPeer_def
      kMaximumPrefixes_def is_authorized_def lookup_def is_local_def is_multicast_def
      is_unspecified_def is_loopback_def contains_def ten_slash_8_def example_net_def
      address_bytes_def address_length_def refuse_def word_le_nat_alt)
  with classify_sound [OF t, of example_packet 7] show ?thesis by simp
qed

end
