(* ===== verification/Session.thy ===== *)
theory Session
  imports Complex_Main Packet Crypto Replay_Window Timers Routing
begin

text \<open>
  Sessions (\<^verbatim>\<open>Session\<close> in src/session.cpp): sealing and opening packets under the traffic keys, the
  send counter, the replay window and the loss accounting. The mutex of a session makes each member
  function one step; the current time is an argument where the code reads the steady clock; a
  \<^verbatim>\<open>double\<close> is a \<open>real\<close>. An output span is passed in and returned with the result.
\<close>

datatype SessionError = unknown_peer | unknown_key_id | not_established | send_counter_exhausted
  | replayed | too_old | authentication_failed | buffer_too_small | key_id_exhausted
  | too_many_sessions | generation_mismatch

definition session_error_message :: "SessionError \<Rightarrow> string" where
  "session_error_message e = (case e of
      unknown_peer \<Rightarrow> ''unknown peer''
    | unknown_key_id \<Rightarrow> ''no session for key id''
    | not_established \<Rightarrow> ''session not established''
    | send_counter_exhausted \<Rightarrow> ''send counter exhausted; rekey required''
    | replayed \<Rightarrow> ''packet already seen''
    | too_old \<Rightarrow> ''packet counter below the replay window''
    | authentication_failed \<Rightarrow> ''authentication failed''
    | buffer_too_small \<Rightarrow> ''output buffer too small''
    | key_id_exhausted \<Rightarrow> ''no free key id''
    | too_many_sessions \<Rightarrow> ''session limit reached''
    | generation_mismatch \<Rightarrow> ''key generation mismatch'')"

record SessionStats =
  st_sent :: u64
  st_received :: u64
  st_replay_drops :: u64
  st_auth_failures :: u64
  st_too_old_drops :: u64

record LossSample =
  ls_raw :: real
  ls_residual :: real
  ls_expected :: u64

record Session =
  ss_peer :: PeerId
  ss_local_key_id :: u16
  ss_remote_key_id :: u16
  ss_send_keys :: TrafficKeys
  ss_receive_keys :: TrafficKeys
  ss_send_counter :: PacketCounter
  ss_replay :: ReplayWindow
  ss_endpoint :: "Endpoint option"
  ss_last_received :: instant
  ss_established_at :: instant
  ss_stats :: SessionStats
  ss_sample_base :: u64
  ss_sample_received :: u64
  ss_sample_recovered :: u64
  ss_sample_late :: u64
  ss_sample_primed :: bool

definition new_session ::
    "PeerId \<Rightarrow> u16 \<Rightarrow> u16 \<Rightarrow> TrafficKeys \<Rightarrow> TrafficKeys \<Rightarrow> instant \<Rightarrow> Session" where
  "new_session peer local_key_id remote_key_id send_keys receive_keys now =
     \<lparr>ss_peer = peer, ss_local_key_id = local_key_id, ss_remote_key_id = remote_key_id,
      ss_send_keys = send_keys, ss_receive_keys = receive_keys, ss_send_counter = new_counter 0,
      ss_replay = new_window, ss_endpoint = None, ss_last_received = 0, ss_established_at = now,
      ss_stats = \<lparr>st_sent = 0, st_received = 0, st_replay_drops = 0, st_auth_failures = 0,
        st_too_old_drops = 0\<rparr>,
      ss_sample_base = 0, ss_sample_received = 0, ss_sample_recovered = 0, ss_sample_late = 0,
      ss_sample_primed = False\<rparr>"

definition note_authenticated_endpoint :: "Session \<Rightarrow> Endpoint \<Rightarrow> Session" where
  "note_authenticated_endpoint s e = s\<lparr>ss_endpoint := Some e\<rparr>"

definition has_received :: "Session \<Rightarrow> bool" where
  "has_received s \<longleftrightarrow> st_received (ss_stats s) > 0"

definition needs_rekey :: "Session \<Rightarrow> instant \<Rightarrow> bool" where
  "needs_rekey s now \<longleftrightarrow>
     st_sent (ss_stats s) \<ge> kRekeyAfterMessages \<or> now - ss_established_at s \<ge> kRekeyAfter"

definition expired :: "Session \<Rightarrow> instant \<Rightarrow> bool" where
  "expired s now \<longleftrightarrow>
     st_sent (ss_stats s) \<ge> kRejectAfterMessages \<or> now - ss_established_at s \<ge> kSessionExpiry"

definition reserve_counter :: "Session \<Rightarrow> (SessionError + u64) \<times> Session" where
  "reserve_counter s =
     (if st_sent (ss_stats s) \<ge> kRejectAfterMessages then (Inl send_counter_exhausted, s)
      else case next_counter (ss_send_counter s) of
             (Inl _, c) \<Rightarrow> (Inl send_counter_exhausted, s\<lparr>ss_send_counter := c\<rparr>)
           | (Inr counter, c) \<Rightarrow>
               (Inr counter, s\<lparr>ss_send_counter := c,
                  ss_stats := (ss_stats s)\<lparr>st_sent := st_sent (ss_stats s) + 1\<rparr>\<rparr>))"

definition seal_reserved :: "aead \<Rightarrow> Session \<Rightarrow> FrameType \<Rightarrow> u64 \<Rightarrow> bytes \<Rightarrow> bytes \<Rightarrow>
    (SessionError + nat) \<times> bytes" where
  "seal_reserved encrypt s type counter plaintext out =
     (let ciphertext_length = length plaintext + kAeadTagSize
      in if length out < kPacketHeaderSize + ciphertext_length then (Inl buffer_too_small, out)
      else if ciphertext_length > kMaximumPacketSize - kPacketHeaderSize
      then (Inl buffer_too_small, out)
      else let header = \<lparr>ph_version = kProtocolVersion, ph_type = type, ph_flags = 0,
                 ph_key_id = ss_remote_key_id s, ph_header_length = of_nat kPacketHeaderSize,
                 ph_counter = counter, ph_payload_length = of_nat ciphertext_length\<rparr>
      in case serialize_header header ciphertext_length out of
           Inl _ \<Rightarrow> (Inl buffer_too_small, out)
         | Inr out \<Rightarrow>
      (let associated = take kPacketHeaderSize out
       in case seal_keys encrypt (ss_send_keys s) counter associated plaintext
                 (drop kPacketHeaderSize out) of
            (Inl e, rest) \<Rightarrow>
              (Inl (if e = ce_buffer_too_small then buffer_too_small else authentication_failed),
               associated @ rest)
          | (Inr sealed, rest) \<Rightarrow> (Inr (kPacketHeaderSize + sealed), associated @ rest)))"

definition seal :: "aead \<Rightarrow> Session \<Rightarrow> FrameType \<Rightarrow> bytes \<Rightarrow> bytes \<Rightarrow>
    ((SessionError + nat) \<times> bytes) \<times> Session" where
  "seal encrypt s type plaintext out =
     (if length out < kPacketHeaderSize + length plaintext + kAeadTagSize
      then ((Inl buffer_too_small, out), s)
      else case reserve_counter s of
             (Inl e, s) \<Rightarrow> ((Inl e, out), s)
           | (Inr counter, s) \<Rightarrow> (seal_reserved encrypt s type counter plaintext out, s))"

definition check_window :: "Session \<Rightarrow> u64 \<Rightarrow> (SessionError + unit) \<times> Session" where
  "check_window s counter =
     (if counter < rw_highest (ss_replay s) \<and> rw_highest (ss_replay s) - counter \<ge> kWindowSize
      then (Inl too_old,
            s\<lparr>ss_stats := (ss_stats s)\<lparr>st_too_old_drops := st_too_old_drops (ss_stats s) + 1\<rparr>\<rparr>)
      else (Inr (), s))"

definition decrypt_packet :: "aead \<Rightarrow> Session \<Rightarrow> PacketView \<Rightarrow> bytes \<Rightarrow> bytes \<Rightarrow>
    (SessionError + nat) \<times> bytes" where
  "decrypt_packet decrypt s view packet out =
     (if length packet < kPacketHeaderSize then (Inl buffer_too_small, out)
      else let associated = take kPacketHeaderSize packet
      in case open_keys decrypt (ss_receive_keys s) (ph_counter (pv_header view)) associated
                (pv_payload view) out of
           (Inl e, out) \<Rightarrow>
             (Inl (if e = ce_buffer_too_small then buffer_too_small else authentication_failed), out)
         | (Inr opened, out) \<Rightarrow> (Inr opened, out))"

definition note_authentication_failure :: "Session \<Rightarrow> Session" where
  "note_authentication_failure s =
     s\<lparr>ss_stats := (ss_stats s)\<lparr>st_auth_failures := st_auth_failures (ss_stats s) + 1\<rparr>\<rparr>"

definition commit :: "Session \<Rightarrow> u64 \<Rightarrow> instant \<Rightarrow> (SessionError + unit) \<times> Session" where
  "commit s counter now =
     (case accept (ss_replay s) counter of
        (rr_replayed, w) \<Rightarrow>
          (Inl replayed, s\<lparr>ss_replay := w,
             ss_stats := (ss_stats s)\<lparr>st_replay_drops := st_replay_drops (ss_stats s) + 1\<rparr>,
             ss_sample_late := ss_sample_late s + 1\<rparr>)
      | (rr_too_old, w) \<Rightarrow>
          (Inl too_old, s\<lparr>ss_replay := w,
             ss_stats := (ss_stats s)\<lparr>st_too_old_drops := st_too_old_drops (ss_stats s) + 1\<rparr>\<rparr>)
      | (rr_accepted, w) \<Rightarrow>
          (Inr (), s\<lparr>ss_replay := w,
             ss_stats := (ss_stats s)\<lparr>st_received := st_received (ss_stats s) + 1\<rparr>,
             ss_sample_received := ss_sample_received s + 1, ss_last_received := now\<rparr>))"

definition open_packet :: "aead \<Rightarrow> Session \<Rightarrow> PacketView \<Rightarrow> bytes \<Rightarrow> bytes \<Rightarrow> instant \<Rightarrow>
    ((SessionError + nat) \<times> bytes) \<times> Session" where
  "open_packet decrypt s view packet out now =
     (case check_window s (ph_counter (pv_header view)) of
        (Inl e, s) \<Rightarrow> ((Inl e, out), s)
      | (Inr _, s) \<Rightarrow>
     (case decrypt_packet decrypt s view packet out of
        (Inl e, out) \<Rightarrow>
          ((Inl e, out), if e = authentication_failed then note_authentication_failure s else s)
      | (Inr opened, out) \<Rightarrow>
     (case commit s (ph_counter (pv_header view)) now of
        (Inl e, s) \<Rightarrow> ((Inl e, out), s)
      | (Inr _, s) \<Rightarrow> ((Inr opened, out), s))))"

definition note_recovered :: "Session \<Rightarrow> Session" where
  "note_recovered s = s\<lparr>ss_sample_recovered := ss_sample_recovered s + 1\<rparr>"

definition fraction_missing :: "u64 \<Rightarrow> u64 \<Rightarrow> real" where
  "fraction_missing expected arrived =
     (if arrived \<ge> expected then 0 else 1 - real (unat arrived) / real (unat expected))"

definition take_loss_sample :: "Session \<Rightarrow> LossSample option \<times> Session" where
  "take_loss_sample s =
     (let highest = rw_highest (ss_replay s)
      in if \<not> ss_sample_primed s
      then if st_received (ss_stats s) = 0 then (None, s)
           else (None, s\<lparr>ss_sample_primed := True, ss_sample_base := highest, ss_sample_received := 0,
                        ss_sample_recovered := 0, ss_sample_late := 0\<rparr>)
      else let expected = (if highest > ss_sample_base s then highest - ss_sample_base s else 0)
      in if expected < 64 then (None, s)
      else let late = min (ss_sample_late s) (ss_sample_recovered s);
               direct = ss_sample_received s - ss_sample_recovered s + late;
               sample = \<lparr>ls_raw = fraction_missing expected direct,
                         ls_residual = fraction_missing expected (ss_sample_received s),
                         ls_expected = expected\<rparr>
      in (Some sample, s\<lparr>ss_sample_base := highest, ss_sample_received := 0,
                        ss_sample_recovered := 0, ss_sample_late := 0\<rparr>))"

subsection \<open>Runs of a session\<close>

text \<open>
  The workers of the data path call the member functions of a session in any order, each of them
  atomic. \<open>session_run s0 evs s\<close>: some sequence of calls takes \<open>s0\<close> to \<open>s\<close>, handing out the counters
  and delivering the packets listed in \<open>evs\<close>.
\<close>

datatype session_event = Sent u64 | Delivered u64

inductive session_run :: "Session \<Rightarrow> session_event list \<Rightarrow> Session \<Rightarrow> bool" where
  run_start: "session_run s [] s"
| run_reserve: "session_run s0 evs s \<Longrightarrow> reserve_counter s = (r, s') \<Longrightarrow>
    session_run s0 (evs @ (case r of Inl _ \<Rightarrow> [] | Inr c \<Rightarrow> [Sent c])) s'"
| run_check: "session_run s0 evs s \<Longrightarrow> session_run s0 evs (snd (check_window s c))"
| run_commit: "session_run s0 evs s \<Longrightarrow> commit s c now = (r, s') \<Longrightarrow>
    session_run s0 (evs @ (case r of Inl _ \<Rightarrow> [] | Inr _ \<Rightarrow> [Delivered c])) s'"
| run_failure: "session_run s0 evs s \<Longrightarrow> session_run s0 evs (note_authentication_failure s)"
| run_recovered: "session_run s0 evs s \<Longrightarrow> session_run s0 evs (note_recovered s)"
| run_loss: "session_run s0 evs s \<Longrightarrow> session_run s0 evs (snd (take_loss_sample s))"
| run_endpoint: "session_run s0 evs s \<Longrightarrow> session_run s0 evs (note_authenticated_endpoint s e)"

definition sent :: "session_event list \<Rightarrow> u64 list" where
  "sent evs = concat (map (\<lambda>e. case e of Sent c \<Rightarrow> [c] | Delivered _ \<Rightarrow> []) evs)"

definition delivered :: "session_event list \<Rightarrow> u64 list" where
  "delivered evs = concat (map (\<lambda>e. case e of Sent _ \<Rightarrow> [] | Delivered c \<Rightarrow> [c]) evs)"

lemma sent_delivered_append [simp]:
  "sent (evs @ evs') = sent evs @ sent evs'" "delivered (evs @ evs') = delivered evs @ delivered evs'"
  "sent [] = []" "delivered [] = []" "sent [Sent c] = [c]" "sent [Delivered c] = []"
  "delivered [Sent c] = []" "delivered [Delivered c] = [c]"
  by (simp_all add: sent_def delivered_def)

text \<open>Opening and sealing are such sequences of calls.\<close>

lemma open_packet_run:
  assumes "session_run s0 evs s" "open_packet decrypt s view packet out now = ((r, out'), s')"
  shows "session_run s0 (evs @ (case r of Inl _ \<Rightarrow> [] | Inr _ \<Rightarrow> [Delivered (ph_counter (pv_header view))])) s'"
proof -
  let ?c = "ph_counter (pv_header view)"
  obtain w s1 where w: "check_window s ?c = (w, s1)" by fastforce
  have s1: "session_run s0 evs s1" using run_check [OF assms(1), of ?c] w by simp
  obtain d out1 where d: "decrypt_packet decrypt s1 view packet out = (d, out1)" by fastforce
  obtain k s2 where k: "commit s1 ?c now = (k, s2)" by fastforce
  note com = run_commit [OF s1 k]
  show ?thesis
    using assms(2) s1 com run_failure [OF s1] w d k
    by (auto simp: open_packet_def split: sum.split_asm if_split_asm)
qed

lemma seal_run:
  assumes "session_run s0 evs s" "seal encrypt s type p out = (ro, s')"
  shows "session_run s0 evs s' \<or> (\<exists>c. session_run s0 (evs @ [Sent c]) s')"
proof -
  obtain r s1 where r: "reserve_counter s = (r, s1)" by fastforce
  note res = run_reserve [OF assms(1) r]
  show ?thesis
    using assms res r by (auto simp: seal_def split: sum.split_asm if_split_asm)
qed

definition session_ok :: "session_event list \<Rightarrow> Session \<Rightarrow> bool" where
  "session_ok evs s \<longleftrightarrow>
     window_rel (ss_replay s) (set (delivered evs)) \<and> distinct (delivered evs) \<and>
     (\<not> rw_initialized (ss_replay s) \<longrightarrow> rw_highest (ss_replay s) = 0) \<and>
     sent evs = map of_nat [0..<unat (st_sent (ss_stats s))] \<and>
     pc_value (ss_send_counter s) = st_sent (ss_stats s) \<and> \<not> pc_exhausted (ss_send_counter s) \<and>
     st_sent (ss_stats s) \<le> kRejectAfterMessages"

lemma session_ok_new: "session_ok [] (new_session peer l r sk rk now)"
  using window_rel_new by (simp add: session_ok_def new_session_def new_window_def new_counter_def)

lemma session_ok_reserve [inv_intros]:
  assumes "session_ok evs s" "reserve_counter s = (r, s')"
  shows "session_ok (evs @ (case r of Inl _ \<Rightarrow> [] | Inr c \<Rightarrow> [Sent c])) s'"
proof (cases "st_sent (ss_stats s) \<ge> kRejectAfterMessages")
  case True
  then show ?thesis using assms by (auto simp: reserve_counter_def)
next
  case False
  let ?n = "st_sent (ss_stats s)"
  have n: "?n < kRejectAfterMessages" "?n \<noteq> 0xFFFFFFFFFFFFFFFF"
    using False by (auto simp: kRejectAfterMessages_def)
  then have suc: "unat (?n + 1) = Suc (unat ?n)" by (intro unat_add_one_less)
  have step: "r = Inr ?n" "s' = s\<lparr>ss_send_counter := (ss_send_counter s)\<lparr>pc_value := ?n + 1\<rparr>,
      ss_stats := (ss_stats s)\<lparr>st_sent := ?n + 1\<rparr>\<rparr>"
    using assms False n by (auto simp: reserve_counter_def session_ok_def next_counter_def)
  have "?n + 1 \<le> kRejectAfterMessages"
    using n(1) suc by (simp add: word_le_nat_alt word_less_nat_alt)
  then show ?thesis
    using assms(1) suc by (simp add: step session_ok_def)
qed

lemma session_ok_commit [inv_intros]:
  assumes "session_ok evs s" "commit s c now = (r, s')"
  shows "session_ok (evs @ (case r of Inl _ \<Rightarrow> [] | Inr _ \<Rightarrow> [Delivered c])) s'"
proof -
  let ?S = "set (delivered evs)"
  have rel: "window_rel (ss_replay s) ?S" using assms(1) by (simp add: session_ok_def)
  obtain a w where a: "accept (ss_replay s) c = (a, w)" by fastforce
  have ans: "a = fst (spec_accept ?S c)" "window_rel w (snd (spec_accept ?S c))"
    using rw.acc_result [OF rel, of c] rw.acc_rel [OF rel, of c] a by simp_all
  have init: "\<not> rw_initialized w \<longrightarrow> rw_highest w = 0"
    using a assms(1) by (auto simp: accept_def session_ok_def split: if_split_asm)
  show ?thesis
  proof (cases "a = rr_accepted")
    case True
    then have "c \<notin> ?S \<and> snd (spec_accept ?S c) = insert c ?S"
      using ans spec_accept_accepted by simp
    with True show ?thesis
      using assms a ans init by (auto simp: commit_def session_ok_def)
  next
    case False
    then have "snd (spec_accept ?S c) = ?S" using ans spec_accept_refused by simp
    with False show ?thesis
      using assms a ans init by (cases a; clarsimp simp: commit_def session_ok_def)
  qed
qed

lemma session_ok_run:
  assumes "session_run s0 evs s" "session_ok [] s0"
  shows "session_ok evs s"
  using assms
proof (induction rule: session_run.induct)
  case (run_reserve s0 evs s r s')
  then show ?case by (intro inv_intros) auto
next
  case (run_commit s0 evs s c now r s')
  then show ?case by (intro inv_intros) auto
qed (auto simp: session_ok_def check_window_def note_authentication_failure_def note_recovered_def
      take_loss_sample_def note_authenticated_endpoint_def Let_def)

text \<open>
  C10: no packet is delivered twice and no nonce is used twice. Whatever calls the workers make on a
  session, in whatever order and with whatever packets, the counters of the delivered packets are
  pairwise distinct, the counters handed out for sending are 0, 1, 2 and so on up to the limit
  without a gap or repetition, and the nonces made of them are pairwise distinct.
\<close>

theorem session_never_repeats:
  assumes "session_run (new_session peer l r sk rk t0) evs s"
  shows "distinct (delivered evs) \<and> distinct (map make_nonce (sent evs)) \<and>
    sent evs = map of_nat [0..<length (sent evs)] \<and> length (sent evs) \<le> unat kRejectAfterMessages"
proof -
  have ok: "session_ok evs s" using assms session_ok_new by (rule session_ok_run)
  have le: "unat (st_sent (ss_stats s)) \<le> unat kRejectAfterMessages"
    using ok by (simp add: session_ok_def word_le_nat_alt)
  have "inj_on (of_nat :: nat \<Rightarrow> u64) {0..<unat (st_sent (ss_stats s))}"
  proof (rule inj_onI)
    fix i j assume "i \<in> {0..<unat (st_sent (ss_stats s))}" "j \<in> {0..<unat (st_sent (ss_stats s))}"
      and eq: "(of_nat i :: u64) = of_nat j"
    then have "i < 2 ^ 64" "j < 2 ^ 64"
      using unsigned_less [of "st_sent (ss_stats s)", where 'a = nat] by simp_all
    then have "unat (of_nat i :: u64) = i" "unat (of_nat j :: u64) = j" by (simp_all add: unat_of_nat)
    then show "i = j" using eq by metis
  qed
  then have "distinct (sent evs)" using ok by (simp add: session_ok_def distinct_map)
  then have "distinct (map make_nonce (sent evs))"
    by (simp add: distinct_map inj_on_subset [OF inj_make_nonce subset_UNIV])
  moreover have "length (sent evs) = unat (st_sent (ss_stats s))" "distinct (delivered evs)"
    "sent evs = map of_nat [0..<unat (st_sent (ss_stats s))]"
    using ok by (simp_all add: session_ok_def)
  ultimately show ?thesis using le by simp
qed

definition demo_keys :: TrafficKeys where
  "demo_keys = \<lparr>tk_key = replicate 32 1, tk_generation = 0\<rparr>"

definition demo_session :: Session where
  "demo_session = new_session 1 2 3 demo_keys demo_keys 0"

theorem session_never_repeats_witness:
  "distinct (delivered [Sent 0, Delivered 7]) \<and>
   session_run demo_session [Sent 0, Delivered 7] (snd (commit (snd (reserve_counter demo_session)) 7 5))"
proof -
  let ?s1 = "snd (reserve_counter demo_session)" and ?s2 = "snd (commit (snd (reserve_counter demo_session)) 7 5)"
  have "reserve_counter demo_session = (Inr 0, ?s1)"
    by (simp add: reserve_counter_def demo_session_def new_session_def next_counter_def
      new_counter_def kRejectAfterMessages_def word_le_nat_alt)
  from run_reserve [OF run_start this] have "session_run demo_session [Sent 0] ?s1" by simp
  moreover have "commit ?s1 7 5 = (Inr (), ?s2)"
    by (simp add: commit_def reserve_counter_def demo_session_def new_session_def next_counter_def
      new_counter_def accept_def new_window_def kRejectAfterMessages_def word_le_nat_alt)
  ultimately have run: "session_run demo_session [Sent 0, Delivered 7] ?s2"
    using run_commit [of demo_session "[Sent 0]" ?s1 7 5] by fastforce
  with session_never_repeats [OF run [unfolded demo_session_def]] show ?thesis
    by (simp add: demo_session_def)
qed

subsection \<open>Sealed packets open\<close>

lemma drop_copy [simp]: "drop n (xs @ ys) = drop (n - length xs) ys" if "length xs \<le> n"
  using that by simp

definition sealed_header :: "Session \<Rightarrow> FrameType \<Rightarrow> u64 \<Rightarrow> nat \<Rightarrow> PacketHeader" where
  "sealed_header s type counter n = \<lparr>ph_version = 1, ph_type = type, ph_flags = 0,
     ph_key_id = ss_remote_key_id s, ph_header_length = 16, ph_counter = counter,
     ph_payload_length = of_nat n\<rparr>"

lemma seal_reserved_inv:
  assumes "seal_reserved encrypt s type counter p out = (Inr n, out')"
  obtains sealed rest where
    "sendable (sealed_header s type counter (length p + 16))" "length p + 16 \<le> 65519"
    "seal_keys encrypt (ss_send_keys s) counter (header_bytes (sealed_header s type counter (length p + 16)) (length p + 16)) p (drop 16 out) =
       (Inr sealed, rest)"
    "n = 16 + sealed" "out' = header_bytes (sealed_header s type counter (length p + 16)) (length p + 16) @ rest"
proof -
  let ?h = "sealed_header s type counter (length p + 16)"
  have *: "\<not> length out < 16 + (length p + 16)" "\<not> length p + 16 > 65519"
    using assms by (auto simp: seal_reserved_def kAeadTagSize_def packet_consts Let_def split: if_split_asm)
  have red: "seal_reserved encrypt s type counter p out =
     (case serialize_header ?h (length p + 16) out of
           Inl _ \<Rightarrow> (Inl buffer_too_small, out)
         | Inr out \<Rightarrow>
      (case seal_keys encrypt (ss_send_keys s) counter (take 16 out) p (drop 16 out) of
            (Inl e, rest) \<Rightarrow>
              (Inl (if e = ce_buffer_too_small then buffer_too_small else authentication_failed),
               take 16 out @ rest)
          | (Inr sealed, rest) \<Rightarrow> (Inr (16 + sealed), take 16 out @ rest)))"
    using * unfolding seal_reserved_def kAeadTagSize_def packet_consts sealed_header_def Let_def
    by simp
  obtain o2 where o2: "serialize_header ?h (length p + 16) out = Inr o2"
    using assms red by (cases "serialize_header ?h (length p + 16) out") auto
  then have ok: "sendable ?h" "o2 = header_bytes ?h (length p + 16) @ drop 16 out"
    by (simp_all add: serialize_header_ok)
  then have "take 16 o2 = header_bytes ?h (length p + 16)" "drop 16 o2 = drop 16 out" by simp_all
  then show ?thesis
    using that assms red o2 ok * by (auto split: prod.split_asm sum.split_asm)
qed

lemma check_window_accepted:
  assumes "session_ok evs r" "fst (accept (ss_replay r) c) = rr_accepted"
  shows "check_window r c = (Inr (), r)"
proof (cases "rw_initialized (ss_replay r)")
  case True
  then show ?thesis
    using assms(2) unfolding check_window_def accept_def by (auto split: if_split_asm)
next
  case False
  then show ?thesis using assms(1) by (simp add: check_window_def session_ok_def)
qed

lemma commit_accepted:
  "fst (accept (ss_replay r) c) = rr_accepted \<Longrightarrow> commit r c now = (Inr (), snd (commit r c now))"
  by (cases "accept (ss_replay r) c") (simp add: commit_def)

text \<open>
  C11: what one end seals the other end opens. Take two sessions at any point of their lives, with a
  send key of one that is the receive key of the other, and a cipher that keeps its documented laws.
  The bytes that \<^verbatim>\<open>seal\<close> reports written parse as a packet with the peer's key id and the given type,
  and \<^verbatim>\<open>open\<close> of that packet returns the plaintext, provided the filter of the delivered counters
  admits its counter and the buffer can hold it.
\<close>

theorem open_sealed_packet:
  assumes "aead_laws encrypt decrypt" "tk_key (ss_send_keys s) = tk_key (ss_receive_keys r)"
    and "session_run (new_session p1 l1 r1 sk1 rk1 t1) evs s"
    and "session_run (new_session p2 l2 r2 sk2 rk2 t2) evs' r"
    and "seal encrypt s type plaintext out = ((Inr n, out'), s')"
    and "fst (spec_accept (set (delivered evs')) (of_nat (length (sent evs)))) = rr_accepted"
    and "length plaintext \<le> length buf"
  shows "\<exists>view r'. parse_packet (take n out') = Inr view \<and>
    ph_key_id (pv_header view) = ss_remote_key_id s \<and> ph_type (pv_header view) = type \<and>
    open_packet decrypt r view (take n out') buf now =
      ((Inr (length plaintext), copy_to buf 0 plaintext), r')"
proof -
  let ?c = "st_sent (ss_stats s)" and ?m = "length plaintext + 16"
  have s_ok: "session_ok evs s" using assms(3) session_ok_new by (rule session_ok_run)
  have r_ok: "session_ok evs' r" using assms(4) session_ok_new by (rule session_ok_run)
  have c: "of_nat (length (sent evs)) = ?c" using s_ok by (simp add: session_ok_def)
  have acc: "fst (accept (ss_replay r) ?c) = rr_accepted"
    using assms(6) r_ok rw.acc_result [of "ss_replay r" "set (delivered evs')" ?c] c
    by (simp add: session_ok_def)
  obtain s1 where s1: "reserve_counter s = (Inr ?c, s1)" "ss_send_keys s1 = ss_send_keys s"
      "ss_remote_key_id s1 = ss_remote_key_id s"
      "seal_reserved encrypt s1 type ?c plaintext out = (Inr n, out')"
    using assms(5) s_ok
    by (auto simp: seal_def reserve_counter_def next_counter_def session_ok_def split: if_split_asm)
  then obtain sealed rest where
    sealed: "sendable (sealed_header s1 type ?c ?m)" "?m \<le> 65519"
      "seal_keys encrypt (ss_send_keys s1) ?c (header_bytes (sealed_header s1 type ?c ?m) ?m) plaintext (drop 16 out) =
        (Inr sealed, rest)"
      "n = 16 + sealed" "out' = header_bytes (sealed_header s1 type ?c ?m) ?m @ rest"
    by (elim seal_reserved_inv) blast
  let ?h = "sealed_header s1 type ?c ?m"
  have k: "tk_key (ss_send_keys s1) = tk_key (ss_receive_keys r)" using assms(2) s1(2) by simp
  note opened = open_seal_keys [OF assms(1) k sealed(3) assms(7)]
  let ?packet = "header_bytes ?h ?m @ take sealed rest"
  have packet: "take n out' = ?packet" using sealed(4,5) by simp
  have len: "length (take sealed rest) = ?m" using opened(1-3) by simp
  define view where "view = \<lparr>pv_header = ?h\<lparr>ph_payload_length := of_nat ?m\<rparr>, pv_payload = take sealed rest\<rparr>"
  have parse: "parse_packet ?packet = Inr view"
    using parse_packet_header_bytes [OF sealed(1), of "take sealed rest"] sealed(2) len
    by (simp add: view_def)
  have dec: "decrypt_packet decrypt r view ?packet buf = (Inr (length plaintext), copy_to buf 0 plaintext)"
    using opened(4) len by (simp add: decrypt_packet_def packet_consts view_def sealed_header_def)
  obtain r' where r': "commit r ?c now = (Inr (), r')" using commit_accepted [OF acc] by blast
  have "ph_counter (pv_header view) = ?c" by (simp add: view_def sealed_header_def)
  then have "open_packet decrypt r view ?packet buf now =
      ((Inr (length plaintext), copy_to buf 0 plaintext), r')"
    using check_window_accepted [OF r_ok acc] dec r' by (simp add: open_packet_def)
  then show ?thesis
    unfolding packet using parse s1(3) by (auto simp: view_def sealed_header_def)
qed

text \<open>A cipher that keeps the laws: the identity with a tag of zeros.\<close>

definition null_encrypt :: aead where
  "null_encrypt key nonce ad p = Some (p @ replicate 16 0)"

definition null_decrypt :: aead where
  "null_decrypt key nonce ad c = (if length c < 16 then None else Some (take (length c - 16) c))"

theorem open_sealed_packet_witness:
  "\<exists>n out' s' view r'. seal null_encrypt demo_session ft_data [1, 2, 3] (replicate 64 0) = ((Inr n, out'), s') \<and>
     parse_packet (take n out') = Inr view \<and>
     open_packet null_decrypt demo_session view (take n out') [0, 0, 0, 0] 9 = ((Inr 3, [1, 2, 3, 0]), r')"
proof -
  have laws: "aead_laws null_encrypt null_decrypt"
    by (simp add: aead_laws_def null_encrypt_def null_decrypt_def)
  have keys: "tk_key (ss_send_keys demo_session) = tk_key (ss_receive_keys demo_session)"
    by (simp add: demo_session_def new_session_def)
  have run: "session_run (new_session 1 2 3 demo_keys demo_keys 0) [] demo_session"
    unfolding demo_session_def by (rule run_start)
  obtain s1 where res: "reserve_counter demo_session = (Inr 0, s1)" "ss_remote_key_id s1 = 3"
    by (simp add: reserve_counter_def demo_session_def new_session_def next_counter_def
      new_counter_def kRejectAfterMessages_def word_le_nat_alt)
  let ?h = "sealed_header s1 ft_data 0 19"
  have "sendable ?h" by (simp add: sendable_def sealed_header_def valid_frame_type_iff res)
  then have "serialize_header ?h 19 (replicate 64 0) = Inr (header_bytes ?h 19 @ drop 16 (replicate 64 0))"
    by (simp add: serialize_header_ok)
  then obtain n out' s' where sealed:
    "seal null_encrypt demo_session ft_data [1, 2, 3] (replicate 64 0) = ((Inr n, out'), s')"
    by (simp add: seal_def seal_reserved_def seal_keys_def null_encrypt_def kAeadTagSize_def
      packet_consts sealed_header_def res)
  show ?thesis
    using open_sealed_packet [OF laws keys run run sealed, of "[0, 0, 0, 0]" 9] sealed
    by (auto simp: spec_accept_def copy_to_def)
qed



lemma missing_bounds:
  "0 \<le> (if n \<le> m then 0 else 1 - real m / real n) \<and> (if n \<le> m then 0 else 1 - real m / real n) \<le> 1"
  by (auto simp: divide_le_eq_1)

lemma missing_mono:
  assumes "m \<le> m'"
  shows "(if n \<le> m' then 0 else 1 - real m' / real n) \<le> (if n \<le> m then 0 else 1 - real m / real n)"
  using assms missing_bounds [of n m] by (auto simp: divide_right_mono)

text \<open>
  The loss estimate is sane. As long as no more packets were recovered than received since the
  last sample, the residual loss is at most the raw loss and both lie between 0 and 1.
\<close>

lemma loss_sample_bounds:
  assumes "take_loss_sample s = (Some sample, s')" "ss_sample_recovered s \<le> ss_sample_received s"
  shows "0 \<le> ls_residual sample \<and> ls_residual sample \<le> ls_raw sample \<and> ls_raw sample \<le> 1 \<and>
    64 \<le> ls_expected sample"
proof -
  define late where "late = min (ss_sample_late s) (ss_sample_recovered s)"
  define direct where "direct = ss_sample_received s - ss_sample_recovered s + late"
  obtain expected where sample: "\<not> expected < 64" "sample = \<lparr>ls_raw = fraction_missing expected direct,
      ls_residual = fraction_missing expected (ss_sample_received s), ls_expected = expected\<rparr>"
    using assms(1) by (auto simp: take_loss_sample_def Let_def direct_def late_def split: if_split_asm)
  have "late \<le> ss_sample_recovered s" by (simp add: late_def)
  then have "ss_sample_recovered s - late \<le> ss_sample_received s"
    using assms(2) word_sub_le [of late "ss_sample_recovered s"] by simp
  then have "ss_sample_received s - (ss_sample_recovered s - late) \<le> ss_sample_received s"
    by (rule word_sub_le)
  then have "direct \<le> ss_sample_received s" by (simp add: direct_def algebra_simps)
  then have "unat direct \<le> unat (ss_sample_received s)" by (simp add: word_le_nat_alt)
  then have "fraction_missing expected (ss_sample_received s) \<le> fraction_missing expected direct"
    unfolding fraction_missing_def word_le_nat_alt by (rule missing_mono)
  moreover have "0 \<le> fraction_missing e a \<and> fraction_missing e a \<le> 1" for e a
    unfolding fraction_missing_def word_le_nat_alt by (rule missing_bounds)
  ultimately show ?thesis using sample by simp
qed

end
