(* ===== verification/Session_Table.thy ===== *)
theory Session_Table
  imports Session "HOL-Library.AList"
begin

text \<open>
  The table of sessions by key id and by peer (\<^verbatim>\<open>SessionTable\<close> in src/session.cpp). The hash maps are
  association lists with distinct keys. A \<^verbatim>\<open>std::shared_ptr<Session>\<close> is the session it points to;
  the table itself reads only the peer of a session, which never changes.
\<close>

record Retired =
  rt_key_id :: u16
  rt_retired_at :: instant

record SessionTable =
  tb_sessions :: "(u16 \<times> Session) list"
  tb_by_peer :: "(PeerId \<times> u16) list"
  tb_retired :: "Retired list"
  tb_retired_receives :: u64
  tb_next_key_id :: u16

definition kMaximumSessions :: nat where "kMaximumSessions = 1024"

definition new_session_table :: SessionTable where
  "new_session_table = \<lparr>tb_sessions = [], tb_by_peer = [], tb_retired = [], tb_retired_receives = 0,
     tb_next_key_id = 1\<rparr>"

abbreviation session_at :: "SessionTable \<Rightarrow> u16 \<Rightarrow> Session option" where
  "session_at t k \<equiv> map_of (tb_sessions t) k"

abbreviation key_of_peer :: "SessionTable \<Rightarrow> PeerId \<Rightarrow> u16 option" where
  "key_of_peer t p \<equiv> map_of (tb_by_peer t) p"

definition next_id :: "u16 \<Rightarrow> u16" where
  "next_id k = (if k = 0xFFFF then 1 else k + 1)"

function allocate_loop :: "nat \<Rightarrow> SessionTable \<Rightarrow> (SessionError + u16) \<times> SessionTable" where
  "allocate_loop attempt t =
     (if attempt < 65536
      then let candidate = tb_next_key_id t;
               t = t\<lparr>tb_next_key_id := next_id candidate\<rparr>
           in if candidate = kPreSessionKeyId then allocate_loop (attempt + 1) t
              else if session_at t candidate = None then (Inr candidate, t)
              else allocate_loop (attempt + 1) t
      else (Inl key_id_exhausted, t))"
  by pat_completeness auto
termination by (relation "measure (\<lambda>(attempt, _). 65536 - attempt)") auto

declare allocate_loop.simps [simp del]

definition allocate_key_id :: "SessionTable \<Rightarrow> (SessionError + u16) \<times> SessionTable" where
  "allocate_key_id t =
     (if length (tb_sessions t) \<ge> kMaximumSessions then (Inl too_many_sessions, t)
      else allocate_loop 0 t)"

definition retire_existing :: "SessionTable \<Rightarrow> PeerId \<Rightarrow> u16 \<Rightarrow> instant \<Rightarrow> SessionTable" where
  "retire_existing t peer local_key_id now =
     (case key_of_peer t peer of
        None \<Rightarrow> t
      | Some existing \<Rightarrow>
          let t = (if existing \<noteq> local_key_id
                   then t\<lparr>tb_retired := tb_retired t @ [\<lparr>rt_key_id = existing, rt_retired_at = now\<rparr>]\<rparr>
                   else t\<lparr>tb_sessions := AList.delete existing (tb_sessions t)\<rparr>)
          in t\<lparr>tb_by_peer := AList.delete peer (tb_by_peer t)\<rparr>)"

definition install :: "SessionTable \<Rightarrow> PeerId \<Rightarrow> u16 \<Rightarrow> Session \<Rightarrow> instant \<Rightarrow>
    (SessionError + Session) \<times> SessionTable" where
  "install t peer local_key_id session now =
     (if peer = kNoPeer then (Inl unknown_peer, t)
      else if local_key_id = kPreSessionKeyId then (Inl unknown_key_id, t)
      else if length (tb_sessions t) \<ge> kMaximumSessions then (Inl too_many_sessions, t)
      else let t = retire_existing t peer local_key_id now;
               t = t\<lparr>tb_sessions := AList.delete local_key_id (tb_sessions t)\<rparr>;
               t = t\<lparr>tb_retired := filter (\<lambda>entry. rt_key_id entry \<noteq> local_key_id) (tb_retired t)\<rparr>
      in if session_at t local_key_id \<noteq> None then (Inl unknown_key_id, t)
      else let t = t\<lparr>tb_sessions := AList.update local_key_id session (tb_sessions t)\<rparr>
      in (Inr session, t\<lparr>tb_by_peer := AList.update peer local_key_id (tb_by_peer t)\<rparr>))"

definition install_keys :: "SessionTable \<Rightarrow> PeerId \<Rightarrow> u16 \<Rightarrow> u16 \<Rightarrow> TrafficKeys \<Rightarrow> TrafficKeys \<Rightarrow>
    instant \<Rightarrow> (SessionError + Session) \<times> SessionTable" where
  "install_keys t peer local_key_id remote_key_id send_keys receive_keys now =
     install t peer local_key_id
       (new_session peer local_key_id remote_key_id send_keys receive_keys now) now"

definition find_by_key_id :: "SessionTable \<Rightarrow> u16 \<Rightarrow> Session option \<times> SessionTable" where
  "find_by_key_id t key_id =
     (case session_at t key_id of
        None \<Rightarrow> (None, t)
      | Some s \<Rightarrow>
          let is_retired = list_ex (\<lambda>r. rt_key_id r = key_id) (tb_retired t)
          in (Some s, if is_retired then t\<lparr>tb_retired_receives := tb_retired_receives t + 1\<rparr> else t))"

definition expire_retired :: "SessionTable \<Rightarrow> instant \<Rightarrow> SessionTable" where
  "expire_retired t now =
     (let keep = (\<lambda>entry. now - rt_retired_at entry < kRetireAfter)
      in t\<lparr>tb_sessions := fold (\<lambda>entry. AList.delete (rt_key_id entry))
             (filter (\<lambda>entry. \<not> keep entry) (tb_retired t)) (tb_sessions t),
           tb_retired := filter keep (tb_retired t)\<rparr>)"

definition find_by_peer :: "SessionTable \<Rightarrow> PeerId \<Rightarrow> Session option \<times> SessionTable" where
  "find_by_peer t peer =
     (case key_of_peer t peer of None \<Rightarrow> (None, t) | Some k \<Rightarrow> find_by_key_id t k)"

definition remove_session :: "SessionTable \<Rightarrow> u16 \<Rightarrow> SessionTable" where
  "remove_session t local_key_id =
     (case session_at t local_key_id of
        None \<Rightarrow> t
      | Some s \<Rightarrow>
          let t = t\<lparr>tb_retired := filter (\<lambda>r. rt_key_id r \<noteq> local_key_id) (tb_retired t)\<rparr>;
              t = (if key_of_peer t (ss_peer s) = Some local_key_id
                   then t\<lparr>tb_by_peer := AList.delete (ss_peer s) (tb_by_peer t)\<rparr> else t)
          in t\<lparr>tb_sessions := AList.delete local_key_id (tb_sessions t)\<rparr>)"

subsection \<open>Allocation of key ids\<close>

lemma unat_next_id:
  assumes "k \<noteq> 0"
  shows "unat (next_id k) = unat k mod 65535 + 1"
proof (cases "k = 0xFFFF")
  case False
  then have "unat k \<noteq> 65535" by (simp add: word_unat_eq_iff)
  moreover have "unat k < 65536" using unsigned_less [of k, where 'a = nat] by simp
  ultimately have "unat k < 65535" by simp
  then show ?thesis using False by (simp add: next_id_def unat_word_ariths)
qed (simp add: next_id_def)

lemma unat_next_id_iter:
  assumes "k \<noteq> 0"
  shows "unat ((next_id ^^ n) k) = (unat k - 1 + n) mod 65535 + 1 \<and> (next_id ^^ n) k \<noteq> 0"
proof (induction n)
  case 0
  have "0 < unat k" "unat k < 65536"
    using assms unsigned_less [of k, where 'a = nat] by (simp_all add: unat_gt_0)
  then show ?case using assms by simp
next
  case (Suc n)
  let ?m = "unat k - 1 + n"
  have "unat ((next_id ^^ Suc n) k) = (?m mod 65535 + 1) mod 65535 + 1"
    using Suc by (simp add: unat_next_id)
  also have "\<dots> = (unat k - 1 + Suc n) mod 65535 + 1" by (simp add: mod_Suc_eq)
  finally show ?case by (metis Suc_eq_plus1 nat.distinct(1) unat_0)
qed

lemma allocate_loop_run:
  assumes "tb_next_key_id t \<noteq> 0" "attempt \<le> 65536"
  shows "(\<exists>n<65536 - attempt. allocate_loop attempt t =
            (Inr ((next_id ^^ n) (tb_next_key_id t)), t\<lparr>tb_next_key_id := (next_id ^^ Suc n) (tb_next_key_id t)\<rparr>) \<and>
            session_at t ((next_id ^^ n) (tb_next_key_id t)) = None) \<or>
         (\<forall>n<65536 - attempt. session_at t ((next_id ^^ n) (tb_next_key_id t)) \<noteq> None) \<and>
            fst (allocate_loop attempt t) = Inl key_id_exhausted"
  using assms
proof (induction attempt t rule: allocate_loop.induct)
  case (1 attempt t)
  let ?k = "tb_next_key_id t" and ?t = "t\<lparr>tb_next_key_id := next_id (tb_next_key_id t)\<rparr>"
  show ?case
  proof (cases "attempt < 65536")
    case True
    have step: "allocate_loop attempt t =
        (if session_at t ?k = None then (Inr ?k, ?t) else allocate_loop (attempt + 1) ?t)"
      using True "1.prems" by (subst allocate_loop.simps)
        (simp add: kPreSessionKeyId_def Let_def)
    show ?thesis
    proof (cases "session_at t ?k = None")
      case free: True
      then show ?thesis using step True by (intro disjI1 exI [of _ 0]) simp
    next
      case used: False
      have "next_id ?k \<noteq> 0" using unat_next_id [OF "1.prems"(1)] by (metis Suc_eq_plus1 nat.distinct(1) unat_0)
      then have IH: "(\<exists>n<65536 - (attempt + 1). allocate_loop (attempt + 1) ?t =
            (Inr ((next_id ^^ n) (next_id ?k)), ?t\<lparr>tb_next_key_id := (next_id ^^ Suc n) (next_id ?k)\<rparr>) \<and>
            session_at t ((next_id ^^ n) (next_id ?k)) = None) \<or>
         (\<forall>n<65536 - (attempt + 1). session_at t ((next_id ^^ n) (next_id ?k)) \<noteq> None) \<and>
            fst (allocate_loop (attempt + 1) ?t) = Inl key_id_exhausted"
        using "1.IH"(2) [OF True refl refl] True "1.prems" used
        by (simp add: kPreSessionKeyId_def)
      have shift: "(next_id ^^ n) (next_id ?k) = (next_id ^^ Suc n) ?k" for n
        by (simp add: funpow_swap1)
      from IH show ?thesis
      proof (elim disjE exE conjE)
        fix n assume n: "n < 65536 - (attempt + 1)"
          "allocate_loop (attempt + 1) ?t = (Inr ((next_id ^^ n) (next_id ?k)), ?t\<lparr>tb_next_key_id := (next_id ^^ Suc n) (next_id ?k)\<rparr>)"
          "session_at t ((next_id ^^ n) (next_id ?k)) = None"
        then show ?thesis
          using step used True
          by (intro disjI1 exI [of _ "Suc n"]) (simp add: funpow_swap1)
      next
        assume all: "\<forall>n<65536 - (attempt + 1). session_at t ((next_id ^^ n) (next_id ?k)) \<noteq> None"
          and none: "fst (allocate_loop (attempt + 1) ?t) = Inl key_id_exhausted"
        have "session_at t ((next_id ^^ n) ?k) \<noteq> None" if "n < 65536 - attempt" for n
          using that all used shift by (cases n) auto
        then show ?thesis using none step used by simp
      qed
    qed
  qed (subst allocate_loop.simps, simp)
qed

lemma allocate_found:
  assumes "length (tb_sessions t) < 1024" "tb_next_key_id t \<noteq> 0"
  obtains n where "allocate_key_id t = (Inr ((next_id ^^ n) (tb_next_key_id t)),
      t\<lparr>tb_next_key_id := (next_id ^^ Suc n) (tb_next_key_id t)\<rparr>)"
    "session_at t ((next_id ^^ n) (tb_next_key_id t)) = None"
proof -
  let ?k = "tb_next_key_id t"
  have alloc: "allocate_key_id t = allocate_loop 0 t"
    using assms(1) by (simp add: allocate_key_id_def kMaximumSessions_def)
  have "\<exists>n<65536. session_at t ((next_id ^^ n) ?k) = None"
  proof (rule ccontr)
    assume "\<not> ?thesis"
    then have "(\<lambda>n. (next_id ^^ n) ?k) ` {0..<65535} \<subseteq> fst ` set (tb_sessions t)"
      by (fastforce simp: map_of_eq_None_iff)
    moreover have "inj_on (\<lambda>n. (next_id ^^ n) ?k) {0..<65535}"
    proof (rule inj_onI)
      fix m n assume mn: "m \<in> {0..<65535}" "n \<in> {0..<65535}" "(next_id ^^ m) ?k = (next_id ^^ n) ?k"
      then have "(unat ?k - 1 + m) mod 65535 = (unat ?k - 1 + n) mod 65535"
        using unat_next_id_iter [OF assms(2), of m] unat_next_id_iter [OF assms(2), of n] by simp
      then show "m = n" using mn(1,2) by (intro mod_add_left_inj [of "unat ?k - 1" m 65535 n]) auto
    qed
    ultimately have "card {0..<65535 :: nat} \<le> card (fst ` set (tb_sessions t))"
      by (intro card_inj_on_le) simp_all
    then have "65535 \<le> card (fst ` set (tb_sessions t))" by simp
    also have "\<dots> \<le> length (tb_sessions t)" by (metis card_length length_map set_map)
    finally show False using assms(1) by simp
  qed
  then show ?thesis
    using that alloc allocate_loop_run [OF assms(2), of 0] by auto
qed

text \<open>
  C25: a key id can always be allocated, and it is fresh. On every table with fewer than 1024
  sessions whose next id is not 0, the search of \<^verbatim>\<open>allocate_key_id\<close> finds an id within its 65536
  attempts; the id is not 0, which is reserved for handshakes, and no session uses it.
\<close>

theorem allocate_key_id_fresh:
  assumes "length (tb_sessions t) < 1024" "tb_next_key_id t \<noteq> 0"
  shows "\<exists>k t'. allocate_key_id t = (Inr k, t') \<and> k \<noteq> 0 \<and> session_at t k = None \<and>
    tb_sessions t' = tb_sessions t \<and> tb_next_key_id t' \<noteq> 0"
proof -
  obtain n where "allocate_key_id t = (Inr ((next_id ^^ n) (tb_next_key_id t)),
      t\<lparr>tb_next_key_id := (next_id ^^ Suc n) (tb_next_key_id t)\<rparr>)"
    "session_at t ((next_id ^^ n) (tb_next_key_id t)) = None"
    using assms by (rule allocate_found)
  then show ?thesis
    using unat_next_id_iter [OF assms(2), of n] unat_next_id_iter [OF assms(2), of "Suc n"] by simp
qed

theorem allocate_key_id_fresh_witness:
  "\<exists>k t'. allocate_key_id new_session_table = (Inr k, t') \<and> k \<noteq> 0"
  using allocate_key_id_fresh [of new_session_table] by (auto simp: new_session_table_def)

subsection \<open>Consistency of the two maps\<close>

text \<open>
  The tables that arise when every installed key id is either unused or the current one of the
  same peer, as ids from \<^verbatim>\<open>allocate_key_id\<close> are.
\<close>

inductive table_run :: "SessionTable \<Rightarrow> bool" where
  table_new: "table_run new_session_table"
| table_allocate: "table_run t \<Longrightarrow> table_run (snd (allocate_key_id t))"
| table_install: "table_run t \<Longrightarrow> ss_peer s = p \<Longrightarrow> session_at t k = None \<or> key_of_peer t p = Some k \<Longrightarrow>
    table_run (snd (install t p k s now))"
| table_find: "table_run t \<Longrightarrow> table_run (snd (find_by_key_id t k))"
| table_remove: "table_run t \<Longrightarrow> table_run (remove_session t k)"
| table_expire: "table_run t \<Longrightarrow> table_run (expire_retired t now)"

abbreviation retired_ids :: "SessionTable \<Rightarrow> u16 list" where
  "retired_ids t \<equiv> map rt_key_id (tb_retired t)"

definition table_ok :: "SessionTable \<Rightarrow> bool" where
  "table_ok t \<longleftrightarrow> distinct (map fst (tb_sessions t)) \<and> distinct (map fst (tb_by_peer t)) \<and>
     distinct (retired_ids t) \<and> length (tb_sessions t) \<le> kMaximumSessions \<and>
     session_at t 0 = None \<and> tb_next_key_id t \<noteq> 0 \<and>
     (\<forall>p k. key_of_peer t p = Some k \<longrightarrow>
        p \<noteq> kNoPeer \<and> k \<notin> set (retired_ids t) \<and> (\<exists>s. session_at t k = Some s \<and> ss_peer s = p)) \<and>
     (\<forall>k\<in>set (retired_ids t). session_at t k \<noteq> None)"

lemma table_ok_distinct: "table_ok t \<Longrightarrow> distinct (map fst (tb_sessions t))"
  by (simp add: table_ok_def)

lemma map_of_delete: "map_of (AList.delete k al) = (map_of al)(k := None)"
  by (simp add: delete_conv')

lemma map_of_update: "map_of (AList.update k v al) = (map_of al)(k \<mapsto> v)"
  by (simp add: update_conv')

lemmas alist_simps = map_of_delete map_of_update distinct_update distinct_delete

lemma length_update_absent: "map_of al k = None \<Longrightarrow> length (AList.update k v al) = Suc (length al)"
  by (induction al) (auto split: if_splits)

lemma retire_existing_simps:
  assumes "table_ok t"
  shows "session_at (retire_existing t p k now) k' =
      (if key_of_peer t p = Some k \<and> k' = k then None else session_at t k')"
    "key_of_peer (retire_existing t p k now) q = (if q = p then None else key_of_peer t q)"
    "retired_ids (retire_existing t p k now) = retired_ids t @
      (case key_of_peer t p of None \<Rightarrow> [] | Some e \<Rightarrow> if e = k then [] else [e])"
    "tb_next_key_id (retire_existing t p k now) = tb_next_key_id t"
    "length (tb_sessions (retire_existing t p k now)) \<le> length (tb_sessions t)"
    "distinct (map fst (tb_sessions (retire_existing t p k now)))"
    "distinct (map fst (tb_by_peer (retire_existing t p k now)))"
proof -
  have d: "distinct (map fst (tb_sessions t))" "distinct (map fst (tb_by_peer t))"
    using assms by (simp_all add: table_ok_def)
  note len = AList.length_delete_le [of k "tb_sessions t"]
  show "session_at (retire_existing t p k now) k' =
      (if key_of_peer t p = Some k \<and> k' = k then None else session_at t k')"
    "key_of_peer (retire_existing t p k now) q = (if q = p then None else key_of_peer t q)"
    "retired_ids (retire_existing t p k now) = retired_ids t @
      (case key_of_peer t p of None \<Rightarrow> [] | Some e \<Rightarrow> if e = k then [] else [e])"
    "tb_next_key_id (retire_existing t p k now) = tb_next_key_id t"
    "length (tb_sessions (retire_existing t p k now)) \<le> length (tb_sessions t)"
    "distinct (map fst (tb_sessions (retire_existing t p k now)))"
    "distinct (map fst (tb_by_peer (retire_existing t p k now)))"
    using len d by (simp_all add: retire_existing_def alist_simps Let_def del: map_of_eq_Some_iff
      split: option.split)
qed

lemma install_inv:
  assumes "table_ok t" "install t p k s now = (Inr s', t')"
  shows "s' = s" "p \<noteq> kNoPeer" "k \<noteq> 0" "length (tb_sessions t) < kMaximumSessions"
    "session_at t' = (session_at t)(k \<mapsto> s)" "key_of_peer t' = (key_of_peer t)(p \<mapsto> k)"
    "retired_ids t' = filter (\<lambda>i. i \<noteq> k) (retired_ids t @
      (case key_of_peer t p of None \<Rightarrow> [] | Some e \<Rightarrow> [e]))"
    "tb_next_key_id t' = tb_next_key_id t" "length (tb_sessions t') \<le> Suc (length (tb_sessions t))"
    "distinct (map fst (tb_sessions t'))" "distinct (map fst (tb_by_peer t'))"
proof -
  define t1 where "t1 = retire_existing t p k now"
  note r = retire_existing_simps [OF assms(1), of p k now, folded t1_def]
  have *: "p \<noteq> kNoPeer" "k \<noteq> 0" "length (tb_sessions t) < kMaximumSessions" "s' = s"
    "t' = t1\<lparr>tb_sessions := AList.update k s (AList.delete k (tb_sessions t1)),
         tb_retired := filter (\<lambda>e. rt_key_id e \<noteq> k) (tb_retired t1),
         tb_by_peer := AList.update p k (tb_by_peer t1)\<rparr>"
    using assms(2) by (auto simp: install_def alist_simps kPreSessionKeyId_def t1_def Let_def
      split: if_split_asm)
  then show "s' = s" "p \<noteq> kNoPeer" "k \<noteq> 0" "length (tb_sessions t) < kMaximumSessions"
    by simp_all
  show "session_at t' = (session_at t)(k \<mapsto> s)" "key_of_peer t' = (key_of_peer t)(p \<mapsto> k)"
    "tb_next_key_id t' = tb_next_key_id t"
    using r * by (auto simp: alist_simps)
  show "distinct (map fst (tb_sessions t'))" "distinct (map fst (tb_by_peer t'))"
    using r * by (simp_all add: alist_simps)
  have "retired_ids t' = filter (\<lambda>i. i \<noteq> k) (retired_ids t1)"
    using * by (simp add: filter_map comp_def)
  then show "retired_ids t' = filter (\<lambda>i. i \<noteq> k) (retired_ids t @
      (case key_of_peer t p of None \<Rightarrow> [] | Some e \<Rightarrow> [e]))"
    using r(3) by (simp split: option.split)
  have "length (tb_sessions t') = Suc (length (AList.delete k (tb_sessions t1)))"
    using * by (simp add: length_update_absent alist_simps)
  also have "\<dots> \<le> Suc (length (tb_sessions t1))"
    using AList.length_delete_le [of k "tb_sessions t1"] by simp
  finally show "length (tb_sessions t') \<le> Suc (length (tb_sessions t))" using r(5) by simp
qed

lemma install_refused:
  assumes "install t p k s now = (Inl e, t')"
  shows "t' = t"
  using assms by (auto simp: install_def alist_simps Let_def split: if_split_asm)

lemma table_ok_install [inv_intros]:
  assumes "table_ok t" "ss_peer s = p" "session_at t k = None \<or> key_of_peer t p = Some k"
  shows "table_ok (snd (install t p k s now))"
proof (cases "install t p k s now")
  case (Pair r t')
  show ?thesis
  proof (cases r)
    case (Inl e)
    then show ?thesis using Pair install_refused [of t p k s now e t'] assms(1) by simp
  next
    case (Inr s')
    note inv = install_inv [OF assms(1) Pair [unfolded Inr]]
    have other: "k' \<noteq> k" if "key_of_peer t q = Some k'" "q \<noteq> p" for q k'
      using that assms(1,3) unfolding table_ok_def by (metis option.distinct(1) option.inject)
    have p_key: "e \<notin> set (retired_ids t)" "session_at t e \<noteq> None" if "key_of_peer t p = Some e" for e
      using that assms(1) unfolding table_ok_def by (metis option.distinct(1))+
    have "distinct (retired_ids t)" using assms(1) by (simp add: table_ok_def)
    then have "distinct (retired_ids t')"
      using p_key(1) unfolding inv(7) by (cases "key_of_peer t p") auto
    moreover have "\<forall>q k'. key_of_peer t' q = Some k' \<longrightarrow> q \<noteq> kNoPeer \<and> k' \<notin> set (retired_ids t') \<and>
        (\<exists>s. session_at t' k' = Some s \<and> ss_peer s = q)"
    proof (intro allI impI)
      fix q k' assume q: "key_of_peer t' q = Some k'"
      show "q \<noteq> kNoPeer \<and> k' \<notin> set (retired_ids t') \<and> (\<exists>s. session_at t' k' = Some s \<and> ss_peer s = q)"
      proof (cases "q = p")
        case True
        then show ?thesis using q inv assms(2) by auto
      next
        case False
        with q have q': "key_of_peer t q = Some k'" by (simp add: inv(6))
        then have k': "k' \<notin> set (retired_ids t)" "\<exists>s. session_at t k' = Some s \<and> ss_peer s = q" "q \<noteq> kNoPeer"
          using assms(1) by (auto simp: table_ok_def)
        moreover have "key_of_peer t p \<noteq> Some k'"
          using k'(2) False assms(1) unfolding table_ok_def by (metis option.inject)
        ultimately show ?thesis
          using other [OF q' False] by (auto simp: inv(5,7) split: option.split)
      qed
    qed
    moreover have "\<forall>k'\<in>set (retired_ids t'). session_at t' k' \<noteq> None"
    proof
      fix k' assume "k' \<in> set (retired_ids t')"
      then have "k' \<noteq> k" "k' \<in> set (retired_ids t) \<or> key_of_peer t p = Some k'"
        unfolding inv(7) by (auto split: option.split_asm)
      moreover have "session_at t k' \<noteq> None" if "k' \<in> set (retired_ids t)"
        using that assms(1) unfolding table_ok_def by blast
      ultimately show "session_at t' k' \<noteq> None" using p_key(2) by (auto simp: inv(5))
    qed
    moreover have "session_at t' 0 = None" "tb_next_key_id t' \<noteq> 0" "length (tb_sessions t') \<le> kMaximumSessions"
      using inv(3,4,5,8,9) assms(1) by (auto simp: table_ok_def)
    ultimately show ?thesis using Pair inv(10,11) by (simp add: table_ok_def)
  qed
qed

lemma table_ok_allocate [inv_intros]:
  assumes "table_ok t"
  shows "table_ok (snd (allocate_key_id t))"
proof (cases "length (tb_sessions t) < 1024")
  case True
  have "tb_next_key_id t \<noteq> 0" using assms by (simp add: table_ok_def)
  with True obtain n where "snd (allocate_key_id t) = t\<lparr>tb_next_key_id := (next_id ^^ Suc n) (tb_next_key_id t)\<rparr>"
    "(next_id ^^ Suc n) (tb_next_key_id t) \<noteq> 0"
    using allocate_found unat_next_id_iter by (metis snd_conv)
  then show ?thesis using assms by (simp add: table_ok_def del: map_of_eq_Some_iff)
next
  case False
  then show ?thesis using assms by (simp add: allocate_key_id_def kMaximumSessions_def)
qed

lemma table_ok_receives: "table_ok (t\<lparr>tb_retired_receives := n\<rparr>) = table_ok t"
  by (simp add: table_ok_def)

lemma table_ok_find [inv_intros]: "table_ok t \<Longrightarrow> table_ok (snd (find_by_key_id t k))"
  using table_ok_receives by (simp add: find_by_key_id_def Let_def split: option.split)

lemma table_ok_remove [inv_intros]:
  assumes "table_ok t"
  shows "table_ok (remove_session t k)"
proof (cases "session_at t k")
  case None
  then show ?thesis using assms by (simp add: remove_session_def)
next
  case (Some s)
  let ?t = "remove_session t k"
  have s: "session_at ?t = (session_at t)(k := None)"
    "retired_ids ?t = filter (\<lambda>i. i \<noteq> k) (retired_ids t)" "tb_next_key_id ?t = tb_next_key_id t"
    "key_of_peer ?t = (if key_of_peer t (ss_peer s) = Some k then (key_of_peer t)(ss_peer s := None) else key_of_peer t)"
    using Some by (auto simp: remove_session_def alist_simps filter_map comp_def Let_def fun_eq_iff)
  have d: "distinct (map fst (tb_sessions ?t))" "distinct (map fst (tb_by_peer ?t))"
      "length (tb_sessions ?t) \<le> length (tb_sessions t)"
    using Some assms AList.length_delete_le [of k "tb_sessions t"]
    by (simp_all add: remove_session_def alist_simps table_ok_def Let_def)
  have "q \<noteq> kNoPeer \<and> k' \<notin> set (retired_ids ?t) \<and> (\<exists>s. session_at ?t k' = Some s \<and> ss_peer s = q)"
    if q: "key_of_peer ?t q = Some k'" for q k'
  proof -
    have q': "key_of_peer t q = Some k'" using q s(4) by (auto split: if_split_asm)
    then have *: "q \<noteq> kNoPeer" "k' \<notin> set (retired_ids t)" "\<exists>s. session_at t k' = Some s \<and> ss_peer s = q"
      using assms unfolding table_ok_def by blast+
    moreover have "k' \<noteq> k" using *(3) Some q q' s(4) by (auto split: if_split_asm)
    ultimately show ?thesis by (simp add: s(1,2))
  qed
  moreover have "session_at ?t k' \<noteq> None" if "k' \<in> set (retired_ids ?t)" for k'
    using that assms unfolding s(1,2) table_ok_def by auto
  ultimately show ?thesis using assms d s(1-3) by (simp add: table_ok_def)
qed

lemma fold_delete: "map_of (fold (\<lambda>e. AList.delete (f e)) es al) k = (if k \<in> f ` set es then None else map_of al k)"
  by (induction es arbitrary: al) (auto simp: map_of_delete)

lemma fold_delete_list:
  "distinct (map fst al) \<Longrightarrow> distinct (map fst (fold (\<lambda>e. AList.delete (f e)) es al)) \<and>
     length (fold (\<lambda>e. AList.delete (f e)) es al) \<le> length al"
proof (induction es arbitrary: al)
  case (Cons e es)
  have "distinct (map fst (AList.delete (f e) al))" using Cons.prems by (rule distinct_delete)
  then show ?case using Cons.IH AList.length_delete_le [of "f e" al] by (fastforce intro: le_trans)
qed simp

lemma expire_retired_simps:
  assumes "table_ok t"
  shows "session_at (expire_retired t now) k =
      (if \<exists>e\<in>set (tb_retired t). rt_key_id e = k \<and> \<not> now - rt_retired_at e < kRetireAfter
       then None else session_at t k)"
    "key_of_peer (expire_retired t now) = key_of_peer t"
    "tb_retired (expire_retired t now) = filter (\<lambda>e. now - rt_retired_at e < kRetireAfter) (tb_retired t)"
  by (auto simp: expire_retired_def fold_delete Let_def)

lemma table_ok_expire [inv_intros]:
  assumes "table_ok t"
  shows "table_ok (expire_retired t now)"
proof -
  let ?t = "expire_retired t now"
  note e = expire_retired_simps [OF assms, of now]
  have d: "distinct (map fst (tb_sessions ?t))" "length (tb_sessions ?t) \<le> length (tb_sessions t)"
    using fold_delete_list [of "tb_sessions t" rt_key_id "filter (\<lambda>e. \<not> now - rt_retired_at e < kRetireAfter) (tb_retired t)"]
      table_ok_distinct [OF assms] by (simp_all add: expire_retired_def Let_def)
  have ids: "distinct (retired_ids t)" using assms by (simp add: table_ok_def)
  then have "distinct (retired_ids ?t)" by (simp add: e(3) distinct_map_filter)
  moreover have "q \<noteq> kNoPeer \<and> k \<notin> set (retired_ids ?t) \<and> (\<exists>s. session_at ?t k = Some s \<and> ss_peer s = q)"
    if "key_of_peer ?t q = Some k" for q k
  proof -
    have q: "q \<noteq> kNoPeer" "k \<notin> set (retired_ids t)" "\<exists>s. session_at t k = Some s \<and> ss_peer s = q"
      using that assms unfolding e(2) table_ok_def by blast+
    then have "session_at ?t k = session_at t k" by (auto simp: e(1))
    then show ?thesis using q by (auto simp: e(3))
  qed
  moreover have "session_at ?t k \<noteq> None" if mem: "k \<in> set (retired_ids ?t)" for k
  proof -
    obtain r where r: "r \<in> set (tb_retired t)" "rt_key_id r = k" "now - rt_retired_at r < kRetireAfter"
      using mem by (auto simp: e(3))
    have "r' = r" if "r' \<in> set (tb_retired t)" "rt_key_id r' = k" for r'
      using that r ids by (auto simp: distinct_map inj_on_def)
    then have "session_at ?t k = session_at t k" using r(3) by (auto simp: e(1))
    then show ?thesis using assms r unfolding table_ok_def by auto
  qed
  moreover have "session_at ?t 0 = None" using assms by (simp add: e(1) table_ok_def)
  moreover have "tb_next_key_id ?t \<noteq> 0" "distinct (map fst (tb_by_peer ?t))"
    using assms by (simp_all add: expire_retired_def table_ok_def Let_def)
  ultimately show ?thesis using assms d by (simp add: table_ok_def)
qed

lemma table_run_ok: "table_run t \<Longrightarrow> table_ok t"
proof (induction rule: table_run.induct)
  case table_new
  then show ?case by (simp add: table_ok_def new_session_table_def)
qed (auto intro: inv_intros)

text \<open>
  C26: peers get their own session. On every table built with key ids that are fresh or the peer's
  own, \<^verbatim>\<open>find_by_peer\<close> only ever returns a session of that peer; and \<^verbatim>\<open>install\<close> makes it return the
  new session for the peer while every other peer keeps the session it had.
\<close>

theorem find_by_peer_consistent:
  assumes "table_run t" "ss_peer s = p" "session_at t k = None \<or> key_of_peer t p = Some k"
    and "install t p k s now = (Inr s', t')"
  shows "fst (find_by_peer t' p) = Some s \<and>
    (\<forall>q. q \<noteq> p \<longrightarrow> fst (find_by_peer t' q) = fst (find_by_peer t q)) \<and>
    (\<forall>q r. fst (find_by_peer t' q) = Some r \<longrightarrow> ss_peer r = q)"
proof -
  have ok: "table_ok t" using assms(1) by (rule table_run_ok)
  note inv = install_inv [OF ok assms(4)]
  have find: "fst (find_by_peer t p) = (case key_of_peer t p of None \<Rightarrow> None | Some k \<Rightarrow> session_at t k)" for t p
    by (simp add: find_by_peer_def find_by_key_id_def Let_def split: option.split)
  have "table_ok t'" using table_ok_install [OF ok assms(2,3), of now] assms(4) by simp
  then have own: "ss_peer r = q" if "key_of_peer t' q = Some k" "session_at t' k = Some r" for q k r
    using that unfolding table_ok_def by (metis option.inject)
  have other: "k' \<noteq> k" if "key_of_peer t q = Some k'" "q \<noteq> p" for q k'
    using that ok assms(3) unfolding table_ok_def by (metis option.distinct(1) option.inject)
  have "fst (find_by_peer t' q) = fst (find_by_peer t q)" if "q \<noteq> p" for q
    using that other [of q] by (auto simp: find inv(5,6) split: option.split)
  moreover have "ss_peer r = q" if "fst (find_by_peer t' q) = Some r" for q r
    using that own by (auto simp: find split: option.split_asm)
  moreover have "fst (find_by_peer t' p) = Some s" by (simp add: find inv(5,6))
  ultimately show ?thesis by blast
qed

definition one_session :: SessionTable where
  "one_session = snd (install new_session_table 1 2 demo_session 0)"

lemma one_session_install: "install new_session_table 1 2 demo_session 0 = (Inr demo_session, one_session)"
  by (simp add: one_session_def install_def new_session_table_def kNoPeer_def kPreSessionKeyId_def
      kMaximumSessions_def retire_existing_def)

theorem find_by_peer_consistent_witness:
  "fst (find_by_peer one_session 1) = Some demo_session"
proof -
  have "ss_peer demo_session = 1" "session_at new_session_table 2 = None"
    by (simp_all add: demo_session_def new_session_def new_session_table_def)
  with find_by_peer_consistent [OF table_new _ _ one_session_install] show ?thesis by simp
qed

text \<open>
  A rekey overlaps. When a new session is installed for a peer under another key id, packets
  under the old key id still find the old session: \<^verbatim>\<open>expire_retired\<close> keeps it for ten seconds after
  the installation and removes it from then on, and never removes the new one.
\<close>

lemma rekey_overlap:
  assumes "table_run t" "key_of_peer t p = Some old" "session_at t old = Some s0"
    and "ss_peer s = p" "session_at t new = None" "install t p new s t0 = (Inr s', t')"
  shows "fst (find_by_key_id (expire_retired t' now) old) =
      (if now - t0 < seconds 10 then Some s0 else None) \<and>
    fst (find_by_key_id (expire_retired t' now) new) = Some s"
proof -
  have ok: "table_ok t" using assms(1) by (rule table_run_ok)
  have ne: "old \<noteq> new" using assms(3,5) by auto
  note inv = install_inv [OF ok assms(6)]
  have ok': "table_ok t'"
    using table_ok_install [OF ok assms(4), of new t0] assms(5,6) by simp
  have fresh: "old \<notin> set (retired_ids t)" using ok assms(2) unfolding table_ok_def by blast
  have ret: "tb_retired t' = filter (\<lambda>e. rt_key_id e \<noteq> new) (tb_retired t) @ [\<lparr>rt_key_id = old, rt_retired_at = t0\<rparr>]"
    using assms(2,6) ne by (auto simp: install_def retire_existing_def alist_simps Let_def split: if_split_asm)
  note e = expire_retired_simps(1) [OF ok', of now]
  have find: "fst (find_by_key_id t k) = session_at t k" for t k
    by (simp add: find_by_key_id_def Let_def split: option.split)
  have "session_at (expire_retired t' now) old = (if now - t0 < seconds 10 then Some s0 else None)"
    using fresh ne assms(3) by (auto simp: e ret inv(5) kRetireAfter_def)
  moreover have "session_at (expire_retired t' now) new = Some s"
    using ne by (auto simp: e ret inv(5))
  ultimately show ?thesis by (simp add: find)
qed

text \<open>
  Without that discipline the two maps can disagree: installing a session of one peer under the key
  id of another peer replaces the other's session but leaves its entry in \<^verbatim>\<open>by_peer_\<close>, which then
  names a session of the wrong peer.
\<close>

lemma install_foreign_key_id:
  "ss_peer (the (fst (find_by_peer
     (snd (install one_session 9 2 (new_session 9 2 6 demo_keys demo_keys 0) 0)) 1))) = 9"
  by (simp add: one_session_def install_def new_session_table_def kNoPeer_def kPreSessionKeyId_def
      kMaximumSessions_def retire_existing_def find_by_peer_def find_by_key_id_def new_session_def)

end
