(* ===== verification/Blake2s.thy ===== *)
theory Blake2s
  imports Wire
begin

text \<open>
  The hash function (src/blake2s.cpp): BLAKE2s with its streaming interface, HMAC and HKDF over it.
  An output span of the code is a length here, and the bytes written are returned. The loop of
  \<^verbatim>\<open>update\<close> consumes at least one byte of its input per round as long as the buffer holds at most one
  block, so the length of the input is fuel enough; the lemmas show that all of it is consumed.
\<close>

definition kBlockSize :: nat where "kBlockSize = 64"
definition kMaximumDigestSize :: nat where "kMaximumDigestSize = 32"
definition kMaximumKeySize :: nat where "kMaximumKeySize = 32"

lemmas blake2s_consts = kBlockSize_def kMaximumDigestSize_def kMaximumKeySize_def

definition kInitialisationVector :: "u32 list" where
  "kInitialisationVector =
     [0x6A09E667, 0xBB67AE85, 0x3C6EF372, 0xA54FF53A, 0x510E527F, 0x9B05688C, 0x1F83D9AB, 0x5BE0CD19]"

definition kSigma :: "nat list list" where
  "kSigma =
    [[0, 1, 2, 3, 4, 5, 6, 7, 8, 9, 10, 11, 12, 13, 14, 15],
     [14, 10, 4, 8, 9, 15, 13, 6, 1, 12, 0, 2, 11, 7, 5, 3],
     [11, 8, 12, 0, 5, 2, 15, 13, 10, 14, 3, 6, 7, 1, 9, 4],
     [7, 9, 3, 1, 13, 12, 11, 14, 2, 6, 5, 10, 4, 0, 15, 8],
     [9, 0, 5, 7, 2, 4, 10, 15, 14, 1, 11, 12, 6, 8, 3, 13],
     [2, 12, 6, 10, 0, 11, 8, 3, 4, 13, 7, 5, 15, 14, 1, 9],
     [12, 5, 1, 15, 14, 13, 4, 10, 0, 7, 6, 3, 9, 2, 8, 11],
     [13, 11, 7, 14, 12, 1, 3, 9, 5, 0, 15, 4, 8, 6, 2, 10],
     [6, 15, 14, 9, 11, 3, 0, 8, 12, 2, 13, 7, 1, 4, 10, 5],
     [10, 2, 8, 4, 7, 6, 1, 5, 15, 11, 9, 14, 3, 12, 13, 0]]"

definition rotate_right :: "u32 \<Rightarrow> nat \<Rightarrow> u32" where
  "rotate_right v bits = drop_bit bits v OR push_bit (32 - bits) v"

definition load_le32 :: "bytes \<Rightarrow> nat \<Rightarrow> u32" where
  "load_le32 b k = ucast (b ! k) OR push_bit 8 (ucast (b ! (k + 1))) OR
     push_bit 16 (ucast (b ! (k + 2))) OR push_bit 24 (ucast (b ! (k + 3)))"

definition store_le32 :: "u32 \<Rightarrow> bytes" where
  "store_le32 v = [ucast (v AND 255), ucast (drop_bit 8 v AND 255), ucast (drop_bit 16 v AND 255),
     ucast (drop_bit 24 v AND 255)]"

definition mix_lanes :: "u32 list \<Rightarrow> nat \<Rightarrow> nat \<Rightarrow> nat \<Rightarrow> nat \<Rightarrow> u32 \<Rightarrow> u32 \<Rightarrow> u32 list" where
  "mix_lanes v a b c d x y =
     (let v = v[a := v ! a + v ! b + x];
          v = v[d := rotate_right (v ! d XOR v ! a) 16];
          v = v[c := v ! c + v ! d];
          v = v[b := rotate_right (v ! b XOR v ! c) 12];
          v = v[a := v ! a + v ! b + y];
          v = v[d := rotate_right (v ! d XOR v ! a) 8];
          v = v[c := v ! c + v ! d];
          v = v[b := rotate_right (v ! b XOR v ! c) 7]
      in v)"

record Blake2s =
  bl_state :: "u32 list"
  bl_buffer :: bytes
  bl_buffered :: nat
  bl_counter :: u64
  bl_digest_size :: nat
  bl_finished :: bool

definition mix_round :: "u32 list \<Rightarrow> nat list \<Rightarrow> u32 list \<Rightarrow> u32 list" where
  "mix_round message s v =
     (let v = mix_lanes v 0 4 8 12 (message ! (s ! 0)) (message ! (s ! 1));
          v = mix_lanes v 1 5 9 13 (message ! (s ! 2)) (message ! (s ! 3));
          v = mix_lanes v 2 6 10 14 (message ! (s ! 4)) (message ! (s ! 5));
          v = mix_lanes v 3 7 11 15 (message ! (s ! 6)) (message ! (s ! 7));
          v = mix_lanes v 0 5 10 15 (message ! (s ! 8)) (message ! (s ! 9));
          v = mix_lanes v 1 6 11 12 (message ! (s ! 10)) (message ! (s ! 11));
          v = mix_lanes v 2 7 8 13 (message ! (s ! 12)) (message ! (s ! 13));
          v = mix_lanes v 3 4 9 14 (message ! (s ! 14)) (message ! (s ! 15))
      in v)"

text \<open>The compression function on a chaining value and a block, and the member function over it.\<close>

definition compress_block :: "u32 list \<Rightarrow> bytes \<Rightarrow> u64 \<Rightarrow> bool \<Rightarrow> u32 list" where
  "compress_block h block counter final_block =
     (let message = map (\<lambda>index. load_le32 block (index * 4)) [0..<16];
          v = h @ kInitialisationVector;
          v = v[12 := v ! 12 XOR ucast (counter AND 0xFFFFFFFF)];
          v = v[13 := v ! 13 XOR ucast (drop_bit 32 counter)];
          v = (if final_block then v[14 := NOT (v ! 14)] else v);
          v = fold (\<lambda>round v. mix_round message (kSigma ! round) v) [0..<10] v
      in map (\<lambda>index. h ! index XOR (v ! index XOR v ! (index + 8))) [0..<8])"

definition compress :: "Blake2s \<Rightarrow> bool \<Rightarrow> Blake2s" where
  "compress s final_block = s\<lparr>bl_state := compress_block (bl_state s) (bl_buffer s) (bl_counter s) final_block\<rparr>"

primrec update_loop :: "nat \<Rightarrow> Blake2s \<Rightarrow> bytes \<Rightarrow> nat \<Rightarrow> Blake2s" where
  "update_loop 0 s input offset = s"
| "update_loop (Suc fuel) s input offset =
     (if offset < length input
      then let s = (if bl_buffered s = kBlockSize
                    then (compress (s\<lparr>bl_counter := bl_counter s + of_nat kBlockSize\<rparr>) False)\<lparr>bl_buffered := 0\<rparr>
                    else s);
               n = min (kBlockSize - bl_buffered s) (length input - offset);
               s = s\<lparr>bl_buffer := copy_to (bl_buffer s) (bl_buffered s) (take n (drop offset input)),
                     bl_buffered := bl_buffered s + n\<rparr>
           in update_loop fuel s input (offset + n)
      else s)"

definition update :: "Blake2s \<Rightarrow> bytes \<Rightarrow> Blake2s" where
  "update s input = (if bl_finished s then s else update_loop (length input) s input 0)"

definition new_blake2s :: "nat \<Rightarrow> bytes \<Rightarrow> Blake2s" where
  "new_blake2s digest_size key =
     (let digest_size = max 1 (min kMaximumDigestSize digest_size);
          key_length = min (length key) kMaximumKeySize;
          state = kInitialisationVector[0 := kInitialisationVector ! 0 XOR
            (0x01010000 OR push_bit 8 (of_nat key_length) OR of_nat digest_size)];
          s = \<lparr>bl_state = state, bl_buffer = replicate kBlockSize 0, bl_buffered = 0, bl_counter = 0,
               bl_digest_size = digest_size, bl_finished = False\<rparr>
      in if key_length > 0
         then update s (copy_to (replicate kBlockSize 0) 0 (take key_length key))
         else s)"

text \<open>\<^verbatim>\<open>finish\<close> fills the span it is given, of length \<open>n\<close> and zero before, as at every call.\<close>

definition finish_digest :: "Blake2s \<Rightarrow> nat \<Rightarrow> bytes \<times> Blake2s" where
  "finish_digest s n =
     (if bl_finished s then (replicate n 0, s)
      else let s = s\<lparr>bl_finished := True, bl_counter := bl_counter s + of_nat (bl_buffered s),
                     bl_buffer := take (bl_buffered s) (bl_buffer s) @
                       replicate (kBlockSize - bl_buffered s) 0\<rparr>;
               s = compress s True;
               digest = concat (map (\<lambda>index. store_le32 (bl_state s ! index)) [0..<8])
           in (copy_to (replicate n 0) 0 (take (min n (bl_digest_size s)) digest), s))"

definition blake2s_hash :: "bytes \<Rightarrow> bytes \<Rightarrow> bytes" where
  "blake2s_hash input key =
     fst (finish_digest (update (new_blake2s kMaximumDigestSize key) input) kMaximumDigestSize)"

definition pad_key :: "bytes \<Rightarrow> bytes" where
  "pad_key key =
     (if length key > kBlockSize then copy_to (replicate kBlockSize 0) 0 (blake2s_hash key [])
      else copy_to (replicate kBlockSize 0) 0 key)"

definition hmac_blake2s :: "bytes \<Rightarrow> bytes \<Rightarrow> bytes" where
  "hmac_blake2s key message =
     (let padded = pad_key key;
          inner_pad = map (\<lambda>octet. octet XOR 0x36) padded;
          outer_pad = map (\<lambda>octet. octet XOR 0x5C) padded;
          inner = update (update (new_blake2s kMaximumDigestSize []) inner_pad) message;
          inner_digest = fst (finish_digest inner kMaximumDigestSize);
          outer = update (update (new_blake2s kMaximumDigestSize []) outer_pad) inner_digest
      in fst (finish_digest outer kMaximumDigestSize))"

definition hkdf_extract :: "bytes \<Rightarrow> bytes \<Rightarrow> bytes" where
  "hkdf_extract salt input = hmac_blake2s salt input"

definition expand_block :: "bytes \<Rightarrow> bytes \<Rightarrow> bytes \<Rightarrow> u8 \<Rightarrow> bytes" where
  "expand_block pseudorandom_key info previous counter =
     (let padded = pad_key pseudorandom_key;
          inner_pad = map (\<lambda>octet. octet XOR 0x36) padded;
          outer_pad = map (\<lambda>octet. octet XOR 0x5C) padded;
          inner = update (new_blake2s kMaximumDigestSize []) inner_pad;
          inner = (if counter > 1 then update inner previous else inner);
          inner = update inner info;
          inner = update inner [counter];
          inner_digest = fst (finish_digest inner kMaximumDigestSize);
          outer = update (update (new_blake2s kMaximumDigestSize []) outer_pad) inner_digest
      in fst (finish_digest outer kMaximumDigestSize))"

lemma length_finish_digest: "length (fst (finish_digest s n)) = n"
  by (simp add: finish_digest_def Let_def copy_to_def)

lemma length_expand_block: "length (expand_block prk info previous counter) = 32"
  by (simp add: expand_block_def Let_def length_finish_digest kMaximumDigestSize_def)

function expand_loop :: "bytes \<Rightarrow> bytes \<Rightarrow> nat \<Rightarrow> bytes \<Rightarrow> u8 \<Rightarrow> bytes \<Rightarrow> bytes" where
  "expand_loop prk info n previous counter out =
     (if length out < n
      then let previous = expand_block prk info previous counter
           in expand_loop prk info n previous (counter + 1)
                (out @ take (min kMaximumDigestSize (n - length out)) previous)
      else out)"
  by pat_completeness auto
termination
  by (relation "measure (\<lambda>(prk, info, n, previous, counter, out). n - length out)")
    (auto simp: length_expand_block kMaximumDigestSize_def)

declare expand_loop.simps [simp del]

definition hkdf_expand :: "bytes \<Rightarrow> bytes \<Rightarrow> nat \<Rightarrow> bytes option" where
  "hkdf_expand pseudorandom_key info n =
     (if n > 255 * kMaximumDigestSize then None
      else Some (expand_loop pseudorandom_key info n (replicate kMaximumDigestSize 0) 1 []))"

subsection \<open>The digest depends on the bytes alone\<close>

text \<open>
  The reference (RFC 7693): all blocks but the last are absorbed with the count of bytes so far, the
  last one, padded with zeros, with the length of the message and the final flag. A message whose
  length is a multiple of the block size has a full last block.
\<close>

definition full_blocks :: "bytes \<Rightarrow> nat" where
  "full_blocks m = (length m - 1) div 64"

definition absorb :: "u32 list \<Rightarrow> bytes \<Rightarrow> nat \<Rightarrow> u32 list" where
  "absorb h m n = fold (\<lambda>i h. compress_block h (take 64 (drop (64 * i) m)) (of_nat (64 * (i + 1))) False) [0..<n] h"

definition reference_state :: "u32 list \<Rightarrow> bytes \<Rightarrow> u32 list" where
  "reference_state h m =
     (let tail = drop (64 * full_blocks m) m
      in compress_block (absorb h m (full_blocks m)) (tail @ replicate (64 - length tail) 0)
           (of_nat (length m)) True)"

definition digest_bytes :: "u32 list \<Rightarrow> bytes" where
  "digest_bytes h = concat (map (\<lambda>index. store_le32 (h ! index)) [0..<8])"

definition holds_message :: "u32 list \<Rightarrow> bytes \<Rightarrow> Blake2s \<Rightarrow> bool" where
  "holds_message h m s \<longleftrightarrow>
     \<not> bl_finished s \<and> length (bl_buffer s) = 64 \<and>
     bl_buffered s = length m - 64 * full_blocks m \<and>
     take (bl_buffered s) (bl_buffer s) = drop (64 * full_blocks m) m \<and>
     bl_counter s = of_nat (64 * full_blocks m) \<and>
     bl_state s = absorb h m (full_blocks m)"

lemma buffered_bounds: "length m - 64 * full_blocks m \<le> 64" "64 * full_blocks m \<le> length m"
  "m \<noteq> [] \<Longrightarrow> 0 < length m - 64 * full_blocks m"
  unfolding full_blocks_def by (cases m; simp; linarith)+

lemma holds_message_buffered:
  assumes "holds_message h m s"
  shows "\<not> bl_finished s" "bl_buffered s = length m - 64 * full_blocks m" "bl_buffered s \<le> 64"
  using assms buffered_bounds(1) [of m] by (auto simp: holds_message_def)

lemma absorb_append: "64 * n \<le> length m \<Longrightarrow> absorb h (m @ x) n = absorb h m n"
  unfolding absorb_def by (intro fold_cong) auto

lemma absorb_Suc: "absorb h m (Suc n) = compress_block (absorb h m n) (take 64 (drop (64 * n) m)) (of_nat (64 * (n + 1))) False"
  by (simp add: absorb_def)

text \<open>One round of the loop of \<^verbatim>\<open>update\<close>.\<close>

definition flush_full :: "Blake2s \<Rightarrow> Blake2s" where
  "flush_full s = (if bl_buffered s = kBlockSize
     then (compress (s\<lparr>bl_counter := bl_counter s + of_nat kBlockSize\<rparr>) False)\<lparr>bl_buffered := 0\<rparr> else s)"

definition append_chunk :: "Blake2s \<Rightarrow> bytes \<Rightarrow> Blake2s" where
  "append_chunk s x = s\<lparr>bl_buffer := copy_to (bl_buffer s) (bl_buffered s) x, bl_buffered := bl_buffered s + length x\<rparr>"

lemma take_copy_to:
  "k \<le> length b \<Longrightarrow> take (k + length x) (copy_to b k x) = take k b @ x"
  by (simp add: copy_to_def)

lemma holds_message_chunk:
  assumes "holds_message h m s" "x \<noteq> []" "length x \<le> 64 - bl_buffered (flush_full s)"
  shows "holds_message h (m @ x) (append_chunk (flush_full s) x)"
proof (cases "bl_buffered s = 64")
  case True
  let ?n = "full_blocks m"
  have m: "length m = 64 * ?n + 64"
    using holds_message_buffered(2) [OF assms(1)] True buffered_bounds(2) [of m] by linarith
  then have n: "full_blocks (m @ x) = Suc ?n"
    using assms(2,3) True by (cases x) (auto simp: full_blocks_def flush_full_def kBlockSize_def)
  have "take 64 (bl_buffer s) = drop (64 * ?n) m" "length (bl_buffer s) = 64"
    using assms(1) True by (simp_all add: holds_message_def)
  then have "bl_buffer s = take 64 (drop (64 * ?n) (m @ x))" using m by simp
  moreover have "absorb h (m @ x) ?n = absorb h m ?n" using m by (intro absorb_append) simp
  ultimately show ?thesis
    using assms True m n
    by (simp add: holds_message_def append_chunk_def flush_full_def kBlockSize_def compress_def absorb_Suc copy_to_def
        add.commute [of 64])
next
  case False
  let ?n = "full_blocks m"
  have s: "flush_full s = s" using False by (simp add: flush_full_def kBlockSize_def)
  have b: "bl_buffered s = length m - 64 * ?n" "64 * ?n \<le> length m"
    using assms(1) buffered_bounds(2) [of m] by (simp_all add: holds_message_def)
  have n: "full_blocks (m @ x) = ?n"
  proof -
    have "length (m @ x) - 1 - 64 * ?n < 64" "64 * ?n \<le> length (m @ x) - 1"
      using assms(2,3) s b by (cases x; simp)+
    then show ?thesis unfolding full_blocks_def [of "m @ x"] by (intro div_nat_eqI) simp_all
  qed
  have facts: "take (bl_buffered s) (bl_buffer s) = drop (64 * ?n) m" "length (bl_buffer s) = 64"
    "bl_counter s = of_nat (64 * ?n)" "bl_state s = absorb h m ?n" "\<not> bl_finished s"
    using assms(1) unfolding holds_message_def by blast+
  have room: "bl_buffered s + length x \<le> 64" using assms(3) s holds_message_buffered(3) [OF assms(1)] by simp
  then have "length (copy_to (bl_buffer s) (bl_buffered s) x) = 64"
    "take (bl_buffered s + length x) (copy_to (bl_buffer s) (bl_buffered s) x) = drop (64 * ?n) (m @ x)"
    using facts(1,2) b(2) by (simp_all add: take_copy_to)
  moreover have "bl_buffered s + length x = length (m @ x) - 64 * ?n" using b by simp
  ultimately show ?thesis
    using facts absorb_append [of ?n m h x] b(2) n
    by (simp add: holds_message_def append_chunk_def s)
qed

lemma update_loop_message:
  assumes "holds_message h (m @ take offset input) s" "offset \<le> length input" "length input - offset \<le> fuel"
  shows "holds_message h (m @ input) (update_loop fuel s input offset)"
  using assms
proof (induction fuel arbitrary: s offset)
  case 0
  then show ?case by simp
next
  case (Suc fuel)
  show ?case
  proof (cases "offset < length input")
    case True
    let ?s = "flush_full s"
    define n where "n = min (kBlockSize - bl_buffered ?s) (length input - offset)"
    let ?x = "take n (drop offset input)"
    have "bl_buffered s \<le> 64" using Suc.prems(1) by (rule holds_message_buffered)
    then have n: "0 < n" "n \<le> length input - offset" "n \<le> 64 - bl_buffered ?s"
      using True by (auto simp: n_def flush_full_def kBlockSize_def)
    then have x: "?x \<noteq> []" "length ?x = n" using True by auto
    have "(m @ take offset input) @ ?x = m @ take (offset + n) input" by (simp add: take_add)
    then have "holds_message h (m @ take (offset + n) input) (append_chunk ?s ?x)"
      using holds_message_chunk [OF Suc.prems(1) x(1)] n(3) x(2) by simp
    then have "holds_message h (m @ input) (update_loop fuel (append_chunk ?s ?x) input (offset + n))"
      using Suc.prems(3) n by (intro Suc.IH) linarith+
    moreover have "update_loop (Suc fuel) s input offset = update_loop fuel (append_chunk ?s ?x) input (offset + n)"
      using True x(2) by (simp add: Let_def n_def flush_full_def append_chunk_def)
    ultimately show ?thesis by (simp only:)
  next
    case False
    then show ?thesis using Suc.prems by simp
  qed
qed

lemma update_message:
  assumes "holds_message h m s"
  shows "holds_message h (m @ input) (update s input)"
  using update_loop_message [of h m 0 input s "length input"] assms holds_message_buffered(1) [OF assms]
  by (simp add: update_def)

lemma bl_digest_size_update [simp]: "bl_digest_size (update s input) = bl_digest_size s"
proof -
  have "bl_digest_size (update_loop fuel s input offset) = bl_digest_size s" for fuel offset
    by (induction fuel arbitrary: s offset) (simp_all add: Let_def compress_def)
  then show ?thesis by (simp add: update_def)
qed

lemma finish_digest_message:
  assumes "holds_message h m s"
  shows "fst (finish_digest s n) =
    copy_to (replicate n 0) 0 (take (min n (bl_digest_size s)) (digest_bytes (reference_state h m)))"
proof -
  let ?n = "full_blocks m"
  have "bl_counter s + of_nat (bl_buffered s) = of_nat (64 * ?n + bl_buffered s)"
    using assms by (simp add: holds_message_def)
  also have "64 * ?n + bl_buffered s = length m"
    using holds_message_buffered(2) [OF assms] buffered_bounds(2) [of m] by simp
  finally have "bl_counter s + of_nat (bl_buffered s) = of_nat (length m)" .
  moreover have "take (bl_buffered s) (bl_buffer s) = drop (64 * ?n) m" "bl_state s = absorb h m ?n"
    using assms unfolding holds_message_def by blast+
  ultimately show ?thesis
    using holds_message_buffered(1,2) [OF assms]
    by (simp add: finish_digest_def Let_def compress_def reference_state_def digest_bytes_def kBlockSize_def)
qed

definition initial_state :: "nat \<Rightarrow> nat \<Rightarrow> u32 list" where
  "initial_state digest_size key_length =
     kInitialisationVector[0 := kInitialisationVector ! 0 XOR
       (0x01010000 OR push_bit 8 (of_nat key_length) OR of_nat digest_size)]"

definition key_block :: "bytes \<Rightarrow> bytes" where
  "key_block key = (if key = [] then [] else take 32 key @ replicate (64 - length (take 32 key)) 0)"

definition reference_digest :: "nat \<Rightarrow> bytes \<Rightarrow> bytes \<Rightarrow> bytes" where
  "reference_digest d key m =
     take d (digest_bytes (reference_state (initial_state d (min (length key) 32)) (key_block key @ m)))"

lemma new_blake2s_message:
  "holds_message (initial_state (max 1 (min 32 d)) (min (length key) 32)) (key_block key) (new_blake2s d key)"
  "bl_digest_size (new_blake2s d key) = max 1 (min 32 d)"
proof -
  let ?h = "initial_state (max 1 (min 32 d)) (min (length key) 32)"
  let ?s = "\<lparr>bl_state = ?h, bl_buffer = replicate 64 0, bl_buffered = 0, bl_counter = 0,
      bl_digest_size = max 1 (min 32 d), bl_finished = False\<rparr>"
  have s: "holds_message ?h [] ?s"
    by (simp add: holds_message_def full_blocks_def absorb_def)
  have "take (min (length key) 32) key = take 32 key" by (simp add: min_def)
  then have new: "new_blake2s d key = (if key = [] then ?s else update ?s (key_block key))"
    unfolding new_blake2s_def Let_def initial_state_def blake2s_consts
    by (simp add: key_block_def copy_to_def)
  show "holds_message ?h (key_block key) (new_blake2s d key)"
    unfolding new using s update_message [OF s, of "key_block key"] by (cases "key = []") (simp_all add: key_block_def)
  show "bl_digest_size (new_blake2s d key) = max 1 (min 32 d)" by (simp add: new)
qed

lemma update_chunks:
  assumes "holds_message h m s"
  shows "holds_message h (m @ concat xs) (fold (\<lambda>x s. update s x) xs s) \<and>
    bl_digest_size (fold (\<lambda>x s. update s x) xs s) = bl_digest_size s"
  using assms
proof (induction xs arbitrary: m s)
  case (Cons x xs)
  show ?case using Cons.IH [OF update_message [OF Cons.prems, of x]] by simp
qed simp

lemma length_digest_bytes: "length (digest_bytes h) = 32"
  by (simp add: digest_bytes_def store_le32_def upt_8)

lemma streaming_digest:
  assumes "1 \<le> d" "d \<le> 32"
  shows "fst (finish_digest (fold (\<lambda>x s. update s x) xs (new_blake2s d key)) d) = reference_digest d key (concat xs)"
proof -
  note run = update_chunks [OF new_blake2s_message(1) [of d key], of xs]
  have "max 1 (min 32 d) = d" using assms by simp
  then show ?thesis
    using finish_digest_message [OF conjunct1 [OF run], of d] run new_blake2s_message(2) [of d key] assms
    by (simp add: reference_digest_def copy_to_def length_digest_bytes)
qed

lemma length_reference_digest: "d \<le> 32 \<Longrightarrow> length (reference_digest d key m) = d"
  by (simp add: reference_digest_def length_digest_bytes)

text \<open>
  C40: However a message is cut into pieces for \<^verbatim>\<open>Blake2s::update\<close>, empty pieces and pieces that end on or
  straddle block boundaries included, the digest is the one RFC 7693 defines for the whole message
  under that key and digest length.
\<close>
theorem blake2s_streaming:
  assumes "1 \<le> digest_size" "digest_size \<le> kMaximumDigestSize"
  shows "fst (finish_digest (fold (\<lambda>piece s. update s piece) pieces (new_blake2s digest_size key)) digest_size) =
    reference_digest digest_size key (concat pieces)"
  using assms by (simp add: streaming_digest kMaximumDigestSize_def)

theorem blake2s_streaming_witness:
  "fst (finish_digest (update (update (update (new_blake2s 16 [7]) (replicate 63 1)) []) [2, 3]) 16) =
     reference_digest 16 [7] (replicate 63 1 @ [2, 3])"
  using blake2s_streaming [of 16 "[replicate 63 1, [], [2, 3]]" "[7]"] by (simp add: kMaximumDigestSize_def)

lemma blake2s_hash_reference: "blake2s_hash input key = reference_digest 32 key input"
  using streaming_digest [of 32 "[input]" key] by (simp add: blake2s_hash_def kMaximumDigestSize_def)

lemma blake2s_two: "fst (finish_digest (update (update (new_blake2s kMaximumDigestSize []) a) b) kMaximumDigestSize) = blake2s_hash (a @ b) []"
  using streaming_digest [of 32 "[a, b]" "[]"] by (simp add: blake2s_hash_reference kMaximumDigestSize_def)

lemma length_blake2s_hash [simp]: "length (blake2s_hash input key) = 32"
  by (simp add: blake2s_hash_reference length_reference_digest)

lemma hmac_hash:
  "hmac_blake2s key message = blake2s_hash (map (\<lambda>octet. octet XOR 0x5C) (pad_key key) @
     blake2s_hash (map (\<lambda>octet. octet XOR 0x36) (pad_key key) @ message) []) []"
  by (simp add: hmac_blake2s_def Let_def blake2s_two)

lemma length_hmac [simp]: "length (hmac_blake2s key message) = 32"
  by (simp add: hmac_hash)

lemma expand_block_hmac:
  "expand_block prk info previous counter =
     hmac_blake2s prk ((if counter > 1 then previous else []) @ info @ [counter])"
proof -
  let ?pad = "map (\<lambda>octet. octet XOR 0x36) (pad_key prk)"
  let ?xs = "if counter > 1 then [?pad, previous, info, [counter]] else [?pad, info, [counter]]"
  have "fst (finish_digest (fold (\<lambda>x s. update s x) ?xs (new_blake2s kMaximumDigestSize [])) kMaximumDigestSize) =
      blake2s_hash (concat ?xs) []"
    by (simp add: streaming_digest blake2s_hash_reference kMaximumDigestSize_def)
  then show ?thesis
    by (cases "counter > 1") (simp_all add: expand_block_def hmac_hash Let_def blake2s_two)
qed

end
