(* ===== verification/Primitives.thy ===== *)
theory Primitives
  imports Crypto Blake2s
begin

text \<open>
  The rest of src/crypto.cpp: key pairs, key agreement, constant-time comparison and key derivation.
  The functions of libsodium the sources call are the fields of a record that the definitions take as
  an argument; \<open>None\<close> is the result of a call that reports failure. What \<^verbatim>\<open>randombytes_buf\<close> writes is
  an argument of the operation that calls it. \<^verbatim>\<open>crypto_available\<close> is the field that says whether the
  library was compiled in.
\<close>

record sodium =
  so_available :: bool
  so_encrypt :: aead
  so_decrypt :: aead
  so_xencrypt :: aead
  so_xdecrypt :: aead
  so_scalarmult :: "bytes \<Rightarrow> bytes \<Rightarrow> bytes option"
  so_scalarmult_base :: "bytes \<Rightarrow> bytes option"

text \<open>
  Documented behaviour of the library: the two ciphers invert, public keys and shared secrets have 32
  bytes, and both sides of a key agreement compute the same secret.
\<close>

definition sodium_laws :: "sodium \<Rightarrow> bool" where
  "sodium_laws lib \<longleftrightarrow>
     aead_laws (so_encrypt lib) (so_decrypt lib) \<and> aead_laws (so_xencrypt lib) (so_xdecrypt lib) \<and>
     (\<forall>a A. so_scalarmult_base lib a = Some A \<longrightarrow> length A = 32) \<and>
     (\<forall>a B s. so_scalarmult lib a B = Some s \<longrightarrow> length s = 32) \<and>
     (\<forall>a b A B. so_scalarmult_base lib a = Some A \<longrightarrow> so_scalarmult_base lib b = Some B \<longrightarrow>
        so_scalarmult lib a B = so_scalarmult lib b A)"

definition crypto_available :: "sodium \<Rightarrow> bool" where
  "crypto_available lib = so_available lib"

record KeyPair =
  kp_public :: bytes
  kp_private :: bytes

definition derive_public_key :: "sodium \<Rightarrow> bytes \<Rightarrow> CryptoError + bytes" where
  "derive_public_key lib private_key =
     (case so_scalarmult_base lib private_key of None \<Rightarrow> Inl ce_invalid_key_length | Some k \<Rightarrow> Inr k)"

definition generate_keypair :: "sodium \<Rightarrow> bytes \<Rightarrow> CryptoError + KeyPair" where
  "generate_keypair lib random =
     (case derive_public_key lib random of
        Inl e \<Rightarrow> Inl e
      | Inr k \<Rightarrow> Inr \<lparr>kp_public = k, kp_private = random\<rparr>)"

definition x25519 :: "sodium \<Rightarrow> bytes \<Rightarrow> bytes \<Rightarrow> CryptoError + bytes" where
  "x25519 lib private_key peer_public =
     (case so_scalarmult lib private_key peer_public of
        None \<Rightarrow> Inl ce_weak_public_key | Some s \<Rightarrow> Inr s)"

text \<open>The comparison loop of the build without the library; the other build calls \<^verbatim>\<open>sodium_memcmp\<close>,
  which compares for equality.\<close>

definition constant_time_difference :: "bytes \<Rightarrow> bytes \<Rightarrow> u8" where
  "constant_time_difference left right =
     fold (\<lambda>index difference. difference OR (left ! index XOR right ! index)) [0..<length left] 0"

definition constant_time_equal :: "bytes \<Rightarrow> bytes \<Rightarrow> bool" where
  "constant_time_equal left right =
     (if length left \<noteq> length right then False else constant_time_difference left right = 0)"

definition derive_traffic_key ::
    "bytes \<Rightarrow> string \<Rightarrow> KeyDirection \<Rightarrow> KeyGeneration \<Rightarrow> CryptoError + bytes" where
  "derive_traffic_key handshake_secret domain direction generation =
     (case make_key_label domain direction generation of
        Inl e \<Rightarrow> Inl ce_invalid_key_length
      | Inr label \<Rightarrow>
          (case hkdf_expand handshake_secret (label_view label) kKeyLength of
             None \<Rightarrow> Inl ce_invalid_key_length
           | Some key \<Rightarrow> Inr key))"

lemma constant_time_difference_0:
  assumes "length left = length right"
  shows "constant_time_difference left right = 0 \<longleftrightarrow> left = right"
proof -
  have or_0: "a OR b = 0 \<longleftrightarrow> a = 0 \<and> b = 0" for a b :: u8
    by (rule or_eq_0_iff)
  have xor_0: "a XOR b = 0 \<longleftrightarrow> a = b" for a b :: u8
  proof
    assume "a XOR b = 0"
    then have "(a XOR b) XOR b = b" by simp
    then show "a = b" by (simp only: xor.assoc xor_self_eq xor.right_neutral)
  qed simp
  have "fold (\<lambda>index d. d OR (left ! index XOR right ! index)) [0..<n] d = 0 \<longleftrightarrow>
      d = 0 \<and> (\<forall>i<n. left ! i = right ! i)" for n and d :: u8
  proof (induction n)
    case (Suc n)
    have step: "fold (\<lambda>index d. d OR (left ! index XOR right ! index)) [0..<Suc n] d =
        fold (\<lambda>index d. d OR (left ! index XOR right ! index)) [0..<n] d OR (left ! n XOR right ! n)" by simp
    show ?case unfolding step or_0 xor_0 Suc.IH by (auto simp: less_Suc_eq)
  qed simp
  then show ?thesis
    using assms unfolding constant_time_difference_def list_eq_iff_nth_eq by (simp only: simp_thms)
qed

lemma constant_time_equal_iff [simp]: "constant_time_equal left right \<longleftrightarrow> left = right"
  by (auto simp: constant_time_equal_def constant_time_difference_0)

lemma expand_loop_length:
  assumes "length out \<le> n"
  shows "length (expand_loop prk info n previous counter out) = n"
  using assms
proof (induction prk info n previous counter out rule: expand_loop.induct)
  case (1 prk info n previous counter out)
  then show ?case
    by (subst expand_loop.simps) (auto simp: Let_def length_expand_block kMaximumDigestSize_def)
qed

lemma derive_traffic_key_length:
  "derive_traffic_key secret domain direction generation = Inr key \<Longrightarrow> length key = 32"
  by (auto simp: derive_traffic_key_def hkdf_expand_def expand_loop_length kKeyLength_def
      split: sum.splits option.splits if_splits)

lemmas sodium_law_dests = sodium_laws_def aead_laws_def

subsection \<open>A concrete instance\<close>

text \<open>A library that satisfies the laws, on which the properties are evaluated.\<close>

definition pad_32 :: "bytes \<Rightarrow> bytes" where
  "pad_32 b = take 32 (b @ replicate 32 0)"

definition xor_sodium :: sodium where
  "xor_sodium = \<lparr>so_available = True,
     so_encrypt = (\<lambda>key nonce ad p. Some (p @ replicate 16 0)),
     so_decrypt = (\<lambda>key nonce ad c. if drop (length c - 16) c = replicate 16 0
                                     then Some (take (length c - 16) c) else None),
     so_xencrypt = (\<lambda>key nonce ad p. Some (p @ replicate 16 0)),
     so_xdecrypt = (\<lambda>key nonce ad c. if drop (length c - 16) c = replicate 16 0
                                      then Some (take (length c - 16) c) else None),
     so_scalarmult = (\<lambda>a B. Some (map2 (XOR) (pad_32 a) (pad_32 B))),
     so_scalarmult_base = (\<lambda>a. Some (pad_32 a))\<rparr>"

lemma length_pad_32 [simp]: "length (pad_32 b) = 32"
  by (simp add: pad_32_def)

lemma pad_32_idem [simp]: "length b = 32 \<Longrightarrow> pad_32 b = b"
  by (simp add: pad_32_def)

lemma xor_sodium_laws: "sodium_laws xor_sodium"
proof -
  have "map2 (XOR) a b = map2 (XOR) b a" if "length a = length b" for a b :: bytes
    using that by (auto simp: list_eq_iff_nth_eq xor.commute)
  then have "map2 (XOR) (pad_32 a) (pad_32 b) = map2 (XOR) (pad_32 b) (pad_32 a)" for a b
    by simp
  then show ?thesis by (simp add: sodium_laws_def aead_laws_def xor_sodium_def)
qed

end
