(* ===== verification/Noise.thy ===== *)
theory Noise
  imports Primitives
begin

text \<open>
  The Noise handshake IKpsk2 (src/noise.cpp): cipher state, symmetric state and the two messages. An
  operation that fails half way leaves the changes it made to the handshake, as the code does; only
  \<^verbatim>\<open>read_message_2\<close> restores them. The output span is passed in and returned. What \<^verbatim>\<open>generate_keypair\<close>
  draws is the argument \<open>random\<close>.
\<close>

definition kNoiseProtocolName :: string where
  "kNoiseProtocolName = ''Noise_IKpsk2_25519_ChaChaPoly_BLAKE2s''"

definition kNoiseHashLength :: nat where "kNoiseHashLength = 32"
definition kNoiseDhLength :: nat where "kNoiseDhLength = 32"
definition kNoiseMessage1Overhead :: nat where "kNoiseMessage1Overhead = 32 + 32 + 16 + 16"
definition kNoiseMessage2Overhead :: nat where "kNoiseMessage2Overhead = 32 + 16"

lemmas noise_consts = kNoiseHashLength_def kNoiseDhLength_def kNoiseMessage1Overhead_def
  kNoiseMessage2Overhead_def kAeadTagSize_def

datatype NoiseError = ne_unsupported_platform | ne_invalid_state | ne_decryption_failed
  | ne_message_too_short | ne_message_too_large | ne_buffer_too_small | ne_bad_public_key
  | ne_missing_static_key | ne_missing_remote_static

definition noise_error_message :: "NoiseError \<Rightarrow> string" where
  "noise_error_message e = (case e of
      ne_unsupported_platform \<Rightarrow> ''crypto backend not available''
    | ne_invalid_state \<Rightarrow> ''handshake step out of order''
    | ne_decryption_failed \<Rightarrow> ''handshake message failed authentication''
    | ne_message_too_short \<Rightarrow> ''handshake message too short''
    | ne_message_too_large \<Rightarrow> ''handshake message too large''
    | ne_buffer_too_small \<Rightarrow> ''output buffer too small''
    | ne_bad_public_key \<Rightarrow> ''invalid public key''
    | ne_missing_static_key \<Rightarrow> ''local static key not set''
    | ne_missing_remote_static \<Rightarrow> ''responder static key required by IK'')"

definition noise_hkdf :: "bytes \<Rightarrow> bytes \<Rightarrow> nat \<Rightarrow> bytes \<times> bytes \<times> bytes" where
  "noise_hkdf chaining_key input_key_material outputs =
     (let zero = replicate kNoiseHashLength 0;
          temp_key = hmac_blake2s chaining_key input_key_material;
          first = hmac_blake2s temp_key [1]
      in if outputs = 1 then (first, zero, zero)
      else let second = hmac_blake2s temp_key (first @ [2])
      in if outputs = 2 then (first, second, zero)
      else (first, second, hmac_blake2s temp_key (second @ [3])))"

subsection \<open>Cipher state\<close>

record CipherState =
  cs_key :: bytes
  cs_nonce :: u64
  cs_has_key :: bool

definition initialize_key :: "CipherState \<Rightarrow> bytes \<Rightarrow> CipherState" where
  "initialize_key c key =
     c\<lparr>cs_key := copy_to (cs_key c) 0 (take (min (length key) (length (cs_key c))) key),
       cs_nonce := 0, cs_has_key := True\<rparr>"

definition encrypt_with_ad :: "sodium \<Rightarrow> CipherState \<Rightarrow> bytes \<Rightarrow> bytes \<Rightarrow> bytes \<Rightarrow>
    (NoiseError + nat) \<times> bytes \<times> CipherState" where
  "encrypt_with_ad lib c associated_data plaintext out =
     (if \<not> cs_has_key c
      then if length out < length plaintext then (Inl ne_buffer_too_small, out, c)
           else (Inr (length plaintext), copy_to out 0 plaintext, c)
      else case seal_keys (so_encrypt lib) \<lparr>tk_key = cs_key c, tk_generation = 0\<rparr> (cs_nonce c)
                  associated_data plaintext out of
             (Inl e, out) \<Rightarrow>
               (Inl (if e = ce_buffer_too_small then ne_buffer_too_small else ne_unsupported_platform), out, c)
           | (Inr n, out) \<Rightarrow> (Inr n, out, c\<lparr>cs_nonce := cs_nonce c + 1\<rparr>))"

definition decrypt_with_ad :: "sodium \<Rightarrow> CipherState \<Rightarrow> bytes \<Rightarrow> bytes \<Rightarrow> bytes \<Rightarrow>
    (NoiseError + nat) \<times> bytes \<times> CipherState" where
  "decrypt_with_ad lib c associated_data ciphertext out =
     (if \<not> cs_has_key c
      then if length out < length ciphertext then (Inl ne_buffer_too_small, out, c)
           else (Inr (length ciphertext), copy_to out 0 ciphertext, c)
      else case open_keys (so_decrypt lib) \<lparr>tk_key = cs_key c, tk_generation = 0\<rparr> (cs_nonce c)
                  associated_data ciphertext out of
             (Inl e, out) \<Rightarrow>
               (Inl (if e = ce_buffer_too_small then ne_buffer_too_small else ne_decryption_failed), out, c)
           | (Inr n, out) \<Rightarrow> (Inr n, out, c\<lparr>cs_nonce := cs_nonce c + 1\<rparr>))"

subsection \<open>Symmetric state\<close>

record SymmetricState =
  sy_chaining_key :: bytes
  sy_hash :: bytes
  sy_cipher :: CipherState

definition new_symmetric :: SymmetricState where
  "new_symmetric = \<lparr>sy_chaining_key = replicate 32 0, sy_hash = replicate 32 0,
     sy_cipher = \<lparr>cs_key = replicate 32 0, cs_nonce = 0, cs_has_key = False\<rparr>\<rparr>"

definition initialize_symmetric :: "SymmetricState \<Rightarrow> string \<Rightarrow> SymmetricState" where
  "initialize_symmetric s protocol_name =
     (let name = map byte_of_char protocol_name;
          h = (if length name \<le> kNoiseHashLength
               then name @ replicate (kNoiseHashLength - length name) 0
               else blake2s_hash name [])
      in s\<lparr>sy_hash := h, sy_chaining_key := h\<rparr>)"

definition mix_hash :: "SymmetricState \<Rightarrow> bytes \<Rightarrow> SymmetricState" where
  "mix_hash s data =
     s\<lparr>sy_hash := fst (finish_digest (update (update (new_blake2s kMaximumDigestSize []) (sy_hash s)) data)
         kMaximumDigestSize)\<rparr>"

definition mix_key :: "SymmetricState \<Rightarrow> bytes \<Rightarrow> SymmetricState" where
  "mix_key s input_key_material =
     (case noise_hkdf (sy_chaining_key s) input_key_material 2 of (output1, output2, output3) \<Rightarrow>
        s\<lparr>sy_chaining_key := output1, sy_cipher := initialize_key (sy_cipher s) output2\<rparr>)"

definition mix_key_and_hash :: "SymmetricState \<Rightarrow> bytes \<Rightarrow> SymmetricState" where
  "mix_key_and_hash s input_key_material =
     (case noise_hkdf (sy_chaining_key s) input_key_material 3 of (output1, output2, output3) \<Rightarrow>
        let s = mix_hash (s\<lparr>sy_chaining_key := output1\<rparr>) output2
        in s\<lparr>sy_cipher := initialize_key (sy_cipher s) output3\<rparr>)"

definition encrypt_and_hash :: "sodium \<Rightarrow> SymmetricState \<Rightarrow> bytes \<Rightarrow> bytes \<Rightarrow>
    (NoiseError + nat) \<times> bytes \<times> SymmetricState" where
  "encrypt_and_hash lib s plaintext out =
     (case encrypt_with_ad lib (sy_cipher s) (sy_hash s) plaintext out of
        (Inl e, out, c) \<Rightarrow> (Inl e, out, s\<lparr>sy_cipher := c\<rparr>)
      | (Inr n, out, c) \<Rightarrow> (Inr n, out, mix_hash (s\<lparr>sy_cipher := c\<rparr>) (take n out)))"

definition decrypt_and_hash :: "sodium \<Rightarrow> SymmetricState \<Rightarrow> bytes \<Rightarrow> bytes \<Rightarrow>
    (NoiseError + nat) \<times> bytes \<times> SymmetricState" where
  "decrypt_and_hash lib s ciphertext out =
     (case decrypt_with_ad lib (sy_cipher s) (sy_hash s) ciphertext out of
        (Inl e, out, c) \<Rightarrow> (Inl e, out, s\<lparr>sy_cipher := c\<rparr>)
      | (Inr n, out, c) \<Rightarrow> (Inr n, out, mix_hash (s\<lparr>sy_cipher := c\<rparr>) ciphertext))"

definition split_keys :: "SymmetricState \<Rightarrow> bytes \<times> bytes" where
  "split_keys s =
     (case noise_hkdf (sy_chaining_key s) [] 2 of (output1, output2, output3) \<Rightarrow> (output1, output2))"

subsection \<open>Handshake\<close>

record NoiseHandshake =
  nh_role :: HandshakeRole
  nh_symmetric :: SymmetricState
  nh_local_static :: KeyPair
  nh_local_ephemeral :: KeyPair
  nh_remote_static :: bytes
  nh_remote_ephemeral :: bytes
  nh_preshared :: bytes
  nh_has_remote_static :: bool
  nh_sent_message_1 :: bool
  nh_read_message_1 :: bool
  nh_finished :: bool
  nh_has_fixed_ephemeral :: bool

record NoiseResult =
  nr_send :: bytes
  nr_receive :: bytes
  nr_handshake_hash :: bytes
  nr_remote_static :: bytes

definition create :: "sodium \<Rightarrow> HandshakeRole \<Rightarrow> KeyPair \<Rightarrow> bytes \<Rightarrow> bytes \<Rightarrow> bytes \<Rightarrow>
    NoiseError + NoiseHandshake" where
  "create lib role local_static remote_static preshared prologue =
     (if \<not> crypto_available lib then Inl ne_unsupported_platform
      else let symmetric = mix_hash (initialize_symmetric new_symmetric kNoiseProtocolName) prologue;
               handshake = \<lparr>nh_role = role, nh_symmetric = symmetric, nh_local_static = local_static,
                 nh_local_ephemeral = \<lparr>kp_public = replicate 32 0, kp_private = replicate 32 0\<rparr>,
                 nh_remote_static = replicate 32 0, nh_remote_ephemeral = replicate 32 0,
                 nh_preshared = preshared, nh_has_remote_static = False, nh_sent_message_1 = False,
                 nh_read_message_1 = False, nh_finished = False, nh_has_fixed_ephemeral = False\<rparr>
      in if role = role_initiator
      then if list_all (\<lambda>octet. octet = 0) remote_static then Inl ne_missing_remote_static
           else Inr (handshake\<lparr>nh_remote_static := remote_static, nh_has_remote_static := True,
                               nh_symmetric := mix_hash symmetric remote_static\<rparr>)
      else Inr (handshake\<lparr>nh_symmetric := mix_hash symmetric (kp_public local_static)\<rparr>))"

definition use_ephemeral :: "NoiseHandshake \<Rightarrow> KeyPair \<Rightarrow> NoiseHandshake" where
  "use_ephemeral h ephemeral = h\<lparr>nh_local_ephemeral := ephemeral, nh_has_fixed_ephemeral := True\<rparr>"

definition update_symmetric :: "NoiseHandshake \<Rightarrow> (SymmetricState \<Rightarrow> SymmetricState) \<Rightarrow> NoiseHandshake" where
  "update_symmetric h f = h\<lparr>nh_symmetric := f (nh_symmetric h)\<rparr>"

text \<open>The ephemeral key of a message: drawn unless one was fixed.\<close>

definition draw_ephemeral :: "sodium \<Rightarrow> bytes \<Rightarrow> NoiseHandshake \<Rightarrow> NoiseError + NoiseHandshake" where
  "draw_ephemeral lib random h =
     (if nh_has_fixed_ephemeral h then Inr h
      else case generate_keypair lib random of
             Inl e \<Rightarrow> Inl ne_unsupported_platform
           | Inr pair \<Rightarrow> Inr (h\<lparr>nh_local_ephemeral := pair\<rparr>))"

text \<open>A block of the code that mixes a shared secret, and one that encrypts or decrypts at an offset.\<close>

definition mix_shared :: "sodium \<Rightarrow> bytes \<Rightarrow> bytes \<Rightarrow> NoiseHandshake \<Rightarrow> NoiseError + NoiseHandshake" where
  "mix_shared lib private_key public_key h =
     (case x25519 lib private_key public_key of
        Inl e \<Rightarrow> Inl ne_bad_public_key
      | Inr shared \<Rightarrow> Inr (update_symmetric h (\<lambda>s. mix_key s shared)))"

definition encrypt_at :: "sodium \<Rightarrow> NoiseHandshake \<Rightarrow> bytes \<Rightarrow> bytes \<Rightarrow> nat \<Rightarrow>
    (NoiseError + nat) \<times> bytes \<times> NoiseHandshake" where
  "encrypt_at lib h plaintext out offset =
     (case encrypt_and_hash lib (nh_symmetric h) plaintext (drop offset out) of
        (res, tail, s) \<Rightarrow> (res, take offset out @ tail, h\<lparr>nh_symmetric := s\<rparr>))"

definition write_message_1 :: "sodium \<Rightarrow> bytes \<Rightarrow> NoiseHandshake \<Rightarrow> bytes \<Rightarrow> bytes \<Rightarrow>
    (NoiseError + nat) \<times> bytes \<times> NoiseHandshake" where
  "write_message_1 lib random h payload out =
     (if nh_role h \<noteq> role_initiator \<or> nh_sent_message_1 h \<or> nh_finished h
      then (Inl ne_invalid_state, out, h)
      else if \<not> nh_has_remote_static h then (Inl ne_missing_remote_static, out, h)
      else if length out < kNoiseMessage1Overhead + length payload then (Inl ne_buffer_too_small, out, h)
      else case draw_ephemeral lib random h of
        Inl e \<Rightarrow> (Inl e, out, h)
      | Inr h \<Rightarrow>
          let e = kp_public (nh_local_ephemeral h);
              out = copy_to out 0 e;
              h = update_symmetric h (\<lambda>s. mix_key (mix_hash s e) e)
          in case mix_shared lib (kp_private (nh_local_ephemeral h)) (nh_remote_static h) h of
            Inl err \<Rightarrow> (Inl err, out, h)
          | Inr h \<Rightarrow>
              (case encrypt_at lib h (kp_public (nh_local_static h)) out kNoiseDhLength of
                 (Inl err, out, h) \<Rightarrow> (Inl err, out, h)
               | (Inr n, out, h) \<Rightarrow>
                   (case mix_shared lib (kp_private (nh_local_static h)) (nh_remote_static h) h of
                      Inl err \<Rightarrow> (Inl err, out, h)
                    | Inr h \<Rightarrow>
                        (case encrypt_at lib h payload out (kNoiseDhLength + n) of
                           (Inl err, out, h) \<Rightarrow> (Inl err, out, h)
                         | (Inr m, out, h) \<Rightarrow>
                             (Inr (kNoiseDhLength + n + m), out, h\<lparr>nh_sent_message_1 := True\<rparr>)))))"

definition read_message_1 :: "sodium \<Rightarrow> NoiseHandshake \<Rightarrow> bytes \<Rightarrow> bytes \<Rightarrow>
    (NoiseError + nat) \<times> bytes \<times> NoiseHandshake" where
  "read_message_1 lib h message payload_out =
     (if nh_role h \<noteq> role_responder \<or> nh_read_message_1 h \<or> nh_finished h
      then (Inl ne_invalid_state, payload_out, h)
      else if length message < kNoiseMessage1Overhead then (Inl ne_message_too_short, payload_out, h)
      else let e = take kNoiseDhLength message;
               h = update_symmetric (h\<lparr>nh_remote_ephemeral := e\<rparr>) (\<lambda>s. mix_key (mix_hash s e) e);
               encrypted_static_size = kNoiseDhLength + kAeadTagSize
      in case mix_shared lib (kp_private (nh_local_static h)) e h of
        Inl err \<Rightarrow> (Inl err, payload_out, h)
      | Inr h \<Rightarrow>
          (case decrypt_and_hash lib (nh_symmetric h)
                  (take encrypted_static_size (drop kNoiseDhLength message)) (replicate 32 0) of
             (Inl err, static, s) \<Rightarrow> (Inl err, payload_out, h\<lparr>nh_symmetric := s\<rparr>)
           | (Inr n, static, s) \<Rightarrow>
               let h = h\<lparr>nh_symmetric := s, nh_remote_static := static, nh_has_remote_static := True\<rparr>
               in case mix_shared lib (kp_private (nh_local_static h)) static h of
                 Inl err \<Rightarrow> (Inl err, payload_out, h)
               | Inr h \<Rightarrow>
                   (let remaining = drop (kNoiseDhLength + encrypted_static_size) message
                    in if length remaining < kAeadTagSize then (Inl ne_message_too_short, payload_out, h)
                    else if length payload_out < length remaining - kAeadTagSize
                    then (Inl ne_buffer_too_small, payload_out, h)
                    else case decrypt_and_hash lib (nh_symmetric h) remaining payload_out of
                      (Inl err, payload_out, s) \<Rightarrow> (Inl err, payload_out, h\<lparr>nh_symmetric := s\<rparr>)
                    | (Inr n, payload_out, s) \<Rightarrow>
                        (Inr n, payload_out, h\<lparr>nh_symmetric := s, nh_read_message_1 := True\<rparr>))))"

definition write_message_2 :: "sodium \<Rightarrow> bytes \<Rightarrow> NoiseHandshake \<Rightarrow> bytes \<Rightarrow> bytes \<Rightarrow>
    (NoiseError + nat) \<times> bytes \<times> NoiseHandshake" where
  "write_message_2 lib random h payload out =
     (if nh_role h \<noteq> role_responder \<or> \<not> nh_read_message_1 h \<or> nh_finished h
      then (Inl ne_invalid_state, out, h)
      else if length out < kNoiseMessage2Overhead + length payload then (Inl ne_buffer_too_small, out, h)
      else case draw_ephemeral lib random h of
        Inl e \<Rightarrow> (Inl e, out, h)
      | Inr h \<Rightarrow>
          let e = kp_public (nh_local_ephemeral h);
              out = copy_to out 0 e;
              h = update_symmetric h (\<lambda>s. mix_key (mix_hash s e) e)
          in case mix_shared lib (kp_private (nh_local_ephemeral h)) (nh_remote_ephemeral h) h of
            Inl err \<Rightarrow> (Inl err, out, h)
          | Inr h \<Rightarrow>
              (case mix_shared lib (kp_private (nh_local_ephemeral h)) (nh_remote_static h) h of
                 Inl err \<Rightarrow> (Inl err, out, h)
               | Inr h \<Rightarrow>
                   let h = update_symmetric h (\<lambda>s. mix_key_and_hash s (nh_preshared h))
                   in case encrypt_at lib h payload out kNoiseDhLength of
                     (Inl err, out, h) \<Rightarrow> (Inl err, out, h)
                   | (Inr m, out, h) \<Rightarrow> (Inr (kNoiseDhLength + m), out, h\<lparr>nh_finished := True\<rparr>)))"

definition read_message_2_unchecked :: "sodium \<Rightarrow> NoiseHandshake \<Rightarrow> bytes \<Rightarrow> bytes \<Rightarrow>
    (NoiseError + nat) \<times> bytes \<times> NoiseHandshake" where
  "read_message_2_unchecked lib h message payload_out =
     (let e = take kNoiseDhLength message;
          h = update_symmetric (h\<lparr>nh_remote_ephemeral := e\<rparr>) (\<lambda>s. mix_key (mix_hash s e) e)
      in case mix_shared lib (kp_private (nh_local_ephemeral h)) e h of
        Inl err \<Rightarrow> (Inl err, payload_out, h)
      | Inr h \<Rightarrow>
          (case mix_shared lib (kp_private (nh_local_static h)) e h of
             Inl err \<Rightarrow> (Inl err, payload_out, h)
           | Inr h \<Rightarrow>
               (let h = update_symmetric h (\<lambda>s. mix_key_and_hash s (nh_preshared h));
                    remaining = drop kNoiseDhLength message
                in if length remaining < kAeadTagSize then (Inl ne_message_too_short, payload_out, h)
                else if length payload_out < length remaining - kAeadTagSize
                then (Inl ne_buffer_too_small, payload_out, h)
                else case decrypt_and_hash lib (nh_symmetric h) remaining payload_out of
                  (Inl err, payload_out, s) \<Rightarrow> (Inl err, payload_out, h\<lparr>nh_symmetric := s\<rparr>)
                | (Inr n, payload_out, s) \<Rightarrow>
                    (Inr n, payload_out, h\<lparr>nh_symmetric := s, nh_finished := True\<rparr>))))"

definition read_message_2 :: "sodium \<Rightarrow> NoiseHandshake \<Rightarrow> bytes \<Rightarrow> bytes \<Rightarrow>
    (NoiseError + nat) \<times> bytes \<times> NoiseHandshake" where
  "read_message_2 lib h message payload_out =
     (if nh_role h \<noteq> role_initiator \<or> \<not> nh_sent_message_1 h \<or> nh_finished h
      then (Inl ne_invalid_state, payload_out, h)
      else if length message < kNoiseMessage2Overhead then (Inl ne_message_too_short, payload_out, h)
      else case read_message_2_unchecked lib h message payload_out of
        (Inl e, payload_out, h') \<Rightarrow>
          (Inl e, payload_out,
           h'\<lparr>nh_symmetric := nh_symmetric h, nh_remote_ephemeral := nh_remote_ephemeral h\<rparr>)
      | (Inr n, payload_out, h') \<Rightarrow> (Inr n, payload_out, h'))"

definition noise_result :: "NoiseHandshake \<Rightarrow> NoiseError + NoiseResult" where
  "noise_result h =
     (if \<not> nh_finished h then Inl ne_invalid_state
      else let (first, second) = split_keys (nh_symmetric h)
      in Inr \<lparr>nr_send = (if nh_role h = role_initiator then first else second),
              nr_receive = (if nh_role h = role_initiator then second else first),
              nr_handshake_hash = sy_hash (nh_symmetric h), nr_remote_static = nh_remote_static h\<rparr>)"

subsection \<open>Both sides compute the same transcript\<close>

lemma mix_has_key [simp]:
  "cs_has_key (sy_cipher (mix_key s k))" "cs_has_key (sy_cipher (mix_key_and_hash s k))"
  "cs_has_key (sy_cipher (mix_hash s d)) = cs_has_key (sy_cipher s)"
  by (simp_all add: mix_key_def mix_key_and_hash_def mix_hash_def initialize_key_def Let_def
      split: prod.splits)

lemma update_symmetric_simps [simp]:
  "nh_symmetric (update_symmetric h f) = f (nh_symmetric h)"
  "nh_role (update_symmetric h f) = nh_role h"
  "nh_local_static (update_symmetric h f) = nh_local_static h"
  "nh_local_ephemeral (update_symmetric h f) = nh_local_ephemeral h"
  "nh_remote_static (update_symmetric h f) = nh_remote_static h"
  "nh_remote_ephemeral (update_symmetric h f) = nh_remote_ephemeral h"
  "nh_preshared (update_symmetric h f) = nh_preshared h"
  "nh_has_remote_static (update_symmetric h f) = nh_has_remote_static h"
  "nh_sent_message_1 (update_symmetric h f) = nh_sent_message_1 h"
  "nh_read_message_1 (update_symmetric h f) = nh_read_message_1 h"
  "nh_finished (update_symmetric h f) = nh_finished h"
  "nh_has_fixed_ephemeral (update_symmetric h f) = nh_has_fixed_ephemeral h"
  by (simp_all add: update_symmetric_def)

lemma decrypt_encrypt_and_hash:
  assumes "sodium_laws lib" "cs_has_key (sy_cipher s)"
    and "encrypt_and_hash lib s p out = (Inr n, out', s')" "length p \<le> length buf"
  shows "n = length p + 16 \<and> n \<le> length out \<and> length out' = length out \<and>
    cs_has_key (sy_cipher s') \<and>
    decrypt_and_hash lib s (take n out') buf = (Inr (length p), copy_to buf 0 p, s')"
proof -
  let ?k = "\<lparr>tk_key = cs_key (sy_cipher s), tk_generation = 0\<rparr>"
  let ?s = "s\<lparr>sy_cipher := (sy_cipher s)\<lparr>cs_nonce := cs_nonce (sy_cipher s) + 1\<rparr>\<rparr>"
  have seal: "seal_keys (so_encrypt lib) ?k (cs_nonce (sy_cipher s)) (sy_hash s) p out = (Inr n, out')"
    and s': "s' = mix_hash ?s (take n out')"
    using assms(2,3) by (auto simp: encrypt_and_hash_def encrypt_with_ad_def
        split: prod.splits sum.splits if_splits)
  have laws: "aead_laws (so_encrypt lib) (so_decrypt lib)" using assms(1) by (simp add: sodium_laws_def)
  note o = open_seal_keys [OF laws refl seal assms(4)]
  show ?thesis using o assms(2) s'
    by (simp add: decrypt_and_hash_def decrypt_with_ad_def)
qed

lemma mix_shared_Inr:
  "mix_shared lib a B h = Inr h' \<longleftrightarrow>
     (\<exists>k. so_scalarmult lib a B = Some k \<and> h' = update_symmetric h (\<lambda>s. mix_key s k))"
  by (auto simp: mix_shared_def x25519_def split: option.splits)

lemma draw_ephemeral_Inr:
  assumes "draw_ephemeral lib random h = Inr h'" "\<not> nh_has_fixed_ephemeral h"
  obtains pair where "h' = h\<lparr>nh_local_ephemeral := pair\<rparr>"
    "so_scalarmult_base lib (kp_private pair) = Some (kp_public pair)"
  using assms by (auto simp: draw_ephemeral_def generate_keypair_def derive_public_key_def
      split: sum.splits option.splits)

lemma encrypt_at_Inr:
  assumes "encrypt_at lib h p out k = (Inr n, out', h')"
  obtains rest s' where "encrypt_and_hash lib (nh_symmetric h) p (drop k out) = (Inr n, rest, s')"
    "out' = take k out @ rest" "h' = h\<lparr>nh_symmetric := s'\<rparr>"
  using assms by (auto simp: encrypt_at_def split: prod.splits)

lemma agreement:
  assumes "sodium_laws lib" "so_scalarmult_base lib a = Some A" "so_scalarmult_base lib b = Some B"
  shows "so_scalarmult lib a B = so_scalarmult lib b A" "length A = 32" "length B = 32"
  using assms unfolding sodium_laws_def by blast+

lemma write_message_1_Inr:
  assumes "write_message_1 lib random i p out = (Inr n, m, i')" "\<not> nh_has_fixed_ephemeral i"
  obtains pair e k1 s3 k2 s5 out0 out1 n1 n2 rest1 rest2 where
    "96 + length p \<le> length out"
    "so_scalarmult_base lib (kp_private pair) = Some (kp_public pair)" "e = kp_public pair"
    "out0 = copy_to out 0 e"
    "so_scalarmult lib (kp_private pair) (nh_remote_static i) = Some k1"
    "encrypt_and_hash lib (mix_key (mix_key (mix_hash (nh_symmetric i) e) e) k1)
       (kp_public (nh_local_static i)) (drop 32 out0) = (Inr n1, rest1, s3)"
    "out1 = take 32 out0 @ rest1"
    "so_scalarmult lib (kp_private (nh_local_static i)) (nh_remote_static i) = Some k2"
    "encrypt_and_hash lib (mix_key s3 k2) p (drop (32 + n1) out1) = (Inr n2, rest2, s5)"
    "m = take (32 + n1) out1 @ rest2" "n = 32 + n1 + n2"
    "i' = i\<lparr>nh_local_ephemeral := pair, nh_symmetric := s5, nh_sent_message_1 := True\<rparr>"
proof -
  note w = assms(1) [unfolded write_message_1_def Let_def noise_consts]
  obtain h0 where g: "nh_role i = role_initiator" "\<not> nh_sent_message_1 i" "\<not> nh_finished i"
    "nh_has_remote_static i" "96 + length p \<le> length out" and "draw_ephemeral lib random i = Inr h0"
    using w by (auto split: if_split_asm sum.split_asm)
  then obtain pair where pair: "so_scalarmult_base lib (kp_private pair) = Some (kp_public pair)"
    and d: "draw_ephemeral lib random i = Inr (i\<lparr>nh_local_ephemeral := pair\<rparr>)"
    using draw_ephemeral_Inr [OF _ assms(2)] by metis
  let ?e = "kp_public pair"
  let ?h1 = "update_symmetric (i\<lparr>nh_local_ephemeral := pair\<rparr>) (\<lambda>s. mix_key (mix_hash s ?e) ?e)"
  obtain k1 where k1: "so_scalarmult lib (kp_private pair) (nh_remote_static i) = Some k1"
    using w g d by (auto simp: mix_shared_Inr split: if_split_asm sum.split_asm)
  let ?out0 = "copy_to out 0 ?e"
  have h2: "mix_shared lib (kp_private (nh_local_ephemeral ?h1)) (nh_remote_static ?h1) ?h1 =
      Inr (update_symmetric ?h1 (\<lambda>s. mix_key s k1))"
    using k1 by (simp add: mix_shared_Inr)
  let ?h2 = "update_symmetric ?h1 (\<lambda>s. mix_key s k1)"
  obtain n1 out1 h3 where "encrypt_at lib ?h2 (kp_public (nh_local_static i)) ?out0 32 = (Inr n1, out1, h3)"
    using w g d h2 by (auto split: if_split_asm sum.split_asm prod.split_asm)
  then obtain rest1 s3 where e3: "encrypt_and_hash lib (nh_symmetric ?h2) (kp_public (nh_local_static i))
      (drop 32 ?out0) = (Inr n1, rest1, s3)" and h3:
    "encrypt_at lib ?h2 (kp_public (nh_local_static i)) ?out0 32 =
       (Inr n1, take 32 ?out0 @ rest1, ?h2\<lparr>nh_symmetric := s3\<rparr>)"
    by (metis encrypt_at_Inr)
  let ?out1 = "take 32 ?out0 @ rest1" and ?h3 = "?h2\<lparr>nh_symmetric := s3\<rparr>"
  obtain k2 where k2: "so_scalarmult lib (kp_private (nh_local_static i)) (nh_remote_static i) = Some k2"
    using w g d h2 h3 by (auto simp: mix_shared_Inr split: if_split_asm sum.split_asm)
  then have h4: "mix_shared lib (kp_private (nh_local_static ?h3)) (nh_remote_static ?h3) ?h3 =
      Inr (update_symmetric ?h3 (\<lambda>s. mix_key s k2))"
    by (simp add: mix_shared_Inr)
  obtain n2 h5 where h5: "encrypt_at lib (update_symmetric ?h3 (\<lambda>s. mix_key s k2)) p ?out1 (32 + n1) =
      (Inr n2, m, h5)" "n = 32 + n1 + n2" "i' = h5\<lparr>nh_sent_message_1 := True\<rparr>"
    using w g d h2 h3 h4 by (auto split: if_split_asm sum.split_asm prod.split_asm)
  from h5(1) obtain rest2 s5 where "encrypt_and_hash lib (mix_key s3 k2) p (drop (32 + n1) ?out1) =
      (Inr n2, rest2, s5)" "m = take (32 + n1) ?out1 @ rest2"
    "h5 = (update_symmetric ?h3 (\<lambda>s. mix_key s k2))\<lparr>nh_symmetric := s5\<rparr>"
    by (rule encrypt_at_Inr) simp
  then show thesis
    using that [OF g(5) pair refl refl k1 _ refl k2 _ _ h5(2)] e3 h5(3) by (simp add: update_symmetric_def)
qed

lemma message_1_received:
  assumes laws: "sodium_laws lib"
    and w: "write_message_1 lib random i p out = (Inr n, m, i')" "\<not> nh_has_fixed_ephemeral i"
    and r: "nh_role r = role_responder" "\<not> nh_read_message_1 r" "\<not> nh_finished r"
      "nh_symmetric r = nh_symmetric i"
    and keys: "so_scalarmult_base lib (kp_private (nh_local_static r)) = Some (nh_remote_static i)"
      "so_scalarmult_base lib (kp_private (nh_local_static i)) = Some (kp_public (nh_local_static i))"
    and buf: "length p \<le> length buf"
  obtains pair s where "n = 96 + length p" "length m = length out"
    "so_scalarmult_base lib (kp_private pair) = Some (kp_public pair)"
    "i' = i\<lparr>nh_local_ephemeral := pair, nh_symmetric := s, nh_sent_message_1 := True\<rparr>"
    "read_message_1 lib r (take n m) buf = (Inr (length p), copy_to buf 0 p,
       r\<lparr>nh_remote_ephemeral := kp_public pair, nh_symmetric := s,
         nh_remote_static := kp_public (nh_local_static i), nh_has_remote_static := True,
         nh_read_message_1 := True\<rparr>)"
proof -
  from w obtain pair e k1 s3 k2 s5 out0 out1 n1 n2 rest1 rest2 where
    out: "96 + length p \<le> length out" and
    pair: "so_scalarmult_base lib (kp_private pair) = Some (kp_public pair)" and e: "e = kp_public pair" and
    out0: "out0 = copy_to out 0 e" and
    k1: "so_scalarmult lib (kp_private pair) (nh_remote_static i) = Some k1" and
    e1: "encrypt_and_hash lib (mix_key (mix_key (mix_hash (nh_symmetric i) e) e) k1)
       (kp_public (nh_local_static i)) (drop 32 out0) = (Inr n1, rest1, s3)" and
    out1: "out1 = take 32 out0 @ rest1" and
    k2: "so_scalarmult lib (kp_private (nh_local_static i)) (nh_remote_static i) = Some k2" and
    e2: "encrypt_and_hash lib (mix_key s3 k2) p (drop (32 + n1) out1) = (Inr n2, rest2, s5)" and
    m: "m = take (32 + n1) out1 @ rest2" and n: "n = 32 + n1 + n2" and
    i': "i' = i\<lparr>nh_local_ephemeral := pair, nh_symmetric := s5, nh_sent_message_1 := True\<rparr>"
    by (rule write_message_1_Inr)
  have len: "length e = 32" "length (kp_public (nh_local_static i)) = 32"
    using agreement [OF laws pair keys(2)] e by simp_all
  have d1: "n1 = 48" "length rest1 = length (drop 32 out0)"
    "decrypt_and_hash lib (mix_key (mix_key (mix_hash (nh_symmetric i) e) e) k1) (take n1 rest1)
       (replicate 32 0) = (Inr 32, kp_public (nh_local_static i), s3)"
    using decrypt_encrypt_and_hash [OF laws _ e1, of "replicate 32 0"] len by (auto simp: copy_to_def)
  have d2: "n2 = length p + 16" "length rest2 = length (drop (32 + n1) out1)"
    "decrypt_and_hash lib (mix_key s3 k2) (take n2 rest2) buf = (Inr (length p), copy_to buf 0 p, s5)"
    using decrypt_encrypt_and_hash [OF laws _ e2 buf] by auto
  have lens: "length out0 = length out" "length out1 = length out" "length m = length out"
    using out out0 out1 m d1 d2 len by auto
  have parts: "take 32 (take n m) = e" "take 48 (drop 32 (take n m)) = take n1 rest1"
    "drop 80 (take n m) = take n2 rest2" "length (take n m) = 96 + length p"
    "length (take n2 rest2) = length p + 16"
    using out d1 d2 lens len unfolding m out1 out0 n by (simp_all add: copy_to_0 add.commute)
  have agree: "so_scalarmult lib (kp_private (nh_local_static r)) e = Some k1"
    "so_scalarmult lib (kp_private (nh_local_static r)) (kp_public (nh_local_static i)) = Some k2"
    using agreement(1) [OF laws keys(1) pair] agreement(1) [OF laws keys(1) keys(2)] k1 k2 e by simp_all
  have "read_message_1 lib r (take n m) buf = (Inr (length p), copy_to buf 0 p,
       r\<lparr>nh_remote_ephemeral := kp_public pair, nh_symmetric := s5,
         nh_remote_static := kp_public (nh_local_static i), nh_has_remote_static := True,
         nh_read_message_1 := True\<rparr>)"
    using r parts d1 d2 agree buf
    by (simp add: read_message_1_def noise_consts Let_def mix_shared_def x25519_def e [symmetric]
        update_symmetric_def)
  moreover have "n = 96 + length p" using n d1(1) d2(1) by simp
  ultimately show thesis using that lens(3) pair i' by blast
qed

lemma write_message_2_Inr:
  assumes "write_message_2 lib random r p out = (Inr n, m, r')" "\<not> nh_has_fixed_ephemeral r"
  obtains pair e k1 k2 s out0 n2 rest where
    "48 + length p \<le> length out"
    "so_scalarmult_base lib (kp_private pair) = Some (kp_public pair)" "e = kp_public pair"
    "out0 = copy_to out 0 e"
    "so_scalarmult lib (kp_private pair) (nh_remote_ephemeral r) = Some k1"
    "so_scalarmult lib (kp_private pair) (nh_remote_static r) = Some k2"
    "encrypt_and_hash lib (mix_key_and_hash (mix_key (mix_key (mix_key (mix_hash (nh_symmetric r) e) e) k1) k2)
       (nh_preshared r)) p (drop 32 out0) = (Inr n2, rest, s)"
    "m = take 32 out0 @ rest" "n = 32 + n2"
    "r' = r\<lparr>nh_local_ephemeral := pair, nh_symmetric := s, nh_finished := True\<rparr>"
proof -
  note w = assms(1) [unfolded write_message_2_def Let_def noise_consts]
  obtain h0 where g: "nh_role r = role_responder" "nh_read_message_1 r" "\<not> nh_finished r"
    "48 + length p \<le> length out" and "draw_ephemeral lib random r = Inr h0"
    using w by (auto split: if_split_asm sum.split_asm)
  then obtain pair where pair: "so_scalarmult_base lib (kp_private pair) = Some (kp_public pair)"
    and d: "draw_ephemeral lib random r = Inr (r\<lparr>nh_local_ephemeral := pair\<rparr>)"
    using draw_ephemeral_Inr [OF _ assms(2)] by metis
  let ?e = "kp_public pair"
  let ?h1 = "update_symmetric (r\<lparr>nh_local_ephemeral := pair\<rparr>) (\<lambda>s. mix_key (mix_hash s ?e) ?e)"
  obtain k1 where k1: "so_scalarmult lib (kp_private pair) (nh_remote_ephemeral r) = Some k1"
    using w g d by (auto simp: mix_shared_Inr split: if_split_asm sum.split_asm)
  let ?out0 = "copy_to out 0 ?e" and ?h2 = "update_symmetric ?h1 (\<lambda>s. mix_key s k1)"
  have h2: "mix_shared lib (kp_private (nh_local_ephemeral ?h1)) (nh_remote_ephemeral ?h1) ?h1 = Inr ?h2"
    using k1 by (simp add: mix_shared_Inr)
  obtain k2 where k2: "so_scalarmult lib (kp_private pair) (nh_remote_static r) = Some k2"
    using w g d h2 by (auto simp: mix_shared_Inr split: if_split_asm sum.split_asm)
  let ?h3 = "update_symmetric ?h2 (\<lambda>s. mix_key s k2)"
  have h3: "mix_shared lib (kp_private (nh_local_ephemeral ?h2)) (nh_remote_static ?h2) ?h2 = Inr ?h3"
    using k2 by (simp add: mix_shared_Inr)
  let ?h4 = "update_symmetric ?h3 (\<lambda>s. mix_key_and_hash s (nh_preshared r))"
  obtain n2 h5 where h5: "encrypt_at lib ?h4 p ?out0 32 = (Inr n2, m, h5)" "n = 32 + n2"
    "r' = h5\<lparr>nh_finished := True\<rparr>"
    using w g d h2 h3 by (auto split: if_split_asm sum.split_asm prod.split_asm)
  from h5(1) obtain rest s where "encrypt_and_hash lib (nh_symmetric ?h4) p (drop 32 ?out0) = (Inr n2, rest, s)"
    "m = take 32 ?out0 @ rest" "h5 = ?h4\<lparr>nh_symmetric := s\<rparr>"
    by (rule encrypt_at_Inr)
  then show thesis
    using that [OF g(4) pair refl refl k1 k2 _ _ h5(2)] h5(3) by (simp add: update_symmetric_def)
qed

lemma message_2_received:
  assumes laws: "sodium_laws lib"
    and w: "write_message_2 lib random r p out = (Inr n, m, r')" "\<not> nh_has_fixed_ephemeral r"
    and i: "nh_role i = role_initiator" "nh_sent_message_1 i" "\<not> nh_finished i"
      "nh_symmetric i = nh_symmetric r" "nh_preshared i = nh_preshared r"
    and keys: "so_scalarmult_base lib (kp_private (nh_local_ephemeral i)) = Some (nh_remote_ephemeral r)"
      "so_scalarmult_base lib (kp_private (nh_local_static i)) = Some (nh_remote_static r)"
    and buf: "length p \<le> length buf"
  obtains pair s where "n = 48 + length p" "length m = length out"
    "r' = r\<lparr>nh_local_ephemeral := pair, nh_symmetric := s, nh_finished := True\<rparr>"
    "read_message_2 lib i (take n m) buf = (Inr (length p), copy_to buf 0 p,
       i\<lparr>nh_remote_ephemeral := kp_public pair, nh_symmetric := s, nh_finished := True\<rparr>)"
proof -
  from w obtain pair e k1 k2 s out0 n2 rest where
    out: "48 + length p \<le> length out" and
    pair: "so_scalarmult_base lib (kp_private pair) = Some (kp_public pair)" and e: "e = kp_public pair" and
    out0: "out0 = copy_to out 0 e" and
    k1: "so_scalarmult lib (kp_private pair) (nh_remote_ephemeral r) = Some k1" and
    k2: "so_scalarmult lib (kp_private pair) (nh_remote_static r) = Some k2" and
    e2: "encrypt_and_hash lib (mix_key_and_hash (mix_key (mix_key (mix_key (mix_hash (nh_symmetric r) e) e) k1) k2)
       (nh_preshared r)) p (drop 32 out0) = (Inr n2, rest, s)" and
    m: "m = take 32 out0 @ rest" and n: "n = 32 + n2" and
    r': "r' = r\<lparr>nh_local_ephemeral := pair, nh_symmetric := s, nh_finished := True\<rparr>"
    by (rule write_message_2_Inr)
  have len: "length e = 32" using agreement [OF laws pair pair] e by simp
  have d: "n2 = length p + 16" "length rest = length (drop 32 out0)"
    "decrypt_and_hash lib (mix_key_and_hash (mix_key (mix_key (mix_key (mix_hash (nh_symmetric r) e) e) k1) k2)
       (nh_preshared r)) (take n2 rest) buf = (Inr (length p), copy_to buf 0 p, s)"
    using decrypt_encrypt_and_hash [OF laws _ e2 buf] by auto
  have parts: "take 32 (take n m) = e" "drop 32 (take n m) = take n2 rest" "length (take n m) = 48 + length p"
    "length (take n2 rest) = length p + 16"
    using out d len unfolding m out0 n by (simp_all add: copy_to_0 add.commute)
  have agree: "so_scalarmult lib (kp_private (nh_local_ephemeral i)) e = Some k1"
    "so_scalarmult lib (kp_private (nh_local_static i)) e = Some k2"
    using agreement(1) [OF laws keys(1) pair] agreement(1) [OF laws keys(2) pair] k1 k2 e by simp_all
  have "read_message_2 lib i (take n m) buf = (Inr (length p), copy_to buf 0 p,
       i\<lparr>nh_remote_ephemeral := kp_public pair, nh_symmetric := s, nh_finished := True\<rparr>)"
    using i parts d agree buf
    by (simp add: read_message_2_def read_message_2_unchecked_def noise_consts Let_def mix_shared_def
        x25519_def e [symmetric] update_symmetric_def)
  moreover have "n = 48 + length p" "length m = length out"
    using n d m out out0 len by (simp_all add: copy_to_0)
  ultimately show thesis using that r' by blast
qed

lemma create_initiator:
  assumes "create lib role_initiator pair remote psk prologue = Inr h"
  shows "nh_role h = role_initiator" "\<not> nh_finished h" "\<not> nh_has_fixed_ephemeral h"
    "nh_local_static h = pair" "nh_remote_static h = remote" "nh_preshared h = psk"
    "nh_symmetric h = mix_hash (mix_hash (initialize_symmetric new_symmetric kNoiseProtocolName) prologue) remote"
  using assms by (auto simp: create_def Let_def split: if_split_asm)

lemma create_responder:
  assumes "create lib role_responder pair remote psk prologue = Inr h"
  shows "nh_role h = role_responder" "\<not> nh_finished h" "\<not> nh_has_fixed_ephemeral h" "\<not> nh_read_message_1 h"
    "nh_local_static h = pair" "nh_preshared h = psk"
    "nh_symmetric h =
       mix_hash (mix_hash (initialize_symmetric new_symmetric kNoiseProtocolName) prologue) (kp_public pair)"
  using assms by (auto simp: create_def Let_def split: if_split_asm)

text \<open>
  C2: the two sides of a handshake agree. If the initiator knows the responder's public key and both
  hold the same preshared key and prologue, the responder decrypts message 1 to the payload that was
  sent and learns the initiator's static key, the initiator decrypts message 2 to the payload that was
  sent, and both finish: the send key of each is the receive key of the other, and their transcript
  hashes are equal.
\<close>

theorem noise_handshake_agrees:
  assumes laws: "sodium_laws lib"
    and keys: "so_scalarmult_base lib (kp_private si) = Some (kp_public si)"
      "so_scalarmult_base lib (kp_private sr) = Some (kp_public sr)"
    and created: "create lib role_initiator si (kp_public sr) psk prologue = Inr i"
      "create lib role_responder sr unused psk prologue = Inr r"
    and w1: "write_message_1 lib random1 i p1 out1 = (Inr n1, m1, i1)" "length p1 \<le> length buf1"
    and r1: "read_message_1 lib r (take n1 m1) buf1 = (res1, got1, r1)"
    and w2: "write_message_2 lib random2 r1 p2 out2 = (Inr n2, m2, r2)" "length p2 \<le> length buf2"
    and r2: "read_message_2 lib i1 (take n2 m2) buf2 = (res2, got2, i2)"
  shows "res1 = Inr (length p1) \<and> take (length p1) got1 = p1 \<and>
    res2 = Inr (length p2) \<and> take (length p2) got2 = p2 \<and>
    (\<exists>ri rr. noise_result i2 = Inr ri \<and> noise_result r2 = Inr rr \<and>
       nr_send ri = nr_receive rr \<and> nr_receive ri = nr_send rr \<and>
       nr_handshake_hash ri = nr_handshake_hash rr \<and>
       nr_remote_static ri = kp_public sr \<and> nr_remote_static rr = kp_public si)"
proof -
  note ci = create_initiator [OF created(1)] and cr = create_responder [OF created(2)]
  obtain pair s where pair: "so_scalarmult_base lib (kp_private pair) = Some (kp_public pair)"
    and i1: "i1 = i\<lparr>nh_local_ephemeral := pair, nh_symmetric := s, nh_sent_message_1 := True\<rparr>"
    and read1: "read_message_1 lib r (take n1 m1) buf1 = (Inr (length p1), copy_to buf1 0 p1,
       r\<lparr>nh_remote_ephemeral := kp_public pair, nh_symmetric := s, nh_remote_static := kp_public si,
         nh_has_remote_static := True, nh_read_message_1 := True\<rparr>)"
    by (rule message_1_received [OF laws w1(1) ci(3) cr(1,4,2) _ _ _ w1(2)])
      (use ci cr keys in simp_all)
  have r1': "res1 = Inr (length p1)" "got1 = copy_to buf1 0 p1"
    "r1 = r\<lparr>nh_remote_ephemeral := kp_public pair, nh_symmetric := s, nh_remote_static := kp_public si,
         nh_has_remote_static := True, nh_read_message_1 := True\<rparr>"
    using read1 r1 by simp_all
  obtain pair' s' where r2': "r2 = r1\<lparr>nh_local_ephemeral := pair', nh_symmetric := s', nh_finished := True\<rparr>"
    and read2: "read_message_2 lib i1 (take n2 m2) buf2 = (Inr (length p2), copy_to buf2 0 p2,
       i1\<lparr>nh_remote_ephemeral := kp_public pair', nh_symmetric := s', nh_finished := True\<rparr>)"
    by (rule message_2_received [OF laws w2(1) _ _ _ _ _ _ _ _ w2(2), of i1])
      (simp_all add: ci cr keys pair i1 r1')
  have i2: "res2 = Inr (length p2)" "got2 = copy_to buf2 0 p2"
    "i2 = i1\<lparr>nh_remote_ephemeral := kp_public pair', nh_symmetric := s', nh_finished := True\<rparr>"
    using read2 r2 by simp_all
  obtain first second where "split_keys s' = (first, second)" by (cases "split_keys s'")
  then show ?thesis unfolding r1' i2 r2' i1
    by (simp add: noise_result_def copy_to_0 ci cr)
qed

subsection \<open>A rejected reply changes nothing\<close>

lemma read_message_2_unchecked_frame:
  assumes "read_message_2_unchecked lib h message out = (Inl e, out', h')"
  shows "h'\<lparr>nh_symmetric := nh_symmetric h, nh_remote_ephemeral := nh_remote_ephemeral h\<rparr> = h"
  using assms by (auto simp: read_message_2_unchecked_def mix_shared_def update_symmetric_def Let_def
      split: sum.split_asm if_split_asm prod.split_asm)

text \<open>
  C14: a second message that is rejected, at any step of its processing, leaves the handshake as it
  was, so a forged reply does not stop the initiator from accepting the genuine one later.
\<close>

theorem rejected_reply_leaves_handshake:
  assumes "read_message_2 lib h message out = (Inl e, out', h')"
  shows "h' = h"
  using assms read_message_2_unchecked_frame [of lib h message out]
  by (auto simp: read_message_2_def split: if_split_asm prod.split_asm sum.split_asm)

subsection \<open>A concrete handshake\<close>

lemma xor_encrypt:
  assumes "length p + 16 \<le> length out" "cs_has_key (sy_cipher s)"
  shows "\<exists>out' s'. encrypt_and_hash xor_sodium s p out = (Inr (length p + 16), out', s') \<and>
    length out' = length out"
  using assms by (simp add: encrypt_and_hash_def encrypt_with_ad_def seal_keys_def kAeadTagSize_def
      xor_sodium_def)

lemma xor_write_1:
  assumes "nh_role i = role_initiator" "\<not> nh_sent_message_1 i" "\<not> nh_finished i" "nh_has_remote_static i"
    "length (kp_public (nh_local_static i)) = 32" "\<not> nh_has_fixed_ephemeral i" "96 + length p \<le> length out"
  obtains m i' where "write_message_1 xor_sodium random i p out = (Inr (96 + length p), m, i')"
proof -
  let ?e = "pad_32 random"
  obtain k1 where k1: "so_scalarmult xor_sodium random (nh_remote_static i) = Some k1" by (simp add: xor_sodium_def)
  obtain k2 where k2: "so_scalarmult xor_sodium (kp_private (nh_local_static i)) (nh_remote_static i) = Some k2"
    by (simp add: xor_sodium_def)
  have base: "so_scalarmult_base xor_sodium random = Some ?e" by (simp add: xor_sodium_def)
  obtain rest1 s3 where e1: "encrypt_and_hash xor_sodium (mix_key (mix_key (mix_hash (nh_symmetric i) ?e) ?e) k1)
      (kp_public (nh_local_static i)) (drop 32 (copy_to out 0 ?e)) = (Inr 48, rest1, s3)"
    "length rest1 = length out - 32"
    using xor_encrypt [of "kp_public (nh_local_static i)" "drop 32 (copy_to out 0 ?e)"
        "mix_key (mix_key (mix_hash (nh_symmetric i) ?e) ?e) k1"] assms(5,7) by (auto simp: le_diff_conv2)
  obtain rest2 s5 where e2: "encrypt_and_hash xor_sodium (mix_key s3 k2) p
      (drop 80 (take 32 (copy_to out 0 ?e) @ rest1)) = (Inr (length p + 16), rest2, s5)"
    using xor_encrypt [of p "drop 80 (take 32 (copy_to out 0 ?e) @ rest1)" "mix_key s3 k2"] assms(7) e1(2)
    by (auto simp: le_diff_conv2)
  show thesis using assms that k1 k2 e1 e2
    by (simp add: write_message_1_def noise_consts draw_ephemeral_def generate_keypair_def derive_public_key_def
        base Let_def mix_shared_def x25519_def encrypt_at_def update_symmetric_def)
qed

lemma xor_write_2:
  assumes "nh_role r = role_responder" "nh_read_message_1 r" "\<not> nh_finished r" "\<not> nh_has_fixed_ephemeral r"
    "48 + length p \<le> length out"
  obtains m r' where "write_message_2 xor_sodium random r p out = (Inr (48 + length p), m, r')"
proof -
  let ?e = "pad_32 random"
  obtain k1 where k1: "so_scalarmult xor_sodium random (nh_remote_ephemeral r) = Some k1" by (simp add: xor_sodium_def)
  obtain k2 where k2: "so_scalarmult xor_sodium random (nh_remote_static r) = Some k2" by (simp add: xor_sodium_def)
  have base: "so_scalarmult_base xor_sodium random = Some ?e" by (simp add: xor_sodium_def)
  let ?s = "mix_key_and_hash (mix_key (mix_key (mix_key (mix_hash (nh_symmetric r) ?e) ?e) k1) k2) (nh_preshared r)"
  obtain rest s where e: "encrypt_and_hash xor_sodium ?s p (drop 32 (copy_to out 0 ?e)) =
      (Inr (length p + 16), rest, s)"
    using xor_encrypt [of p "drop 32 (copy_to out 0 ?e)" ?s] assms(5) by (auto simp: le_diff_conv2)
  show thesis using assms that k1 k2 e
    by (simp add: write_message_2_def noise_consts draw_ephemeral_def generate_keypair_def derive_public_key_def
        base Let_def mix_shared_def x25519_def encrypt_at_def update_symmetric_def)
qed

definition sample_pair :: "byte \<Rightarrow> KeyPair" where
  "sample_pair b = \<lparr>kp_public = replicate 32 b, kp_private = replicate 32 b\<rparr>"

lemma sample_pair_simps [simp]:
  "so_scalarmult_base xor_sodium (kp_private (sample_pair b)) = Some (kp_public (sample_pair b))"
  "length (kp_public (sample_pair b)) = 32"
  by (simp_all add: sample_pair_def xor_sodium_def)

lemma sample_created:
  obtains i r m i1 where
    "create xor_sodium role_initiator (sample_pair 1) (kp_public (sample_pair 2)) (replicate 32 3) [] = Inr i"
    "create xor_sodium role_responder (sample_pair 2) [] (replicate 32 3) [] = Inr r"
    "write_message_1 xor_sodium (replicate 32 4) i [7, 8] (replicate 200 0) = (Inr 98, m, i1)"
proof -
  obtain i r where c: "create xor_sodium role_initiator (sample_pair 1) (kp_public (sample_pair 2))
      (replicate 32 3) [] = Inr i"
    "create xor_sodium role_responder (sample_pair 2) [] (replicate 32 3) [] = Inr r"
    and i: "\<not> nh_sent_message_1 i" "nh_has_remote_static i"
    by (simp add: create_def crypto_available_def xor_sodium_def sample_pair_def Let_def list_all_iff)
  note ci = create_initiator [OF c(1)]
  have "length (kp_public (nh_local_static i)) = 32" by (simp add: ci)
  then obtain m i1 where "write_message_1 xor_sodium (replicate 32 4) i [7, 8] (replicate 200 0) = (Inr 98, m, i1)"
    using xor_write_1 [OF ci(1) i(1) ci(2) i(2) _ ci(3), of "[7, 8]" "replicate 200 0" "replicate 32 4"] by auto
  then show thesis by (rule that [OF c])
qed

theorem noise_handshake_agrees_witness:
  "\<exists>i r m1 i1 got1 r1 m2 r2 got2 i2 ri rr.
     write_message_1 xor_sodium (replicate 32 4) i [7, 8] (replicate 200 0) = (Inr 98, m1, i1) \<and>
     read_message_1 xor_sodium r (take 98 m1) (replicate 200 0) = (Inr 2, got1, r1) \<and> take 2 got1 = [7, 8] \<and>
     write_message_2 xor_sodium (replicate 32 5) r1 [9] (replicate 200 0) = (Inr 49, m2, r2) \<and>
     read_message_2 xor_sodium i1 (take 49 m2) (replicate 200 0) = (Inr 1, got2, i2) \<and> take 1 got2 = [9] \<and>
     noise_result i2 = Inr ri \<and> noise_result r2 = Inr rr \<and> nr_send ri = nr_receive rr \<and>
     nr_remote_static rr = replicate 32 1"
proof -
  let ?p = "[7, 8] :: bytes" and ?q = "[9] :: bytes" and ?b = "replicate 200 0 :: bytes"
  obtain i r m1 i1 where c: "create xor_sodium role_initiator (sample_pair 1) (kp_public (sample_pair 2))
      (replicate 32 3) [] = Inr i"
    "create xor_sodium role_responder (sample_pair 2) [] (replicate 32 3) [] = Inr r"
    and w1: "write_message_1 xor_sodium (replicate 32 4) i ?p ?b = (Inr 98, m1, i1)" by (rule sample_created)
  note ci = create_initiator [OF c(1)] and cr = create_responder [OF c(2)]
  have pre: "nh_symmetric r = nh_symmetric i"
    "so_scalarmult_base xor_sodium (kp_private (nh_local_static r)) = Some (nh_remote_static i)"
    "so_scalarmult_base xor_sodium (kp_private (nh_local_static i)) = Some (kp_public (nh_local_static i))"
    "length ?p \<le> length ?b" "length ?q \<le> length ?b"
    by (simp_all add: ci cr)
  obtain pair :: KeyPair and s where r1: "read_message_1 xor_sodium r (take 98 m1) ?b = (Inr (length ?p), copy_to ?b 0 ?p,
       r\<lparr>nh_remote_ephemeral := kp_public pair, nh_symmetric := s,
         nh_remote_static := kp_public (nh_local_static i), nh_has_remote_static := True,
         nh_read_message_1 := True\<rparr>)" (is "_ = (_, _, ?r1)")
    by (rule message_1_received [OF xor_sodium_laws w1 ci(3) cr(1,4,2) pre(1-4)])
  obtain m2 r2 where w2: "write_message_2 xor_sodium (replicate 32 5) ?r1 ?q ?b = (Inr 49, m2, r2)"
    using xor_write_2 [of ?r1 ?q ?b "replicate 32 5"] cr by auto
  obtain res2 got2 i2 where r2: "read_message_2 xor_sodium i1 (take 49 m2) ?b = (res2, got2, i2)"
    by (metis prod_cases3)
  note a = noise_handshake_agrees [OF xor_sodium_laws sample_pair_simps(1) sample_pair_simps(1) c(1,2)
      w1 pre(4) r1 w2 pre(5) r2]
  have len: "length ?p = 2" "length ?q = 1" "kp_public (sample_pair 1) = replicate 32 1"
    by (simp_all add: sample_pair_def)
  from a r1 r2 have "take 2 (copy_to ?b 0 ?p) = ?p" "take 1 got2 = ?q"
    "read_message_1 xor_sodium r (take 98 m1) ?b = (Inr 2, copy_to ?b 0 ?p, ?r1)"
    "read_message_2 xor_sodium i1 (take 49 m2) ?b = (Inr 1, got2, i2)"
    unfolding len by (simp_all only: simp_thms)
  then show ?thesis using a w1 w2 unfolding len by blast
qed

theorem rejected_reply_leaves_handshake_witness:
  "\<exists>i m i1 out. write_message_1 xor_sodium (replicate 32 4) i [7, 8] (replicate 200 0) = (Inr 98, m, i1) \<and>
     read_message_2 xor_sodium i1 (replicate 60 1) (replicate 200 0) = (Inl ne_decryption_failed, out, i1)"
proof -
  let ?p = "[7, 8] :: bytes" and ?b = "replicate 200 0 :: bytes"
  obtain i r m i1 where c: "create xor_sodium role_initiator (sample_pair 1) (kp_public (sample_pair 2))
      (replicate 32 3) [] = Inr i"
    and w: "write_message_1 xor_sodium (replicate 32 4) i ?p ?b = (Inr 98, m, i1)" by (rule sample_created)
  note ci = create_initiator [OF c]
  have i1: "nh_role i1 = role_initiator" "nh_sent_message_1 i1" "\<not> nh_finished i1"
    using ci w by (auto elim!: write_message_1_Inr)
  obtain out h' where "read_message_2 xor_sodium i1 (replicate 60 1) ?b = (Inl ne_decryption_failed, out, h')"
    using i1 by (simp add: read_message_2_def read_message_2_unchecked_def noise_consts Let_def mix_shared_def
        x25519_def xor_sodium_def decrypt_and_hash_def decrypt_with_ad_def open_keys_def replicate_eq_replicate)
  with rejected_reply_leaves_handshake [OF this] w show ?thesis by blast
qed

end
