(* ===== verification/Cookie.thy ===== *)
theory Cookie
  imports Primitives Endpoint
begin

text \<open>
  Cookies against handshake floods (src/cookie.cpp): the two MACs of a handshake message, the cookie
  reply and its encoding, the issuer with its rotating secret and the holder of a cookie. Random bytes
  are arguments of the operations that draw them.
\<close>

definition kLabelMac1 :: string where "kLabelMac1 = ''mac1----''"
definition kLabelCookie :: string where "kLabelCookie = ''cookie--''"
definition kMacSize :: nat where "kMacSize = 16"
definition kCookieSize :: nat where "kCookieSize = 16"
definition kCookieNonceSize :: nat where "kCookieNonceSize = 24"
definition kCookieSecretLifetime :: duration where "kCookieSecretLifetime = seconds 120"

datatype CookieError = co_unsupported_platform | co_invalid_mac | co_decryption_failed
  | co_buffer_too_small | co_message_too_short

definition cookie_error_message :: "CookieError \<Rightarrow> string" where
  "cookie_error_message e = (case e of
      co_unsupported_platform \<Rightarrow> ''crypto backend not available''
    | co_invalid_mac \<Rightarrow> ''MAC verification failed''
    | co_decryption_failed \<Rightarrow> ''cookie decryption failed''
    | co_buffer_too_small \<Rightarrow> ''output buffer too small''
    | co_message_too_short \<Rightarrow> ''message too short to carry MACs'')"

definition hash_label_and_key :: "string \<Rightarrow> bytes \<Rightarrow> bytes" where
  "hash_label_and_key label key =
     (let label_bytes = copy_to (replicate 8 0) 0 (map byte_of_char (take 8 label))
      in fst (finish_digest (update (update (new_blake2s kMaximumDigestSize []) label_bytes) key)
           kMaximumDigestSize))"

definition keyed_mac :: "bytes \<Rightarrow> bytes \<Rightarrow> bytes" where
  "keyed_mac key message = fst (finish_digest (update (new_blake2s kMacSize key) message) kMacSize)"

definition mac1_key :: "bytes \<Rightarrow> bytes" where
  "mac1_key responder_static = hash_label_and_key kLabelMac1 responder_static"

definition cookie_key :: "bytes \<Rightarrow> bytes" where
  "cookie_key responder_static = hash_label_and_key kLabelCookie responder_static"

subsection \<open>Cookie reply\<close>

record CookieReply =
  cr_receiver_index :: u32
  cr_nonce :: bytes
  cr_encrypted_cookie :: bytes

definition kCookieReplySize :: nat where
  "kCookieReplySize = 4 + kCookieNonceSize + kCookieSize + kAeadTagSize"

lemmas cookie_sizes = kCookieReplySize_def kCookieNonceSize_def kCookieSize_def kAeadTagSize_def kMacSize_def

definition serialize_cookie_reply :: "CookieReply \<Rightarrow> bytes \<Rightarrow> (CookieError + nat) \<times> bytes" where
  "serialize_cookie_reply reply out =
     (if length out < kCookieReplySize then (Inl co_buffer_too_small, out)
      else (Inr kCookieReplySize,
            copy_to (copy_to (write_u32 out 0 (cr_receiver_index reply)) 4 (cr_nonce reply))
              (4 + kCookieNonceSize) (cr_encrypted_cookie reply)))"

definition parse_cookie_reply :: "bytes \<Rightarrow> CookieError + CookieReply" where
  "parse_cookie_reply bs =
     (if length bs < kCookieReplySize then Inl co_message_too_short
      else Inr \<lparr>cr_receiver_index = read_u32 bs 0,
                cr_nonce = take kCookieNonceSize (drop 4 bs),
                cr_encrypted_cookie = take (kCookieSize + kAeadTagSize) (drop (4 + kCookieNonceSize) bs)\<rparr>)"

subsection \<open>Issuer\<close>

record CookieIssuer =
  ci_mac1_key :: bytes
  ci_cookie_key :: bytes
  ci_secret :: bytes
  ci_previous_secret :: bytes
  ci_secret_created :: instant
  ci_has_previous :: bool
  ci_under_load :: bool

definition new_issuer :: "bytes \<Rightarrow> CookieIssuer" where
  "new_issuer local_static = \<lparr>ci_mac1_key = mac1_key local_static, ci_cookie_key = cookie_key local_static,
     ci_secret = replicate 32 0, ci_previous_secret = replicate 32 0, ci_secret_created = 0,
     ci_has_previous = False, ci_under_load = False\<rparr>"

definition set_under_load :: "CookieIssuer \<Rightarrow> bool \<Rightarrow> CookieIssuer" where
  "set_under_load c v = c\<lparr>ci_under_load := v\<rparr>"

definition random_bytes :: "sodium \<Rightarrow> bytes \<Rightarrow> CryptoError + bytes" where
  "random_bytes lib random = (if so_available lib then Inr random else Inl ce_unsupported_platform)"

definition refresh :: "sodium \<Rightarrow> bytes \<Rightarrow> CookieIssuer \<Rightarrow> instant \<Rightarrow> CookieIssuer" where
  "refresh lib random c now =
     (if \<not> (ci_secret_created c = 0 \<or> now - ci_secret_created c \<ge> kCookieSecretLifetime) then c
      else let c = (if ci_secret_created c \<noteq> 0
                    then c\<lparr>ci_previous_secret := ci_secret c, ci_has_previous := True\<rparr> else c)
      in c\<lparr>ci_secret := (case random_bytes lib random of Inl e \<Rightarrow> replicate 32 0 | Inr b \<Rightarrow> b),
           ci_secret_created := now\<rparr>)"

definition compute_cookie :: "sodium \<Rightarrow> bytes \<Rightarrow> CookieIssuer \<Rightarrow> Endpoint \<Rightarrow> instant \<Rightarrow> bytes \<times> CookieIssuer" where
  "compute_cookie lib random c source now =
     (let c = refresh lib random c now
      in (keyed_mac (ci_secret c) (address_bytes (ep_address source)), c))"

definition issuer_mac1 :: "CookieIssuer \<Rightarrow> bytes \<Rightarrow> bytes" where
  "issuer_mac1 c message = keyed_mac (ci_mac1_key c) message"

definition verify_mac1 :: "CookieIssuer \<Rightarrow> bytes \<Rightarrow> bytes \<Rightarrow> bool" where
  "verify_mac1 c message mac1 = constant_time_equal (issuer_mac1 c message) mac1"

definition check_mac2 :: "bytes \<Rightarrow> Endpoint \<Rightarrow> bytes \<Rightarrow> bytes \<Rightarrow> bool" where
  "check_mac2 secret source message mac2 =
     (let cookie = keyed_mac secret (address_bytes (ep_address source))
      in constant_time_equal (keyed_mac cookie message) mac2)"

definition verify_mac2 :: "sodium \<Rightarrow> bytes \<Rightarrow> CookieIssuer \<Rightarrow> Endpoint \<Rightarrow> bytes \<Rightarrow> bytes \<Rightarrow> instant \<Rightarrow>
    bool \<times> CookieIssuer" where
  "verify_mac2 lib random c source message mac2 now =
     (let c = refresh lib random c now
      in if check_mac2 (ci_secret c) source message mac2 then (True, c)
      else (ci_has_previous c \<and> check_mac2 (ci_previous_secret c) source message mac2, c))"

text \<open>\<open>random\<close> is what a new secret would be, \<open>nonce\<close> the nonce drawn for the reply.\<close>

definition build_reply :: "sodium \<Rightarrow> bytes \<Rightarrow> bytes \<Rightarrow> CookieIssuer \<Rightarrow> Endpoint \<Rightarrow> u32 \<Rightarrow> bytes \<Rightarrow> instant \<Rightarrow>
    (CookieError + CookieReply) \<times> CookieIssuer" where
  "build_reply lib random nonce c source receiver_index received_mac1 now =
     (if \<not> so_available lib then (Inl co_unsupported_platform, c)
      else let (cookie, c) = compute_cookie lib random c source now
      in case random_bytes lib nonce of
        Inl e \<Rightarrow> (Inl co_unsupported_platform, c)
      | Inr nonce \<Rightarrow>
          (case so_xencrypt lib (ci_cookie_key c) nonce received_mac1 cookie of
             None \<Rightarrow> (Inl co_decryption_failed, c)
           | Some encrypted \<Rightarrow>
               (Inr \<lparr>cr_receiver_index = receiver_index, cr_nonce = nonce, cr_encrypted_cookie = encrypted\<rparr>, c)))"

subsection \<open>Holder\<close>

record CookieHolder =
  ch_mac1_key :: bytes
  ch_cookie_key :: bytes
  ch_cookie :: bytes
  ch_received :: instant
  ch_has_cookie :: bool

definition new_holder :: "bytes \<Rightarrow> CookieHolder" where
  "new_holder responder_static = \<lparr>ch_mac1_key = mac1_key responder_static,
     ch_cookie_key = cookie_key responder_static, ch_cookie = replicate kCookieSize 0, ch_received = 0,
     ch_has_cookie = False\<rparr>"

definition accept_reply :: "sodium \<Rightarrow> CookieHolder \<Rightarrow> CookieReply \<Rightarrow> bytes \<Rightarrow> instant \<Rightarrow>
    (CookieError + unit) \<times> CookieHolder" where
  "accept_reply lib h reply sent_mac1 now =
     (if \<not> so_available lib then (Inl co_unsupported_platform, h)
      else case so_xdecrypt lib (ch_cookie_key h) (cr_nonce reply) sent_mac1 (cr_encrypted_cookie reply) of
             None \<Rightarrow> (Inl co_decryption_failed, h)
           | Some cookie \<Rightarrow> (Inr (), h\<lparr>ch_cookie := cookie, ch_received := now, ch_has_cookie := True\<rparr>))"

definition holder_mac1 :: "CookieHolder \<Rightarrow> bytes \<Rightarrow> bytes" where
  "holder_mac1 h message = keyed_mac (ch_mac1_key h) message"

definition holder_mac2 :: "CookieHolder \<Rightarrow> bytes \<Rightarrow> bytes" where
  "holder_mac2 h message =
     (if \<not> ch_has_cookie h then replicate kMacSize 0 else keyed_mac (ch_cookie h) message)"

subsection \<open>Round trips\<close>

lemma length_keyed_mac [simp]: "length (keyed_mac key message) = 16"
  by (simp add: keyed_mac_def length_finish_digest kMacSize_def)

lemma cookie_reply_roundtrip:
  assumes "length (cr_nonce reply) = 24" "length (cr_encrypted_cookie reply) = 32" "60 \<le> length out"
  shows "\<exists>out'. serialize_cookie_reply reply out = (Inr 60, out') \<and> length out' = length out \<and>
    parse_cookie_reply (take 60 out') = Inr reply"
proof -
  let ?bs = "to_be 4 (cr_receiver_index reply) @ cr_nonce reply @ cr_encrypted_cookie reply"
  have "serialize_cookie_reply reply out = (Inr 60, copy_to out 0 ?bs)"
    using assms by (simp add: serialize_cookie_reply_def cookie_sizes write_u32_be copy_to_append)
  moreover have "parse_cookie_reply ?bs = Inr reply"
    using assms by (simp add: parse_cookie_reply_def cookie_sizes read_u32_be)
  moreover have "take 60 (copy_to out 0 ?bs) = ?bs" "length (copy_to out 0 ?bs) = length out"
    using assms by (simp_all add: copy_to_0)
  ultimately show ?thesis by simp
qed

subsection \<open>A cookie stays valid while the secret lives\<close>

definition knows_secret :: "CookieIssuer \<Rightarrow> bytes \<Rightarrow> instant \<Rightarrow> bool" where
  "knows_secret c k t \<longleftrightarrow> ci_secret_created c \<noteq> 0 \<and>
     (ci_secret c = k \<or> ci_has_previous c \<and> ci_previous_secret c = k \<and> t \<le> ci_secret_created c)"

lemma refresh_knows:
  assumes "0 < t" "t \<le> now" "now - t < kCookieSecretLifetime" "knows_secret c k t"
  shows "knows_secret (refresh lib random c now) k t"
  using assms by (auto simp: knows_secret_def refresh_def)

lemma refreshes_know:
  assumes "0 < t" "knows_secret c k t"
    and "\<forall>(now, random) \<in> set steps. t \<le> now \<and> now - t < kCookieSecretLifetime"
  shows "knows_secret (fold (\<lambda>(now, random) c. refresh lib random c now) steps c) k t"
  using assms(2,3)
proof (induction steps arbitrary: c)
  case (Cons step steps)
  then show ?case using refresh_knows [OF assms(1)] by (cases step) simp
qed simp

lemma refresh_keys [simp]:
  "ci_cookie_key (refresh lib random c now) = ci_cookie_key c"
  "ci_mac1_key (refresh lib random c now) = ci_mac1_key c"
  "ci_under_load (refresh lib random c now) = ci_under_load c"
  by (simp_all add: refresh_def Let_def)

lemma verify_mac2_known:
  assumes "knows_secret (refresh lib random c now) k t" "ep_address source' = ep_address source"
  shows "fst (verify_mac2 lib random c source message
    (keyed_mac (keyed_mac k (address_bytes (ep_address source'))) message) now)"
  using assms by (auto simp: verify_mac2_def check_mac2_def knows_secret_def Let_def)

text \<open>
  C33: an issued cookie is honoured. The holder that receives the reply to its message decrypts the
  cookie, and for two minutes after the reply was built every message it sends from the same address
  with the MAC of that cookie passes the check, however often the issuer refreshes its secret in
  between and whatever the port.
\<close>

theorem issued_cookie_verifies:
  assumes laws: "sodium_laws lib"
    and reply: "build_reply lib random nonce c source index mac1 t = (Inr reply, c1)" "0 < t"
    and keys: "ci_cookie_key c = ch_cookie_key h"
    and steps: "c2 = fold (\<lambda>(now, random) c. refresh lib random c now) steps c1"
      "\<forall>(now, random) \<in> set steps. t \<le> now \<and> now - t < kCookieSecretLifetime"
    and now: "t \<le> now" "now - t < kCookieSecretLifetime"
    and source: "ep_address source' = ep_address source"
  shows "\<exists>h'. accept_reply lib h reply mac1 received = (Inr (), h') \<and>
    fst (verify_mac2 lib random' c2 source' message (holder_mac2 h' message) now)"
proof -
  let ?k = "ci_secret (refresh lib random c t)"
  let ?cookie = "keyed_mac ?k (address_bytes (ep_address source))"
  have c1: "so_available lib" "c1 = refresh lib random c t"
    "so_xencrypt lib (ci_cookie_key c) nonce mac1 ?cookie = Some (cr_encrypted_cookie reply)"
    "cr_nonce reply = nonce"
    using reply(1) by (auto simp: build_reply_def compute_cookie_def random_bytes_def Let_def
        split: if_split_asm option.split_asm)
  have "so_xdecrypt lib (ch_cookie_key h) (cr_nonce reply) mac1 (cr_encrypted_cookie reply) = Some ?cookie"
    using laws c1(3,4) keys by (simp add: sodium_laws_def aead_laws_def)
  then have accept: "accept_reply lib h reply mac1 received =
      (Inr (), h\<lparr>ch_cookie := ?cookie, ch_received := received, ch_has_cookie := True\<rparr>)" (is "_ = (_, ?h)")
    using c1(1) by (simp add: accept_reply_def)
  have "knows_secret c1 ?k t" using reply(2) by (auto simp: c1 knows_secret_def refresh_def Let_def)
  then have "knows_secret (refresh lib random' c2 now) ?k t"
    using refresh_knows [OF reply(2) now] refreshes_know [OF reply(2) _ steps(2)] steps(1) by blast
  from verify_mac2_known [OF this source [symmetric]] show ?thesis
    using accept by (simp add: holder_mac2_def)
qed

theorem issued_cookie_verifies_witness:
  "\<exists>reply c1 h'. build_reply xor_sodium (replicate 32 1) (replicate 24 2) (new_issuer (replicate 32 7))
       \<lparr>ep_address = from_bytes ipv4 [10, 0, 0, 1], ep_port = 9\<rparr> 3 [5] (seconds 10) = (Inr reply, c1) \<and>
     accept_reply xor_sodium (new_holder (replicate 32 7)) reply [5] (seconds 11) = (Inr (), h') \<and>
     fst (verify_mac2 xor_sodium (replicate 32 4)
       (refresh xor_sodium (replicate 32 3) c1 (seconds 60))
       \<lparr>ep_address = from_bytes ipv4 [10, 0, 0, 1], ep_port = 10\<rparr> [8, 8] (holder_mac2 h' [8, 8]) (seconds 129))"
proof -
  let ?source = "\<lambda>p. \<lparr>ep_address = from_bytes ipv4 [10, 0, 0, 1], ep_port = p\<rparr>"
  obtain reply c1 where r: "build_reply xor_sodium (replicate 32 1) (replicate 24 2) (new_issuer (replicate 32 7))
       (?source 9) 3 [5] (seconds 10) = (Inr reply, c1)"
    by (simp add: build_reply_def compute_cookie_def random_bytes_def xor_sodium_def Let_def)
  have "\<exists>h'. accept_reply xor_sodium (new_holder (replicate 32 7)) reply [5] (seconds 11) = (Inr (), h') \<and>
    fst (verify_mac2 xor_sodium (replicate 32 4) (refresh xor_sodium (replicate 32 3) c1 (seconds 60))
      (?source 10) [8, 8] (holder_mac2 h' [8, 8]) (seconds 129))"
    by (rule issued_cookie_verifies [OF xor_sodium_laws r, where steps = "[(seconds 60, replicate 32 3)]"])
      (simp_all add: new_issuer_def new_holder_def kCookieSecretLifetime_def)
  with r show ?thesis by blast
qed

text \<open>
  The lifetime of the secret does not bound the life of a cookie: rotation happens only when the issuer
  is used, so the first check after any pause still accepts a cookie made before it.
\<close>

lemma cookie_outlives_secret_lifetime:
  assumes "build_reply lib random nonce c source index mac1 t = (Inr reply, c1)" "0 < t" "0 \<le> pause"
    and "cookie = keyed_mac (ci_secret c1) (address_bytes (ep_address source))"
  shows "fst (verify_mac2 lib random' c1 source message (keyed_mac cookie message) (t + pause))"
proof -
  have c1: "c1 = refresh lib random c t"
    using assms(1) by (auto simp: build_reply_def compute_cookie_def Let_def
        split: if_split_asm sum.split_asm option.split_asm)
  have "ci_secret_created c1 \<noteq> 0" using assms(2) by (simp add: c1 refresh_def Let_def)
  then have "knows_secret (refresh lib random' c1 (t + pause)) (ci_secret c1) (t + pause) \<or>
      ci_secret (refresh lib random' c1 (t + pause)) = ci_secret c1"
    using assms(2,3) by (auto simp: knows_secret_def refresh_def Let_def)
  then show ?thesis unfolding assms(4)
    by (auto simp: verify_mac2_def check_mac2_def knows_secret_def Let_def)
qed

end
