(* ===== verification/Rate_Limit.thy ===== *)
theory Rate_Limit
  imports Endpoint Complex_Main
begin

text \<open>
  Token buckets, the per-source limiter and the global limiter (src/rate_limit.cpp). Doubles are
  modelled as real numbers, so the rounding of the refill is not part of the model; instants are
  nanoseconds.
\<close>

definition hash_endpoint :: "Endpoint \<Rightarrow> u64" where
  "hash_endpoint endpoint =
     fold (\<lambda>octet hash. (hash XOR ucast octet) * 1099511628211)
       (address_bytes (ep_address endpoint)) 1469598103934665603"

record TokenBucket =
  tb_capacity :: real
  tb_refill_per_second :: real
  tb_tokens :: real
  tb_last :: instant
  tb_initialized :: bool

definition empty_bucket :: TokenBucket where
  "empty_bucket = \<lparr>tb_capacity = 0, tb_refill_per_second = 0, tb_tokens = 0, tb_last = 0,
     tb_initialized = False\<rparr>"

definition new_bucket :: "real \<Rightarrow> real \<Rightarrow> instant \<Rightarrow> TokenBucket" where
  "new_bucket capacity refill_per_second now =
     \<lparr>tb_capacity = capacity, tb_refill_per_second = refill_per_second, tb_tokens = capacity,
      tb_last = now, tb_initialized = True\<rparr>"

definition in_seconds :: "duration \<Rightarrow> real" where
  "in_seconds d = of_int d / 1000000000"

definition refill :: "TokenBucket \<Rightarrow> instant \<Rightarrow> TokenBucket" where
  "refill b now =
     (if now \<le> tb_last b then b
      else b\<lparr>tb_tokens := min (tb_capacity b)
               (tb_tokens b + in_seconds (now - tb_last b) * tb_refill_per_second b),
             tb_last := now\<rparr>)"

definition consume :: "TokenBucket \<Rightarrow> instant \<Rightarrow> real \<Rightarrow> bool \<times> TokenBucket" where
  "consume b now tokens =
     (let b = refill b now
      in if tb_tokens b < tokens then (False, b)
      else (True, b\<lparr>tb_tokens := tb_tokens b - tokens\<rparr>))"

definition available :: "TokenBucket \<Rightarrow> instant \<Rightarrow> real \<times> TokenBucket" where
  "available b now = (let b = refill b now in (tb_tokens b, b))"

subsection \<open>Limiter per source\<close>

definition kBucketCount :: nat where "kBucketCount = 4096"

record SourceRateLimiter =
  rl_burst :: real
  rl_per_second :: real
  rl_buckets :: "TokenBucket list"
  rl_allowed :: u64
  rl_rejected :: u64

definition new_limiter :: "real \<Rightarrow> real \<Rightarrow> SourceRateLimiter" where
  "new_limiter burst per_second = \<lparr>rl_burst = burst, rl_per_second = per_second,
     rl_buckets = replicate kBucketCount empty_bucket, rl_allowed = 0, rl_rejected = 0\<rparr>"

definition index_of :: "Endpoint \<Rightarrow> nat" where
  "index_of source = unat (hash_endpoint source mod of_nat kBucketCount)"

definition allow :: "SourceRateLimiter \<Rightarrow> Endpoint \<Rightarrow> instant \<Rightarrow> bool \<times> SourceRateLimiter" where
  "allow l source now =
     (let bucket = rl_buckets l ! index_of source;
          bucket = (if \<not> tb_initialized bucket then new_bucket (rl_burst l) (rl_per_second l) now else bucket);
          (granted, bucket) = consume bucket now 1;
          l = l\<lparr>rl_buckets := (rl_buckets l)[index_of source := bucket]\<rparr>
      in if granted then (True, l\<lparr>rl_allowed := rl_allowed l + 1\<rparr>)
      else (False, l\<lparr>rl_rejected := rl_rejected l + 1\<rparr>))"

subsection \<open>Global limiter\<close>

record GlobalLimiter =
  gl_bucket :: TokenBucket

definition new_global_limiter :: "real \<Rightarrow> real \<Rightarrow> instant \<Rightarrow> GlobalLimiter" where
  "new_global_limiter burst per_second now = \<lparr>gl_bucket = new_bucket burst per_second now\<rparr>"

definition global_allow :: "GlobalLimiter \<Rightarrow> instant \<Rightarrow> bool \<times> GlobalLimiter" where
  "global_allow g now =
     (let (granted, bucket) = consume (gl_bucket g) now 1 in (granted, g\<lparr>gl_bucket := bucket\<rparr>))"

subsection \<open>A bucket over a window of time\<close>

text \<open>
  After \<open>used\<close> tokens were taken since \<open>t\<close>: what was taken and what is left do not exceed the
  capacity and the refill since \<open>t\<close>.
\<close>

definition bucket_ok :: "real \<Rightarrow> real \<Rightarrow> instant \<Rightarrow> nat \<Rightarrow> TokenBucket \<Rightarrow> bool" where
  "bucket_ok capacity rate t used b \<longleftrightarrow>
     tb_capacity b = capacity \<and> tb_refill_per_second b = rate \<and> 0 \<le> tb_tokens b \<and> tb_tokens b \<le> capacity \<and>
     (0 < used \<longrightarrow> t \<le> tb_last b \<and> real used + tb_tokens b \<le> capacity + rate * in_seconds (tb_last b - t))"

lemma in_seconds_diff: "in_seconds (a - b) = in_seconds (a - c) + in_seconds (c - b)"
  by (simp add: in_seconds_def diff_divide_distrib)

lemma in_seconds_nonneg [simp]: "b \<le> a \<Longrightarrow> 0 \<le> in_seconds (a - b)"
  by (simp add: in_seconds_def)

lemma in_seconds_mono: "a \<le> b \<Longrightarrow> in_seconds (a - c) \<le> in_seconds (b - c)"
  by (simp add: in_seconds_def divide_right_mono)

lemma refill_ok:
  assumes "bucket_ok capacity rate t used b" "0 \<le> rate" "t \<le> now"
  shows "bucket_ok capacity rate t used (refill b now)" "t \<le> tb_last (refill b now)"
proof -
  show "t \<le> tb_last (refill b now)" using assms(3) by (simp add: refill_def)
  have r: "0 \<le> rate * in_seconds (now - tb_last b)" if "\<not> now \<le> tb_last b"
    using that assms(2) by simp
  have d: "rate * in_seconds (now - t) =
      rate * in_seconds (now - tb_last b) + rate * in_seconds (tb_last b - t)"
    by (simp add: in_seconds_diff [of now t "tb_last b"] distrib_left)
  show "bucket_ok capacity rate t used (refill b now)"
    using assms r d by (auto simp: bucket_ok_def refill_def min_def mult.commute)
qed

lemma consume_ok:
  assumes "bucket_ok capacity rate t used b" "0 \<le> rate" "t \<le> now" "consume b now 1 = (granted, b')"
  shows "bucket_ok capacity rate t (if granted then Suc used else used) b'"
proof -
  note r = refill_ok [OF assms(1-3)]
  have "0 \<le> rate * in_seconds (tb_last (refill b now) - t)" using r(2) assms(2) by simp
  then show ?thesis using r assms(4)
    by (auto simp: consume_def Let_def bucket_ok_def split: if_split_asm)
qed

lemma bucket_ok_bound:
  assumes "bucket_ok capacity rate t used b" "0 \<le> capacity" "0 \<le> rate" "tb_last b \<le> t'" "t \<le> t'"
  shows "real used \<le> capacity + rate * in_seconds (t' - t)"
proof (cases "used = 0")
  case False
  then have "real used + tb_tokens b \<le> capacity + rate * in_seconds (tb_last b - t)" "0 \<le> tb_tokens b"
    using assms(1) by (simp_all add: bucket_ok_def)
  moreover have "rate * in_seconds (tb_last b - t) \<le> rate * in_seconds (t' - t)"
    using assms(3,4) by (simp add: mult_left_mono in_seconds_mono)
  ultimately show ?thesis by linarith
qed (use assms in simp)

subsection \<open>The limiter over a window of time\<close>

definition limiter_ok :: "nat \<Rightarrow> instant \<Rightarrow> instant \<Rightarrow> nat \<Rightarrow> SourceRateLimiter \<Rightarrow> bool" where
  "limiter_ok j t t' used l \<longleftrightarrow> length (rl_buckets l) = kBucketCount \<and>
     (let b = rl_buckets l ! j in
      if tb_initialized b then bucket_ok (rl_burst l) (rl_per_second l) t used b \<and> tb_last b \<le> t'
      else used = 0)"

lemma index_of_less: "index_of source < kBucketCount"
proof -
  have "unat (hash_endpoint source mod 4096) = unat (hash_endpoint source) mod 4096"
    by (simp add: unat_mod_distrib)
  then show ?thesis by (simp add: index_of_def kBucketCount_def)
qed

lemma consume_frame [simp]:
  "tb_initialized (snd (consume b now n)) = tb_initialized b"
  "tb_last b \<le> t \<Longrightarrow> now \<le> t \<Longrightarrow> tb_last (snd (consume b now n)) \<le> t"
  by (simp_all add: consume_def refill_def Let_def)

lemma allow_frame [simp]:
  "rl_burst (snd (allow l s now)) = rl_burst l" "rl_per_second (snd (allow l s now)) = rl_per_second l"
  by (simp_all add: allow_def Let_def split: prod.split)

lemma new_bucket_ok:
  "0 \<le> burst \<Longrightarrow> bucket_ok burst rate t 0 (new_bucket burst rate now)" "tb_initialized (new_bucket burst rate now)"
  "tb_last (new_bucket burst rate now) = now"
  by (simp_all add: bucket_ok_def new_bucket_def)

lemma allow_other:
  "index_of s \<noteq> j \<Longrightarrow> limiter_ok j t t' used l \<Longrightarrow> limiter_ok j t t' used (snd (allow l s now))"
  by (auto simp: limiter_ok_def allow_def Let_def split: prod.split)

lemma allow_same:
  assumes "limiter_ok j t t' used l" "0 \<le> rl_burst l" "0 \<le> rl_per_second l" "t \<le> now" "now \<le> t'"
    "index_of s = j" "allow l s now = (granted, l')"
  shows "limiter_ok j t t' (if granted then Suc used else used) l'"
proof -
  define b where "b = (if tb_initialized (rl_buckets l ! j) then rl_buckets l ! j
    else new_bucket (rl_burst l) (rl_per_second l) now)"
  obtain g b' where c: "consume b now 1 = (g, b')" by (cases "consume b now 1")
  have ok: "bucket_ok (rl_burst l) (rl_per_second l) t used b" "tb_initialized b" "tb_last b \<le> t'"
    using assms(1,2,5) new_bucket_ok by (auto simp: limiter_ok_def b_def Let_def)
  have ok': "bucket_ok (rl_burst l) (rl_per_second l) t (if g then Suc used else used) b'"
    "tb_initialized b'" "tb_last b' \<le> t'"
    using consume_ok [OF ok(1) assms(3,4) c] consume_frame(1) [of b now 1]
      consume_frame(2) [OF ok(3) assms(5), of 1] ok(2) c by auto
  have "granted = g" "rl_buckets l' = (rl_buckets l)[j := b']" "rl_burst l' = rl_burst l"
    "rl_per_second l' = rl_per_second l"
    using assms(6,7) c by (auto simp: allow_def Let_def b_def split: if_split_asm prod.split_asm)
  then show ?thesis using ok' assms(1) index_of_less [of s] assms(6) by (simp add: limiter_ok_def)
qed

definition granted_count :: "nat \<Rightarrow> SourceRateLimiter \<Rightarrow> (Endpoint \<times> instant) list \<Rightarrow> nat" where
  "granted_count j l events = length (filter (\<lambda>((source, now), granted). granted \<and> index_of source = j)
     (zip events (outs (\<lambda>l (source, now). allow l source now) l events)))"

lemma granted_count_simps:
  "granted_count j l [] = 0"
  "granted_count j l ((s, now) # events) =
     (if fst (allow l s now) \<and> index_of s = j then 1 else 0) + granted_count j (snd (allow l s now)) events"
  by (simp_all add: granted_count_def)

lemma limiter_ok_bound:
  assumes "limiter_ok j t t' used l" "0 \<le> rl_burst l" "0 \<le> rl_per_second l" "t \<le> t'"
  shows "real used \<le> rl_burst l + rl_per_second l * in_seconds (t' - t)"
  using assms bucket_ok_bound [of "rl_burst l" "rl_per_second l" t used "rl_buckets l ! j" t']
  by (auto simp: limiter_ok_def Let_def split: if_split_asm)

lemma granted_count_bound:
  assumes "limiter_ok j t t' used l" "0 \<le> rl_burst l" "0 \<le> rl_per_second l" "t \<le> t'"
    and "\<forall>(source, now) \<in> set events. t \<le> now \<and> now \<le> t'"
  shows "real (used + granted_count j l events) \<le> rl_burst l + rl_per_second l * in_seconds (t' - t)"
  using assms
proof (induction events arbitrary: l used)
  case Nil
  then show ?case using limiter_ok_bound by (simp add: granted_count_simps)
next
  case (Cons event events)
  obtain s now where event: "event = (s, now)" by (cases event)
  obtain g l' where a: "allow l s now = (g, l')" by (cases "allow l s now")
  have l': "rl_burst l' = rl_burst l" "rl_per_second l' = rl_per_second l" using allow_frame [of l s now] a by auto
  have "limiter_ok j t t' (if g \<and> index_of s = j then Suc used else used) l'"
    using allow_same [OF Cons.prems(1-3) _ _ _ a] allow_other [OF _ Cons.prems(1), of s now] Cons.prems(5)
    by (cases "index_of s = j") (auto simp: event a)
  from Cons.IH [OF this] Cons.prems show ?case
    by (auto simp: event a l' granted_count_simps split: if_split_asm)
qed



lemma global_limiter_ok:
  assumes "bucket_ok capacity rate t used (gl_bucket g)" "0 \<le> rate" "t \<le> now"
    and "global_allow g now = (granted, g')"
  shows "bucket_ok capacity rate t (if granted then Suc used else used) (gl_bucket g')"
proof -
  obtain b where "consume (gl_bucket g) now 1 = (granted, b)" "g' = g\<lparr>gl_bucket := b\<rparr>"
    using assms(4) by (auto simp: global_allow_def split: prod.splits)
  then show ?thesis using consume_ok [OF assms(1-3)] by simp
qed

end
