(* ===== verification/Load_Monitor.thy ===== *)
theory Load_Monitor
  imports Rate_Limit
begin

text \<open>
  The load monitor (src/load_monitor.cpp): smoothed handshake rate, queue and pending fractions and
  completion ratio, and the three-valued load state with hysteresis. Doubles are real numbers.
\<close>

datatype LoadState = load_normal | load_elevated | load_overloaded

definition load_state_name :: "LoadState \<Rightarrow> string" where
  "load_state_name s = (case s of load_normal \<Rightarrow> ''normal'' | load_elevated \<Rightarrow> ''elevated''
     | load_overloaded \<Rightarrow> ''overloaded'')"

record LoadSample =
  ls_handshakes_received :: u64
  ls_handshakes_completed :: u64
  ls_queue_depth :: nat
  ls_queue_capacity :: nat
  ls_pending_handshakes :: nat
  ls_pending_capacity :: nat

record LoadThresholds =
  lt_handshakes_per_second_high :: real
  lt_handshakes_per_second_low :: real
  lt_queue_fraction_high :: real
  lt_queue_fraction_low :: real
  lt_pending_fraction_high :: real
  lt_pending_fraction_low :: real
  lt_completion_ratio_low :: real
  lt_completion_ratio_minimum :: u64

definition default_thresholds :: LoadThresholds where
  "default_thresholds = \<lparr>lt_handshakes_per_second_high = 50, lt_handshakes_per_second_low = 20,
     lt_queue_fraction_high = 60 / 100, lt_queue_fraction_low = 30 / 100,
     lt_pending_fraction_high = 50 / 100, lt_pending_fraction_low = 20 / 100,
     lt_completion_ratio_low = 25 / 100, lt_completion_ratio_minimum = 20\<rparr>"

record LoadMonitor =
  lm_thresholds :: LoadThresholds
  lm_state :: LoadState
  lm_last :: instant
  lm_last_received :: u64
  lm_last_completed :: u64
  lm_primed :: bool
  lm_handshake_rate :: real
  lm_queue_fraction :: real
  lm_pending_fraction :: real
  lm_completion_ratio :: real
  lm_transitions :: u64

definition new_monitor :: "LoadThresholds \<Rightarrow> LoadMonitor" where
  "new_monitor thresholds = \<lparr>lm_thresholds = thresholds, lm_state = load_normal, lm_last = 0,
     lm_last_received = 0, lm_last_completed = 0, lm_primed = False, lm_handshake_rate = 0,
     lm_queue_fraction = 0, lm_pending_fraction = 0, lm_completion_ratio = 1, lm_transitions = 0\<rparr>"

definition kSmoothing :: real where "kSmoothing = 33 / 100"

definition smooth :: "real \<Rightarrow> real \<Rightarrow> real" where
  "smooth previous sample = previous + kSmoothing * (sample - previous)"

definition fraction_of :: "nat \<Rightarrow> nat \<Rightarrow> real" where
  "fraction_of used capacity = (if capacity = 0 then 0 else real used / real capacity)"

definition any_high :: "LoadMonitor \<Rightarrow> bool" where
  "any_high m =
     (if lm_handshake_rate m \<ge> lt_handshakes_per_second_high (lm_thresholds m) then True
      else if lm_queue_fraction m \<ge> lt_queue_fraction_high (lm_thresholds m) then True
      else if lm_pending_fraction m \<ge> lt_pending_fraction_high (lm_thresholds m) then True
      else False)"

definition all_low :: "LoadMonitor \<Rightarrow> bool" where
  "all_low m \<longleftrightarrow> lm_handshake_rate m \<le> lt_handshakes_per_second_low (lm_thresholds m) \<and>
     lm_queue_fraction m \<le> lt_queue_fraction_low (lm_thresholds m) \<and>
     lm_pending_fraction m \<le> lt_pending_fraction_low (lm_thresholds m)"

definition observe_rates :: "LoadMonitor \<Rightarrow> LoadSample \<Rightarrow> instant \<Rightarrow> LoadMonitor" where
  "observe_rates m sample now =
     (let elapsed = in_seconds (now - lm_last m)
      in if elapsed > 0
      then let received = (if ls_handshakes_received sample \<ge> lm_last_received m
                           then ls_handshakes_received sample - lm_last_received m else 0);
               completed = (if ls_handshakes_completed sample \<ge> lm_last_completed m
                            then ls_handshakes_completed sample - lm_last_completed m else 0);
               m = m\<lparr>lm_handshake_rate := smooth (lm_handshake_rate m) (real (unat received) / elapsed)\<rparr>;
               m = (if received \<ge> lt_completion_ratio_minimum (lm_thresholds m)
                    then m\<lparr>lm_completion_ratio := smooth (lm_completion_ratio m)
                            (real (unat completed) / real (unat received))\<rparr>
                    else m)
      in m\<lparr>lm_last := now, lm_last_received := ls_handshakes_received sample,
           lm_last_completed := ls_handshakes_completed sample\<rparr>
      else m)"

definition suspicious_pattern :: "LoadMonitor \<Rightarrow> bool" where
  "suspicious_pattern m \<longleftrightarrow> lm_handshake_rate m \<ge> lt_handshakes_per_second_low (lm_thresholds m) \<and>
     lm_completion_ratio m < lt_completion_ratio_low (lm_thresholds m)"

definition observe :: "LoadMonitor \<Rightarrow> LoadSample \<Rightarrow> instant \<Rightarrow> LoadMonitor" where
  "observe m sample now =
     (let m = m\<lparr>lm_queue_fraction := smooth (lm_queue_fraction m)
                  (fraction_of (ls_queue_depth sample) (ls_queue_capacity sample)),
                lm_pending_fraction := smooth (lm_pending_fraction m)
                  (fraction_of (ls_pending_handshakes sample) (ls_pending_capacity sample))\<rparr>
      in if \<not> lm_primed m
      then m\<lparr>lm_primed := True, lm_last := now, lm_last_received := ls_handshakes_received sample,
             lm_last_completed := ls_handshakes_completed sample\<rparr>
      else let m = observe_rates m sample now;
               previous = lm_state m;
               m = m\<lparr>lm_state :=
                  (if any_high m \<or> suspicious_pattern m then load_overloaded
                   else if all_low m then load_normal
                   else if lm_state m = load_overloaded then load_overloaded else load_elevated)\<rparr>
      in if lm_state m \<noteq> previous then m\<lparr>lm_transitions := lm_transitions m + 1\<rparr> else m)"

definition under_load :: "LoadMonitor \<Rightarrow> bool" where
  "under_load m = (lm_state m = load_overloaded)"

subsection \<open>Hysteresis\<close>

lemma load_transitions:
  assumes "lm_primed m" and m'_def: "m' = observe m sample now"
  shows "under_load m \<Longrightarrow> \<not> under_load m' \<Longrightarrow> all_low m' \<and> \<not> any_high m'"
    "\<not> under_load m \<Longrightarrow> under_load m' \<Longrightarrow> any_high m' \<or> suspicious_pattern m'"
proof -
  define m1 where "m1 = observe_rates (m\<lparr>lm_queue_fraction := smooth (lm_queue_fraction m)
       (fraction_of (ls_queue_depth sample) (ls_queue_capacity sample)),
     lm_pending_fraction := smooth (lm_pending_fraction m)
       (fraction_of (ls_pending_handshakes sample) (ls_pending_capacity sample))\<rparr>) sample now"
  have st: "lm_state m1 = lm_state m" by (simp add: m1_def observe_rates_def Let_def)
  have same: "any_high m' = any_high m1" "all_low m' = all_low m1"
    "suspicious_pattern m' = suspicious_pattern m1"
    using assms(1) by (simp_all add: m'_def observe_def m1_def [symmetric] Let_def any_high_def all_low_def
        suspicious_pattern_def)
  have state: "lm_state m' = (if any_high m1 \<or> suspicious_pattern m1 then load_overloaded
      else if all_low m1 then load_normal
      else if lm_state m = load_overloaded then load_overloaded else load_elevated)"
    using assms(1) st by (simp add: m'_def observe_def m1_def [symmetric] Let_def)
  show "under_load m \<Longrightarrow> \<not> under_load m' \<Longrightarrow> all_low m' \<and> \<not> any_high m'"
    "\<not> under_load m \<Longrightarrow> under_load m' \<Longrightarrow> any_high m' \<or> suspicious_pattern m'"
    unfolding same by (auto simp: under_load_def state split: if_split_asm)
qed

lemma smooth_bounds:
  assumes "0 \<le> a" "a \<le> 1" "0 \<le> b" "b \<le> 1"
  shows "0 \<le> smooth a b" "smooth a b \<le> 1"
proof -
  have "smooth a b = (67 / 100) * a + (33 / 100) * b" by (simp add: smooth_def kSmoothing_def field_simps)
  then show "0 \<le> smooth a b" "smooth a b \<le> 1" using assms by linarith+
qed

lemma observe_fractions:
  assumes "0 \<le> lm_queue_fraction m" "lm_queue_fraction m \<le> 1" "0 \<le> lm_pending_fraction m"
    "lm_pending_fraction m \<le> 1" "ls_queue_depth sample \<le> ls_queue_capacity sample"
    "ls_pending_handshakes sample \<le> ls_pending_capacity sample"
  shows "0 \<le> lm_queue_fraction (observe m sample now)" "lm_queue_fraction (observe m sample now) \<le> 1"
    "0 \<le> lm_pending_fraction (observe m sample now)" "lm_pending_fraction (observe m sample now) \<le> 1"
proof -
  have f: "0 \<le> fraction_of a b" "a \<le> b \<Longrightarrow> fraction_of a b \<le> 1" for a b
    by (simp_all add: fraction_of_def)
  have "lm_queue_fraction (observe m sample now) =
      smooth (lm_queue_fraction m) (fraction_of (ls_queue_depth sample) (ls_queue_capacity sample))"
    "lm_pending_fraction (observe m sample now) =
      smooth (lm_pending_fraction m) (fraction_of (ls_pending_handshakes sample) (ls_pending_capacity sample))"
    by (simp_all add: observe_def observe_rates_def Let_def)
  then show "0 \<le> lm_queue_fraction (observe m sample now)" "lm_queue_fraction (observe m sample now) \<le> 1"
    "0 \<le> lm_pending_fraction (observe m sample now)" "lm_pending_fraction (observe m sample now) \<le> 1"
    using assms smooth_bounds f by auto
qed

end
