(* ===== verification/Handshake_Frame.thy ===== *)
theory Handshake_Frame
  imports Wire Handshake
begin

text \<open>
  The envelope of a handshake message (src/handshake_frame.cpp): message number, version and length,
  then the Noise message, then optionally the two message authentication codes of the cookie
  mechanism.
\<close>

definition kHandshakeEnvelopeSize :: nat where "kHandshakeEnvelopeSize = 4"
definition kMaximumHandshakePayload :: nat where "kMaximumHandshakePayload = 4096"
definition kHandshakeMacSize :: nat where "kHandshakeMacSize = 16"
definition kHandshakeMacTrailerSize :: nat where "kHandshakeMacTrailerSize = 2 * kHandshakeMacSize"

lemmas handshake_frame_consts = kHandshakeEnvelopeSize_def kMaximumHandshakePayload_def
  kHandshakeMacSize_def kHandshakeMacTrailerSize_def

record HandshakeFrameView =
  hf_message :: HandshakeMessage
  hf_noise_message :: bytes
  hf_has_macs :: bool
  hf_mac1 :: bytes
  hf_mac2 :: bytes
  hf_mac1_covered :: bytes
  hf_mac2_covered :: bytes

definition is_wire_message :: "HandshakeMessage \<Rightarrow> bool" where
  "is_wire_message m \<longleftrightarrow> m \<ge> hm_init \<and> m \<le> hm_cookie_reply"

definition mac1_offset :: "nat \<Rightarrow> nat" where
  "mac1_offset noise_length = kHandshakeEnvelopeSize + noise_length"

definition mac2_offset :: "nat \<Rightarrow> nat" where
  "mac2_offset noise_length = mac1_offset noise_length + kHandshakeMacSize"

definition parse_handshake_frame :: "bytes \<Rightarrow> Error + HandshakeFrameView" where
  "parse_handshake_frame b =
     (if length b < kHandshakeEnvelopeSize then Inl malformed_packet
      else let message = uint (b ! 0); version = b ! 1; len = unat (read_u16 b 2)
      in if version \<noteq> 1 then Inl unsupported_version
      else if \<not> is_wire_message message then Inl malformed_packet
      else if len > kMaximumHandshakePayload then Inl packet_too_large
      else let without_header = length b - kHandshakeEnvelopeSize
      in if len = without_header
      then Inr \<lparr>hf_message = message, hf_noise_message = drop kHandshakeEnvelopeSize b,
                hf_has_macs = False, hf_mac1 = [], hf_mac2 = [], hf_mac1_covered = [],
                hf_mac2_covered = []\<rparr>
      else if len + kHandshakeMacTrailerSize \<noteq> without_header then Inl payload_length_mismatch
      else let first = mac1_offset len; second = mac2_offset len
      in Inr \<lparr>hf_message = message, hf_noise_message = take len (drop kHandshakeEnvelopeSize b),
              hf_has_macs = True, hf_mac1 = take kHandshakeMacSize (drop first b),
              hf_mac2 = take kHandshakeMacSize (drop second b),
              hf_mac1_covered = take first b, hf_mac2_covered = take second b\<rparr>)"

definition serialize_handshake_frame :: "HandshakeMessage \<Rightarrow> bytes \<Rightarrow> Error + bytes" where
  "serialize_handshake_frame message noise_message =
     (if \<not> is_wire_message message then Inl malformed_packet
      else if length noise_message > kMaximumHandshakePayload then Inl packet_too_large
      else let b = replicate (kHandshakeEnvelopeSize + length noise_message) 0;
               b = b[0 := word_of_int message, 1 := 1];
               len = of_nat (length noise_message) :: u16;
               b = b[2 := ucast (drop_bit 8 len), 3 := ucast len]
           in Inr (copy_to b kHandshakeEnvelopeSize noise_message))"

definition serialize_handshake_frame_with_macs ::
    "HandshakeMessage \<Rightarrow> bytes \<Rightarrow> Error + bytes" where
  "serialize_handshake_frame_with_macs message noise_message =
     (case serialize_handshake_frame message noise_message of
        Inl e \<Rightarrow> Inl e
      | Inr b \<Rightarrow> Inr (b @ replicate kHandshakeMacTrailerSize 0))"

subsection \<open>The envelope as a byte string\<close>

definition envelope :: "HandshakeMessage \<Rightarrow> nat \<Rightarrow> bytes" where
  "envelope message n = [word_of_int message, 1] @ to_be 2 (of_nat n :: u16)"

lemma length_envelope [simp]: "length (envelope message n) = 4"
  by (simp add: envelope_def)

lemma serialize_handshake_frame_ok:
  "serialize_handshake_frame message noise = Inr b \<longleftrightarrow>
     is_wire_message message \<and> length noise \<le> 4096 \<and> b = envelope message (length noise) @ noise"
proof -
  have "copy_to ((replicate (4 + length noise) 0)
          [0 := word_of_int message, 1 := 1, 2 := ucast (drop_bit 8 len), 3 := ucast len]) 4 noise =
        [word_of_int message, 1, ucast (drop_bit 8 len), ucast len] @ noise" for len :: u16
    by (simp add: copy_to_def numeral_eq_Suc)
  then show ?thesis
    by (auto simp: serialize_handshake_frame_def envelope_def to_be_def upt_2
      handshake_frame_consts Let_def)
qed

lemma read_envelope [wire_simps]:
  "(envelope message n @ p) ! 0 = word_of_int message"
  "(envelope message n @ p) ! Suc 0 = 1"
  "read_u16 (envelope message n @ p) 2 = of_nat n"
  by (simp_all add: read_u16_be) (simp_all add: envelope_def)

lemma uint_message:
  assumes "is_wire_message m"
  shows "uint (word_of_int m :: byte) = m"
  using assms by (simp add: is_wire_message_def unsigned_of_int take_bit_eq_mod)

lemma frame_received:
  assumes "serialize_handshake_frame_with_macs message noise = Inr b"
    and "length mac1 = 16" "length mac2 = 16"
  shows "parse_handshake_frame
           (copy_to (copy_to b (mac1_offset (length noise)) mac1) (mac2_offset (length noise)) mac2) =
         Inr \<lparr>hf_message = message, hf_noise_message = noise, hf_has_macs = True,
              hf_mac1 = mac1, hf_mac2 = mac2, hf_mac1_covered = take (length b - 32) b,
              hf_mac2_covered = take (length b - 32) b @ mac1\<rparr>"
proof -
  obtain f where f: "serialize_handshake_frame message noise = Inr f"
    and b: "b = f @ replicate 32 0"
    using assms(1) by (auto simp: serialize_handshake_frame_with_macs_def handshake_frame_consts
      split: sum.splits)
  then have ok: "is_wire_message message" "length noise \<le> 4096"
    and f': "f = envelope message (length noise) @ noise"
    by (simp_all add: serialize_handshake_frame_ok)
  have "copy_to (copy_to b (mac1_offset (length noise)) mac1) (mac2_offset (length noise)) mac2 =
        envelope message (length noise) @ noise @ mac1 @ mac2"
    using assms(2,3)
    by (simp add: b f' mac1_offset_def mac2_offset_def handshake_frame_consts copy_to_append)
      (simp add: copy_to_def)
  moreover have "unat (of_nat (length noise) :: u16) = length noise"
    using ok(2) by (simp add: unat_of_nat)
  ultimately show ?thesis
    using ok assms(2,3)
    by (simp add: parse_handshake_frame_def wire_simps uint_message handshake_frame_consts
      mac1_offset_def mac2_offset_def b f' Let_def)
qed

text \<open>
  C37: handshake frames survive the wire. A frame that \<^verbatim>\<open>serialize_handshake_frame_with_macs\<close> builds
  and whose two MAC slots are then filled in is parsed as that message with those MACs, and the
  spans the MACs are computed over are exactly the bytes before each of them.
\<close>

theorem parse_serialize_handshake_frame:
  assumes "serialize_handshake_frame_with_macs message noise = Inr b"
    and "length mac1 = 16" "length mac2 = 16"
  shows "parse_handshake_frame
           (copy_to (copy_to b (mac1_offset (length noise)) mac1) (mac2_offset (length noise)) mac2) =
         Inr \<lparr>hf_message = message, hf_noise_message = noise, hf_has_macs = True,
              hf_mac1 = mac1, hf_mac2 = mac2, hf_mac1_covered = take (length b - 32) b,
              hf_mac2_covered = take (length b - 32) b @ mac1\<rparr>"
  using assms by (rule frame_received)

theorem parse_serialize_handshake_frame_witness:
  "parse_handshake_frame ([1, 1, 0, 2, 7, 9] @ replicate 16 3 @ replicate 16 4) =
     Inr \<lparr>hf_message = hm_init, hf_noise_message = [7, 9], hf_has_macs = True,
          hf_mac1 = replicate 16 3, hf_mac2 = replicate 16 4,
          hf_mac1_covered = [1, 1, 0, 2, 7, 9],
          hf_mac2_covered = [1, 1, 0, 2, 7, 9] @ replicate 16 3\<rparr>"
proof -
  have "serialize_handshake_frame hm_init [7, 9] = Inr [1, 1, 0, 2, 7, 9]"
    by (simp add: serialize_handshake_frame_ok is_wire_message_def envelope_def to_be_def upt_2)
  then have b: "serialize_handshake_frame_with_macs hm_init [7, 9] =
          Inr ([1, 1, 0, 2, 7, 9] @ replicate 32 0)"
    by (simp add: serialize_handshake_frame_with_macs_def handshake_frame_consts)
  show ?thesis
    using parse_serialize_handshake_frame [OF b, of "replicate 16 3" "replicate 16 4"]
    by (simp add: copy_to_def mac1_offset_def mac2_offset_def handshake_frame_consts)
qed

end
