(* ===== verification/Capability.thy ===== *)
theory Capability
  imports Norr_Prelude
begin

text \<open>Protocol version and negotiation of capabilities (src/capability.cpp).\<close>

record ProtocolVersion =
  pv_major :: u8
  pv_minor :: u8

definition current_version :: ProtocolVersion where
  "current_version = \<lparr>pv_major = 1, pv_minor = 0\<rparr>"

record CapabilityOffer =
  cap_version :: ProtocolVersion
  cap_supported :: u32
  cap_required :: u32

datatype NegotiationError = major_version_mismatch | required_capability_missing

record NegotiatedCapabilities =
  nc_version :: ProtocolVersion
  nc_enabled :: u32

definition negotiate_capabilities :: "CapabilityOffer \<Rightarrow> CapabilityOffer \<Rightarrow>
    NegotiationError + NegotiatedCapabilities" where
  "negotiate_capabilities local peer =
     (if pv_major (cap_version local) \<noteq> pv_major (cap_version peer) then Inl major_version_mismatch
      else let enabled = cap_supported local AND cap_supported peer;
               required = cap_required local OR cap_required peer
      in if enabled AND required \<noteq> required then Inl required_capability_missing
      else Inr \<lparr>nc_version = \<lparr>pv_major = pv_major (cap_version local),
                  pv_minor = min (pv_minor (cap_version local)) (pv_minor (cap_version peer))\<rparr>,
                nc_enabled = enabled\<rparr>)"

lemma negotiation_symmetric: "negotiate_capabilities a b = negotiate_capabilities b a"
  by (simp add: negotiate_capabilities_def Let_def and.commute or.commute min.commute eq_commute)

lemma negotiated_enabled:
  assumes "negotiate_capabilities a b = Inr n" "bit (nc_enabled n) k"
  shows "bit (cap_supported a) k \<and> bit (cap_supported b) k"
  using assms by (auto simp: negotiate_capabilities_def Let_def bit_and_iff split: if_split_asm)

lemma negotiated_required:
  assumes "negotiate_capabilities a b = Inr n" "bit (cap_required a) k \<or> bit (cap_required b) k"
  shows "bit (nc_enabled n) k"
proof -
  have "(cap_supported a AND cap_supported b) AND (cap_required a OR cap_required b) =
      cap_required a OR cap_required b" "nc_enabled n = cap_supported a AND cap_supported b"
    using assms(1) by (auto simp: negotiate_capabilities_def Let_def split: if_split_asm)
  then show ?thesis using assms(2) by (metis bit_and_iff bit_or_iff)
qed

end
