(* ===== verification/Control_State.thy ===== *)
theory Control_State
  imports Session_Table Noise Cookie Load_Monitor Handshake_Frame Capability
begin

text \<open>
  The state of the control plane (src/control_plane.cpp) and its operations on peers: peers, handshakes this side started (\<^verbatim>\<open>pending_\<close>),
  handshakes it answered (\<^verbatim>\<open>provisional_\<close>) and their promotion to sessions. Hash maps are association
  lists with distinct keys, whose order stands for the iteration order of the map. The session table
  and the timer wheel, which the code reaches through pointers, are fields of the state. What an
  operation reads from its environment, the two clocks and the random bytes it draws, is the record
  \<open>env\<close>.
\<close>

datatype ControlError = cle_unknown_peer | cle_rate_limited | cle_too_many_pending | cle_handshake_failed
  | cle_session_install_failed | cle_invalid_message | cle_not_pending | cle_crypto_unavailable
  | cle_timer_capacity

definition control_error_message :: "ControlError \<Rightarrow> string" where
  "control_error_message e = (case e of
      cle_unknown_peer \<Rightarrow> ''unknown peer''
    | cle_rate_limited \<Rightarrow> ''rate limited''
    | cle_too_many_pending \<Rightarrow> ''too many pending handshakes''
    | cle_handshake_failed \<Rightarrow> ''handshake failed''
    | cle_session_install_failed \<Rightarrow> ''session install failed''
    | cle_invalid_message \<Rightarrow> ''invalid handshake message''
    | cle_not_pending \<Rightarrow> ''no pending handshake for this peer''
    | cle_crypto_unavailable \<Rightarrow> ''crypto backend not available''
    | cle_timer_capacity \<Rightarrow> ''timer capacity reached'')"

record PeerConfig =
  pc_id :: PeerId
  pc_static_public :: bytes
  pc_preshared :: bytes
  pc_endpoint :: "Endpoint option"

record ControlStats =
  cs_handshakes_started :: u64
  cs_handshakes_completed :: u64
  cs_handshakes_failed :: u64
  cs_handshakes_timed_out :: u64
  cs_retries :: u64
  cs_rate_limited :: u64
  cs_pending_rejected :: u64
  cs_responder_handshakes :: u64
  cs_provisional_promoted :: u64
  cs_cookies_issued :: u64
  cs_cookies_accepted :: u64
  cs_mac1_failures :: u64
  cs_mac2_failures :: u64
  cs_replayed_initiations :: u64

definition no_stats :: ControlStats where
  "no_stats = \<lparr>cs_handshakes_started = 0, cs_handshakes_completed = 0, cs_handshakes_failed = 0,
     cs_handshakes_timed_out = 0, cs_retries = 0, cs_rate_limited = 0, cs_pending_rejected = 0,
     cs_responder_handshakes = 0, cs_provisional_promoted = 0, cs_cookies_issued = 0,
     cs_cookies_accepted = 0, cs_mac1_failures = 0, cs_mac2_failures = 0, cs_replayed_initiations = 0\<rparr>"

record OutgoingHandshake =
  oh_destination :: Endpoint
  oh_datagram :: bytes

definition kMaximumPending :: nat where "kMaximumPending = 256"

record Pending =
  pe_peer :: PeerId
  pe_handshake :: "NoiseHandshake option"
  pe_local_key_id :: u16
  pe_attempt :: u32
  pe_destination :: Endpoint
  pe_started :: instant
  pe_cookies :: "CookieHolder option"
  pe_last_mac1 :: bytes

record Provisional =
  pr_peer :: PeerId
  pr_local_key_id :: u16
  pr_remote_key_id :: u16
  pr_result :: NoiseResult
  pr_endpoint :: Endpoint
  pr_created :: instant

record ControlPlane =
  cp_local_static :: KeyPair
  cp_sessions :: SessionTable
  cp_timers :: TimerWheel
  cp_peers :: "(PeerId \<times> PeerConfig) list"
  cp_pending :: "(PeerId \<times> Pending) list"
  cp_provisional :: "(u16 \<times> Provisional) list"
  cp_keepalive_due :: "PeerId list"
  cp_rekey_after :: duration
  cp_greatest_timestamp :: "(PeerId \<times> u64) list"
  cp_learned_endpoint :: "(PeerId \<times> Endpoint) list"
  cp_rate_limiter :: SourceRateLimiter
  cp_global_limiter :: GlobalLimiter
  cp_issuer :: CookieIssuer
  cp_load_monitor :: LoadMonitor
  cp_handshakes_seen :: u64
  cp_stats :: ControlStats

definition new_control_plane :: "KeyPair \<Rightarrow> SessionTable \<Rightarrow> TimerWheel \<Rightarrow> ControlPlane" where
  "new_control_plane local_static sessions timers =
     \<lparr>cp_local_static = local_static, cp_sessions = sessions, cp_timers = timers, cp_peers = [],
      cp_pending = [], cp_provisional = [], cp_keepalive_due = [], cp_rekey_after = kRekeyAfter,
      cp_greatest_timestamp = [], cp_learned_endpoint = [], cp_rate_limiter = new_limiter 8 2,
      cp_global_limiter = new_global_limiter 256 64 0, cp_issuer = new_issuer (kp_public local_static),
      cp_load_monitor = new_monitor default_thresholds, cp_handshakes_seen = 0, cp_stats = no_stats\<rparr>"

text \<open>
  \<open>ev_clock\<close> is the steady clock the code reads itself, \<open>ev_timestamp\<close> the system clock in
  nanoseconds, \<open>ev_ephemeral\<close> the private key of an ephemeral pair, \<open>ev_secret\<close> and \<open>ev_secret'\<close> what
  the first and the second refresh of the cookie secret would draw, \<open>ev_nonce\<close> the cookie nonce.
\<close>

record env =
  ev_clock :: instant
  ev_timestamp :: u64
  ev_ephemeral :: bytes
  ev_secret :: bytes
  ev_secret' :: bytes
  ev_nonce :: bytes

definition bump :: "(ControlStats \<Rightarrow> ControlStats) \<Rightarrow> ControlPlane \<Rightarrow> ControlPlane" where
  "bump f cp = cp\<lparr>cp_stats := f (cp_stats cp)\<rparr>"

definition cancel_timer :: "TimerKind \<Rightarrow> u32 \<Rightarrow> ControlPlane \<Rightarrow> ControlPlane" where
  "cancel_timer kind subject cp = cp\<lparr>cp_timers := snd (cancel (cp_timers cp) kind subject)\<rparr>"

definition schedule_timer :: "TimerKind \<Rightarrow> u32 \<Rightarrow> instant \<Rightarrow> ControlPlane \<Rightarrow> ControlPlane" where
  "schedule_timer kind subject due cp = cp\<lparr>cp_timers := snd (schedule (cp_timers cp) kind subject due)\<rparr>"

subsection \<open>Payload of the handshake messages\<close>

definition kHandshakePayloadSize :: nat where "kHandshakePayloadSize = 16"

definition build_payload :: "ProtocolVersion \<Rightarrow> u32 \<Rightarrow> u16 \<Rightarrow> u64 \<Rightarrow> bytes" where
  "build_payload version capabilities key_id timestamp =
     (let payload = replicate 16 0;
          payload = payload[0 := pv_major version, 1 := pv_minor version,
            2 := ucast (drop_bit 24 capabilities AND 255), 3 := ucast (drop_bit 16 capabilities AND 255),
            4 := ucast (drop_bit 8 capabilities AND 255), 5 := ucast (capabilities AND 255),
            6 := ucast (drop_bit 8 key_id AND 255), 7 := ucast (key_id AND 255)]
      in fold (\<lambda>index payload. payload[8 + index := ucast (drop_bit ((7 - index) * 8) timestamp AND 255)])
           [0..<8] payload)"

definition payload_timestamp :: "bytes \<Rightarrow> u64" where
  "payload_timestamp payload =
     (if length payload < 16 then 0
      else fold (\<lambda>index value. push_bit 8 value OR ucast (payload ! (8 + index))) [0..<8] 0)"

definition payload_key_id :: "bytes \<Rightarrow> u16" where
  "payload_key_id payload =
     (if length payload < 8 then kPreSessionKeyId
      else push_bit 8 (ucast (payload ! 6)) OR ucast (payload ! 7))"

subsection \<open>Peers\<close>

definition add_peer :: "ControlPlane \<Rightarrow> PeerConfig \<Rightarrow> (ControlError + unit) \<times> ControlPlane" where
  "add_peer cp peer =
     (if pc_id peer = kNoPeer then (Inl cle_unknown_peer, cp)
      else (Inr (), cp\<lparr>cp_peers := AList.update (pc_id peer) peer (cp_peers cp)\<rparr>))"

definition find_peer :: "ControlPlane \<Rightarrow> PeerId \<Rightarrow> PeerConfig option" where
  "find_peer cp peer = map_of (cp_peers cp) peer"

definition forget_peer :: "ControlPlane \<Rightarrow> PeerId \<Rightarrow> ControlPlane" where
  "forget_peer cp peer =
     (let cp = cp\<lparr>cp_peers := AList.delete peer (cp_peers cp),
                  cp_pending := AList.delete peer (cp_pending cp),
                  cp_greatest_timestamp := AList.delete peer (cp_greatest_timestamp cp),
                  cp_learned_endpoint := AList.delete peer (cp_learned_endpoint cp)\<rparr>;
          cp = cancel_timer handshake_timeout peer cp;
          cp = cancel_timer handshake_retry peer cp;
          cp = cancel_timer rekey peer cp;
          cp = cancel_timer keepalive peer cp;
          cp = fold (\<lambda>(key_id, entry) cp.
                 if pr_peer entry \<noteq> peer then cp
                 else cancel_timer provisional_timeout (ucast key_id) cp) (cp_provisional cp) cp;
          cp = cp\<lparr>cp_provisional := filter (\<lambda>(key_id, entry). pr_peer entry \<noteq> peer) (cp_provisional cp)\<rparr>
      in cp\<lparr>cp_keepalive_due := filter (\<lambda>p. p \<noteq> peer) (cp_keepalive_due cp)\<rparr>)"

definition dial_endpoint :: "ControlPlane \<Rightarrow> PeerId \<Rightarrow> Endpoint option" where
  "dial_endpoint cp peer =
     (case find_peer cp peer of
        None \<Rightarrow> None
      | Some config \<Rightarrow>
          (case pc_endpoint config of
             Some e \<Rightarrow> Some e
           | None \<Rightarrow> map_of (cp_learned_endpoint cp) peer))"

definition set_rekey_after :: "ControlPlane \<Rightarrow> duration \<Rightarrow> ControlPlane" where
  "set_rekey_after cp interval = cp\<lparr>cp_rekey_after := interval\<rparr>"

definition cp_set_under_load :: "ControlPlane \<Rightarrow> bool \<Rightarrow> ControlPlane" where
  "cp_set_under_load cp v = cp\<lparr>cp_issuer := set_under_load (cp_issuer cp) v\<rparr>"

definition take_expired_keepalives :: "ControlPlane \<Rightarrow> PeerId list \<times> ControlPlane" where
  "take_expired_keepalives cp = (cp_keepalive_due cp, cp\<lparr>cp_keepalive_due := []\<rparr>)"

subsection \<open>What counters and timers leave alone\<close>

lemma bump_simps [simp]:
  "cp_local_static (bump f cp) = cp_local_static cp"
  "cp_sessions (bump f cp) = cp_sessions cp"
  "cp_timers (bump f cp) = cp_timers cp"
  "cp_peers (bump f cp) = cp_peers cp"
  "cp_pending (bump f cp) = cp_pending cp"
  "cp_provisional (bump f cp) = cp_provisional cp"
  "cp_keepalive_due (bump f cp) = cp_keepalive_due cp"
  "cp_rekey_after (bump f cp) = cp_rekey_after cp"
  "cp_greatest_timestamp (bump f cp) = cp_greatest_timestamp cp"
  "cp_learned_endpoint (bump f cp) = cp_learned_endpoint cp"
  "cp_rate_limiter (bump f cp) = cp_rate_limiter cp"
  "cp_global_limiter (bump f cp) = cp_global_limiter cp"
  "cp_issuer (bump f cp) = cp_issuer cp"
  "cp_load_monitor (bump f cp) = cp_load_monitor cp"
  "cp_handshakes_seen (bump f cp) = cp_handshakes_seen cp"
  by (simp_all add: bump_def)

lemma bump_stats [simp]: "cp_stats (bump f cp) = f (cp_stats cp)"
  by (simp add: bump_def)

lemma cancel_timer_simps [simp]:
  "cp_local_static (cancel_timer kind subject cp) = cp_local_static cp"
  "cp_sessions (cancel_timer kind subject cp) = cp_sessions cp"
  "cp_peers (cancel_timer kind subject cp) = cp_peers cp"
  "cp_pending (cancel_timer kind subject cp) = cp_pending cp"
  "cp_provisional (cancel_timer kind subject cp) = cp_provisional cp"
  "cp_keepalive_due (cancel_timer kind subject cp) = cp_keepalive_due cp"
  "cp_rekey_after (cancel_timer kind subject cp) = cp_rekey_after cp"
  "cp_greatest_timestamp (cancel_timer kind subject cp) = cp_greatest_timestamp cp"
  "cp_learned_endpoint (cancel_timer kind subject cp) = cp_learned_endpoint cp"
  "cp_rate_limiter (cancel_timer kind subject cp) = cp_rate_limiter cp"
  "cp_global_limiter (cancel_timer kind subject cp) = cp_global_limiter cp"
  "cp_issuer (cancel_timer kind subject cp) = cp_issuer cp"
  "cp_load_monitor (cancel_timer kind subject cp) = cp_load_monitor cp"
  "cp_handshakes_seen (cancel_timer kind subject cp) = cp_handshakes_seen cp"
  "cp_stats (cancel_timer kind subject cp) = cp_stats cp"
  by (simp_all add: cancel_timer_def)

lemma schedule_timer_simps [simp]:
  "cp_local_static (schedule_timer kind subject due cp) = cp_local_static cp"
  "cp_sessions (schedule_timer kind subject due cp) = cp_sessions cp"
  "cp_peers (schedule_timer kind subject due cp) = cp_peers cp"
  "cp_pending (schedule_timer kind subject due cp) = cp_pending cp"
  "cp_provisional (schedule_timer kind subject due cp) = cp_provisional cp"
  "cp_keepalive_due (schedule_timer kind subject due cp) = cp_keepalive_due cp"
  "cp_rekey_after (schedule_timer kind subject due cp) = cp_rekey_after cp"
  "cp_greatest_timestamp (schedule_timer kind subject due cp) = cp_greatest_timestamp cp"
  "cp_learned_endpoint (schedule_timer kind subject due cp) = cp_learned_endpoint cp"
  "cp_rate_limiter (schedule_timer kind subject due cp) = cp_rate_limiter cp"
  "cp_global_limiter (schedule_timer kind subject due cp) = cp_global_limiter cp"
  "cp_issuer (schedule_timer kind subject due cp) = cp_issuer cp"
  "cp_load_monitor (schedule_timer kind subject due cp) = cp_load_monitor cp"
  "cp_handshakes_seen (schedule_timer kind subject due cp) = cp_handshakes_seen cp"
  "cp_stats (schedule_timer kind subject due cp) = cp_stats cp"
  by (simp_all add: schedule_timer_def)

end
