(* ===== verification/Control_Plane.thy ===== *)
theory Control_Plane
  imports Control_State
begin

text \<open>
  The handshake operations of the control plane (src/control_plane.cpp): starting and retrying a
  handshake, answering one, completing one, promoting an answered one to a session, and timers. A
  failed operation returns the state with the changes it made before it failed.
\<close>

subsection \<open>Starting a handshake\<close>

definition build_initiation :: "sodium \<Rightarrow> env \<Rightarrow> ControlPlane \<Rightarrow> Pending \<Rightarrow> instant \<Rightarrow>
    (ControlError + OutgoingHandshake) \<times> Pending \<times> ControlPlane" where
  "build_initiation lib env cp entry now =
     (case find_peer cp (pe_peer entry) of
        None \<Rightarrow> (Inl cle_unknown_peer, entry, cp)
      | Some config \<Rightarrow>
     (case create lib role_initiator (cp_local_static cp) (pc_static_public config) (pc_preshared config) [] of
        Inl e \<Rightarrow> (Inl (if e = ne_unsupported_platform then cle_crypto_unavailable else cle_handshake_failed),
                    entry, cp)
      | Inr handshake \<Rightarrow>
     (let payload = build_payload current_version 0 (pe_local_key_id entry) (ev_timestamp env);
          message = replicate (kNoiseMessage1Overhead + length payload) 0
      in case write_message_1 lib (ev_ephemeral env) handshake payload message of
        (Inl e, message, handshake) \<Rightarrow> (Inl cle_handshake_failed, entry, cp)
      | (Inr written, message, handshake) \<Rightarrow>
     (case serialize_handshake_frame_with_macs hm_init (take written message) of
        Inl e \<Rightarrow> (Inl cle_handshake_failed, entry, cp)
      | Inr frame \<Rightarrow>
     (let cookies = (case pe_cookies entry of None \<Rightarrow> new_holder (pc_static_public config) | Some c \<Rightarrow> c);
          entry = entry\<lparr>pe_cookies := Some cookies\<rparr>;
          mac1 = holder_mac1 cookies (take (mac1_offset written) frame);
          frame = copy_to frame (mac1_offset written) mac1;
          entry = entry\<lparr>pe_last_mac1 := mac1\<rparr>;
          mac2 = holder_mac2 cookies (take (mac2_offset written) frame);
          frame = copy_to frame (mac2_offset written) mac2;
          entry = entry\<lparr>pe_handshake := Some handshake, pe_started := now\<rparr>
      in case schedule (cp_timers cp) handshake_timeout (pe_peer entry) (now + kHandshakeTimeout) of
        (False, timers) \<Rightarrow> (Inl cle_timer_capacity, entry, cp\<lparr>cp_timers := timers\<rparr>)
      | (True, timers) \<Rightarrow>
     (case schedule timers handshake_retry (pe_peer entry) (now + retry_backoff (pe_attempt entry)) of
        (False, timers) \<Rightarrow> (Inl cle_timer_capacity, entry, cp\<lparr>cp_timers := timers\<rparr>)
      | (True, timers) \<Rightarrow>
          (Inr \<lparr>oh_destination = pe_destination entry, oh_datagram = frame\<rparr>, entry,
           cp\<lparr>cp_timers := timers\<rparr>)))))))"

primrec key_id_loop :: "nat \<Rightarrow> ControlPlane \<Rightarrow> (ControlError + u16) \<times> ControlPlane" where
  "key_id_loop 0 cp = (Inl cle_session_install_failed, cp)"
| "key_id_loop (Suc n) cp =
     (case allocate_key_id (cp_sessions cp) of
        (Inl e, t) \<Rightarrow> (Inl cle_session_install_failed, cp\<lparr>cp_sessions := t\<rparr>)
      | (Inr candidate, t) \<Rightarrow>
          let cp = cp\<lparr>cp_sessions := t\<rparr>
          in if map_of (cp_provisional cp) candidate \<noteq> None then key_id_loop n cp
          else if list_ex (\<lambda>(peer, entry). pe_local_key_id entry = candidate) (cp_pending cp)
          then key_id_loop n cp
          else (Inr candidate, cp))"

definition cp_allocate_key_id :: "ControlPlane \<Rightarrow> (ControlError + u16) \<times> ControlPlane" where
  "cp_allocate_key_id cp = key_id_loop (kMaximumPending * 2 + 2) cp"

definition start_handshake :: "sodium \<Rightarrow> env \<Rightarrow> ControlPlane \<Rightarrow> PeerId \<Rightarrow> instant \<Rightarrow>
    (ControlError + OutgoingHandshake) \<times> ControlPlane" where
  "start_handshake lib env cp peer now =
     (if \<not> crypto_available lib then (Inl cle_crypto_unavailable, cp)
      else if find_peer cp peer = None then (Inl cle_unknown_peer, cp)
      else case dial_endpoint cp peer of
        None \<Rightarrow> (Inl cle_unknown_peer, cp)
      | Some destination \<Rightarrow>
          if length (cp_pending cp) \<ge> kMaximumPending \<and> map_of (cp_pending cp) peer = None
          then (Inl cle_too_many_pending, bump (cs_pending_rejected_update (\<lambda>n. n + 1)) cp)
          else case cp_allocate_key_id cp of
            (Inl e, cp) \<Rightarrow> (Inl e, cp)
          | (Inr key_id, cp) \<Rightarrow>
              let entry = \<lparr>pe_peer = peer, pe_handshake = None, pe_local_key_id = key_id, pe_attempt = 0,
                    pe_destination = destination, pe_started = 0, pe_cookies = None,
                    pe_last_mac1 = replicate kMacSize 0\<rparr>
              in case build_initiation lib env cp entry now of
                (Inl e, entry, cp) \<Rightarrow> (Inl e, cp)
              | (Inr initiation, entry, cp) \<Rightarrow>
                  (Inr initiation, bump (cs_handshakes_started_update (\<lambda>n. n + 1))
                     (cp\<lparr>cp_pending := AList.update peer entry (cp_pending cp)\<rparr>)))"

definition install_session :: "env \<Rightarrow> ControlPlane \<Rightarrow> PeerId \<Rightarrow> u16 \<Rightarrow> u16 \<Rightarrow> NoiseResult \<Rightarrow> Endpoint \<Rightarrow>
    (ControlError + unit) \<times> ControlPlane" where
  "install_session env cp peer local_key_id remote_key_id result endpoint =
     (let send = \<lparr>tk_key = nr_send result, tk_generation = 0\<rparr>;
          receive = \<lparr>tk_key = nr_receive result, tk_generation = 0\<rparr>
      in case install_keys (cp_sessions cp) peer local_key_id remote_key_id send receive (ev_clock env) of
        (Inl e, t) \<Rightarrow> (Inl cle_session_install_failed, cp\<lparr>cp_sessions := t\<rparr>)
      | (Inr session, t) \<Rightarrow>
          let t = t\<lparr>tb_sessions := AList.update local_key_id
                     (note_authenticated_endpoint session endpoint) (tb_sessions t)\<rparr>;
              cp = cp\<lparr>cp_sessions := t,
                      cp_learned_endpoint := AList.update peer endpoint (cp_learned_endpoint cp)\<rparr>;
              now = ev_clock env;
              cp = cancel_timer handshake_timeout peer cp;
              cp = cancel_timer handshake_retry peer cp;
              cp = cancel_timer rekey peer cp;
              cp = cancel_timer keepalive peer cp;
              cp = (if cp_rekey_after cp > 0 then schedule_timer rekey peer (now + cp_rekey_after cp) cp else cp)
          in (Inr (), schedule_timer keepalive peer (now + kKeepaliveInterval) cp))"

subsection \<open>Datagrams\<close>

fun find_cookie_entry :: "sodium \<Rightarrow> CookieReply \<Rightarrow> instant \<Rightarrow> (PeerId \<times> Pending) list \<Rightarrow>
    (PeerId \<times> Pending) option" where
  "find_cookie_entry lib reply now [] = None"
| "find_cookie_entry lib reply now ((peer_id, entry) # rest) =
     (case pe_cookies entry of
        None \<Rightarrow> find_cookie_entry lib reply now rest
      | Some holder \<Rightarrow>
          (case accept_reply lib holder reply (pe_last_mac1 entry) now of
             (Inl e, holder) \<Rightarrow> find_cookie_entry lib reply now rest
           | (Inr u, holder) \<Rightarrow> Some (peer_id, entry\<lparr>pe_cookies := Some holder\<rparr>)))"

type_synonym handled = "(ControlError + OutgoingHandshake option) \<times> ControlPlane"

definition handle_cookie_reply :: "sodium \<Rightarrow> env \<Rightarrow> ControlPlane \<Rightarrow> HandshakeFrameView \<Rightarrow> instant \<Rightarrow> handled" where
  "handle_cookie_reply lib env cp frame now =
     (case parse_cookie_reply (hf_noise_message frame) of
        Inl e \<Rightarrow> (Inl cle_invalid_message, cp)
      | Inr reply \<Rightarrow>
          (case find_cookie_entry lib reply now (cp_pending cp) of
             None \<Rightarrow> (Inl cle_not_pending, cp)
           | Some (peer_id, entry) \<Rightarrow>
               let cp = bump (cs_cookies_accepted_update (\<lambda>n. n + 1)) cp
               in case build_initiation lib env cp entry now of (retry, entry, cp) \<Rightarrow>
                 let cp = cp\<lparr>cp_pending := AList.update peer_id entry (cp_pending cp)\<rparr>
                 in case retry of Inl e \<Rightarrow> (Inl e, cp) | Inr out \<Rightarrow> (Inr (Some out), cp)))"

definition issue_cookie :: "sodium \<Rightarrow> env \<Rightarrow> ControlPlane \<Rightarrow> Endpoint \<Rightarrow> bytes \<Rightarrow> instant \<Rightarrow> handled" where
  "issue_cookie lib env cp source received_mac1 now =
     (case build_reply lib (ev_secret' env) (ev_nonce env) (cp_issuer cp) source 0 received_mac1 now of
        (cookie_reply, issuer) \<Rightarrow>
          let cp = cp\<lparr>cp_issuer := issuer\<rparr>
          in case cookie_reply of
            Inl e \<Rightarrow> (Inl cle_handshake_failed, cp)
          | Inr reply \<Rightarrow>
              (case serialize_cookie_reply reply (replicate kCookieReplySize 0) of
                 (Inl e, encoded) \<Rightarrow> (Inl cle_handshake_failed, cp)
               | (Inr n, encoded) \<Rightarrow>
                   (case serialize_handshake_frame hm_cookie_reply encoded of
                      Inl e \<Rightarrow> (Inl cle_handshake_failed, cp)
                    | Inr datagram \<Rightarrow>
                        (Inr (Some \<lparr>oh_destination = source, oh_datagram = datagram\<rparr>),
                         bump (cs_cookies_issued_update (\<lambda>n. n + 1)) cp))))"

definition match_peer :: "(PeerId \<times> PeerConfig) list \<Rightarrow> bytes \<Rightarrow> (PeerId \<times> PeerConfig) option" where
  "match_peer peers claimed =
     find (\<lambda>(peer_id, config). constant_time_equal claimed (pc_static_public config)) peers"

text \<open>The answer to an initiation of a known peer, after its replay check: \<open>handshake\<close> has read it.\<close>

definition answer_initiation :: "sodium \<Rightarrow> env \<Rightarrow> ControlPlane \<Rightarrow> Endpoint \<Rightarrow> PeerId \<Rightarrow> PeerConfig \<Rightarrow>
    NoiseHandshake \<Rightarrow> u16 \<Rightarrow> instant \<Rightarrow> handled" where
  "answer_initiation lib env cp source matched_id matched handshake remote_key_id now =
     (case cp_allocate_key_id cp of
        (Inl e, cp) \<Rightarrow> (Inl e, cp)
      | (Inr key_id, cp) \<Rightarrow>
     (let reply_payload = build_payload current_version 0 key_id (ev_timestamp env);
          message = replicate (kNoiseMessage2Overhead + length reply_payload) 0;
          failed = (Inl cle_handshake_failed, bump (cs_handshakes_failed_update (\<lambda>n. n + 1)) cp)
      in case write_message_2 lib (ev_ephemeral env) handshake reply_payload message of
        (Inl e, message, handshake) \<Rightarrow> failed
      | (Inr written, message, handshake) \<Rightarrow>
     (case noise_result handshake of
        Inl e \<Rightarrow> failed
      | Inr completed \<Rightarrow>
          if \<not> constant_time_equal (nr_remote_static completed) (pc_static_public matched) then failed
          else if length (cp_provisional cp) \<ge> kMaximumPending
          then (Inl cle_too_many_pending, bump (cs_pending_rejected_update (\<lambda>n. n + 1)) cp)
          else let cp = cp\<lparr>cp_provisional := AList.update key_id
                       \<lparr>pr_peer = matched_id, pr_local_key_id = key_id, pr_remote_key_id = remote_key_id,
                        pr_result = completed, pr_endpoint = source, pr_created = now\<rparr> (cp_provisional cp)\<rparr>;
                   cp = schedule_timer provisional_timeout (ucast key_id) (now + kHandshakeTimeout) cp
          in case serialize_handshake_frame_with_macs hm_response (take written message) of
            Inl e \<Rightarrow> (Inl cle_handshake_failed, cp)
          | Inr reply \<Rightarrow>
              let mac = issuer_mac1 (cp_issuer cp) (take (mac1_offset written) reply)
              in (Inr (Some \<lparr>oh_destination = source, oh_datagram = copy_to reply (mac1_offset written) mac\<rparr>),
                  bump (cs_responder_handshakes_update (\<lambda>n. n + 1)) cp))))"

definition accept_initiation :: "sodium \<Rightarrow> env \<Rightarrow> ControlPlane \<Rightarrow> Endpoint \<Rightarrow> HandshakeFrameView \<Rightarrow> PeerId \<Rightarrow>
    PeerConfig \<Rightarrow> instant \<Rightarrow> handled" where
  "accept_initiation lib env cp source frame matched_id matched now =
     (case create lib role_responder (cp_local_static cp) (replicate 32 0) (pc_preshared matched) [] of
        Inl e \<Rightarrow> (Inl cle_handshake_failed, cp)
      | Inr handshake \<Rightarrow>
     (case read_message_1 lib handshake (hf_noise_message frame) (replicate kHandshakePayloadSize 0) of
        (Inl e, payload, handshake) \<Rightarrow>
          (Inl cle_handshake_failed, bump (cs_handshakes_failed_update (\<lambda>n. n + 1)) cp)
      | (Inr n, payload, handshake) \<Rightarrow>
          let remote_key_id = payload_key_id payload;
              timestamp = payload_timestamp payload
          in if remote_key_id = kPreSessionKeyId
          then (Inl cle_invalid_message, bump (cs_handshakes_failed_update (\<lambda>n. n + 1)) cp)
          else if (case map_of (cp_greatest_timestamp cp) matched_id of
                     None \<Rightarrow> False | Some seen \<Rightarrow> timestamp \<le> seen)
          then (Inl cle_invalid_message, bump (cs_replayed_initiations_update (\<lambda>n. n + 1)) cp)
          else let cp = cp\<lparr>cp_greatest_timestamp :=
                       AList.update matched_id timestamp (cp_greatest_timestamp cp)\<rparr>
          in answer_initiation lib env cp source matched_id matched handshake remote_key_id now))"

definition identify_initiation :: "sodium \<Rightarrow> env \<Rightarrow> ControlPlane \<Rightarrow> Endpoint \<Rightarrow> HandshakeFrameView \<Rightarrow>
    instant \<Rightarrow> handled" where
  "identify_initiation lib env cp source frame now =
     (case create lib role_responder (cp_local_static cp) (replicate 32 0) (replicate 32 0) [] of
        Inl e \<Rightarrow> (Inl cle_handshake_failed, cp)
      | Inr identify \<Rightarrow>
     (case read_message_1 lib identify (hf_noise_message frame) (replicate kHandshakePayloadSize 0) of
        (Inl e, payload, identify) \<Rightarrow>
          (Inl cle_handshake_failed, bump (cs_handshakes_failed_update (\<lambda>n. n + 1)) cp)
      | (Inr n, payload, identify) \<Rightarrow>
          (case match_peer (cp_peers cp) (nh_remote_static identify) of
             None \<Rightarrow> (Inl cle_unknown_peer, bump (cs_handshakes_failed_update (\<lambda>n. n + 1)) cp)
           | Some (matched_id, matched) \<Rightarrow>
               accept_initiation lib env cp source frame matched_id matched now)))"

definition handle_init :: "sodium \<Rightarrow> env \<Rightarrow> ControlPlane \<Rightarrow> Endpoint \<Rightarrow> HandshakeFrameView \<Rightarrow> instant \<Rightarrow>
    handled" where
  "handle_init lib env cp source frame now =
     (if length (cp_provisional cp) \<ge> kMaximumPending
      then (Inl cle_too_many_pending, bump (cs_pending_rejected_update (\<lambda>n. n + 1)) cp)
      else if \<not> hf_has_macs frame \<or> \<not> verify_mac1 (cp_issuer cp) (hf_mac1_covered frame) (hf_mac1 frame)
      then (Inl cle_invalid_message, bump (cs_mac1_failures_update (\<lambda>n. n + 1)) cp)
      else if ci_under_load (cp_issuer cp)
      then case verify_mac2 lib (ev_secret env) (cp_issuer cp) source (hf_mac2_covered frame)
                  (hf_mac2 frame) now of
             (verified, issuer) \<Rightarrow>
               let cp = cp\<lparr>cp_issuer := issuer\<rparr>
               in if \<not> verified
               then issue_cookie lib env (bump (cs_mac2_failures_update (\<lambda>n. n + 1)) cp) source
                      (hf_mac1 frame) now
               else identify_initiation lib env cp source frame now
      else identify_initiation lib env cp source frame now)"

fun response_loop :: "sodium \<Rightarrow> env \<Rightarrow> HandshakeFrameView \<Rightarrow> Endpoint \<Rightarrow> PeerId list \<Rightarrow> ControlPlane \<Rightarrow>
    handled" where
  "response_loop lib env frame source [] cp =
     (Inl cle_not_pending, bump (cs_handshakes_failed_update (\<lambda>n. n + 1)) cp)"
| "response_loop lib env frame source (peer_id # rest) cp =
     (case map_of (cp_pending cp) peer_id of
        None \<Rightarrow> response_loop lib env frame source rest cp
      | Some entry \<Rightarrow>
     (case (pe_handshake entry, pe_cookies entry) of
        (Some handshake, Some cookies) \<Rightarrow>
          if \<not> constant_time_equal (holder_mac1 cookies (hf_mac1_covered frame)) (hf_mac1 frame)
          then response_loop lib env frame source rest cp
          else (case read_message_2 lib handshake (hf_noise_message frame) (replicate kHandshakePayloadSize 0) of
            (read, payload, handshake) \<Rightarrow>
              let cp = cp\<lparr>cp_pending := AList.update peer_id (entry\<lparr>pe_handshake := Some handshake\<rparr>)
                            (cp_pending cp)\<rparr>
              in case read of
                Inl e \<Rightarrow> response_loop lib env frame source rest cp
              | Inr n \<Rightarrow>
              (case noise_result handshake of
                Inl e \<Rightarrow> response_loop lib env frame source rest cp
              | Inr completed \<Rightarrow>
                  if payload_key_id payload = kPreSessionKeyId
                  then response_loop lib env frame source rest cp
                  else (case install_session env cp peer_id (pe_local_key_id entry) (payload_key_id payload)
                               completed source of
                      (Inl e, cp) \<Rightarrow> (Inl e, cp)
                    | (Inr u, cp) \<Rightarrow>
                        (Inr None, bump (cs_handshakes_completed_update (\<lambda>n. n + 1))
                           (cp\<lparr>cp_pending := AList.delete peer_id (cp_pending cp),
                               cp_keepalive_due := cp_keepalive_due cp @ [peer_id]\<rparr>)))))
      | _ \<Rightarrow> response_loop lib env frame source rest cp))"

definition handle_response :: "sodium \<Rightarrow> env \<Rightarrow> ControlPlane \<Rightarrow> Endpoint \<Rightarrow> HandshakeFrameView \<Rightarrow> handled" where
  "handle_response lib env cp source frame =
     (if \<not> hf_has_macs frame
      then (Inl cle_invalid_message, bump (cs_mac1_failures_update (\<lambda>n. n + 1)) cp)
      else response_loop lib env frame source (map fst (cp_pending cp)) cp)"

definition handle_frame :: "sodium \<Rightarrow> env \<Rightarrow> ControlPlane \<Rightarrow> Endpoint \<Rightarrow> HandshakeFrameView \<Rightarrow> instant \<Rightarrow>
    handled" where
  "handle_frame lib env cp source frame now =
     (if hf_message frame = hm_cookie_reply then handle_cookie_reply lib env cp frame now
      else if hf_message frame = hm_init then handle_init lib env cp source frame now
      else if hf_message frame = hm_response then handle_response lib env cp source frame
      else (Inl cle_invalid_message, cp))"

definition handle_datagram :: "sodium \<Rightarrow> env \<Rightarrow> ControlPlane \<Rightarrow> Endpoint \<Rightarrow> bytes \<Rightarrow> instant \<Rightarrow> handled" where
  "handle_datagram lib env cp source datagram now =
     (if \<not> crypto_available lib then (Inl cle_crypto_unavailable, cp)
      else let (granted, g) = global_allow (cp_global_limiter cp) now;
               cp = cp\<lparr>cp_global_limiter := g\<rparr>
      in if \<not> granted then (Inl cle_rate_limited, bump (cs_rate_limited_update (\<lambda>n. n + 1)) cp)
      else let (granted, l) = allow (cp_rate_limiter cp) source now;
               cp = cp\<lparr>cp_rate_limiter := l\<rparr>
      in if \<not> granted then (Inl cle_rate_limited, bump (cs_rate_limited_update (\<lambda>n. n + 1)) cp)
      else let cp = cp\<lparr>cp_handshakes_seen := cp_handshakes_seen cp + 1\<rparr>
      in case parse_handshake_frame datagram of
           Inl e \<Rightarrow> (Inl cle_invalid_message, cp)
         | Inr frame \<Rightarrow> handle_frame lib env cp source frame now)"

subsection \<open>Load, promotion and timers\<close>

definition evaluate_load :: "ControlPlane \<Rightarrow> nat \<Rightarrow> nat \<Rightarrow> instant \<Rightarrow> ControlPlane" where
  "evaluate_load cp queue_depth queue_capacity now =
     (let sample = \<lparr>ls_handshakes_received = cp_handshakes_seen cp,
            ls_handshakes_completed = cs_handshakes_completed (cp_stats cp),
            ls_queue_depth = queue_depth, ls_queue_capacity = queue_capacity,
            ls_pending_handshakes = length (cp_pending cp) + length (cp_provisional cp),
            ls_pending_capacity = kMaximumPending\<rparr>;
          m = observe (cp_load_monitor cp) sample now
      in cp\<lparr>cp_load_monitor := m, cp_issuer := set_under_load (cp_issuer cp) (under_load m)\<rparr>)"

definition try_promote_provisional :: "sodium \<Rightarrow> env \<Rightarrow> ControlPlane \<Rightarrow> PacketView \<Rightarrow> bytes \<Rightarrow> bytes \<Rightarrow>
    Endpoint \<Rightarrow> (ControlError + nat) \<times> bytes \<times> ControlPlane" where
  "try_promote_provisional lib env cp view datagram out source =
     (let key_id = ph_key_id (pv_header view)
      in case map_of (cp_provisional cp) key_id of
        None \<Rightarrow> (Inl cle_not_pending, out, cp)
      | Some entry \<Rightarrow>
     (let candidate = new_session (pr_peer entry) (pr_local_key_id entry) (pr_remote_key_id entry)
            \<lparr>tk_key = nr_send (pr_result entry), tk_generation = 0\<rparr>
            \<lparr>tk_key = nr_receive (pr_result entry), tk_generation = 0\<rparr> (ev_clock env)
      in case open_packet (so_decrypt lib) candidate view datagram out (ev_clock env) of
        ((Inl e, out), candidate) \<Rightarrow> (Inl cle_handshake_failed, out, cp)
      | ((Inr opened, out), candidate) \<Rightarrow>
     (case install (cp_sessions cp) (pr_peer entry) (pr_local_key_id entry) candidate (ev_clock env) of
        (installed, t) \<Rightarrow>
          let cp = cp\<lparr>cp_sessions := t, cp_provisional := AList.delete key_id (cp_provisional cp)\<rparr>
          in case installed of
            Inl e \<Rightarrow> (Inl cle_session_install_failed, out, cp)
          | Inr session \<Rightarrow>
              let peer = ss_peer session;
                  t = t\<lparr>tb_sessions := AList.update (pr_local_key_id entry)
                         (note_authenticated_endpoint session source) (tb_sessions t)\<rparr>;
                  cp = cp\<lparr>cp_sessions := t,
                          cp_learned_endpoint := AList.update peer source (cp_learned_endpoint cp)\<rparr>;
                  cp = cancel_timer provisional_timeout (ucast key_id) cp;
                  cp = cancel_timer rekey peer cp;
                  cp = cancel_timer keepalive peer cp;
                  cp = schedule_timer keepalive peer (ev_clock env + kKeepaliveInterval) cp;
                  cp = bump (cs_provisional_promoted_update (\<lambda>n. n + 1)) cp
              in (Inr opened, out, bump (cs_handshakes_completed_update (\<lambda>n. n + 1)) cp))))"

definition on_timer :: "sodium \<Rightarrow> env \<Rightarrow> ControlPlane \<Rightarrow> TimerEvent \<Rightarrow> instant \<Rightarrow>
    OutgoingHandshake list \<times> ControlPlane" where
  "on_timer lib env cp event now =
     (let subject = te_subject event in
      case te_kind event of
        handshake_timeout \<Rightarrow>
          if map_of (cp_pending cp) subject = None then ([], cp)
          else ([], cancel_timer handshake_retry subject
                  (bump (cs_handshakes_timed_out_update (\<lambda>n. n + 1))
                    (cp\<lparr>cp_pending := AList.delete subject (cp_pending cp)\<rparr>)))
      | provisional_timeout \<Rightarrow>
          if subject \<le> 0xFFFF \<and> map_of (cp_provisional cp) (ucast subject) \<noteq> None
          then ([], bump (cs_handshakes_timed_out_update (\<lambda>n. n + 1))
                  (cp\<lparr>cp_provisional := AList.delete (ucast subject) (cp_provisional cp)\<rparr>))
          else ([], cp)
      | handshake_retry \<Rightarrow>
          (case map_of (cp_pending cp) subject of
             None \<Rightarrow> ([], cp)
           | Some entry \<Rightarrow>
               let entry = entry\<lparr>pe_attempt := pe_attempt entry + 1\<rparr>;
                   cp = bump (cs_retries_update (\<lambda>n. n + 1)) cp
               in case build_initiation lib env cp entry now of (retry, entry, cp) \<Rightarrow>
                 (case retry of Inl e \<Rightarrow> [] | Inr out \<Rightarrow> [out],
                  cp\<lparr>cp_pending := AList.update subject entry (cp_pending cp)\<rparr>))
      | rekey \<Rightarrow>
          (case start_handshake lib env cp subject now of
             (Inl e, cp) \<Rightarrow> ([], cp) | (Inr out, cp) \<Rightarrow> ([out], cp))
      | keepalive \<Rightarrow>
          (case find_by_peer (cp_sessions cp) subject of (session, t) \<Rightarrow>
             let cp = cp\<lparr>cp_sessions := t\<rparr>
             in if session = None then ([], cp)
             else ([], schedule_timer keepalive subject (now + kKeepaliveInterval)
                     (cp\<lparr>cp_keepalive_due := cp_keepalive_due cp @ [subject]\<rparr>)))
      | _ \<Rightarrow> ([], cp))"

text \<open>Every event comes with the environment of the operations it runs.\<close>

fun on_timers :: "sodium \<Rightarrow> ControlPlane \<Rightarrow> (TimerEvent \<times> env) list \<Rightarrow> instant \<Rightarrow>
    OutgoingHandshake list \<times> ControlPlane" where
  "on_timers lib cp [] now = ([], cp)"
| "on_timers lib cp ((event, env) # events) now =
     (case on_timer lib env cp event now of (outgoing, cp) \<Rightarrow>
        (case on_timers lib cp events now of (rest, cp) \<Rightarrow> (outgoing @ rest, cp)))"

end
