(* ===== verification/Control_Invariant.thy ===== *)
theory Control_Invariant
  imports Control_Plane
begin

text \<open>
  Invariants of the control plane over every sequence of its operations: key ids in use are distinct,
  the two tables of handshakes stay within their limit, the session table stays consistent, and an
  initiation is answered at most once.
\<close>

subsection \<open>Key ids in use\<close>

definition ids_ok :: "(PeerId \<times> Pending) list \<Rightarrow> (u16 \<times> Provisional) list \<Rightarrow> SessionTable \<Rightarrow> bool" where
  "ids_ok pend prov t \<longleftrightarrow> table_ok t \<and> distinct (map fst pend) \<and> distinct (map fst prov) \<and>
     length pend \<le> kMaximumPending \<and> length prov \<le> kMaximumPending \<and>
     (\<forall>p e. map_of pend p = Some e \<longrightarrow> pe_peer e = p \<and> pe_local_key_id e \<noteq> 0 \<and>
        session_at t (pe_local_key_id e) = None \<and> map_of prov (pe_local_key_id e) = None) \<and>
     (\<forall>p q e f. map_of pend p = Some e \<longrightarrow> map_of pend q = Some f \<longrightarrow>
        pe_local_key_id e = pe_local_key_id f \<longrightarrow> p = q) \<and>
     (\<forall>k e. map_of prov k = Some e \<longrightarrow> pr_local_key_id e = k \<and> k \<noteq> 0 \<and> session_at t k = None)"

abbreviation cp_ok :: "ControlPlane \<Rightarrow> bool" where
  "cp_ok cp \<equiv> ids_ok (cp_pending cp) (cp_provisional cp) (cp_sessions cp)"

definition fresh_id :: "u16 \<Rightarrow> (PeerId \<times> Pending) list \<Rightarrow> (u16 \<times> Provisional) list \<Rightarrow> SessionTable \<Rightarrow> bool" where
  "fresh_id k pend prov t \<longleftrightarrow> k \<noteq> 0 \<and> session_at t k = None \<and> map_of prov k = None \<and>
     (\<forall>p e. map_of pend p = Some e \<longrightarrow> pe_local_key_id e \<noteq> k)"

lemma length_update_present: "map_of al k \<noteq> None \<Longrightarrow> length (AList.update k v al) = length al"
  by (induction al) (auto split: if_splits)

lemma map_of_filter_Some: "distinct (map fst al) \<Longrightarrow> map_of (filter P al) k = Some v \<Longrightarrow> map_of al k = Some v"
  by (metis distinct_map_filter filter_is_subset map_of_SomeD map_of_eq_Some_iff subsetD)

lemma ids_okI:
  assumes "table_ok t" "distinct (map fst pend)" "distinct (map fst prov)"
    and "length pend \<le> kMaximumPending" "length prov \<le> kMaximumPending"
    and "\<And>p e. map_of pend p = Some e \<Longrightarrow> pe_peer e = p \<and> pe_local_key_id e \<noteq> 0 \<and>
        session_at t (pe_local_key_id e) = None \<and> map_of prov (pe_local_key_id e) = None"
    and "\<And>p q e f. map_of pend p = Some e \<Longrightarrow> map_of pend q = Some f \<Longrightarrow>
        pe_local_key_id e = pe_local_key_id f \<Longrightarrow> p = q"
    and "\<And>k e. map_of prov k = Some e \<Longrightarrow> pr_local_key_id e = k \<and> k \<noteq> 0 \<and> session_at t k = None"
  shows "ids_ok pend prov t"
  unfolding ids_ok_def by (intro conjI allI impI) (fact assms | drule assms(6), blast | drule assms(8), blast |
    rule assms(7), assumption, assumption, assumption)+

lemma ids_okD:
  assumes "ids_ok pend prov t"
  shows "table_ok t" "distinct (map fst pend)" "distinct (map fst prov)"
    "length pend \<le> kMaximumPending" "length prov \<le> kMaximumPending"
    "map_of pend p = Some e \<Longrightarrow> pe_peer e = p \<and> pe_local_key_id e \<noteq> 0 \<and>
        session_at t (pe_local_key_id e) = None \<and> map_of prov (pe_local_key_id e) = None"
    "map_of pend p = Some e \<Longrightarrow> map_of pend q = Some f \<Longrightarrow>
        pe_local_key_id e = pe_local_key_id f \<Longrightarrow> p = q"
    "map_of prov k = Some g \<Longrightarrow> pr_local_key_id g = k \<and> k \<noteq> 0 \<and> session_at t k = None"
  using assms unfolding ids_ok_def by blast+

lemma ids_ok_table: "ids_ok pend prov t \<Longrightarrow> table_ok t"
  by (rule ids_okD)

lemma ids_ok_restrict:
  assumes "ids_ok pend prov t" "table_ok t'" "distinct (map fst pend')" "distinct (map fst prov')"
    and "length pend' \<le> length pend" "length prov' \<le> length prov"
    and pend': "\<And>p e. map_of pend' p = Some e \<Longrightarrow>
        map_of pend p = Some e \<and> session_at t' (pe_local_key_id e) = None"
    and prov': "\<And>k e. map_of prov' k = Some e \<Longrightarrow> map_of prov k = Some e \<and> session_at t' k = None"
  shows "ids_ok pend' prov' t'"
proof (rule ids_okI)
  note ok = ids_okD [OF assms(1)]
  show "length pend' \<le> kMaximumPending" "length prov' \<le> kMaximumPending"
    using assms(5,6) ok(4,5) by linarith+
  fix p q e f
  assume p: "map_of pend' p = Some e"
  have "map_of prov' (pe_local_key_id e) = None"
    using prov' [of "pe_local_key_id e"] ok(6) pend' [OF p] by (cases "map_of prov' (pe_local_key_id e)") auto
  then show "pe_peer e = p \<and> pe_local_key_id e \<noteq> 0 \<and>
        session_at t' (pe_local_key_id e) = None \<and> map_of prov' (pe_local_key_id e) = None"
    using ok(6) pend' [OF p] by blast
  show "p = q" if "map_of pend' q = Some f" "pe_local_key_id e = pe_local_key_id f"
    using ok(7) pend' [OF p] pend' [OF that(1)] that(2) by blast
next
  fix k e assume "map_of prov' k = Some e"
  then show "pr_local_key_id e = k \<and> k \<noteq> 0 \<and> session_at t' k = None"
    using ids_okD(8) [OF assms(1)] prov' by blast
qed (fact assms)+

lemma ids_ok_delete_pending:
  assumes "ids_ok pend prov t"
  shows "ids_ok (AList.delete p pend) prov t"
  by (rule ids_ok_restrict [OF assms]) (use ids_okD [OF assms] AList.length_delete_le [of p pend] in
    \<open>auto simp: map_of_delete distinct_delete simp del: map_of_eq_Some_iff split: if_split_asm\<close>)

lemma ids_ok_filter_provisional:
  assumes "ids_ok pend prov t"
  shows "ids_ok pend (filter P prov) t"
  by (rule ids_ok_restrict [OF assms])
    (use ids_okD [OF assms] map_of_filter_Some [OF ids_okD(3) [OF assms], of P] in
      \<open>auto simp: distinct_map_filter simp del: map_of_eq_Some_iff\<close>)

lemma ids_ok_sessions:
  assumes "ids_ok pend prov t" "table_ok t'" "\<And>k. session_at t k = None \<Longrightarrow> session_at t' k = None"
  shows "ids_ok pend prov t'"
  by (rule ids_ok_restrict [OF assms(1,2)]) (use ids_okD [OF assms(1)] assms(3) in blast)+

lemma ids_ok_change_pending:
  assumes "ids_ok pend prov t" "map_of pend p = Some e"
    and "pe_peer e' = pe_peer e" "pe_local_key_id e' = pe_local_key_id e"
  shows "ids_ok (AList.update p e' pend) prov t"
proof -
  note ok = ids_okD [OF assms(1)]
  have old: thesis
    if "map_of (AList.update p e' pend) q = Some f"
      "\<And>g. map_of pend q = Some g \<Longrightarrow> pe_peer f = pe_peer g \<Longrightarrow> pe_local_key_id f = pe_local_key_id g \<Longrightarrow> thesis"
    for q f thesis
    using that(1) assms(2-4) that(2) by (cases "q = p") (simp_all add: map_of_update del: map_of_eq_Some_iff)
  show ?thesis
  proof (rule ids_okI)
    show "length (AList.update p e' pend) \<le> kMaximumPending"
      using ok(4) length_update_present [of pend p e'] assms(2) by simp
  next
    fix q f assume "map_of (AList.update p e' pend) q = Some f"
    then obtain g where g: "map_of pend q = Some g" "pe_peer f = pe_peer g" "pe_local_key_id f = pe_local_key_id g"
      by (rule old)
    show "pe_peer f = q \<and> pe_local_key_id f \<noteq> 0 \<and>
        session_at t (pe_local_key_id f) = None \<and> map_of prov (pe_local_key_id f) = None"
      unfolding g(2,3) by (rule ok(6) [OF g(1)])
  next
    fix q r f g assume f: "map_of (AList.update p e' pend) q = Some f"
      and g: "map_of (AList.update p e' pend) r = Some g" and eq: "pe_local_key_id f = pe_local_key_id g"
    from f obtain f' where f': "map_of pend q = Some f'" "pe_peer f = pe_peer f'" "pe_local_key_id f = pe_local_key_id f'"
      by (rule old)
    from g obtain g' where g': "map_of pend r = Some g'" "pe_peer g = pe_peer g'" "pe_local_key_id g = pe_local_key_id g'"
      by (rule old)
    show "q = r" by (rule ok(7) [OF f'(1) g'(1)]) (simp only: f'(3) [symmetric] g'(3) [symmetric] eq)
  qed (use ok in \<open>auto simp: distinct_update simp del: map_of_eq_Some_iff\<close>)
qed

lemma ids_ok_new_pending:
  assumes "ids_ok pend prov t" "fresh_id k pend prov t" "pe_peer e = p" "pe_local_key_id e = k"
    and "length pend < kMaximumPending \<or> map_of pend p \<noteq> None"
  shows "ids_ok (AList.update p e pend) prov t"
proof -
  note ok = ids_okD [OF assms(1)]
  have upd: "map_of (AList.update p e pend) q = (if q = p then Some e else map_of pend q)" for q
    by (simp add: map_of_update)
  have new: "k \<noteq> 0" "session_at t k = None" "map_of prov k = None"
    "map_of pend q = Some f \<Longrightarrow> pe_local_key_id f \<noteq> k" for q f
    using assms(2) unfolding fresh_id_def by blast+
  show ?thesis
  proof (rule ids_okI)
    show "length (AList.update p e pend) \<le> kMaximumPending"
      using ok(4) assms(5) length_update_present [of pend p e] length_update_absent [of pend p e]
      by (cases "map_of pend p") auto
  next
    fix q f assume q: "map_of (AList.update p e pend) q = Some f"
    show "pe_peer f = q \<and> pe_local_key_id f \<noteq> 0 \<and>
        session_at t (pe_local_key_id f) = None \<and> map_of prov (pe_local_key_id f) = None"
    proof (cases "q = p")
      case True
      then have "f = e" using q upd by simp
      then show ?thesis using True assms(3,4) new(1-3) by simp
    next
      case False
      then show ?thesis using q upd ok(6) by simp
    qed
  next
    fix q r f g assume f: "map_of (AList.update p e pend) q = Some f"
      and g: "map_of (AList.update p e pend) r = Some g" and eq: "pe_local_key_id f = pe_local_key_id g"
    show "q = r"
    proof (rule ccontr)
      assume "q \<noteq> r"
      then consider "q = p" "r \<noteq> p" | "q \<noteq> p" "r = p" | "q \<noteq> p" "r \<noteq> p" by blast
      then show False
      proof cases
        case 1
        then show ?thesis using f g eq upd new(4) assms(4) by auto
      next
        case 2
        then show ?thesis using f g eq upd new(4) assms(4) by auto
      next
        case 3
        then show ?thesis using f g eq upd ok(7) \<open>q \<noteq> r\<close> by auto
      qed
    qed
  qed (use ok in \<open>auto simp: distinct_update simp del: map_of_eq_Some_iff\<close>)
qed

lemma ids_ok_new_provisional:
  assumes "ids_ok pend prov t" "fresh_id k pend prov t" "pr_local_key_id e = k"
    and "length prov < kMaximumPending"
  shows "ids_ok pend (AList.update k e prov) t"
proof -
  note ok = ids_okD [OF assms(1)]
  have upd: "map_of (AList.update k e prov) j = (if j = k then Some e else map_of prov j)" for j
    by (auto simp: map_of_update)
  have new: "map_of prov k = None" "k \<noteq> 0" "session_at t k = None" using assms(2) by (simp_all add: fresh_id_def)
  show ?thesis
  proof (rule ids_okI)
    show "length (AList.update k e prov) \<le> kMaximumPending"
      using assms(4) length_update_absent [OF new(1), of e] by simp
  next
    fix q f assume q: "map_of pend q = Some f"
    then have "pe_local_key_id f \<noteq> k" using assms(2) by (auto simp: fresh_id_def)
    then show "pe_peer f = q \<and> pe_local_key_id f \<noteq> 0 \<and> session_at t (pe_local_key_id f) = None \<and>
        map_of (AList.update k e prov) (pe_local_key_id f) = None"
      using ok(6) [OF q] by (simp only: upd if_False simp_thms)
  next
    fix j f assume "map_of (AList.update k e prov) j = Some f"
    then show "pr_local_key_id f = j \<and> j \<noteq> 0 \<and> session_at t j = None"
      using upd [of j] ok(8) [of j f] new assms(3) by (cases "j = k") simp_all
  next
    fix q r f g assume "map_of pend q = Some f" "map_of pend r = Some g" "pe_local_key_id f = pe_local_key_id g"
    then show "q = r" by (rule ok(7))
  qed (use ok in \<open>auto simp: distinct_update simp del: map_of_eq_Some_iff\<close>)
qed

lemma ids_ok_install_pending:
  assumes "ids_ok pend prov t" "map_of pend p = Some e" "table_ok t'"
    and "\<And>k. k \<noteq> pe_local_key_id e \<Longrightarrow> session_at t k = None \<Longrightarrow> session_at t' k = None"
  shows "ids_ok (AList.delete p pend) prov t'"
proof -
  note ok = ids_okD [OF assms(1)]
  have "map_of pend q = Some f \<and> session_at t' (pe_local_key_id f) = None"
    if "map_of (AList.delete p pend) q = Some f" for q f
  proof -
    have q: "q \<noteq> p" "map_of pend q = Some f" using that by (auto simp: map_of_delete split: if_split_asm)
    then have "pe_local_key_id f \<noteq> pe_local_key_id e" using ok(7) assms(2) by metis
    then show ?thesis using assms(4) ok(6) q(2) by blast
  qed
  moreover have "session_at t' k = None" if "map_of prov k = Some g" for k g
  proof -
    have "k \<noteq> pe_local_key_id e" using ok(6) [OF assms(2)] that by auto
    then show ?thesis by (rule assms(4)) (simp only: ok(8) [OF that])
  qed
  ultimately show ?thesis
    by (intro ids_ok_restrict [OF assms(1,3)])
      (use ok(2,3) AList.length_delete_le [of p pend] in \<open>auto simp: distinct_delete simp del: map_of_eq_Some_iff\<close>)
qed

lemma ids_ok_install_provisional:
  assumes "ids_ok pend prov t" "table_ok t'"
    and "\<And>j. j \<noteq> k \<Longrightarrow> session_at t j = None \<Longrightarrow> session_at t' j = None" "map_of prov k \<noteq> None"
  shows "ids_ok pend (AList.delete k prov) t'"
proof -
  note ok = ids_okD [OF assms(1)]
  have "session_at t' (pe_local_key_id f) = None" if "map_of pend q = Some f" for q f
  proof -
    have "pe_local_key_id f \<noteq> k" using ok(6) [OF that] assms(4) by auto
    then show ?thesis using assms(3) ok(6) [OF that] by blast
  qed
  moreover have "map_of prov j = Some g \<and> session_at t' j = None"
    if "map_of (AList.delete k prov) j = Some g" for j g
  proof -
    have j: "j \<noteq> k" "map_of prov j = Some g" using that by (auto simp: map_of_delete split: if_split_asm)
    then show ?thesis using assms(3) [OF j(1)] ok(8) [OF j(2)] by (simp only: simp_thms)
  qed
  ultimately show ?thesis
    by (intro ids_ok_restrict [OF assms(1,2)])
      (use ok(2,3) AList.length_delete_le [of k prov] in \<open>auto simp: distinct_delete simp del: map_of_eq_Some_iff\<close>)
qed

lemma ids_ok_delete_provisional:
  assumes "ids_ok pend prov t"
  shows "ids_ok pend (AList.delete k prov) t"
  unfolding AList.delete_eq by (rule ids_ok_filter_provisional [OF assms])

subsection \<open>Sub-operations\<close>

lemma table_ok_session_update:
  assumes "table_ok t" "session_at t k = Some s" "ss_peer s' = ss_peer s"
  shows "table_ok (t\<lparr>tb_sessions := AList.update k s' (tb_sessions t)\<rparr>)"
proof -
  have s: "map_of (AList.update k s' (tb_sessions t)) j = (if j = k then Some s' else session_at t j)" for j
    by (simp add: map_of_update)
  have p: "k' = k \<Longrightarrow> ss_peer s = q" if "key_of_peer t q = Some k'" for q k'
    using assms(1,2) that unfolding table_ok_def by (metis option.inject)
  have "k \<noteq> 0" using assms(1,2) by (auto simp: table_ok_def)
  moreover have "length (AList.update k s' (tb_sessions t)) \<le> kMaximumSessions"
    using assms(1,2) length_update_present [of "tb_sessions t" k s'] by (simp add: table_ok_def)
  ultimately show ?thesis using assms p unfolding table_ok_def
    by (simp add: s distinct_update del: map_of_eq_Some_iff)
qed

lemma allocate_sessions: "tb_sessions (snd (allocate_key_id t)) = tb_sessions t"
proof -
  have "tb_sessions (snd (allocate_loop n t)) = tb_sessions t" for n
    by (induction n t rule: allocate_loop.induct) (subst allocate_loop.simps, auto simp: Let_def)
  then show ?thesis by (simp add: allocate_key_id_def)
qed

lemma allocate_fresh:
  assumes "table_ok t" "allocate_key_id t = (Inr k, t')"
  shows "k \<noteq> 0 \<and> session_at t k = None"
proof -
  have n: "tb_next_key_id t \<noteq> 0" using assms(1) by (simp add: table_ok_def)
  have "length (tb_sessions t) < 1024"
    using assms(2) by (auto simp: allocate_key_id_def kMaximumSessions_def split: if_split_asm)
  then obtain m where "allocate_key_id t = (Inr ((next_id ^^ m) (tb_next_key_id t)),
      t\<lparr>tb_next_key_id := (next_id ^^ Suc m) (tb_next_key_id t)\<rparr>)"
    "session_at t ((next_id ^^ m) (tb_next_key_id t)) = None"
    using n by (rule allocate_found)
  then show ?thesis using assms(2) unat_next_id_iter [OF n, of m] by auto
qed

lemma key_id_loop_ok:
  assumes "table_ok (cp_sessions cp)" "key_id_loop n cp = (r, cp')"
  shows "\<exists>t. cp' = cp\<lparr>cp_sessions := t\<rparr> \<and> tb_sessions t = tb_sessions (cp_sessions cp) \<and> table_ok t \<and>
    (\<forall>k. r = Inr k \<longrightarrow> fresh_id k (cp_pending cp) (cp_provisional cp) t)"
  using assms
proof (induction n arbitrary: cp)
  case 0
  then have "cp' = cp\<lparr>cp_sessions := cp_sessions cp\<rparr>" by simp
  then show ?case using 0 by (intro exI [of _ "cp_sessions cp"]) auto
next
  case (Suc n)
  obtain a t where a: "allocate_key_id (cp_sessions cp) = (a, t)" by (cases "allocate_key_id (cp_sessions cp)")
  let ?cp = "cp\<lparr>cp_sessions := t\<rparr>"
  have t: "tb_sessions t = tb_sessions (cp_sessions cp)" "table_ok t"
    using allocate_sessions [of "cp_sessions cp"] table_ok_allocate [OF Suc.prems(1)] a by simp_all
  have again: ?case if "key_id_loop n ?cp = (r, cp')"
    using Suc.IH [of ?cp] t that by auto
  show ?case
  proof (cases a)
    case (Inl e)
    then show ?thesis using Suc.prems(2) a t by auto
  next
    case (Inr k)
    show ?thesis
    proof (cases "map_of (cp_provisional cp) k \<noteq> None \<or>
        list_ex (\<lambda>(peer, entry). pe_local_key_id entry = k) (cp_pending cp)")
      case True
      then show ?thesis using Suc.prems(2) a Inr by (intro again) (auto simp: Let_def split: if_split_asm)
    next
      case False
      have "map_of (cp_pending cp) p = Some e \<Longrightarrow> pe_local_key_id e \<noteq> k" for p e
        using False map_of_SomeD [of "cp_pending cp" p e] by (auto simp: list_ex_iff)
      then have "fresh_id k (cp_pending cp) (cp_provisional cp) t"
        using False allocate_fresh [OF Suc.prems(1)] a Inr t(1) by (auto simp: fresh_id_def)
      then show ?thesis using Suc.prems(2) a Inr False t by (auto simp: Let_def)
    qed
  qed
qed

lemma cp_allocate_ok:
  assumes "cp_ok cp" "cp_allocate_key_id cp = (r, cp')"
  obtains t where "cp' = cp\<lparr>cp_sessions := t\<rparr>" "tb_sessions t = tb_sessions (cp_sessions cp)" "cp_ok cp'"
    "\<forall>k. r = Inr k \<longrightarrow> fresh_id k (cp_pending cp) (cp_provisional cp) t"
proof -
  from key_id_loop_ok [OF ids_ok_table [OF assms(1)] assms(2) [unfolded cp_allocate_key_id_def]]
  obtain t where t: "cp' = cp\<lparr>cp_sessions := t\<rparr>" "tb_sessions t = tb_sessions (cp_sessions cp)" "table_ok t"
    "\<forall>k. r = Inr k \<longrightarrow> fresh_id k (cp_pending cp) (cp_provisional cp) t"
    by (elim exE conjE)
  moreover have "cp_ok cp'" using ids_ok_sessions [OF assms(1) t(3)] t(1,2) by simp
  ultimately show thesis using that by simp
qed

lemma build_initiation_frame:
  "case build_initiation lib env cp entry now of (r, entry', cp') \<Rightarrow>
     cp' = cp\<lparr>cp_timers := cp_timers cp'\<rparr> \<and> pe_peer entry' = pe_peer entry \<and>
     pe_local_key_id entry' = pe_local_key_id entry"
  by (simp add: build_initiation_def Let_def split: option.split sum.split prod.split bool.split)

lemma build_initiation_fields:
  assumes "build_initiation lib env cp entry now = (r, entry', cp')"
  shows "cp_pending cp' = cp_pending cp" "cp_provisional cp' = cp_provisional cp"
    "cp_sessions cp' = cp_sessions cp" "cp_local_static cp' = cp_local_static cp" "cp_peers cp' = cp_peers cp"
    "cp_greatest_timestamp cp' = cp_greatest_timestamp cp" "cp_stats cp' = cp_stats cp"
    "cp_issuer cp' = cp_issuer cp"
    "pe_peer entry' = pe_peer entry" "pe_local_key_id entry' = pe_local_key_id entry"
proof -
  have f: "cp' = cp\<lparr>cp_timers := cp_timers cp'\<rparr>" and
    e: "pe_peer entry' = pe_peer entry" "pe_local_key_id entry' = pe_local_key_id entry"
    using build_initiation_frame [where lib = lib and env = env and cp = cp and entry = entry and now = now] assms by simp_all
  show "cp_pending cp' = cp_pending cp" "cp_provisional cp' = cp_provisional cp"
    "cp_sessions cp' = cp_sessions cp" "cp_local_static cp' = cp_local_static cp" "cp_peers cp' = cp_peers cp"
    "cp_greatest_timestamp cp' = cp_greatest_timestamp cp" "cp_stats cp' = cp_stats cp"
    "cp_issuer cp' = cp_issuer cp"
    by (subst f, simp)+
qed (use build_initiation_frame [where lib = lib and env = env and cp = cp and entry = entry and now = now] assms in simp_all)

text \<open>
  What an operation that answers no initiation leaves alone: the keys, the peers, the timestamps, the
  key of the first MAC and the number of initiations answered.
\<close>

definition quiet :: "ControlPlane \<Rightarrow> ControlPlane \<Rightarrow> bool" where
  "quiet cp cp' \<longleftrightarrow> cp_local_static cp' = cp_local_static cp \<and> cp_peers cp' = cp_peers cp \<and>
     cp_greatest_timestamp cp' = cp_greatest_timestamp cp \<and>
     ci_mac1_key (cp_issuer cp') = ci_mac1_key (cp_issuer cp) \<and>
     cs_responder_handshakes (cp_stats cp') = cs_responder_handshakes (cp_stats cp)"

lemma quiet_refl [simp]: "quiet cp cp"
  by (simp add: quiet_def)

lemma quiet_trans [trans]: "quiet a b \<Longrightarrow> quiet b c \<Longrightarrow> quiet a c"
  by (simp add: quiet_def)

lemma start_handshake_ok:
  assumes "cp_ok cp" "start_handshake lib env cp peer now = (r, cp')"
  shows "cp_ok cp' \<and> quiet cp cp'"
proof (cases "crypto_available lib \<and> find_peer cp peer \<noteq> None \<and> dial_endpoint cp peer \<noteq> None \<and>
    \<not> (length (cp_pending cp) \<ge> kMaximumPending \<and> map_of (cp_pending cp) peer = None)")
  case False
  then show ?thesis using assms
    by (auto simp: start_handshake_def quiet_def split: option.split_asm if_split_asm)
next
  case True
  then obtain destination where d: "dial_endpoint cp peer = Some destination" by blast
  obtain a cp1 where a: "cp_allocate_key_id cp = (a, cp1)" by (cases "cp_allocate_key_id cp")
  obtain t where t: "cp1 = cp\<lparr>cp_sessions := t\<rparr>" "tb_sessions t = tb_sessions (cp_sessions cp)" "cp_ok cp1"
    "\<forall>k. a = Inr k \<longrightarrow> fresh_id k (cp_pending cp) (cp_provisional cp) t"
    by (rule cp_allocate_ok [OF assms(1) a])
  show ?thesis
  proof (cases a)
    case (Inl e)
    then show ?thesis using assms(2) True d a t by (auto simp: start_handshake_def quiet_def)
  next
    case (Inr key_id)
    let ?entry = "\<lparr>pe_peer = peer, pe_handshake = None, pe_local_key_id = key_id, pe_attempt = 0,
                    pe_destination = destination, pe_started = 0, pe_cookies = None,
                    pe_last_mac1 = replicate kMacSize 0\<rparr>"
    obtain b entry cp2 where b: "build_initiation lib env cp1 ?entry now = (b, entry, cp2)"
      by (metis prod_cases3)
    note f = build_initiation_fields [OF b]
    have "ids_ok (AList.update peer entry (cp_pending cp1)) (cp_provisional cp1) (cp_sessions cp1)"
      by (rule ids_ok_new_pending [OF t(3), of key_id]) (use True t Inr f in auto)
    then show ?thesis using assms(2) True d a t Inr b f
      by (auto simp: start_handshake_def quiet_def Let_def split: sum.split_asm)
  qed
qed

lemma note_endpoint_peer [simp]: "ss_peer (note_authenticated_endpoint s e) = ss_peer s"
  by (simp add: note_authenticated_endpoint_def)

lemma install_noted:
  assumes "table_ok t" "session_at t k = None" "ss_peer s = p" "install t p k s now = (Inr s', t')"
  shows "table_ok (t'\<lparr>tb_sessions := AList.update k (note_authenticated_endpoint s' e) (tb_sessions t')\<rparr>)"
    "j \<noteq> k \<Longrightarrow> session_at t j = None \<Longrightarrow>
      map_of (AList.update k (note_authenticated_endpoint s' e) (tb_sessions t')) j = None"
proof -
  note inv = install_inv [OF assms(1,4)]
  have "table_ok t'" using table_ok_install [OF assms(1,3), of k now] assms(2,4) by simp
  then show "table_ok (t'\<lparr>tb_sessions := AList.update k (note_authenticated_endpoint s' e) (tb_sessions t')\<rparr>)"
    by (rule table_ok_session_update) (simp_all add: inv(1,5))
  show "map_of (AList.update k (note_authenticated_endpoint s' e) (tb_sessions t')) j = None"
    if "j \<noteq> k" "session_at t j = None"
    using that by (simp add: map_of_update inv(5))
qed

lemma install_session_ok:
  assumes "cp_ok cp" "map_of (cp_pending cp) peer = Some entry"
    and "install_session env cp peer (pe_local_key_id entry) remote result endpoint = (r, cp')"
  shows "quiet cp cp'" "cp_pending cp' = cp_pending cp" "cp_provisional cp' = cp_provisional cp"
    "case r of Inl e \<Rightarrow> cp_ok cp'
     | Inr u \<Rightarrow> ids_ok (AList.delete peer (cp_pending cp)) (cp_provisional cp) (cp_sessions cp')"
proof -
  let ?k = "pe_local_key_id entry"
  let ?s = "new_session peer ?k remote \<lparr>tk_key = nr_send result, tk_generation = 0\<rparr>
      \<lparr>tk_key = nr_receive result, tk_generation = 0\<rparr> (ev_clock env)"
  obtain a t where a: "install (cp_sessions cp) peer ?k ?s (ev_clock env) = (a, t)"
    by (cases "install (cp_sessions cp) peer ?k ?s (ev_clock env)")
  have k: "session_at (cp_sessions cp) ?k = None" using ids_okD(6) [OF assms(1,2)] by blast
  have s: "ss_peer ?s = peer" by (simp add: new_session_def)
  show "quiet cp cp'" "cp_pending cp' = cp_pending cp" "cp_provisional cp' = cp_provisional cp"
    using assms(3) a by (cases a; auto simp: install_session_def install_keys_def quiet_def Let_def)+
  show "case r of Inl e \<Rightarrow> cp_ok cp'
     | Inr u \<Rightarrow> ids_ok (AList.delete peer (cp_pending cp)) (cp_provisional cp) (cp_sessions cp')"
  proof (cases a)
    case (Inl e)
    then have "t = cp_sessions cp" using install_refused a by metis
    then show ?thesis using assms(1,3) a Inl by (auto simp: install_session_def install_keys_def Let_def)
  next
    case (Inr s')
    note n = install_noted [OF ids_ok_table [OF assms(1)] k s a [unfolded Inr], where e = endpoint]
    have "ids_ok (AList.delete peer (cp_pending cp)) (cp_provisional cp)
        (t\<lparr>tb_sessions := AList.update ?k (note_authenticated_endpoint s' endpoint) (tb_sessions t)\<rparr>)"
      by (rule ids_ok_install_pending [OF assms(1,2) n(1)]) (simp add: n(2) del: map_of_eq_None_iff)
    then show ?thesis using assms(3) a Inr by (auto simp: install_session_def install_keys_def Let_def)
  qed
qed

subsection \<open>Datagrams\<close>

lemma response_loop_ok:
  assumes "cp_ok cp" "response_loop lib env frame source peers cp = (r, cp')"
  shows "cp_ok cp' \<and> quiet cp cp'"
  using assms
proof (induction peers arbitrary: cp)
  case Nil
  then show ?case by (auto simp: quiet_def)
next
  case (Cons peer_id rest)
  have again: ?case if "cp_ok cp1" "quiet cp cp1" "response_loop lib env frame source rest cp1 = (r, cp')" for cp1
    using Cons.IH [OF that(1,3)] quiet_trans [OF that(2)] by blast
  show ?case
  proof (cases "\<exists>entry handshake cookies. map_of (cp_pending cp) peer_id = Some entry \<and>
      pe_handshake entry = Some handshake \<and> pe_cookies entry = Some cookies \<and>
      constant_time_equal (holder_mac1 cookies (hf_mac1_covered frame)) (hf_mac1 frame)")
    case False
    then show ?thesis using Cons.prems
      by (intro again [of cp]) (auto split: option.split_asm if_split_asm)
  next
    case True
    then obtain entry handshake cookies where e: "map_of (cp_pending cp) peer_id = Some entry"
      "pe_handshake entry = Some handshake" "pe_cookies entry = Some cookies"
      "constant_time_equal (holder_mac1 cookies (hf_mac1_covered frame)) (hf_mac1 frame)" by blast
    obtain rd payload h where rd: "read_message_2 lib handshake (hf_noise_message frame)
        (replicate kHandshakePayloadSize 0) = (rd, payload, h)" by (metis prod_cases3)
    define entry' where "entry' = entry\<lparr>pe_handshake := Some h\<rparr>"
    define cp1 where "cp1 = cp\<lparr>cp_pending := AList.update peer_id entry' (cp_pending cp)\<rparr>"
    have ok: "cp_ok cp1" "quiet cp cp1"
      using ids_ok_change_pending [OF Cons.prems(1) e(1), of entry'] by (simp_all add: cp1_def quiet_def entry'_def)
    have loop: "response_loop lib env frame source (peer_id # rest) cp =
        (case rd of Inl e \<Rightarrow> response_loop lib env frame source rest cp1
         | Inr n \<Rightarrow> (case noise_result h of Inl e \<Rightarrow> response_loop lib env frame source rest cp1
           | Inr completed \<Rightarrow> if payload_key_id payload = kPreSessionKeyId
               then response_loop lib env frame source rest cp1
               else (case install_session env cp1 peer_id (pe_local_key_id entry) (payload_key_id payload)
                            completed source of
                   (Inl e, cp) \<Rightarrow> (Inl e, cp)
                 | (Inr u, cp) \<Rightarrow>
                     (Inr None, bump (cs_handshakes_completed_update (\<lambda>n. n + 1))
                        (cp\<lparr>cp_pending := AList.delete peer_id (cp_pending cp),
                            cp_keepalive_due := cp_keepalive_due cp @ [peer_id]\<rparr>)))))"
      unfolding cp1_def entry'_def using e rd by (simp add: Let_def del: constant_time_equal_iff)
    show ?thesis
    proof (cases "\<exists>n completed. rd = Inr n \<and> noise_result h = Inr completed \<and> payload_key_id payload \<noteq> kPreSessionKeyId")
      case False
      then show ?thesis using Cons.prems(2) unfolding loop
        by (intro again [OF ok]) (auto split: sum.split_asm if_split_asm)
    next
      case True
      then obtain n completed where c: "rd = Inr n" "noise_result h = Inr completed"
        "payload_key_id payload \<noteq> kPreSessionKeyId" by blast
      obtain a cp2 where a: "install_session env cp1 peer_id (pe_local_key_id entry') (payload_key_id payload)
          completed source = (a, cp2)" by (cases "install_session env cp1 peer_id (pe_local_key_id entry')
            (payload_key_id payload) completed source")
      have "map_of (cp_pending cp1) peer_id = Some entry'" by (simp add: cp1_def map_of_update)
      note i = install_session_ok [OF ok(1) this a]
      have k: "pe_local_key_id entry' = pe_local_key_id entry" by (simp add: entry'_def)
      show ?thesis using Cons.prems(2) i quiet_trans [OF ok(2) i(1)] unfolding loop c
        by (cases a) (auto simp: a [unfolded k] c(3) quiet_def)
    qed
  qed
qed

lemma find_cookie_entry_old:
  "find_cookie_entry lib reply now pend = Some (peer, entry) \<Longrightarrow> distinct (map fst pend) \<Longrightarrow>
     \<exists>e. map_of pend peer = Some e \<and> pe_peer entry = pe_peer e \<and> pe_local_key_id entry = pe_local_key_id e"
proof (induction pend)
  case (Cons x pend)
  obtain p f where x: "x = (p, f)" by (cases x)
  show ?case
  proof (cases "find_cookie_entry lib reply now pend = Some (peer, entry)")
    case True
    with Cons obtain e where e: "map_of pend peer = Some e" "pe_peer entry = pe_peer e"
      "pe_local_key_id entry = pe_local_key_id e" by auto
    moreover have "peer \<noteq> p" using e(1) Cons.prems(2) x by (auto dest: map_of_SomeD simp: image_iff)
    ultimately show ?thesis by (auto simp: x)
  next
    case False
    then have "peer = p" "pe_peer entry = pe_peer f" "pe_local_key_id entry = pe_local_key_id f"
      using Cons.prems(1) by (auto simp: x split: option.split_asm prod.split_asm sum.split_asm)
    then show ?thesis by (simp add: x)
  qed
qed simp

lemma handle_cookie_reply_ok:
  assumes "cp_ok cp" "handle_cookie_reply lib env cp frame now = (r, cp')"
  shows "cp_ok cp' \<and> quiet cp cp'"
proof (cases "\<exists>reply peer entry. parse_cookie_reply (hf_noise_message frame) = Inr reply \<and>
    find_cookie_entry lib reply now (cp_pending cp) = Some (peer, entry)")
  case False
  then show ?thesis using assms
    by (auto simp: handle_cookie_reply_def quiet_def split: sum.split_asm option.split_asm)
next
  case True
  then obtain reply peer entry where f: "parse_cookie_reply (hf_noise_message frame) = Inr reply"
    "find_cookie_entry lib reply now (cp_pending cp) = Some (peer, entry)" by blast
  let ?cp = "bump (cs_cookies_accepted_update (\<lambda>n. n + 1)) cp"
  obtain b entry' cp2 where b: "build_initiation lib env ?cp entry now = (b, entry', cp2)" by (metis prod_cases3)
  note g = build_initiation_fields [OF b]
  obtain e where e: "map_of (cp_pending cp) peer = Some e" "pe_peer entry = pe_peer e"
    "pe_local_key_id entry = pe_local_key_id e"
    using find_cookie_entry_old [OF f(2) ids_okD(2) [OF assms(1)]] by blast
  have "ids_ok (AList.update peer entry' (cp_pending cp)) (cp_provisional cp) (cp_sessions cp)"
    using ids_ok_change_pending [OF assms(1) e(1), of entry'] g e by simp
  then show ?thesis using assms(2) f b g
    by (auto simp: handle_cookie_reply_def quiet_def Let_def split: sum.split_asm)
qed

lemma build_reply_mac1_key:
  "ci_mac1_key (snd (build_reply lib secret nonce c source index mac now)) = ci_mac1_key c"
  by (simp add: build_reply_def compute_cookie_def Let_def split: sum.split option.split)

lemma verify_mac2_mac1_key:
  "ci_mac1_key (snd (verify_mac2 lib secret c source message mac now)) = ci_mac1_key c"
  by (simp add: verify_mac2_def Let_def)

lemma issue_cookie_ok:
  assumes "cp_ok cp" "issue_cookie lib env cp source mac now = (r, cp')"
  shows "cp_ok cp' \<and> quiet cp cp'"
  using assms build_reply_mac1_key [of lib "ev_secret' env" "ev_nonce env" "cp_issuer cp" source 0 mac now]
  by (auto simp: issue_cookie_def quiet_def Let_def split: prod.split_asm sum.split_asm)

lemma answer_initiation_ok:
  assumes "cp_ok cp" "answer_initiation lib env cp source pid matched handshake remote now = (r, cp')"
  shows "cp_ok cp'" "cp_local_static cp' = cp_local_static cp" "cp_peers cp' = cp_peers cp"
    "cp_greatest_timestamp cp' = cp_greatest_timestamp cp" "cp_issuer cp' = cp_issuer cp"
proof -
  obtain a cp1 where a: "cp_allocate_key_id cp = (a, cp1)" by (cases "cp_allocate_key_id cp")
  obtain t where t: "cp1 = cp\<lparr>cp_sessions := t\<rparr>" "tb_sessions t = tb_sessions (cp_sessions cp)" "cp_ok cp1"
    "\<forall>k. a = Inr k \<longrightarrow> fresh_id k (cp_pending cp) (cp_provisional cp) t"
    by (rule cp_allocate_ok [OF assms(1) a])
  have new: "ids_ok (cp_pending cp1) (AList.update k e (cp_provisional cp1)) (cp_sessions cp1)"
    if "a = Inr k" "pr_local_key_id e = k" "\<not> kMaximumPending \<le> length (cp_provisional cp1)" for k e
    by (rule ids_ok_new_provisional [OF t(3)]) (use t that in auto)
  note ans = assms(2) [unfolded answer_initiation_def a prod.case Let_def]
  have f: "cp_local_static cp1 = cp_local_static cp" "cp_peers cp1 = cp_peers cp"
    "cp_greatest_timestamp cp1 = cp_greatest_timestamp cp" "cp_issuer cp1 = cp_issuer cp" using t(1) by simp_all
  show "cp_ok cp'" using ans t(3) new
    by (auto split: sum.split_asm prod.split_asm if_split_asm)
  show "cp_local_static cp' = cp_local_static cp" "cp_peers cp' = cp_peers cp"
    "cp_greatest_timestamp cp' = cp_greatest_timestamp cp" "cp_issuer cp' = cp_issuer cp"
    unfolding f [symmetric] using ans by (auto split: sum.split_asm prod.split_asm if_split_asm)
qed

text \<open>The peer and the timestamp of the initiation a datagram carries.\<close>

definition read_timestamp :: "sodium \<Rightarrow> KeyPair \<Rightarrow> PeerConfig \<Rightarrow> bytes \<Rightarrow> u64 option" where
  "read_timestamp lib local_static config noise_message =
     (case create lib role_responder local_static (replicate 32 0) (pc_preshared config) [] of
        Inl e \<Rightarrow> None
      | Inr handshake \<Rightarrow>
          (case read_message_1 lib handshake noise_message (replicate kHandshakePayloadSize 0) of
             (Inl e, payload, handshake) \<Rightarrow> None
           | (Inr n, payload, handshake) \<Rightarrow> Some (payload_timestamp payload)))"

definition initiator_of :: "sodium \<Rightarrow> KeyPair \<Rightarrow> (PeerId \<times> PeerConfig) list \<Rightarrow> bytes \<Rightarrow>
    (PeerId \<times> PeerConfig) option" where
  "initiator_of lib local_static peers noise_message =
     (case create lib role_responder local_static (replicate 32 0) (replicate 32 0) [] of
        Inl e \<Rightarrow> None
      | Inr identify \<Rightarrow>
          (case read_message_1 lib identify noise_message (replicate kHandshakePayloadSize 0) of
             (Inl e, payload, identify) \<Rightarrow> None
           | (Inr n, payload, identify) \<Rightarrow> match_peer peers (nh_remote_static identify)))"

definition initiation_of :: "sodium \<Rightarrow> KeyPair \<Rightarrow> (PeerId \<times> PeerConfig) list \<Rightarrow> bytes \<Rightarrow> (PeerId \<times> u64) option" where
  "initiation_of lib local_static peers noise_message =
     (case initiator_of lib local_static peers noise_message of
        None \<Rightarrow> None
      | Some (pid, config) \<Rightarrow>
          map_option (\<lambda>timestamp. (pid, timestamp)) (read_timestamp lib local_static config noise_message))"

definition answered :: "sodium \<Rightarrow> bytes \<Rightarrow> ControlPlane \<Rightarrow> ControlPlane \<Rightarrow> bool" where
  "answered lib noise_message cp cp' \<longleftrightarrow>
     cp_local_static cp' = cp_local_static cp \<and> cp_peers cp' = cp_peers cp \<and>
     ci_mac1_key (cp_issuer cp') = ci_mac1_key (cp_issuer cp) \<and>
     (\<exists>pid timestamp. initiation_of lib (cp_local_static cp) (cp_peers cp) noise_message = Some (pid, timestamp) \<and>
        (\<forall>seen. map_of (cp_greatest_timestamp cp) pid = Some seen \<longrightarrow> seen < timestamp) \<and>
        cp_greatest_timestamp cp' = AList.update pid timestamp (cp_greatest_timestamp cp))"

lemma accept_initiation_ok:
  assumes "cp_ok cp" "accept_initiation lib env cp source frame pid matched now = (r, cp')"
    and "initiator_of lib (cp_local_static cp) (cp_peers cp) (hf_noise_message frame) = Some (pid, matched)"
  shows "cp_ok cp' \<and> (quiet cp cp' \<or> answered lib (hf_noise_message frame) cp cp')"
proof (cases "\<exists>handshake n payload h.
    create lib role_responder (cp_local_static cp) (replicate 32 0) (pc_preshared matched) [] = Inr handshake \<and>
    read_message_1 lib handshake (hf_noise_message frame) (replicate kHandshakePayloadSize 0) =
      (Inr n, payload, h) \<and> payload_key_id payload \<noteq> kPreSessionKeyId \<and>
    (\<forall>seen. map_of (cp_greatest_timestamp cp) pid = Some seen \<longrightarrow> seen < payload_timestamp payload)")
  case False
  then show ?thesis using assms(1,2)
    by (auto simp: accept_initiation_def quiet_def Let_def not_le
        split: sum.split_asm prod.split_asm if_split_asm option.split_asm)
next
  case True
  then obtain handshake n payload h where c:
    "create lib role_responder (cp_local_static cp) (replicate 32 0) (pc_preshared matched) [] = Inr handshake"
    "read_message_1 lib handshake (hf_noise_message frame) (replicate kHandshakePayloadSize 0) = (Inr n, payload, h)"
    "payload_key_id payload \<noteq> kPreSessionKeyId"
    "\<forall>seen. map_of (cp_greatest_timestamp cp) pid = Some seen \<longrightarrow> seen < payload_timestamp payload" by blast
  let ?ts = "payload_timestamp payload"
  let ?cp = "cp\<lparr>cp_greatest_timestamp := AList.update pid ?ts (cp_greatest_timestamp cp)\<rparr>"
  have "\<not> (case map_of (cp_greatest_timestamp cp) pid of None \<Rightarrow> False | Some seen \<Rightarrow> ?ts \<le> seen)"
    using c(4) by (auto simp: not_le split: option.split)
  then have "answer_initiation lib env ?cp source pid matched h (payload_key_id payload) now = (r, cp')"
    using assms(2) c(1-3) by (simp add: accept_initiation_def Let_def)
  note ans = answer_initiation_ok [OF _ this]
  have "initiation_of lib (cp_local_static cp) (cp_peers cp) (hf_noise_message frame) = Some (pid, ?ts)"
    using assms(3) c(1,2) by (simp add: initiation_of_def read_timestamp_def)
  then show ?thesis using ans assms(1) c(4) by (auto simp: answered_def)
qed

lemma identify_initiation_ok:
  assumes "cp_ok cp" "identify_initiation lib env cp source frame now = (r, cp')"
  shows "cp_ok cp' \<and> (quiet cp cp' \<or> answered lib (hf_noise_message frame) cp cp')"
proof (cases "initiator_of lib (cp_local_static cp) (cp_peers cp) (hf_noise_message frame)")
  case None
  then show ?thesis using assms
    by (auto simp: identify_initiation_def initiator_of_def quiet_def
        split: sum.split_asm prod.split_asm option.split_asm)
next
  case (Some x)
  obtain pid matched where x: "x = (pid, matched)" by (cases x)
  then have "accept_initiation lib env cp source frame pid matched now = (r, cp')"
    using assms(2) Some by (auto simp: identify_initiation_def initiator_of_def
        split: sum.split_asm prod.split_asm option.split_asm)
  then show ?thesis using accept_initiation_ok [OF assms(1) _ Some [unfolded x]] by blast
qed

lemma handle_init_ok:
  assumes "cp_ok cp" "handle_init lib env cp source frame now = (r, cp')"
  shows "cp_ok cp' \<and> (quiet cp cp' \<or> answered lib (hf_noise_message frame) cp cp')"
proof -
  obtain v issuer where v: "verify_mac2 lib (ev_secret env) (cp_issuer cp) source (hf_mac2_covered frame)
      (hf_mac2 frame) now = (v, issuer)"
    by (cases "verify_mac2 lib (ev_secret env) (cp_issuer cp) source (hf_mac2_covered frame) (hf_mac2 frame) now")
  let ?cp = "cp\<lparr>cp_issuer := issuer\<rparr>"
  have cp: "cp_ok ?cp" "cp_ok (bump f ?cp)" for f using assms(1) by simp_all
  have "ci_mac1_key issuer = ci_mac1_key (cp_issuer cp)"
    using v verify_mac2_mac1_key [of lib "ev_secret env" "cp_issuer cp" source "hf_mac2_covered frame"
        "hf_mac2 frame" now] by simp
  then have same: "quiet ?cp cp' = quiet cp cp'" "quiet (bump (cs_mac2_failures_update g) ?cp) cp' = quiet cp cp'"
    "answered lib m ?cp cp' = answered lib m cp cp'" for g m
    by (simp_all add: quiet_def answered_def)
  consider
    (early) f where "cp' = bump f cp" "f = cs_pending_rejected_update (\<lambda>n. n + 1) \<or> f = cs_mac1_failures_update (\<lambda>n. n + 1)"
  | (calm) "identify_initiation lib env cp source frame now = (r, cp')"
  | (verified) "identify_initiation lib env ?cp source frame now = (r, cp')"
  | (cookie) "issue_cookie lib env (bump (cs_mac2_failures_update (\<lambda>n. n + 1)) ?cp) source (hf_mac1 frame) now = (r, cp')"
    using assms(2) v by (auto simp: handle_init_def Let_def split: if_split_asm)
  then show ?thesis
  proof cases
    case early
    then have "cp_ok cp'" "quiet cp cp'" using assms(1) by (auto simp: quiet_def)
    then show ?thesis by blast
  next
    case calm
    then show ?thesis by (rule identify_initiation_ok [OF assms(1)])
  next
    case verified
    from identify_initiation_ok [OF cp(1) this] show ?thesis unfolding same .
  next
    case cookie
    from issue_cookie_ok [OF cp(2) this] show ?thesis unfolding same by blast
  qed
qed

lemma handle_frame_ok:
  assumes "cp_ok cp" "handle_frame lib env cp source frame now = (r, cp')"
  shows "cp_ok cp' \<and> (quiet cp cp' \<or> answered lib (hf_noise_message frame) cp cp')"
proof -
  have "handle_response lib env cp source frame = (r, cp') \<Longrightarrow> cp_ok cp' \<and> quiet cp cp'"
    using response_loop_ok [OF assms(1)] assms(1)
    by (auto simp: handle_response_def quiet_def split: if_split_asm)
  then show ?thesis using assms handle_cookie_reply_ok [OF assms(1)] handle_init_ok [OF assms(1)]
    by (auto simp: handle_frame_def split: if_split_asm)
qed

lemma handle_datagram_ok:
  assumes "cp_ok cp" "handle_datagram lib env cp source datagram now = (r, cp')"
  shows "cp_ok cp' \<and> (quiet cp cp' \<or>
    (\<exists>frame. parse_handshake_frame datagram = Inr frame \<and> answered lib (hf_noise_message frame) cp cp'))"
proof -
  obtain g gl where g: "global_allow (cp_global_limiter cp) now = (g, gl)" by (cases "global_allow (cp_global_limiter cp) now")
  obtain l rl where l: "allow (cp_rate_limiter cp) source now = (l, rl)" by (cases "allow (cp_rate_limiter cp) source now")
  let ?cp = "cp\<lparr>cp_global_limiter := gl, cp_rate_limiter := rl, cp_handshakes_seen := cp_handshakes_seen cp + 1\<rparr>"
  have cp: "cp_ok ?cp" using assms(1) by simp
  have same: "quiet ?cp cp' = quiet cp cp'" "answered lib m ?cp cp' = answered lib m cp cp'" for m
    by (simp_all add: quiet_def answered_def)
  have frame: "cp_ok cp' \<and> (quiet cp cp' \<or> answered lib (hf_noise_message frame) cp cp')"
    if "handle_frame lib env ?cp source frame now = (r, cp')" for frame
    using handle_frame_ok [OF cp that] unfolding same .
  show ?thesis using assms g l frame
    by (auto simp: handle_datagram_def quiet_def Let_def split: if_split_asm sum.split_asm)
qed

subsection \<open>Promotion, timers and peers\<close>

lemma open_packet_peer: "ss_peer (snd (open_packet decrypt s view packet out now)) = ss_peer s"
proof -
  have c: "ss_peer (snd (check_window s c)) = ss_peer s" for s c
    by (simp add: check_window_def Let_def)
  have d: "ss_peer (snd (commit s c n)) = ss_peer s" for s c n
    by (simp add: commit_def Let_def split: prod.split ReplayResult.split)
  have a: "ss_peer (note_authentication_failure s) = ss_peer s" for s
    by (simp add: note_authentication_failure_def)
  obtain r1 s1 where s1: "check_window s (ph_counter (pv_header view)) = (r1, s1)"
    by (cases "check_window s (ph_counter (pv_header view))")
  obtain r2 out2 where s2: "decrypt_packet decrypt s1 view packet out = (r2, out2)"
    by (cases "decrypt_packet decrypt s1 view packet out")
  obtain r3 s3 where s3: "commit s1 (ph_counter (pv_header view)) now = (r3, s3)"
    by (cases "commit s1 (ph_counter (pv_header view)) now")
  have "ss_peer s1 = ss_peer s" "ss_peer s3 = ss_peer s1"
    using c [of s "ph_counter (pv_header view)"] d [of s1 "ph_counter (pv_header view)" now] s1 s3 by simp_all
  then show ?thesis by (simp add: open_packet_def s1 s2 s3 a split: sum.split)
qed

lemma try_promote_ok:
  assumes "cp_ok cp" "try_promote_provisional lib env cp view datagram out source = (r, out', cp')"
  shows "cp_ok cp' \<and> quiet cp cp'"
proof (cases "map_of (cp_provisional cp) (ph_key_id (pv_header view))")
  case None
  then show ?thesis using assms by (simp add: try_promote_provisional_def)
next
  case (Some entry)
  let ?k = "ph_key_id (pv_header view)"
  let ?s = "new_session (pr_peer entry) (pr_local_key_id entry) (pr_remote_key_id entry)
            \<lparr>tk_key = nr_send (pr_result entry), tk_generation = 0\<rparr>
            \<lparr>tk_key = nr_receive (pr_result entry), tk_generation = 0\<rparr> (ev_clock env)"
  obtain o1 buf s where o: "open_packet (so_decrypt lib) ?s view datagram out (ev_clock env) = ((o1, buf), s)"
    by (metis prod.exhaust)
  have p: "ss_peer s = pr_peer entry" using open_packet_peer [of "so_decrypt lib" ?s view datagram out "ev_clock env"] o
    by (simp add: new_session_def)
  obtain a t where a: "install (cp_sessions cp) (pr_peer entry) (pr_local_key_id entry) s (ev_clock env) = (a, t)"
    by (cases "install (cp_sessions cp) (pr_peer entry) (pr_local_key_id entry) s (ev_clock env)")
  have k: "pr_local_key_id entry = ?k" "session_at (cp_sessions cp) ?k = None"
    using ids_okD(8) [OF assms(1) Some] by blast+
  note pr = assms(2) [unfolded try_promote_provisional_def Let_def Some option.case o prod.case a]
  show ?thesis
  proof (cases o1)
    case (Inl e)
    then show ?thesis using pr assms(1) by simp
  next
    case (Inr n)
    show ?thesis
    proof (cases a)
      case (Inl e)
      then have "t = cp_sessions cp" using install_refused a by metis
      then show ?thesis using pr Inl Inr ids_ok_delete_provisional [OF assms(1)] by (auto simp: quiet_def)
    next
      case (Inr s')
      note i = install_noted [OF ids_ok_table [OF assms(1)] k(2) p a [unfolded Inr k(1)], where e = source]
      have "ids_ok (cp_pending cp) (AList.delete ?k (cp_provisional cp))
        (t\<lparr>tb_sessions := AList.update ?k (note_authenticated_endpoint s' source) (tb_sessions t)\<rparr>)"
        by (rule ids_ok_install_provisional [OF assms(1) i(1)])
          (use i(2) Some in \<open>auto simp del: map_of_eq_None_iff\<close>)
      then show ?thesis using pr Inr \<open>o1 = Inr n\<close> k(1) by (auto simp: quiet_def)
    qed
  qed
qed

lemma find_by_peer_table:
  "table_ok t \<Longrightarrow> table_ok (snd (find_by_peer t p))" "session_at (snd (find_by_peer t p)) = session_at t"
  using table_ok_find by (auto simp: find_by_peer_def find_by_key_id_def Let_def split: option.split)

lemma on_timer_ok:
  assumes "cp_ok cp" "on_timer lib env cp event now = (outgoing, cp')"
  shows "cp_ok cp' \<and> quiet cp cp'"
proof (cases "te_kind event")
  case handshake_retry
  show ?thesis
  proof (cases "map_of (cp_pending cp) (te_subject event)")
    case (Some entry)
    let ?entry = "entry\<lparr>pe_attempt := pe_attempt entry + 1\<rparr>" and ?cp = "bump (cs_retries_update (\<lambda>n. n + 1)) cp"
    obtain b entry' cp2 where b: "build_initiation lib env ?cp ?entry now = (b, entry', cp2)" by (metis prod_cases3)
    note g = build_initiation_fields [OF b]
    have "ids_ok (AList.update (te_subject event) entry' (cp_pending cp)) (cp_provisional cp) (cp_sessions cp)"
      by (rule ids_ok_change_pending [OF assms(1) Some]) (use g in simp_all)
    then show ?thesis using assms(2) handshake_retry Some b g by (auto simp: on_timer_def quiet_def Let_def)
  qed (use assms handshake_retry in \<open>simp add: on_timer_def Let_def\<close>)
next
  case rekey
  then show ?thesis using assms start_handshake_ok [OF assms(1)]
    by (auto simp: on_timer_def Let_def split: prod.split_asm sum.split_asm)
next
  case keepalive
  obtain s t where "find_by_peer (cp_sessions cp) (te_subject event) = (s, t)"
    by (cases "find_by_peer (cp_sessions cp) (te_subject event)")
  moreover from this have "ids_ok (cp_pending cp) (cp_provisional cp) t"
    using ids_ok_sessions [OF assms(1)] find_by_peer_table [of "cp_sessions cp" "te_subject event"]
      ids_ok_table [OF assms(1)] by (metis snd_conv)
  ultimately show ?thesis using assms(2) keepalive
    by (auto simp: on_timer_def quiet_def Let_def split: if_split_asm)
qed (use assms ids_ok_delete_pending [OF assms(1)] ids_ok_delete_provisional [OF assms(1)] in
  \<open>auto simp: on_timer_def quiet_def Let_def split: if_split_asm\<close>)

lemma on_timers_ok:
  assumes "cp_ok cp" "on_timers lib cp events now = (outgoing, cp')"
  shows "cp_ok cp' \<and> quiet cp cp'"
  using assms
proof (induction events arbitrary: cp outgoing)
  case (Cons x events)
  obtain event env where x: "x = (event, env)" by (cases x)
  obtain o1 cp1 where o: "on_timer lib env cp event now = (o1, cp1)" by (cases "on_timer lib env cp event now")
  obtain o2 where "on_timers lib cp1 events now = (o2, cp')"
    using Cons.prems(2) x o by (auto split: prod.split_asm)
  then show ?case using on_timer_ok [OF Cons.prems(1) o] Cons.IH quiet_trans by blast
qed simp

lemma forget_peer_fields:
  "cp_pending (forget_peer cp p) = AList.delete p (cp_pending cp)"
  "cp_provisional (forget_peer cp p) = filter (\<lambda>(key_id, entry). pr_peer entry \<noteq> p) (cp_provisional cp)"
  "cp_sessions (forget_peer cp p) = cp_sessions cp" "cp_local_static (forget_peer cp p) = cp_local_static cp"
  "cp_issuer (forget_peer cp p) = cp_issuer cp"
proof -
  have f: "cp_pending (fold (\<lambda>(key_id, entry) cp. if pr_peer entry \<noteq> p then cp
      else cancel_timer provisional_timeout (ucast key_id) cp) es cp) = cp_pending cp"
    "cp_provisional (fold (\<lambda>(key_id, entry) cp. if pr_peer entry \<noteq> p then cp
      else cancel_timer provisional_timeout (ucast key_id) cp) es cp) = cp_provisional cp"
    "cp_sessions (fold (\<lambda>(key_id, entry) cp. if pr_peer entry \<noteq> p then cp
      else cancel_timer provisional_timeout (ucast key_id) cp) es cp) = cp_sessions cp"
    "cp_local_static (fold (\<lambda>(key_id, entry) cp. if pr_peer entry \<noteq> p then cp
      else cancel_timer provisional_timeout (ucast key_id) cp) es cp) = cp_local_static cp"
    "cp_issuer (fold (\<lambda>(key_id, entry) cp. if pr_peer entry \<noteq> p then cp
      else cancel_timer provisional_timeout (ucast key_id) cp) es cp) = cp_issuer cp" for es cp
    by (induction es arbitrary: cp) (simp_all add: split_beta)
  show "cp_pending (forget_peer cp p) = AList.delete p (cp_pending cp)"
    "cp_provisional (forget_peer cp p) = filter (\<lambda>(key_id, entry). pr_peer entry \<noteq> p) (cp_provisional cp)"
    "cp_sessions (forget_peer cp p) = cp_sessions cp" "cp_local_static (forget_peer cp p) = cp_local_static cp"
    "cp_issuer (forget_peer cp p) = cp_issuer cp"
    by (simp_all add: forget_peer_def Let_def f)
qed

subsection \<open>Every sequence of operations\<close>

text \<open>
  The operations of the control plane, and those other parts of the program apply to the session table
  and the timer wheel they share with it.
\<close>

datatype cp_op = AddPeer PeerConfig | ForgetPeer PeerId | StartHandshake env PeerId instant
  | Datagram env Endpoint bytes instant | TimersDue "(TimerEvent \<times> env) list" instant
  | Promote env PacketView bytes bytes Endpoint | EvaluateLoad nat nat instant | SetUnderLoad bool
  | SetRekeyAfter duration | TakeKeepalives | RemoveSession u16 | ExpireRetired instant | ExpireTimers instant

primrec cp_step :: "sodium \<Rightarrow> cp_op \<Rightarrow> ControlPlane \<Rightarrow> ControlPlane" where
  "cp_step lib (AddPeer peer) cp = snd (add_peer cp peer)"
| "cp_step lib (ForgetPeer peer) cp = forget_peer cp peer"
| "cp_step lib (StartHandshake env peer now) cp = snd (start_handshake lib env cp peer now)"
| "cp_step lib (Datagram env source datagram now) cp = snd (handle_datagram lib env cp source datagram now)"
| "cp_step lib (TimersDue events now) cp = snd (on_timers lib cp events now)"
| "cp_step lib (Promote env view datagram out source) cp =
     snd (snd (try_promote_provisional lib env cp view datagram out source))"
| "cp_step lib (EvaluateLoad depth capacity now) cp = evaluate_load cp depth capacity now"
| "cp_step lib (SetUnderLoad v) cp = cp_set_under_load cp v"
| "cp_step lib (SetRekeyAfter interval) cp = set_rekey_after cp interval"
| "cp_step lib TakeKeepalives cp = snd (take_expired_keepalives cp)"
| "cp_step lib (RemoveSession key_id) cp = cp\<lparr>cp_sessions := remove_session (cp_sessions cp) key_id\<rparr>"
| "cp_step lib (ExpireRetired now) cp = cp\<lparr>cp_sessions := expire_retired (cp_sessions cp) now\<rparr>"
| "cp_step lib (ExpireTimers now) cp = cp\<lparr>cp_timers := snd (expire (cp_timers cp) now)\<rparr>"

lemma remove_expire_sessions:
  "session_at t k = None \<Longrightarrow> session_at (remove_session t j) k = None"
  "table_ok t \<Longrightarrow> session_at t k = None \<Longrightarrow> session_at (expire_retired t now) k = None"
  by (auto simp: remove_session_def map_of_delete Let_def expire_retired_simps split: option.split)

lemma cp_step_ok:
  assumes "cp_ok cp"
  shows "cp_ok (cp_step lib op cp)"
proof (cases op)
  case (Datagram env source datagram now)
  then show ?thesis using handle_datagram_ok [OF assms] by (metis cp_step.simps(4) prod.collapse)
next
  case (StartHandshake env peer now)
  then show ?thesis using start_handshake_ok [OF assms] by (metis cp_step.simps(3) prod.collapse)
next
  case (TimersDue events now)
  then show ?thesis using on_timers_ok [OF assms] by (metis cp_step.simps(5) prod.collapse)
next
  case (Promote env view datagram out source)
  then show ?thesis using try_promote_ok [OF assms] by (metis cp_step.simps(6) prod.collapse)
next
  case (ForgetPeer peer)
  then show ?thesis using ids_ok_filter_provisional [OF ids_ok_delete_pending [OF assms]]
    by (simp add: forget_peer_fields)
next
  case (RemoveSession k)
  then show ?thesis
    using ids_ok_sessions [OF assms table_ok_remove [OF ids_ok_table [OF assms]] remove_expire_sessions(1)] by simp
next
  case (ExpireRetired now)
  note t = ids_ok_table [OF assms]
  show ?thesis using ids_ok_sessions [OF assms table_ok_expire [OF t] remove_expire_sessions(2) [OF t]] ExpireRetired
    by simp
qed (use assms in \<open>simp_all add: add_peer_def evaluate_load_def cp_set_under_load_def set_rekey_after_def
    take_expired_keepalives_def Let_def\<close>)

abbreviation cp_run :: "sodium \<Rightarrow> cp_op list \<Rightarrow> ControlPlane \<Rightarrow> ControlPlane" where
  "cp_run lib ops cp \<equiv> fold (cp_step lib) ops cp"

lemma cp_run_ok: "cp_ok cp \<Longrightarrow> cp_ok (cp_run lib ops cp)"
  by (induction ops arbitrary: cp) (simp_all add: cp_step_ok)

text \<open>Operations that do not change the set of peers.\<close>

primrec keeps_peers :: "cp_op \<Rightarrow> bool" where
  "keeps_peers (AddPeer peer) = False"
| "keeps_peers (ForgetPeer peer) = False"
| "keeps_peers (StartHandshake env peer now) = True"
| "keeps_peers (Datagram env source datagram now) = True"
| "keeps_peers (TimersDue events now) = True"
| "keeps_peers (Promote env view datagram out source) = True"
| "keeps_peers (EvaluateLoad depth capacity now) = True"
| "keeps_peers (SetUnderLoad v) = True"
| "keeps_peers (SetRekeyAfter interval) = True"
| "keeps_peers TakeKeepalives = True"
| "keeps_peers (RemoveSession key_id) = True"
| "keeps_peers (ExpireRetired now) = True"
| "keeps_peers (ExpireTimers now) = True"

lemma step_quiet_or_answered:
  assumes "cp_ok cp" "keeps_peers op"
  shows "quiet cp (cp_step lib op cp) \<or> (\<exists>m. answered lib m cp (cp_step lib op cp))"
proof (cases op)
  case (Datagram env source datagram now)
  obtain r cp2 where d: "handle_datagram lib env cp source datagram now = (r, cp2)"
    by (cases "handle_datagram lib env cp source datagram now")
  then have "cp_step lib op cp = cp2" using Datagram by simp
  then show ?thesis using handle_datagram_ok [OF assms(1) d] by blast
next
  case (StartHandshake env peer now)
  obtain r cp2 where d: "start_handshake lib env cp peer now = (r, cp2)"
    by (cases "start_handshake lib env cp peer now")
  then have "cp_step lib op cp = cp2" using StartHandshake by simp
  then show ?thesis using start_handshake_ok [OF assms(1) d] by blast
next
  case (TimersDue events now)
  obtain r cp2 where d: "on_timers lib cp events now = (r, cp2)" by (cases "on_timers lib cp events now")
  then have "cp_step lib op cp = cp2" using TimersDue by simp
  then show ?thesis using on_timers_ok [OF assms(1) d] by blast
next
  case (Promote env view datagram out source)
  obtain r o2 cp2 where d: "try_promote_provisional lib env cp view datagram out source = (r, o2, cp2)"
    by (rule prod_cases3)
  then have "cp_step lib op cp = cp2" using Promote by simp
  then show ?thesis using try_promote_ok [OF assms(1) d] by blast
qed (use assms(2) in \<open>simp_all add: quiet_def evaluate_load_def cp_set_under_load_def set_under_load_def
    set_rekey_after_def take_expired_keepalives_def Let_def\<close>)

lemma step_keys:
  assumes "cp_ok cp"
  shows "cp_local_static (cp_step lib op cp) = cp_local_static cp"
    "ci_mac1_key (cp_issuer (cp_step lib op cp)) = ci_mac1_key (cp_issuer cp)"
proof -
  have "cp_local_static (cp_step lib op cp) = cp_local_static cp \<and>
    ci_mac1_key (cp_issuer (cp_step lib op cp)) = ci_mac1_key (cp_issuer cp)"
  proof (cases "keeps_peers op")
    case True
    then show ?thesis using step_quiet_or_answered [OF assms True, of lib] by (auto simp: quiet_def answered_def)
  next
    case False
    then show ?thesis by (cases op) (simp_all add: forget_peer_fields add_peer_def)
  qed
  then show "cp_local_static (cp_step lib op cp) = cp_local_static cp"
    "ci_mac1_key (cp_issuer (cp_step lib op cp)) = ci_mac1_key (cp_issuer cp)" by simp_all
qed

lemma run_keys:
  "cp_ok cp \<Longrightarrow> cp_local_static (cp_run lib ops cp) = cp_local_static cp \<and>
     ci_mac1_key (cp_issuer (cp_run lib ops cp)) = ci_mac1_key (cp_issuer cp)"
  by (induction ops arbitrary: cp) (simp_all add: cp_step_ok step_keys)

lemma new_control_plane_ok: "cp_ok (new_control_plane local_static new_session_table timers)"
  by (simp add: ids_ok_def new_control_plane_def table_ok_def new_session_table_def)

lemma ids_ok_distinct:
  assumes "ids_ok pend prov t"
  shows "distinct (map (pe_local_key_id \<circ> snd) pend @ map fst prov @ map fst (tb_sessions t))"
    "0 \<notin> set (map (pe_local_key_id \<circ> snd) pend @ map fst prov @ map fst (tb_sessions t))"
proof -
  note d = ids_okD [OF assms]
  have p: "map_of pend p = Some e" if "(p, e) \<in> set pend" for p e using d(2) that by simp
  have pr: "\<exists>e. map_of prov k = Some e" if "k \<in> fst ` set prov" for k
    using that by (metis map_of_eq_None_iff not_None_eq)
  have t: "session_at t k \<noteq> None" if "k \<in> fst ` set (tb_sessions t)" for k
    using that by (simp add: map_of_eq_None_iff)
  have "x = y" if xy: "x \<in> set pend" "y \<in> set pend" "(pe_local_key_id \<circ> snd) x = (pe_local_key_id \<circ> snd) y" for x y
  proof -
    obtain q e r f where x: "x = (q, e)" "y = (r, f)" by (cases x; cases y)
    have q: "map_of pend q = Some e" "map_of pend r = Some f" using p xy(1,2) x by simp_all
    have "q = r" by (rule d(7) [OF q]) (use xy(3) x in simp)
    then show ?thesis using q x by simp
  qed
  then have inj: "inj_on (pe_local_key_id \<circ> snd) (set pend)" by (rule inj_onI)
  have pend: "(pe_local_key_id \<circ> snd) x \<noteq> 0" "session_at t ((pe_local_key_id \<circ> snd) x) = None"
    "map_of prov ((pe_local_key_id \<circ> snd) x) = None" if "x \<in> set pend" for x
    using d(6) [OF p, of "fst x" "snd x"] that by simp_all
  have prov: "k \<noteq> 0" "session_at t k = None" if "k \<in> fst ` set prov" for k
    using pr [OF that] d(8) by blast+
  have "distinct (map (pe_local_key_id \<circ> snd) pend)"
    using d(2) inj by (simp add: distinct_map)
  moreover have "k \<notin> fst ` set prov \<and> k \<notin> fst ` set (tb_sessions t) \<and> k \<noteq> 0"
    if "k \<in> (pe_local_key_id \<circ> snd) ` set pend" for k
  proof -
    from that obtain x where x: "x \<in> set pend" "k = (pe_local_key_id \<circ> snd) x" by (rule imageE) blast
    show ?thesis using pend [OF x(1), folded x(2)] pr [of k] t [of k] by auto
  qed
  moreover have "k \<notin> fst ` set (tb_sessions t) \<and> k \<noteq> 0" if "k \<in> fst ` set prov" for k
    using prov [OF that] t [of k] by blast
  moreover have "0 \<notin> fst ` set (tb_sessions t)" using d(1) by (auto simp: table_ok_def dest: t)
  ultimately show "distinct (map (pe_local_key_id \<circ> snd) pend @ map fst prov @ map fst (tb_sessions t))"
    "0 \<notin> set (map (pe_local_key_id \<circ> snd) pend @ map fst prov @ map fst (tb_sessions t))"
    using d(3) table_ok_distinct [OF d(1)] unfolding distinct_append set_append set_map
    by blast+
qed

lemma find_by_peer_own:
  assumes "table_ok t" "fst (find_by_peer t p) = Some s"
  shows "ss_peer s = p"
proof -
  obtain k where "key_of_peer t p = Some k" "session_at t k = Some s"
    using assms(2) by (auto simp: find_by_peer_def find_by_key_id_def Let_def split: option.split_asm)
  then show ?thesis using assms(1) unfolding table_ok_def by (metis option.inject)
qed

text \<open>
  C7: a key id names one thing. Whatever operations run on a control plane, in whatever order, the key
  ids of the handshakes it started, of the handshakes it answered and of the sessions are pairwise
  different and not the reserved one, at most 256 handshakes of either kind are held, and the session
  table stays consistent: the session found for a peer is that peer's.
\<close>

theorem control_plane_key_ids:
  "let cp = cp_run lib ops (new_control_plane local_static new_session_table timers);
       ids = map (pe_local_key_id \<circ> snd) (cp_pending cp) @ map fst (cp_provisional cp) @
         map fst (tb_sessions (cp_sessions cp))
   in distinct ids \<and> 0 \<notin> set ids \<and>
     length (cp_pending cp) \<le> kMaximumPending \<and> length (cp_provisional cp) \<le> kMaximumPending \<and>
     (case fst (find_by_peer (cp_sessions cp) peer) of None \<Rightarrow> True | Some s \<Rightarrow> ss_peer s = peer)"
proof -
  have ok: "cp_ok (cp_run lib ops (new_control_plane local_static new_session_table timers))"
    by (rule cp_run_ok) (rule new_control_plane_ok)
  show ?thesis unfolding Let_def
    using ids_ok_distinct [OF ok] ids_okD(4,5) [OF ok] find_by_peer_own [OF ids_ok_table [OF ok]]
    by (simp split: option.split)
qed

subsection \<open>Replayed initiations\<close>

text \<open>\<open>seen_by pid timestamp cp cp'\<close>: keys and peers are the same, and \<open>cp'\<close> has seen at least that timestamp.\<close>

definition seen_by :: "PeerId \<Rightarrow> u64 \<Rightarrow> ControlPlane \<Rightarrow> ControlPlane \<Rightarrow> bool" where
  "seen_by pid timestamp cp cp' \<longleftrightarrow>
     cp_local_static cp' = cp_local_static cp \<and> cp_peers cp' = cp_peers cp \<and>
     (\<exists>seen. map_of (cp_greatest_timestamp cp') pid = Some seen \<and> timestamp \<le> seen)"

lemma seen_by_quiet: "seen_by pid timestamp cp cp1 \<Longrightarrow> quiet cp1 cp2 \<Longrightarrow> seen_by pid timestamp cp cp2"
  by (auto simp: seen_by_def quiet_def)

lemma seen_by_answered:
  assumes "seen_by pid timestamp cp cp1" "answered lib m cp1 cp2"
  shows "seen_by pid timestamp cp cp2"
proof -
  obtain seen where s: "map_of (cp_greatest_timestamp cp1) pid = Some seen" "timestamp \<le> seen"
    using assms(1) by (auto simp: seen_by_def)
  obtain q ts where q: "\<forall>seen. map_of (cp_greatest_timestamp cp1) q = Some seen \<longrightarrow> seen < ts"
    "cp_greatest_timestamp cp2 = AList.update q ts (cp_greatest_timestamp cp1)"
    using assms(2) by (auto simp: answered_def)
  have "\<exists>seen. map_of (cp_greatest_timestamp cp2) pid = Some seen \<and> timestamp \<le> seen"
    using s q by (cases "q = pid") (auto simp: map_of_update)
  then show ?thesis using assms by (simp add: seen_by_def answered_def)
qed

lemma step_seen:
  assumes "cp_ok cp1" "seen_by pid timestamp cp cp1" "keeps_peers op"
  shows "seen_by pid timestamp cp (cp_step lib op cp1)"
  using step_quiet_or_answered [OF assms(1,3), of lib] seen_by_quiet [OF assms(2)] seen_by_answered [OF assms(2)]
  by blast

lemma run_seen:
  "cp_ok cp1 \<Longrightarrow> seen_by pid timestamp cp cp1 \<Longrightarrow> list_all keeps_peers ops \<Longrightarrow>
     cp_ok (cp_run lib ops cp1) \<and> seen_by pid timestamp cp (cp_run lib ops cp1)"
  by (induction ops arbitrary: cp1) (simp_all add: cp_step_ok step_seen)

lemma answered_seen:
  "answered lib m cp cp1 \<Longrightarrow> \<exists>pid timestamp.
     initiation_of lib (cp_local_static cp) (cp_peers cp) m = Some (pid, timestamp) \<and> seen_by pid timestamp cp cp1"
  by (auto simp: answered_def seen_by_def map_of_update)

lemma seen_not_answered:
  assumes "initiation_of lib (cp_local_static cp) (cp_peers cp) m = Some (pid, timestamp)"
    and "seen_by pid timestamp cp cp1"
  shows "\<not> answered lib m cp1 cp2"
  using assms by (auto simp: answered_def seen_by_def)

text \<open>
  C5: an initiation is answered at most once. Once a datagram has been answered as an initiation, the
  same datagram, from whatever source and after whatever other operations, is not answered again and
  changes neither the timestamps nor the peers, as long as no peer is added or removed.
\<close>

theorem initiation_answered_once:
  assumes cp: "cp = cp_run lib before (new_control_plane local_static new_session_table timers)"
    and first: "cp1 = snd (handle_datagram lib env cp source datagram now)"
      "cs_responder_handshakes (cp_stats cp1) \<noteq> cs_responder_handshakes (cp_stats cp)"
    and between: "list_all keeps_peers ops" "cp2 = cp_run lib ops cp1"
    and again: "cp3 = snd (handle_datagram lib env' cp2 source' datagram now')"
  shows "cs_responder_handshakes (cp_stats cp3) = cs_responder_handshakes (cp_stats cp2) \<and>
    cp_greatest_timestamp cp3 = cp_greatest_timestamp cp2 \<and> cp_peers cp3 = cp_peers cp2"
proof -
  have ok: "cp_ok cp" unfolding cp by (rule cp_run_ok) (rule new_control_plane_ok)
  obtain r where r: "handle_datagram lib env cp source datagram now = (r, cp1)" using first(1) by (metis prod.collapse)
  have "\<not> quiet cp cp1" using first(2) by (simp add: quiet_def)
  then obtain frame where f: "parse_handshake_frame datagram = Inr frame" "cp_ok cp1"
    "answered lib (hf_noise_message frame) cp cp1"
    using handle_datagram_ok [OF ok r] by blast
  then obtain pid timestamp where i:
    "initiation_of lib (cp_local_static cp) (cp_peers cp) (hf_noise_message frame) = Some (pid, timestamp)"
    "seen_by pid timestamp cp cp1" using answered_seen by blast
  have run: "cp_ok cp2" "seen_by pid timestamp cp cp2"
    using run_seen [OF f(2) i(2) between(1)] between(2) by simp_all
  obtain r' where "handle_datagram lib env' cp2 source' datagram now' = (r', cp3)" using again by (metis prod.collapse)
  then have "quiet cp2 cp3"
    using handle_datagram_ok [OF run(1)] seen_not_answered [OF i(1) run(2)] f(1) by fastforce
  then show ?thesis by (simp add: quiet_def)
qed

end
