(* ===== verification/Control_Handshake.thy ===== *)
theory Control_Handshake
  imports Control_Invariant
begin

text \<open>
  Two control planes that talk to each other: the datagram one sends to start a handshake, the answer
  of the other, and the session the first one installs.
\<close>

subsection \<open>Payload\<close>

lemma and_255_ucast16: "(ucast (v AND 255) :: byte) = ucast v" for v :: u16
proof -
  have mask: "(255 :: u16) = mask 8" by (simp add: mask_eq_exp_minus_1)
  show ?thesis unfolding mask by (rule bit_word_eqI) (auto simp: bit_simps)
qed

lemma and_255_ucast64: "(ucast (v AND 255) :: byte) = ucast v" for v :: u64
proof -
  have mask: "(255 :: u64) = mask 8" by (simp add: mask_eq_exp_minus_1)
  show ?thesis unfolding mask by (rule bit_word_eqI) (auto simp: bit_simps)
qed

lemma payload_head:
  "(replicate 16 (0 :: byte))[0 := a, 1 := b, 2 := c, 3 := d, 4 := e, 5 := f, 6 := g, 7 := h] =
     [a, b, c, d, e, f, g, h] @ replicate 8 0"
  by (simp add: numeral_eq_Suc)

lemma payload_tail:
  "fold (\<lambda>index payload. payload[8 + index := f index]) [0..<8] ([a, b, c, d, e, g, h, i] @ replicate 8 0) =
     [a, b, c, d, e, g, h, i] @ map f [0..<8]"
  by (simp add: upt_8) (simp add: numeral_eq_Suc)

lemma build_payload_bytes:
  "build_payload version capabilities key_id timestamp =
     [pv_major version, pv_minor version] @ to_be 4 capabilities @ to_be 2 key_id @ to_be 8 timestamp"
  unfolding build_payload_def Let_def payload_head payload_tail and_255_ucast and_255_ucast16 and_255_ucast64
  by (simp add: to_be_def upt_2 upt_4)

lemma payload_roundtrip:
  "length (build_payload version capabilities key_id timestamp) = 16"
  "payload_key_id (build_payload version capabilities key_id timestamp) = key_id"
  "payload_timestamp (build_payload version capabilities key_id timestamp) = timestamp"
proof -
  let ?p = "build_payload version capabilities key_id timestamp"
  show len: "length ?p = 16" by (simp add: build_payload_bytes)
  have "payload_key_id ?p = read_u16 ?p 6" by (simp add: payload_key_id_def read_u16_def len)
  also have "\<dots> = be (take 2 (drop 6 ?p))" by (rule read_u16_be) (simp add: len)
  also have "\<dots> = key_id" by (simp add: build_payload_bytes)
  finally show "payload_key_id ?p = key_id" .
  have "payload_timestamp ?p = read_u64 ?p 8" by (simp add: payload_timestamp_def read_u64_def len)
  also have "\<dots> = be (take 8 (drop 8 ?p))" by (rule read_u64_be) (simp add: len)
  also have "\<dots> = timestamp" by (simp add: build_payload_bytes)
  finally show "payload_timestamp ?p = timestamp" .
qed

subsection \<open>Frames\<close>

lemma macs_received:
  assumes "serialize_handshake_frame_with_macs message noise = Inr b" "length mac1 = 16" "length mac2 = 16"
    and "mac1 = f (take (mac1_offset (length noise)) b)"
    and "datagram = copy_to (copy_to b (mac1_offset (length noise)) mac1) (mac2_offset (length noise)) mac2"
  obtains frame where "parse_handshake_frame datagram = Inr frame" "hf_message frame = message"
    "hf_noise_message frame = noise" "hf_has_macs frame" "hf_mac1 frame = f (hf_mac1_covered frame)"
proof -
  have "length b = 4 + length noise + 32"
    using assms(1) by (auto simp: serialize_handshake_frame_with_macs_def serialize_handshake_frame_ok
        handshake_frame_consts split: sum.split_asm)
  then have "mac1_offset (length noise) = length b - 32" by (simp add: mac1_offset_def handshake_frame_consts)
  then show thesis using that frame_received [OF assms(1-3)] assms(4,5) by simp
qed

subsection \<open>The initiator starts\<close>

lemma holder_macs: "length (holder_mac1 c x) = 16" "length (holder_mac2 c x) = 16"
  by (simp_all add: holder_mac1_def holder_mac2_def kMacSize_def)

lemma build_initiation_Inr:
  assumes "build_initiation lib env cp entry now = (Inr out, entry', cp')"
  obtains config h n m h' b cookies where
    "find_peer cp (pe_peer entry) = Some config"
    "create lib role_initiator (cp_local_static cp) (pc_static_public config) (pc_preshared config) [] = Inr h"
    "write_message_1 lib (ev_ephemeral env) h
       (build_payload current_version 0 (pe_local_key_id entry) (ev_timestamp env)) (replicate 112 0) = (Inr n, m, h')"
    "serialize_handshake_frame_with_macs hm_init (take n m) = Inr b"
    "cookies = (case pe_cookies entry of None \<Rightarrow> new_holder (pc_static_public config) | Some c \<Rightarrow> c)"
    "pe_handshake entry' = Some h'" "pe_cookies entry' = Some cookies"
    "oh_datagram out = copy_to (copy_to b (mac1_offset n) (holder_mac1 cookies (take (mac1_offset n) b)))
       (mac2_offset n) (holder_mac2 cookies (take (mac2_offset n)
          (copy_to b (mac1_offset n) (holder_mac1 cookies (take (mac1_offset n) b)))))"
proof -
  note b = assms [unfolded build_initiation_def Let_def payload_roundtrip(1) noise_consts, simplified]
  obtain config where 1: "find_peer cp (pe_peer entry) = Some config" using b by (auto split: option.split_asm)
  obtain h where 2: "create lib role_initiator (cp_local_static cp) (pc_static_public config) (pc_preshared config) [] = Inr h"
    using b 1 by (auto split: sum.split_asm)
  obtain n m h' where 3: "write_message_1 lib (ev_ephemeral env) h
     (build_payload current_version 0 (pe_local_key_id entry) (ev_timestamp env)) (replicate 112 0) = (Inr n, m, h')"
    using b 1 2 by (auto split: sum.split_asm prod.split_asm)
  obtain f where 4: "serialize_handshake_frame_with_macs hm_init (take n m) = Inr f"
    using b 1 2 3 by (auto split: sum.split_asm)
  show thesis
    using that [OF 1 2 3 4 refl] b 1 2 3 4 by (auto split: prod.split_asm bool.split_asm)
qed

lemma start_handshake_Inr:
  assumes "cp_ok cp" "start_handshake lib env cp peer now = (Inr out, cp1)"
  obtains key_id t destination entry cp' where
    "find_peer cp peer \<noteq> None" "fresh_id key_id (cp_pending cp) (cp_provisional cp) t"
    "tb_sessions t = tb_sessions (cp_sessions cp)" "length (tb_sessions (cp_sessions cp)) < 1024"
    "build_initiation lib env (cp\<lparr>cp_sessions := t\<rparr>)
       \<lparr>pe_peer = peer, pe_handshake = None, pe_local_key_id = key_id, pe_attempt = 0, pe_destination = destination,
        pe_started = 0, pe_cookies = None, pe_last_mac1 = replicate kMacSize 0\<rparr> now = (Inr out, entry, cp')"
    "cp1 = bump (cs_handshakes_started_update (\<lambda>n. n + 1))
       (cp'\<lparr>cp_pending := AList.update peer entry (cp_pending cp')\<rparr>)"
proof -
  obtain a cp2 where a: "cp_allocate_key_id cp = (a, cp2)" by (cases "cp_allocate_key_id cp")
  obtain t where t: "cp2 = cp\<lparr>cp_sessions := t\<rparr>" "tb_sessions t = tb_sessions (cp_sessions cp)" "cp_ok cp2"
    "\<forall>k. a = Inr k \<longrightarrow> fresh_id k (cp_pending cp) (cp_provisional cp) t"
    by (rule cp_allocate_ok [OF assms(1) a])
  note st = assms(2) [unfolded start_handshake_def a Let_def]
  obtain destination key_id where d: "dial_endpoint cp peer = Some destination" "a = Inr key_id"
    "find_peer cp peer \<noteq> None"
    using st by (auto split: if_split_asm option.split_asm sum.split_asm)
  have "length (tb_sessions (cp_sessions cp)) < 1024"
  proof (rule ccontr)
    assume "\<not> ?thesis"
    then have "\<exists>e. fst (key_id_loop (Suc n) cp) = Inl e" for n
      by (simp add: allocate_key_id_def kMaximumSessions_def)
    moreover have "kMaximumPending * 2 + 2 = Suc 513" by (simp add: kMaximumPending_def)
    ultimately show False using a d(2) unfolding cp_allocate_key_id_def by (metis fst_conv sum.distinct(1))
  qed
  then show thesis using st d t that
    by (auto split: if_split_asm sum.split_asm prod.split_asm)
qed

subsection \<open>The responder answers\<close>

lemma answer_initiation_Inr:
  assumes "cp_ok cp"
    and "answer_initiation lib env cp source pid matched handshake remote now = (Inr (Some out), cp')"
  obtains key_id n m h completed b where "key_id \<noteq> 0"
    "write_message_2 lib (ev_ephemeral env) handshake
       (build_payload current_version 0 key_id (ev_timestamp env)) (replicate 64 0) = (Inr n, m, h)"
    "noise_result h = Inr completed"
    "serialize_handshake_frame_with_macs hm_response (take n m) = Inr b"
    "oh_datagram out = copy_to b (mac1_offset n) (issuer_mac1 (cp_issuer cp) (take (mac1_offset n) b))"
    "map_of (cp_provisional cp') key_id = Some \<lparr>pr_peer = pid, pr_local_key_id = key_id,
       pr_remote_key_id = remote, pr_result = completed, pr_endpoint = source, pr_created = now\<rparr>"
    "cs_responder_handshakes (cp_stats cp') = cs_responder_handshakes (cp_stats cp) + 1"
proof -
  obtain a cp2 where a: "cp_allocate_key_id cp = (a, cp2)" by (cases "cp_allocate_key_id cp")
  obtain t where t: "cp2 = cp\<lparr>cp_sessions := t\<rparr>" "tb_sessions t = tb_sessions (cp_sessions cp)" "cp_ok cp2"
    "\<forall>k. a = Inr k \<longrightarrow> fresh_id k (cp_pending cp) (cp_provisional cp) t"
    by (rule cp_allocate_ok [OF assms(1) a])
  note an = assms(2) [unfolded answer_initiation_def a Let_def payload_roundtrip(1) noise_consts, simplified]
  obtain k where k: "a = Inr k" using an by (auto split: sum.split_asm)
  have k0: "k \<noteq> 0" using t(4) k by (simp add: fresh_id_def)
  obtain n m h where 1: "write_message_2 lib (ev_ephemeral env) handshake
       (build_payload current_version 0 k (ev_timestamp env)) (replicate 64 0) = (Inr n, m, h)"
    using an k by (auto split: sum.split_asm prod.split_asm)
  obtain completed where 2: "noise_result h = Inr completed" using an k 1 by (auto split: sum.split_asm)
  obtain b where 3: "serialize_handshake_frame_with_macs hm_response (take n m) = Inr b"
    using an k 1 2 by (auto split: sum.split_asm if_split_asm)
  have "cp_issuer cp2 = cp_issuer cp" "cp_stats cp2 = cp_stats cp" using t(1) by simp_all
  then show thesis using that [OF k0 1 2 3] an k 1 2 3 by (auto simp: map_of_update split: if_split_asm)
qed

lemma init_answered:
  assumes ok: "cp_ok cp" and load: "\<not> ci_under_load (cp_issuer cp)"
    and frame: "parse_handshake_frame datagram = Inr frame" "hf_message frame = hm_init"
    and h: "handle_datagram lib env cp source datagram now = (Inr (Some out), cp')"
  obtains cp1 pid matched handshake n payload h where
    "cp_ok cp1" "cp_issuer cp1 = cp_issuer cp" "cp_stats cp1 = cp_stats cp"
    "initiator_of lib (cp_local_static cp) (cp_peers cp) (hf_noise_message frame) = Some (pid, matched)"
    "create lib role_responder (cp_local_static cp) (replicate 32 0) (pc_preshared matched) [] = Inr handshake"
    "read_message_1 lib handshake (hf_noise_message frame) (replicate kHandshakePayloadSize 0) = (Inr n, payload, h)"
    "answer_initiation lib env cp1 source pid matched h (payload_key_id payload) now = (Inr (Some out), cp')"
proof -
  obtain g gl where g: "global_allow (cp_global_limiter cp) now = (g, gl)" by (cases "global_allow (cp_global_limiter cp) now")
  obtain l rl where l: "allow (cp_rate_limiter cp) source now = (l, rl)" by (cases "allow (cp_rate_limiter cp) source now")
  let ?cp = "cp\<lparr>cp_global_limiter := gl, cp_rate_limiter := rl, cp_handshakes_seen := cp_handshakes_seen cp + 1\<rparr>"
  have "identify_initiation lib env ?cp source frame now = (Inr (Some out), cp')"
    using h g l frame load
    by (auto simp: handle_datagram_def handle_frame_def handle_init_def Let_def split: if_split_asm)
  then obtain pid matched where i:
    "initiator_of lib (cp_local_static cp) (cp_peers cp) (hf_noise_message frame) = Some (pid, matched)"
    "accept_initiation lib env ?cp source frame pid matched now = (Inr (Some out), cp')"
    by (auto simp: identify_initiation_def initiator_of_def split: sum.split_asm prod.split_asm option.split_asm)
  obtain handshake n payload h where c:
    "create lib role_responder (cp_local_static cp) (replicate 32 0) (pc_preshared matched) [] = Inr handshake"
    "read_message_1 lib handshake (hf_noise_message frame) (replicate kHandshakePayloadSize 0) = (Inr n, payload, h)"
    using i(2) by (auto simp: accept_initiation_def split: sum.split_asm prod.split_asm)
  let ?cp1 = "?cp\<lparr>cp_greatest_timestamp := AList.update pid (payload_timestamp payload) (cp_greatest_timestamp cp)\<rparr>"
  have "answer_initiation lib env ?cp1 source pid matched h (payload_key_id payload) now = (Inr (Some out), cp')"
    using i(2) c by (auto simp: accept_initiation_def Let_def split: if_split_asm)
  from that [OF _ _ _ i(1) c this] ok show thesis by simp
qed

lemma response_received:
  assumes "serialize_handshake_frame_with_macs message noise = Inr b" "length (f (take (mac1_offset (length noise)) b)) = 16"
    and "datagram = copy_to b (mac1_offset (length noise)) (f (take (mac1_offset (length noise)) b))"
  obtains frame where "parse_handshake_frame datagram = Inr frame" "hf_message frame = message"
    "hf_noise_message frame = noise" "hf_has_macs frame" "hf_mac1 frame = f (hf_mac1_covered frame)"
proof -
  let ?mac1 = "f (take (mac1_offset (length noise)) b)"
  obtain e where e: "b = e @ replicate 32 0" "length e = 4 + length noise"
    using assms(1) by (auto simp: serialize_handshake_frame_with_macs_def serialize_handshake_frame_ok
        handshake_frame_consts split: sum.split_asm)
  have "datagram = e @ ?mac1 @ replicate 16 0"
    using assms(2,3) e by (simp add: copy_to_def mac1_offset_def handshake_frame_consts)
  moreover have "copy_to (copy_to b (mac1_offset (length noise)) ?mac1) (mac2_offset (length noise)) (replicate 16 0) =
      e @ ?mac1 @ replicate 16 0"
    using assms(2) e by (simp add: copy_to_def mac1_offset_def mac2_offset_def handshake_frame_consts)
  ultimately show thesis
    using macs_received [OF assms(1,2), of "replicate 16 0" f datagram] that by auto
qed

subsection \<open>The initiator completes\<close>

lemma installed:
  assumes "cp_ok cp" "length (tb_sessions (cp_sessions cp)) < 1024" "peer \<noteq> kNoPeer" "key_id \<noteq> 0"
  obtains cp' where "install_session env cp peer key_id remote result endpoint = (Inr (), cp')"
    "session_at (cp_sessions cp') key_id = Some (note_authenticated_endpoint
       (new_session peer key_id remote \<lparr>tk_key = nr_send result, tk_generation = 0\<rparr>
          \<lparr>tk_key = nr_receive result, tk_generation = 0\<rparr> (ev_clock env)) endpoint)"
    "key_of_peer (cp_sessions cp') peer = Some key_id"
proof -
  let ?s = "new_session peer key_id remote \<lparr>tk_key = nr_send result, tk_generation = 0\<rparr>
      \<lparr>tk_key = nr_receive result, tk_generation = 0\<rparr> (ev_clock env)"
  obtain a t where a: "install (cp_sessions cp) peer key_id ?s (ev_clock env) = (a, t)"
    by (cases "install (cp_sessions cp) peer key_id ?s (ev_clock env)")
  have "a = Inr ?s" "key_of_peer t peer = Some key_id"
    using a assms(2-4)
    by (auto simp: install_def Let_def kMaximumSessions_def kPreSessionKeyId_def map_of_delete map_of_update split: if_split_asm)
  then show thesis using that a by (simp add: install_session_def install_keys_def Let_def map_of_update)
qed

lemma response_completes:
  assumes ok: "cp_ok cp" and room: "length (tb_sessions (cp_sessions cp)) < 1024" "peer \<noteq> kNoPeer"
    and pend: "cp_pending cp = [(peer, entry)]" "pe_handshake entry = Some h" "pe_cookies entry = Some cookies"
    and mac: "hf_mac1 frame = holder_mac1 cookies (hf_mac1_covered frame)" "hf_has_macs frame"
    and read: "read_message_2 lib h (hf_noise_message frame) (replicate kHandshakePayloadSize 0) = (Inr n, payload, h')"
    and key: "noise_result h' = Inr completed" "payload_key_id payload \<noteq> 0"
  obtains cp' where "handle_response lib env cp source frame = (Inr None, cp')" "cp_pending cp' = []"
    "session_at (cp_sessions cp') (pe_local_key_id entry) = Some (note_authenticated_endpoint
       (new_session peer (pe_local_key_id entry) (payload_key_id payload)
          \<lparr>tk_key = nr_send completed, tk_generation = 0\<rparr>
          \<lparr>tk_key = nr_receive completed, tk_generation = 0\<rparr> (ev_clock env)) source)"
    "key_of_peer (cp_sessions cp') peer = Some (pe_local_key_id entry)"
proof -
  let ?cp = "cp\<lparr>cp_pending := AList.update peer (entry\<lparr>pe_handshake := Some h'\<rparr>) (cp_pending cp)\<rparr>"
  have m: "map_of (cp_pending cp) peer = Some entry" using pend by simp
  have "cp_ok ?cp" using ids_ok_change_pending [OF ok m] by simp
  then have ok': "cp_ok ?cp" "map_of (cp_pending ?cp) peer = Some (entry\<lparr>pe_handshake := Some h'\<rparr>)"
    using pend by simp_all
  have "pe_local_key_id entry \<noteq> 0" using ids_okD(6) [OF ok m] by simp
  note pre = ok'(1) _ room(2) this
  obtain cp' where i:
    "install_session env ?cp peer (pe_local_key_id entry) (payload_key_id payload) completed source = (Inr (), cp')"
    "session_at (cp_sessions cp') (pe_local_key_id entry) = Some (note_authenticated_endpoint
       (new_session peer (pe_local_key_id entry) (payload_key_id payload)
          \<lparr>tk_key = nr_send completed, tk_generation = 0\<rparr>
          \<lparr>tk_key = nr_receive completed, tk_generation = 0\<rparr> (ev_clock env)) source)"
    "key_of_peer (cp_sessions cp') peer = Some (pe_local_key_id entry)"
    by (rule installed [OF pre]) (use room(1) in simp)
  have "cp_pending cp' = [(peer, entry\<lparr>pe_handshake := Some h'\<rparr>)]"
    using install_session_ok(2) [OF ok', of env "payload_key_id payload" completed source "Inr ()" cp'] i(1) pend
    by simp
  then show thesis using i that mac read key pend
    by (simp add: handle_response_def Let_def kPreSessionKeyId_def)
qed

subsection \<open>The exchange\<close>

lemma noise_exchange:
  assumes laws: "sodium_laws lib"
    and keys: "so_scalarmult_base lib (kp_private si) = Some (kp_public si)"
      "so_scalarmult_base lib (kp_private sr) = Some (kp_public sr)"
    and i: "create lib role_initiator si (kp_public sr) psk [] = Inr i"
    and w1: "write_message_1 lib random1 i p1 (replicate 112 0) = (Inr n1, m1, i1)" "length p1 = 16"
    and peer: "match_peer peers (kp_public si) = Some (pid, config)" "pc_preshared config = psk"
    and matched: "initiator_of lib sr peers (take n1 m1) = Some (pid', matched)"
    and r: "create lib role_responder sr unused (pc_preshared matched) [] = Inr r"
    and r1: "read_message_1 lib r (take n1 m1) (replicate 16 0) = (Inr n, payload, r1)"
    and w2: "write_message_2 lib random2 r1 p2 (replicate 64 0) = (Inr n2, m2, r2)" "length p2 = 16"
    and done2: "noise_result r2 = Inr completed"
  obtains i2 result where "n1 = length (take n1 m1)" "n2 = length (take n2 m2)"
    "payload = p1" "pid' = pid" "read_message_2 lib i1 (take n2 m2) (replicate 16 0) = (Inr 16, p2, i2)"
    "noise_result i2 = Inr result" "nr_send result = nr_receive completed" "nr_receive result = nr_send completed"
proof -
  note ci = create_initiator [OF i] and cr = create_responder [OF r]
  obtain identify where id: "create lib role_responder sr (replicate 32 0) (replicate 32 0) [] = Inr identify"
    using matched by (auto simp: initiator_of_def split: sum.split_asm)
  note cd = create_responder [OF id]
  obtain n' payload' identify' where rd: "read_message_1 lib identify (take n1 m1) (replicate 16 0) = (Inr n', payload', identify')"
    "match_peer peers (nh_remote_static identify') = Some (pid', matched)"
    using matched id by (auto simp: initiator_of_def kHandshakePayloadSize_def split: sum.split_asm prod.split_asm)
  have "nh_remote_static identify' = kp_public si"
    by (rule message_1_received [OF laws w1(1) ci(3) cd(1,4,2), of "replicate 16 0"])
      (use ci cd keys rd(1) w1(2) in \<open>auto simp del: take_all_iff\<close>)
  then have pid: "pid' = pid" "matched = config" using rd(2) peer by simp_all
  obtain pair s where n1: "n1 = 96 + length p1" "length m1 = length (replicate 112 (0 :: byte))"
    and pair: "so_scalarmult_base lib (kp_private pair) = Some (kp_public pair)"
    and i1: "i1 = i\<lparr>nh_local_ephemeral := pair, nh_symmetric := s, nh_sent_message_1 := True\<rparr>"
    and read1: "read_message_1 lib r (take n1 m1) (replicate 16 0) = (Inr (length p1), copy_to (replicate 16 0) 0 p1,
       r\<lparr>nh_remote_ephemeral := kp_public pair, nh_symmetric := s, nh_remote_static := kp_public (nh_local_static i),
         nh_has_remote_static := True, nh_read_message_1 := True\<rparr>)"
    by (rule message_1_received [OF laws w1(1) ci(3) cr(1,4,2), of "replicate 16 0"])
      (use ci cr keys w1(2) in simp_all)
  have r1': "payload = p1" "r1 = r\<lparr>nh_remote_ephemeral := kp_public pair, nh_symmetric := s,
         nh_remote_static := kp_public (nh_local_static i), nh_has_remote_static := True, nh_read_message_1 := True\<rparr>"
    using read1 r1 w1(2) by (simp_all add: copy_to_def)
  obtain pair' s' where n2: "n2 = 48 + length p2" "length m2 = length (replicate 64 (0 :: byte))"
    and r2': "r2 = r1\<lparr>nh_local_ephemeral := pair', nh_symmetric := s', nh_finished := True\<rparr>"
    and read2: "read_message_2 lib i1 (take n2 m2) (replicate 16 0) = (Inr (length p2), copy_to (replicate 16 0) 0 p2,
       i1\<lparr>nh_remote_ephemeral := kp_public pair', nh_symmetric := s', nh_finished := True\<rparr>)"
    by (rule message_2_received [OF laws w2(1), of i1 "replicate 16 0"])
      (use ci cr keys pair i1 r1' w2(2) pid peer in simp_all)
  obtain first second where "split_keys s' = (first, second)" by (cases "split_keys s'")
  then show thesis
    using that [of "i1\<lparr>nh_remote_ephemeral := kp_public pair', nh_symmetric := s', nh_finished := True\<rparr>"]
      pid n1 n2 r1' read2 w1(2) w2(2) done2
    by (auto simp: noise_result_def r2' i1 ci cr copy_to_def)
qed

lemma start_handshake_available:
  "start_handshake lib env cp peer now = (Inr out, cp1) \<Longrightarrow> crypto_available lib"
  by (auto simp: start_handshake_def split: if_split_asm)

lemma initiation_sent:
  assumes laws: "sodium_laws lib" and ok: "cp_ok cp" and none: "cp_pending cp = []"
    and config: "find_peer cp peer = Some config"
    and keys: "so_scalarmult_base lib private = Some (pc_static_public config)"
      "so_scalarmult_base lib (kp_private (cp_local_static cp)) = Some (kp_public (cp_local_static cp))"
    and start: "start_handshake lib env cp peer now = (Inr out, cp1)"
  obtains key_id entry frame h i n m where
    "create lib role_initiator (cp_local_static cp) (pc_static_public config) (pc_preshared config) [] = Inr h"
    "write_message_1 lib (ev_ephemeral env) h
       (build_payload current_version 0 key_id (ev_timestamp env)) (replicate 112 0) = (Inr n, m, i)"
    "parse_handshake_frame (oh_datagram out) = Inr frame" "hf_message frame = hm_init"
    "hf_noise_message frame = take n m" "hf_has_macs frame"
    "hf_mac1 frame = holder_mac1 (new_holder (pc_static_public config)) (hf_mac1_covered frame)"
    "cp_ok cp1" "length (tb_sessions (cp_sessions cp1)) < 1024"
    "cp_pending cp1 = [(peer, entry)]" "pe_handshake entry = Some i" "pe_local_key_id entry = key_id"
    "pe_cookies entry = Some (new_holder (pc_static_public config))"
proof -
  obtain key_id t destination entry cp' where
    st: "tb_sessions t = tb_sessions (cp_sessions cp)" "length (tb_sessions (cp_sessions cp)) < 1024"
    and bi: "build_initiation lib env (cp\<lparr>cp_sessions := t\<rparr>)
       \<lparr>pe_peer = peer, pe_handshake = None, pe_local_key_id = key_id, pe_attempt = 0, pe_destination = destination,
        pe_started = 0, pe_cookies = None, pe_last_mac1 = replicate kMacSize 0\<rparr> now = (Inr out, entry, cp')"
    and cp1: "cp1 = bump (cs_handshakes_started_update (\<lambda>n. n + 1))
       (cp'\<lparr>cp_pending := AList.update peer entry (cp_pending cp')\<rparr>)"
    by (rule start_handshake_Inr [OF ok start])
  note f = build_initiation_fields [OF bi]
  let ?p = "build_payload current_version 0 key_id (ev_timestamp env)" and ?c = "new_holder (pc_static_public config)"
  obtain h n m i b where w:
    "create lib role_initiator (cp_local_static cp) (pc_static_public config) (pc_preshared config) [] = Inr h"
    "write_message_1 lib (ev_ephemeral env) h ?p (replicate 112 0) = (Inr n, m, i)"
    and b: "serialize_handshake_frame_with_macs hm_init (take n m) = Inr b"
    and e: "pe_handshake entry = Some i" "pe_cookies entry = Some ?c"
    and d: "oh_datagram out = copy_to (copy_to b (mac1_offset n) (holder_mac1 ?c (take (mac1_offset n) b)))
       (mac2_offset n) (holder_mac2 ?c (take (mac2_offset n)
          (copy_to b (mac1_offset n) (holder_mac1 ?c (take (mac1_offset n) b)))))"
    by (rule build_initiation_Inr [OF bi]) (use config in \<open>simp add: find_peer_def\<close>)
  note c = create_initiator [OF w(1)]
  have n: "length (take n m) = n"
    by (rule message_1_received [OF laws w(2) c(3), of "h\<lparr>nh_role := role_responder, nh_read_message_1 := False,
          nh_local_static := \<lparr>kp_public = [], kp_private = private\<rparr>\<rparr>" ?p])
      (use c keys in \<open>simp_all add: payload_roundtrip\<close>)
  obtain frame where "parse_handshake_frame (oh_datagram out) = Inr frame" "hf_message frame = hm_init"
    "hf_noise_message frame = take n m" "hf_has_macs frame" "hf_mac1 frame = holder_mac1 ?c (hf_mac1_covered frame)"
    by (rule macs_received [where f = "holder_mac1 ?c", OF b holder_macs refl, unfolded n, OF d])
  moreover have "cp_pending cp1 = [(peer, entry)]" "length (tb_sessions (cp_sessions cp1)) < 1024" "pe_local_key_id entry = key_id"
    using f none st cp1 by simp_all
  moreover have "cp_ok cp1" using start_handshake_ok [OF ok start] by simp
  ultimately show thesis using that w e by blast
qed


subsection \<open>Two control planes that complete a handshake\<close>

definition sample_source :: Endpoint where
  "sample_source = \<lparr>ep_address = \<lparr>ad_family = ipv4, ad_octets = replicate 16 0\<rparr>, ep_port = 4500\<rparr>"

definition sample_env :: env where
  "sample_env = \<lparr>ev_clock = 0, ev_timestamp = 1, ev_ephemeral = replicate 32 4, ev_secret = [], ev_secret' = [],
     ev_nonce = []\<rparr>"

text \<open>The control plane of \<open>sample_pair own\<close> that knows the owner of \<open>sample_pair other\<close> as peer 1.\<close>

definition sample_config :: "byte \<Rightarrow> PeerConfig" where
  "sample_config other = \<lparr>pc_id = 1, pc_static_public = kp_public (sample_pair other), pc_preshared = replicate 32 3,
     pc_endpoint = Some sample_source\<rparr>"

definition sample_plane :: "byte \<Rightarrow> byte \<Rightarrow> ControlPlane" where
  "sample_plane own other = cp_run xor_sodium [AddPeer (sample_config other)]
     (new_control_plane (sample_pair own) new_session_table new_wheel)"

lemma sample_plane_eq:
  "sample_plane own other =
     (new_control_plane (sample_pair own) new_session_table new_wheel)\<lparr>cp_peers := [(1, sample_config other)]\<rparr>"
  by (simp add: sample_plane_def add_peer_def sample_config_def kNoPeer_def new_control_plane_def)

lemma sample_plane_ok: "cp_ok (sample_plane own other)"
  unfolding sample_plane_def by (rule cp_run_ok) (rule new_control_plane_ok)

lemma allocate_key_id_empty:
  assumes "cp_pending cp = []" "cp_provisional cp = []" "cp_sessions cp = new_session_table"
  shows "cp_allocate_key_id cp = (Inr 1, cp\<lparr>cp_sessions := new_session_table\<lparr>tb_next_key_id := 2\<rparr>\<rparr>)"
proof -
  have "allocate_loop 0 new_session_table = (Inr 1, new_session_table\<lparr>tb_next_key_id := 2\<rparr>)"
    by (subst allocate_loop.simps) (simp add: new_session_table_def next_id_def kPreSessionKeyId_def Let_def)
  moreover have "kMaximumPending * 2 + 2 = Suc 513" by (simp add: kMaximumPending_def)
  ultimately show ?thesis unfolding cp_allocate_key_id_def using assms
    by (simp add: allocate_key_id_def kMaximumSessions_def Let_def) (simp add: new_session_table_def)
qed

lemma fresh_limiters:
  "fst (global_allow (new_global_limiter 256 64 0) 0)" "fst (allow (new_limiter 8 2) source 0)"
  using index_of_less [of source]
  by (simp_all add: global_allow_def new_global_limiter_def new_bucket_def consume_def refill_def allow_def
      new_limiter_def empty_bucket_def Let_def)

lemma frame_serialized:
  assumes "length noise \<le> 4096" "is_wire_message message"
  obtains b where "serialize_handshake_frame_with_macs message noise = Inr b"
  using assms serialize_handshake_frame_ok [of message noise "envelope message (length noise) @ noise"]
  by (simp add: serialize_handshake_frame_with_macs_def)

lemma sample_started:
  assumes "other \<noteq> 0"
  obtains out cp1 where "start_handshake xor_sodium sample_env (sample_plane own other) 1 0 = (Inr out, cp1)"
    "cp_global_limiter cp1 = new_global_limiter 256 64 0" "cp_rate_limiter cp1 = new_limiter 8 2"
proof -
  let ?p = "build_payload current_version 0 1 1" and ?s = "kp_public (sample_pair other)"
  obtain h where c: "create xor_sodium role_initiator (sample_pair own) ?s (replicate 32 3) [] = Inr h"
    and h: "\<not> nh_sent_message_1 h" "nh_has_remote_static h"
    using assms by (simp add: create_def crypto_available_def xor_sodium_def sample_pair_def Let_def list_all_iff)
  note i = create_initiator [OF c]
  have s: "length (kp_public (nh_local_static h)) = 32" by (simp add: i)
  obtain m h' where w: "write_message_1 xor_sodium (replicate 32 4) h ?p (replicate 112 0) = (Inr 112, m, h')"
    using xor_write_1 [OF i(1) h(1) i(2) h(2) s i(3), of ?p "replicate 112 0" "replicate 32 4"]
    by (auto simp: payload_roundtrip)
  obtain b where b: "serialize_handshake_frame_with_macs hm_init (take 112 m) = Inr b"
    by (rule frame_serialized [of "take 112 m" hm_init]) (simp_all add: is_wire_message_def)
  obtain w1 where w1: "schedule new_wheel handshake_timeout 1 kHandshakeTimeout = (True, w1)" "length (tw_timers w1) = 1"
    by (simp add: schedule_def new_wheel_def kMaximumTimers_def Let_def push_heap_def sift_up.simps)
  obtain w2 where w2: "schedule w1 handshake_retry 1 (retry_backoff 0) = (True, w2)"
    using w1(2) by (simp add: schedule_def kMaximumTimers_def)
  have "crypto_available xor_sodium" by (simp add: crypto_available_def xor_sodium_def)
  then show thesis using that c w b w1(1) w2
    by (simp add: start_handshake_def sample_plane_eq new_control_plane_def find_peer_def dial_endpoint_def
        sample_config_def kMaximumPending_def allocate_key_id_empty build_initiation_def Let_def payload_roundtrip noise_consts
        sample_env_def)
qed

lemma sample_answered:
  assumes start: "start_handshake xor_sodium sample_env (sample_plane own other) 1 0 = (Inr out, cp1)"
  obtains response cp2 where
    "handle_datagram xor_sodium sample_env (sample_plane other own) sample_source (oh_datagram out) 0 = (Inr (Some response), cp2)"
    "cs_responder_handshakes (cp_stats cp2) = 1"
proof -
  let ?a = "sample_plane own other" and ?b = "sample_plane other own"
  have a: "cp_pending ?a = []" "find_peer ?a 1 = Some (sample_config other)" "cp_local_static ?a = sample_pair own"
    by (simp_all add: sample_plane_eq find_peer_def new_control_plane_def)
  have keys: "so_scalarmult_base xor_sodium (kp_private (sample_pair other)) = Some (pc_static_public (sample_config other))"
    by (simp add: sample_config_def)
  obtain ka entry frame h i n m where
    c: "create xor_sodium role_initiator (sample_pair own) (kp_public (sample_pair other)) (replicate 32 3) [] = Inr h"
    and w: "write_message_1 xor_sodium (ev_ephemeral sample_env) h
       (build_payload current_version 0 ka (ev_timestamp sample_env)) (replicate 112 0) = (Inr n, m, i)"
    and frame: "parse_handshake_frame (oh_datagram out) = Inr frame" "hf_message frame = hm_init"
      "hf_noise_message frame = take n m" "hf_has_macs frame"
      "hf_mac1 frame = holder_mac1 (new_holder (kp_public (sample_pair other))) (hf_mac1_covered frame)"
    and p: "cp_ok cp1" "cp_pending cp1 = [(1, entry)]" "pe_local_key_id entry = ka"
    by (rule initiation_sent [OF xor_sodium_laws sample_plane_ok a(1,2) keys _ start]) (simp_all add: a(3) sample_config_def)
  have ka: "ka \<noteq> 0" using ids_okD(6) [OF p(1), of 1 entry] p(2,3) by simp
  let ?p = "build_payload current_version 0 ka (ev_timestamp sample_env)"
  obtain d r where d: "create xor_sodium role_responder (sample_pair other) (replicate 32 0) (replicate 32 0) [] = Inr d"
    and r: "create xor_sodium role_responder (sample_pair other) (replicate 32 0) (replicate 32 3) [] = Inr r"
    by (simp add: create_def crypto_available_def xor_sodium_def Let_def)
  note ci = create_initiator [OF c] and cd = create_responder [OF d] and cr = create_responder [OF r]
  obtain d' where read_d: "read_message_1 xor_sodium d (take n m) (replicate 16 0) = (Inr 16, ?p, d')"
    "nh_remote_static d' = kp_public (sample_pair own)"
    by (rule message_1_received [OF xor_sodium_laws w ci(3) cd(1,4,2), of "replicate 16 0"])
      (use ci cd in \<open>auto simp: payload_roundtrip copy_to_def\<close>)
  obtain r' where read_r: "read_message_1 xor_sodium r (take n m) (replicate 16 0) = (Inr 16, ?p, r')"
    and r': "nh_remote_static r' = kp_public (sample_pair own)" "nh_read_message_1 r'" "nh_role r' = role_responder"
      "\<not> nh_finished r'" "\<not> nh_has_fixed_ephemeral r'"
    by (rule message_1_received [OF xor_sodium_laws w ci(3) cr(1,4,2), of "replicate 16 0"])
      (use ci cr in \<open>auto simp: payload_roundtrip copy_to_def\<close>)
  obtain m2 r2 where w2: "write_message_2 xor_sodium (ev_ephemeral sample_env) r'
      (build_payload current_version 0 1 (ev_timestamp sample_env)) (replicate 64 0) = (Inr 64, m2, r2)"
    using xor_write_2 [OF r'(3,2,4,5), of "build_payload current_version 0 1 (ev_timestamp sample_env)" "replicate 64 0"]
    by (auto simp: payload_roundtrip)
  have "nh_finished r2" "nh_remote_static r2 = kp_public (sample_pair own)"
    by (rule write_message_2_Inr [OF w2 r'(5)], simp add: r'(1))+
  then obtain completed where res: "noise_result r2 = Inr completed" "nr_remote_static completed = kp_public (sample_pair own)"
    by (cases "split_keys (nh_symmetric r2)") (simp add: noise_result_def)
  obtain b where b: "serialize_handshake_frame_with_macs hm_response (take 64 m2) = Inr b"
    by (rule frame_serialized [of "take 64 m2" hm_response]) (simp_all add: is_wire_message_def)
  have identified: "match_peer [(1, sample_config own)] (kp_public (sample_pair own)) = Some (1, sample_config own)"
    by (simp add: match_peer_def sample_config_def)
  define cp where "cp = ?b\<lparr>cp_global_limiter := snd (global_allow (new_global_limiter 256 64 0) 0),
      cp_rate_limiter := snd (allow (new_limiter 8 2) sample_source 0), cp_handshakes_seen := 1\<rparr>"
  have cp: "cp_local_static cp = sample_pair other" "cp_peers cp = [(1, sample_config own)]" "cp_pending cp = []"
    "cp_provisional cp = []" "cp_sessions cp = new_session_table" "cp_greatest_timestamp cp = []"
    "cs_responder_handshakes (cp_stats cp) = 0" "\<not> ci_under_load (cp_issuer cp)"
    "ci_mac1_key (cp_issuer cp) = mac1_key (kp_public (sample_pair other))"
    by (simp_all add: cp_def sample_plane_eq new_control_plane_def new_issuer_def no_stats_def)
  have "crypto_available xor_sodium" by (simp add: crypto_available_def xor_sodium_def)
  then have "handle_datagram xor_sodium sample_env ?b sample_source (oh_datagram out) 0 =
      handle_init xor_sodium sample_env cp sample_source frame 0"
    using frame(1,2) fresh_limiters(1) fresh_limiters(2) [of sample_source]
    by (simp add: handle_datagram_def handle_frame_def cp_def split_beta Let_def sample_plane_eq new_control_plane_def)
  also have "\<dots> = identify_initiation xor_sodium sample_env cp sample_source frame 0"
    using frame(4,5) cp by (simp add: handle_init_def kMaximumPending_def verify_mac1_def issuer_mac1_def
        holder_mac1_def new_holder_def)
  also have "\<dots> = accept_initiation xor_sodium sample_env cp sample_source frame 1 (sample_config own) 0"
    using cp d read_d frame(3) identified by (simp add: identify_initiation_def kHandshakePayloadSize_def)
  also have "\<dots> = answer_initiation xor_sodium sample_env (cp\<lparr>cp_greatest_timestamp := [(1, 1)]\<rparr>) sample_source 1
      (sample_config own) r' ka 0"
    using cp r read_r frame(3) ka by (simp add: accept_initiation_def kHandshakePayloadSize_def payload_roundtrip
        sample_config_def sample_env_def kPreSessionKeyId_def Let_def)
  finally show thesis using that cp w2 res b
    by (simp add: answer_initiation_def allocate_key_id_empty payload_roundtrip noise_consts Let_def
        sample_config_def kMaximumPending_def)
qed


text \<open>The initiation of a sample control plane is answered; a copy that arrives later is not.\<close>

theorem initiation_answered_once_witness:
  "\<exists>init a1 cp cp1. start_handshake xor_sodium sample_env (sample_plane 1 2) 1 0 = (Inr init, a1) \<and>
     cp = snd (handle_datagram xor_sodium sample_env (sample_plane 2 1) sample_source (oh_datagram init) 0) \<and>
     cs_responder_handshakes (cp_stats cp) = 1 \<and>
     cp1 = snd (handle_datagram xor_sodium sample_env cp sample_source (oh_datagram init) 5) \<and>
     cs_responder_handshakes (cp_stats cp1) = 1"
proof -
  obtain init a1 where s: "start_handshake xor_sodium sample_env (sample_plane 1 2) 1 0 = (Inr init, a1)"
    by (rule sample_started [of 2 1]) simp_all
  obtain response b1 where r: "handle_datagram xor_sodium sample_env (sample_plane 2 1) sample_source (oh_datagram init) 0 =
      (Inr (Some response), b1)" "cs_responder_handshakes (cp_stats b1) = 1" by (rule sample_answered [OF s])
  have "cs_responder_handshakes (cp_stats (sample_plane 2 1)) = 0"
    by (simp add: sample_plane_eq new_control_plane_def no_stats_def)
  then have first: "b1 = snd (handle_datagram xor_sodium sample_env (sample_plane 2 1) sample_source (oh_datagram init) 0)"
    "cs_responder_handshakes (cp_stats b1) \<noteq> cs_responder_handshakes (cp_stats (sample_plane 2 1))"
    "list_all keeps_peers []" "b1 = cp_run xor_sodium [] b1"
    using r by simp_all
  have again: "cs_responder_handshakes (cp_stats (snd (handle_datagram xor_sodium sample_env b1 sample_source
      (oh_datagram init) 5))) = 1"
    using initiation_answered_once [OF sample_plane_def first refl, of sample_env sample_source 5] r(2) by (simp only:)
  show ?thesis
    by (intro exI conjI) (rule s first(1) r(2) refl again)+
qed

end
