(* ===== verification/Qos.thy ===== *)
theory Qos
  imports Ip_Packet Endpoint Rate_Limit "HOL-Library.Sublist"
begin

text \<open>
  Traffic classes and the send scheduler (src/qos.cpp, include/norr/qos.hpp): classification of IP
  packets, one bounded queue per class, shedding of bulk traffic when memory runs out, strict priority
  of realtime traffic and weighted turns of the other two classes. An array indexed by the class is a
  function of the class; the delay statistics, doubles in the source, are real numbers.
\<close>

subsection \<open>Classes\<close>

datatype TrafficClass = tc_realtime | tc_normal | tc_bulk

definition traffic_class_name :: "TrafficClass \<Rightarrow> string" where
  "traffic_class_name c =
     (case c of tc_realtime \<Rightarrow> ''realtime'' | tc_normal \<Rightarrow> ''normal'' | tc_bulk \<Rightarrow> ''bulk'')"

definition kDscpExpeditedForwarding :: u8 where "kDscpExpeditedForwarding = 46"
definition kDscpVoiceAdmit :: u8 where "kDscpVoiceAdmit = 44"
definition kDscpClassSelector5 :: u8 where "kDscpClassSelector5 = 40"

definition dscp_of :: "IpPacketView \<Rightarrow> bytes \<Rightarrow> u8" where
  "dscp_of packet frame =
     (let offset = if ip_family packet = ipv4 then 1 else 0 :: nat
      in if length frame \<le> offset + 1 then 0
      else if ip_family packet = ipv4 then drop_bit 2 (frame ! 1)
      else let high = ucast (frame ! 0 AND 15) :: u32; low = ucast (drop_bit 4 (frame ! 1)) :: u32
           in ucast (drop_bit 2 (push_bit 4 high OR low)))"

definition classify_traffic :: "IpPacketView \<Rightarrow> bytes \<Rightarrow> TrafficClass" where
  "classify_traffic packet frame =
     (let dscp = dscp_of packet frame
      in if dscp = kDscpExpeditedForwarding \<or> dscp = kDscpVoiceAdmit \<or> dscp = kDscpClassSelector5
         then tc_realtime
      else let payload = ip_total_length packet - ip_header_length packet
      in if ip_protocol packet = kProtocolUdp \<and> payload \<le> 256 then tc_realtime
      else if ip_protocol packet = kProtocolTcp \<and> payload \<ge> 1024 then tc_bulk
      else tc_normal)"

subsection \<open>The scheduler\<close>

record QueueLimits =
  ql_capacity :: "TrafficClass \<Rightarrow> nat"
  ql_total_bytes :: nat

definition default_limits :: QueueLimits where
  "default_limits = \<lparr>ql_capacity = (\<lambda>c. case c of tc_realtime \<Rightarrow> 256 | tc_normal \<Rightarrow> 1024 | tc_bulk \<Rightarrow> 4096),
     ql_total_bytes = 16 * 1024 * 1024\<rparr>"

record SchedulerStats =
  sq_enqueued :: "TrafficClass \<Rightarrow> u64"
  sq_dequeued :: "TrafficClass \<Rightarrow> u64"
  sq_dropped :: "TrafficClass \<Rightarrow> u64"
  sq_queue_delay_samples :: "TrafficClass \<Rightarrow> u64"
  sq_queue_delay_total_us :: "TrafficClass \<Rightarrow> real"
  sq_shed_for_memory :: u64

definition mean_delay_us :: "SchedulerStats \<Rightarrow> TrafficClass \<Rightarrow> real" where
  "mean_delay_us st c =
     (if sq_queue_delay_samples st c = 0 then 0
      else sq_queue_delay_total_us st c / real (unat (sq_queue_delay_samples st c)))"

record QueuedPacket =
  qp_bytes :: bytes
  qp_traffic_class :: TrafficClass
  qp_enqueued_at :: instant
  qp_destination :: Endpoint

record Scheduler =
  sc_limits :: QueueLimits
  sc_queues :: "TrafficClass \<Rightarrow> QueuedPacket list"
  sc_queued_bytes :: nat
  sc_normal_deficit :: nat
  sc_bulk_deficit :: nat
  sc_stats :: SchedulerStats

definition kNormalWeight :: nat where "kNormalWeight = 3"
definition kBulkWeight :: nat where "kBulkWeight = 1"

definition new_scheduler :: "QueueLimits \<Rightarrow> Scheduler" where
  "new_scheduler limits = \<lparr>sc_limits = limits, sc_queues = (\<lambda>c. []), sc_queued_bytes = 0,
     sc_normal_deficit = 0, sc_bulk_deficit = 0,
     sc_stats = \<lparr>sq_enqueued = (\<lambda>c. 0), sq_dequeued = (\<lambda>c. 0), sq_dropped = (\<lambda>c. 0),
       sq_queue_delay_samples = (\<lambda>c. 0), sq_queue_delay_total_us = (\<lambda>c. 0), sq_shed_for_memory = 0\<rparr>\<rparr>"

definition queue_depth :: "Scheduler \<Rightarrow> TrafficClass \<Rightarrow> nat" where
  "queue_depth s c = length (sc_queues s c)"

definition total_depth :: "Scheduler \<Rightarrow> nat" where
  "total_depth s = sum_list (map (\<lambda>c. length (sc_queues s c)) [tc_realtime, tc_normal, tc_bulk])"

definition scheduler_empty :: "Scheduler \<Rightarrow> bool" where
  "scheduler_empty s \<longleftrightarrow> total_depth s = 0"

definition has_room :: "Scheduler \<Rightarrow> TrafficClass \<Rightarrow> nat \<Rightarrow> bool" where
  "has_room s c bytes =
     (if length (sc_queues s c) \<ge> ql_capacity (sc_limits s) c then False
      else sc_queued_bytes s + bytes \<le> ql_total_bytes (sc_limits s))"

definition count_dropped :: "TrafficClass \<Rightarrow> Scheduler \<Rightarrow> Scheduler" where
  "count_dropped c s = s\<lparr>sc_stats := (sc_stats s)\<lparr>sq_dropped :=
     (sq_dropped (sc_stats s))(c := sq_dropped (sc_stats s) c + 1)\<rparr>\<rparr>"

function shed_bulk :: "Scheduler \<Rightarrow> nat \<Rightarrow> Scheduler" where
  "shed_bulk s bytes_needed =
     (case sc_queues s tc_bulk of
        [] \<Rightarrow> s
      | front # rest \<Rightarrow>
          if sc_queued_bytes s + bytes_needed > ql_total_bytes (sc_limits s)
          then shed_bulk (count_dropped tc_bulk
                 (s\<lparr>sc_queued_bytes := sc_queued_bytes s - length (qp_bytes front),
                    sc_queues := (sc_queues s)(tc_bulk := rest),
                    sc_stats := (sc_stats s)\<lparr>sq_shed_for_memory := sq_shed_for_memory (sc_stats s) + 1\<rparr>\<rparr>))
                 bytes_needed
          else s)"
  by pat_completeness auto
termination
  by (relation "measure (\<lambda>(s, n). length (sc_queues s tc_bulk))") (simp_all add: count_dropped_def)

declare shed_bulk.simps [simp del]

definition enqueue :: "Scheduler \<Rightarrow> bytes \<Rightarrow> TrafficClass \<Rightarrow> instant \<Rightarrow> Endpoint \<Rightarrow> bool \<times> Scheduler" where
  "enqueue s packet c now destination =
     (let bytes = length packet;
          s = (if \<not> has_room s c bytes \<and> c \<noteq> tc_bulk \<and>
                  sc_queued_bytes s + bytes > ql_total_bytes (sc_limits s)
               then shed_bulk s bytes else s)
      in if \<not> has_room s c bytes then (False, count_dropped c s)
      else (True, s\<lparr>sc_queues := (sc_queues s)(c := sc_queues s c @
               [\<lparr>qp_bytes = packet, qp_traffic_class = c, qp_enqueued_at = now, qp_destination = destination\<rparr>]),
             sc_queued_bytes := sc_queued_bytes s + bytes,
             sc_stats := (sc_stats s)\<lparr>sq_enqueued := (sq_enqueued (sc_stats s))(c := sq_enqueued (sc_stats s) c + 1)\<rparr>\<rparr>))"

definition restore :: "Scheduler \<Rightarrow> QueuedPacket \<Rightarrow> Scheduler" where
  "restore s packet =
     (let c = qp_traffic_class packet;
          s = s\<lparr>sc_queued_bytes := sc_queued_bytes s + length (qp_bytes packet)\<rparr>;
          s = (if sq_dequeued (sc_stats s) c > 0
               then s\<lparr>sc_stats := (sc_stats s)\<lparr>sq_dequeued :=
                        (sq_dequeued (sc_stats s))(c := sq_dequeued (sc_stats s) c - 1)\<rparr>\<rparr> else s);
          s = (if c = tc_normal \<and> sc_normal_deficit s > 0
               then s\<lparr>sc_normal_deficit := sc_normal_deficit s - 1\<rparr> else s);
          s = (if c = tc_bulk \<and> sc_bulk_deficit s > 0
               then s\<lparr>sc_bulk_deficit := sc_bulk_deficit s - 1\<rparr> else s)
      in s\<lparr>sc_queues := (sc_queues s)(c := packet # sc_queues s c)\<rparr>)"

text \<open>\<^verbatim>\<open>duration_cast\<close> to microseconds rounds towards zero.\<close>

definition to_microseconds :: "duration \<Rightarrow> int" where
  "to_microseconds d = (if d \<ge> 0 then d div 1000 else - ((- d) div 1000))"

definition take_packet :: "Scheduler \<Rightarrow> TrafficClass \<Rightarrow> instant \<Rightarrow> QueuedPacket option \<times> Scheduler" where
  "take_packet s c now =
     (case sc_queues s c of
        [] \<Rightarrow> (None, s)
      | packet # rest \<Rightarrow>
          let st = (sc_stats s)\<lparr>sq_dequeued := (sq_dequeued (sc_stats s))(c := sq_dequeued (sc_stats s) c + 1)\<rparr>;
              delay = to_microseconds (now - qp_enqueued_at packet);
              st = (if delay \<ge> 0
                    then st\<lparr>sq_queue_delay_total_us := (sq_queue_delay_total_us st)
                              (c := sq_queue_delay_total_us st c + of_int delay),
                            sq_queue_delay_samples := (sq_queue_delay_samples st)
                              (c := sq_queue_delay_samples st c + 1)\<rparr>
                    else st)
          in (Some packet, s\<lparr>sc_queues := (sc_queues s)(c := rest),
                sc_queued_bytes := sc_queued_bytes s - length (qp_bytes packet), sc_stats := st\<rparr>))"

definition dequeue :: "Scheduler \<Rightarrow> instant \<Rightarrow> QueuedPacket option \<times> Scheduler" where
  "dequeue s now =
     (case take_packet s tc_realtime now of
        (Some packet, s) \<Rightarrow> (Some packet, s)
      | (None, s) \<Rightarrow>
          let normal = sc_queues s tc_normal; bulk = sc_queues s tc_bulk
          in if normal = [] \<and> bulk = [] then (None, s)
          else if normal = [] then take_packet (s\<lparr>sc_bulk_deficit := 0\<rparr>) tc_bulk now
          else if bulk = [] then take_packet (s\<lparr>sc_normal_deficit := 0\<rparr>) tc_normal now
          else if sc_normal_deficit s < kNormalWeight
          then take_packet (s\<lparr>sc_normal_deficit := sc_normal_deficit s + 1\<rparr>) tc_normal now
          else if sc_bulk_deficit s < kBulkWeight
          then take_packet (s\<lparr>sc_bulk_deficit := sc_bulk_deficit s + 1\<rparr>) tc_bulk now
          else take_packet (s\<lparr>sc_normal_deficit := 1, sc_bulk_deficit := 0\<rparr>) tc_normal now)"


subsection \<open>What is queued\<close>

abbreviation queue_bytes :: "QueuedPacket list \<Rightarrow> nat" where
  "queue_bytes q \<equiv> sum_list (map (length \<circ> qp_bytes) q)"

definition bytes_of :: "(TrafficClass \<Rightarrow> QueuedPacket list) \<Rightarrow> nat" where
  "bytes_of queues = queue_bytes (queues tc_realtime) + queue_bytes (queues tc_normal) + queue_bytes (queues tc_bulk)"

definition scheduler_ok :: "Scheduler \<Rightarrow> bool" where
  "scheduler_ok s \<longleftrightarrow> sc_queued_bytes s = bytes_of (sc_queues s) \<and>
     sc_queued_bytes s \<le> ql_total_bytes (sc_limits s) \<and>
     (\<forall>c. length (sc_queues s c) \<le> ql_capacity (sc_limits s) c) \<and>
     (\<forall>c. list_all (\<lambda>p. qp_traffic_class p = c) (sc_queues s c)) \<and>
     sc_normal_deficit s \<le> kNormalWeight \<and> sc_bulk_deficit s \<le> kBulkWeight"

lemma scheduler_okD:
  assumes "scheduler_ok s"
  shows "length (sc_queues s c) \<le> ql_capacity (sc_limits s) c" "list_all (\<lambda>p. qp_traffic_class p = c) (sc_queues s c)"
  using assms by (simp_all add: scheduler_ok_def)

lemma bytes_of_pop: "queues c = p # rest \<Longrightarrow> bytes_of (queues(c := rest)) = bytes_of queues - length (qp_bytes p)"
  by (cases c) (simp_all add: bytes_of_def)

lemma bytes_of_push:
  "bytes_of (queues(c := queues c @ [p])) = bytes_of queues + length (qp_bytes p)"
  "bytes_of (queues(c := p # queues c)) = bytes_of queues + length (qp_bytes p)"
  by (cases c; simp add: bytes_of_def)+

lemma bytes_of_member: "queues c = p # rest \<Longrightarrow> length (qp_bytes p) \<le> bytes_of queues"
  by (cases c) (simp_all add: bytes_of_def)

lemma shed_bulk_drop:
  assumes "scheduler_ok s"
  shows "scheduler_ok (shed_bulk s n) \<and> (\<exists>k b st. shed_bulk s n =
    s\<lparr>sc_queues := (sc_queues s)(tc_bulk := drop k (sc_queues s tc_bulk)), sc_queued_bytes := b, sc_stats := st\<rparr>)"
  using assms
proof (induction s n rule: shed_bulk.induct)
  case (1 s n)
  show ?case
  proof (cases "\<exists>front rest. sc_queues s tc_bulk = front # rest \<and> sc_queued_bytes s + n > ql_total_bytes (sc_limits s)")
    case False
    then have "shed_bulk s n = s" by (subst shed_bulk.simps) (auto split: list.split)
    moreover have "s = s\<lparr>sc_queues := (sc_queues s)(tc_bulk := drop 0 (sc_queues s tc_bulk)),
        sc_queued_bytes := sc_queued_bytes s, sc_stats := sc_stats s\<rparr>" by simp
    ultimately show ?thesis using 1(2) by metis
  next
    case True
    then obtain front rest where q: "sc_queues s tc_bulk = front # rest" "sc_queued_bytes s + n > ql_total_bytes (sc_limits s)" by blast
    define s' where "s' = count_dropped tc_bulk (s\<lparr>sc_queued_bytes := sc_queued_bytes s - length (qp_bytes front),
        sc_queues := (sc_queues s)(tc_bulk := rest),
        sc_stats := (sc_stats s)\<lparr>sq_shed_for_memory := sq_shed_for_memory (sc_stats s) + 1\<rparr>\<rparr>)"
    have e: "shed_bulk s n = shed_bulk s' n" using q by (subst shed_bulk.simps) (simp add: s'_def)
    have cap: "Suc (length rest) \<le> ql_capacity (sc_limits s) tc_bulk"
      "list_all (\<lambda>p. qp_traffic_class p = tc_bulk) (front # rest)"
      using scheduler_okD [OF 1(2), of tc_bulk] q(1) by simp_all
    have "scheduler_ok s'"
      using 1(2) cap by (auto simp: s'_def scheduler_ok_def count_dropped_def bytes_of_pop [of "sc_queues s", OF q(1)])
    from 1(1) [OF q, folded s'_def, OF this] obtain k b st where ok: "scheduler_ok (shed_bulk s' n)" and
      "shed_bulk s' n = s'\<lparr>sc_queues := (sc_queues s')(tc_bulk := drop k (sc_queues s' tc_bulk)),
        sc_queued_bytes := b, sc_stats := st\<rparr>" by blast
    then have "shed_bulk s n = s\<lparr>sc_queues := (sc_queues s)(tc_bulk := drop (Suc k) (sc_queues s tc_bulk)),
        sc_queued_bytes := b, sc_stats := st\<rparr>" by (simp add: e) (simp add: s'_def count_dropped_def q)
    then show ?thesis using ok e by metis
  qed
qed

lemma take_packet_Cons:
  assumes "sc_queues s c = p # rest"
  obtains st where "take_packet s c now = (Some p, s\<lparr>sc_queues := (sc_queues s)(c := rest),
     sc_queued_bytes := sc_queued_bytes s - length (qp_bytes p), sc_stats := st\<rparr>)"
  using assms that by (simp add: take_packet_def Let_def)

text \<open>Whose turn it is when no realtime packet waits, and the deficits after it.\<close>

definition next_turn :: "Scheduler \<Rightarrow> TrafficClass \<times> nat \<times> nat" where
  "next_turn s =
     (let nd = sc_normal_deficit s; bd = sc_bulk_deficit s
      in if sc_queues s tc_normal = [] then (tc_bulk, nd, 0)
      else if sc_queues s tc_bulk = [] then (tc_normal, 0, bd)
      else if nd < kNormalWeight then (tc_normal, nd + 1, bd)
      else if bd < kBulkWeight then (tc_bulk, nd, bd + 1)
      else (tc_normal, 1, 0))"

lemma dequeue_turn:
  assumes "sc_queues s tc_realtime = []" "sc_queues s tc_normal \<noteq> [] \<or> sc_queues s tc_bulk \<noteq> []"
    and "next_turn s = (c, nd, bd)"
  shows "dequeue s now = take_packet (s\<lparr>sc_normal_deficit := nd, sc_bulk_deficit := bd\<rparr>) c now"
    "sc_queues s c \<noteq> []"
    "nd \<le> max kNormalWeight (sc_normal_deficit s)" "bd \<le> max kBulkWeight (sc_bulk_deficit s)"
proof -
  have t: "take_packet s tc_realtime now = (None, s)" using assms(1) by (simp add: take_packet_def)
  show "dequeue s now = take_packet (s\<lparr>sc_normal_deficit := nd, sc_bulk_deficit := bd\<rparr>) c now"
    using assms(2,3) unfolding dequeue_def t next_turn_def Let_def
    by (cases s) (auto split: if_split_asm)
  show "sc_queues s c \<noteq> []" "nd \<le> max kNormalWeight (sc_normal_deficit s)" "bd \<le> max kBulkWeight (sc_bulk_deficit s)"
    using assms(2,3) by (auto simp: next_turn_def Let_def kNormalWeight_def kBulkWeight_def split: if_split_asm)
qed

lemma dequeue_realtime:
  "sc_queues s tc_realtime \<noteq> [] \<Longrightarrow> dequeue s now = take_packet s tc_realtime now"
  by (cases "sc_queues s tc_realtime") (simp_all add: dequeue_def take_packet_def Let_def)

lemma dequeue_cases:
  obtains (none) "\<forall>c. sc_queues s c = []" "dequeue s now = (None, s)"
  | (some) c p rest nd bd st where "sc_queues s c = p # rest" "c = tc_realtime \<or> sc_queues s tc_realtime = []"
      "dequeue s now = (Some p, s\<lparr>sc_normal_deficit := nd, sc_bulk_deficit := bd,
         sc_queues := (sc_queues s)(c := rest), sc_queued_bytes := sc_queued_bytes s - length (qp_bytes p),
         sc_stats := st\<rparr>)"
      "nd \<le> max kNormalWeight (sc_normal_deficit s)" "bd \<le> max kBulkWeight (sc_bulk_deficit s)"
proof (cases "sc_queues s tc_realtime")
  case (Cons p rest)
  then obtain st where "take_packet s tc_realtime now = (Some p, s\<lparr>sc_queues := (sc_queues s)(tc_realtime := rest),
     sc_queued_bytes := sc_queued_bytes s - length (qp_bytes p), sc_stats := st\<rparr>)"
    by (rule take_packet_Cons)
  moreover have "dequeue s now = take_packet s tc_realtime now" using Cons dequeue_realtime [of s now] by simp
  ultimately have "dequeue s now = (Some p, s\<lparr>sc_normal_deficit := sc_normal_deficit s,
     sc_bulk_deficit := sc_bulk_deficit s, sc_queues := (sc_queues s)(tc_realtime := rest),
     sc_queued_bytes := sc_queued_bytes s - length (qp_bytes p), sc_stats := st\<rparr>)" by simp
  from some [OF Cons _ this] show thesis by simp
next
  case Nil
  show thesis
  proof (cases "sc_queues s tc_normal = [] \<and> sc_queues s tc_bulk = []")
    case True
    moreover have "c = tc_realtime \<or> c = tc_normal \<or> c = tc_bulk" for c by (cases c) simp_all
    ultimately have "\<forall>c. sc_queues s c = []" using Nil by metis
    then show thesis using none by (simp add: dequeue_def take_packet_def)
  next
    case False
    then have ne: "sc_queues s tc_normal \<noteq> [] \<or> sc_queues s tc_bulk \<noteq> []" by simp
    obtain c nd bd where turn: "next_turn s = (c, nd, bd)" by (cases "next_turn s")
    note d = dequeue_turn [OF Nil ne turn]
    obtain p rest where q: "sc_queues s c = p # rest" using d(2) by (cases "sc_queues s c") simp_all
    let ?s = "s\<lparr>sc_normal_deficit := nd, sc_bulk_deficit := bd\<rparr>"
    have "sc_queues ?s c = p # rest" using q by simp
    then obtain st where "take_packet ?s c now = (Some p, ?s\<lparr>sc_queues := (sc_queues ?s)(c := rest),
       sc_queued_bytes := sc_queued_bytes ?s - length (qp_bytes p), sc_stats := st\<rparr>)"
      by (rule take_packet_Cons)
    then show thesis using some [OF q _ _ d(3,4)] d(1) Nil by simp
  qed
qed

subsection \<open>Every operation keeps the bounds\<close>

lemma enqueue_ok:
  assumes "scheduler_ok s"
  shows "scheduler_ok (snd (enqueue s packet c now destination))"
proof -
  define s' where "s' = (if \<not> has_room s c (length packet) \<and> c \<noteq> tc_bulk \<and>
      sc_queued_bytes s + length packet > ql_total_bytes (sc_limits s) then shed_bulk s (length packet) else s)"
  have "scheduler_ok s'" using assms shed_bulk_drop [OF assms] by (auto simp: s'_def)
  then show ?thesis unfolding enqueue_def Let_def s'_def [symmetric]
    by (auto simp: scheduler_ok_def bytes_of_push has_room_def count_dropped_def Suc_le_eq split: if_split_asm)
qed

lemma dequeue_ok:
  assumes "scheduler_ok s"
  shows "scheduler_ok (snd (dequeue s now))"
proof (cases rule: dequeue_cases [of s now])
  case none
  then show ?thesis using assms by simp
next
  case (some c p rest nd bd st)
  then show ?thesis using assms scheduler_okD [OF assms, of c]
    by (auto simp: scheduler_ok_def bytes_of_pop)
qed

text \<open>A sender that cannot send the packet it took puts it back at once.\<close>

definition retry :: "Scheduler \<Rightarrow> instant \<Rightarrow> Scheduler" where
  "retry s now = (case dequeue s now of (None, s') \<Rightarrow> s' | (Some p, s') \<Rightarrow> restore s' p)"

lemma restore_fields:
  "sc_queues (restore s p) = (sc_queues s)(qp_traffic_class p := p # sc_queues s (qp_traffic_class p))"
  "sc_queued_bytes (restore s p) = sc_queued_bytes s + length (qp_bytes p)" "sc_limits (restore s p) = sc_limits s"
  "sc_normal_deficit (restore s p) \<le> sc_normal_deficit s" "sc_bulk_deficit (restore s p) \<le> sc_bulk_deficit s"
  by (simp_all add: restore_def Let_def)

lemma retry_ok:
  assumes "scheduler_ok s"
  shows "sc_queues (retry s now) = sc_queues s" "scheduler_ok (retry s now)" "sc_limits (retry s now) = sc_limits s"
proof -
  have "sc_queues (retry s now) = sc_queues s \<and> sc_queued_bytes (retry s now) = sc_queued_bytes s \<and>
      sc_limits (retry s now) = sc_limits s \<and>
      sc_normal_deficit (retry s now) \<le> kNormalWeight \<and> sc_bulk_deficit (retry s now) \<le> kBulkWeight"
  proof (cases rule: dequeue_cases [of s now])
    case (some c p rest nd bd st)
    have "qp_traffic_class p = c" "(sc_queues s)(c := p # rest) = sc_queues s" "length (qp_bytes p) \<le> sc_queued_bytes s"
      using scheduler_okD(2) [OF assms, of c] some(1) bytes_of_member [of "sc_queues s", OF some(1)] assms
      by (simp_all add: fun_upd_idem scheduler_ok_def)
    moreover have "nd \<le> kNormalWeight" "bd \<le> kBulkWeight" using some(4,5) assms by (simp_all add: scheduler_ok_def)
    ultimately show ?thesis using some(3) restore_fields(4,5) [of "snd (dequeue s now)" p]
      by (simp add: retry_def restore_fields(1-3))
  qed (use assms in \<open>simp add: retry_def scheduler_ok_def\<close>)
  then show "sc_queues (retry s now) = sc_queues s" "scheduler_ok (retry s now)" "sc_limits (retry s now) = sc_limits s"
    using assms by (simp_all add: scheduler_ok_def)
qed

subsection \<open>Runs\<close>

datatype sched_op = Enqueue bytes TrafficClass instant Endpoint | Dequeue instant | Retry instant

text \<open>
  A run collects the packets that were accepted and the packets that were handed out, in order.
\<close>

type_synonym sched_run = "Scheduler \<times> QueuedPacket list \<times> QueuedPacket list"

fun sched_step :: "sched_op \<Rightarrow> sched_run \<Rightarrow> sched_run" where
  "sched_step (Enqueue packet c now destination) (s, accepted, sent) =
     (case enqueue s packet c now destination of
        (ok, s') \<Rightarrow> (s', if ok then accepted @ [\<lparr>qp_bytes = packet, qp_traffic_class = c,
                              qp_enqueued_at = now, qp_destination = destination\<rparr>] else accepted, sent))"
| "sched_step (Dequeue now) (s, accepted, sent) =
     (case dequeue s now of (None, s') \<Rightarrow> (s', accepted, sent) | (Some p, s') \<Rightarrow> (s', accepted, sent @ [p]))"
| "sched_step (Retry now) (s, accepted, sent) = (retry s now, accepted, sent)"

abbreviation of_class :: "TrafficClass \<Rightarrow> QueuedPacket list \<Rightarrow> QueuedPacket list" where
  "of_class c ps \<equiv> filter (\<lambda>p. qp_traffic_class p = c) ps"

definition run_ok :: "QueueLimits \<Rightarrow> sched_run \<Rightarrow> bool" where
  "run_ok limits r \<longleftrightarrow> (case r of (s, accepted, sent) \<Rightarrow> scheduler_ok s \<and> sc_limits s = limits \<and>
     (\<forall>c. c \<noteq> tc_bulk \<longrightarrow> of_class c sent @ sc_queues s c = of_class c accepted) \<and>
     subseq (of_class tc_bulk sent @ sc_queues s tc_bulk) (of_class tc_bulk accepted))"

lemma enqueue_run:
  assumes "run_ok limits (s, accepted, sent)"
  shows "run_ok limits (sched_step (Enqueue packet c now destination) (s, accepted, sent))"
proof -
  define s' where "s' = (if \<not> has_room s c (length packet) \<and> c \<noteq> tc_bulk \<and>
      sc_queued_bytes s + length packet > ql_total_bytes (sc_limits s) then shed_bulk s (length packet) else s)"
  have ok: "scheduler_ok s" using assms by (simp add: run_ok_def)
  obtain k where q: "sc_limits s' = sc_limits s" "\<forall>d. d \<noteq> tc_bulk \<longrightarrow> sc_queues s' d = sc_queues s d"
    "sc_queues s' tc_bulk = drop k (sc_queues s tc_bulk)"
  proof (cases "s' = s")
    case True
    then show thesis using that [of 0] by simp
  next
    case False
    then have "s' = shed_bulk s (length packet)" by (auto simp: s'_def)
    then show thesis using shed_bulk_drop [OF ok, of "length packet"] that by auto
  qed
  have "subseq (of_class tc_bulk sent @ drop k (sc_queues s tc_bulk)) (of_class tc_bulk sent @ sc_queues s tc_bulk)"
    unfolding subseq_append' by (rule suffix_imp_subseq) (rule suffix_drop)
  then have sub: "subseq (of_class tc_bulk sent @ sc_queues s' tc_bulk) (of_class tc_bulk accepted)"
    using assms q(3) subseq_order.trans unfolding run_ok_def by fastforce
  have eq: "of_class d sent @ sc_queues s' d = of_class d accepted" if "d \<noteq> tc_bulk" for d
    using assms q(2) that by (simp add: run_ok_def)
  have e: "enqueue s packet c now destination = (if \<not> has_room s' c (length packet) then (False, count_dropped c s')
      else (True, s'\<lparr>sc_queues := (sc_queues s')(c := sc_queues s' c @
               [\<lparr>qp_bytes = packet, qp_traffic_class = c, qp_enqueued_at = now, qp_destination = destination\<rparr>]),
             sc_queued_bytes := sc_queued_bytes s' + length packet,
             sc_stats := (sc_stats s')\<lparr>sq_enqueued := (sq_enqueued (sc_stats s'))(c := sq_enqueued (sc_stats s') c + 1)\<rparr>\<rparr>))"
    by (simp add: enqueue_def s'_def Let_def)
  have "scheduler_ok (snd (enqueue s packet c now destination))" by (rule enqueue_ok [OF ok])
  then show ?thesis using sub eq q(1) assms
    by (auto simp: run_ok_def e count_dropped_def simp flip: append_assoc split: if_split_asm)
qed

lemma dequeue_run:
  assumes "run_ok limits (s, accepted, sent)"
  shows "run_ok limits (sched_step (Dequeue now) (s, accepted, sent))"
proof (cases rule: dequeue_cases [of s now])
  case none
  then show ?thesis using assms by simp
next
  case (some c p rest nd bd st)
  have ok: "scheduler_ok s" using assms by (simp add: run_ok_def)
  have c: "qp_traffic_class p = c" using scheduler_okD(2) [OF ok, of c] some(1) by simp
  have "scheduler_ok (snd (dequeue s now))" by (rule dequeue_ok [OF ok])
  then show ?thesis using assms some(1,3) c by (cases c) (auto simp: run_ok_def)
qed

lemma sched_step_ok:
  assumes "run_ok limits r"
  shows "run_ok limits (sched_step oper r)"
proof -
  obtain s accepted sent where r: "r = (s, accepted, sent)" by (cases r)
  show ?thesis
  proof (cases oper)
    case (Retry now)
    then show ?thesis using assms retry_ok [of s now] by (simp add: r run_ok_def)
  qed (use assms r enqueue_run dequeue_run in blast)+
qed

lemma sched_run_ok: "run_ok limits r \<Longrightarrow> run_ok limits (fold sched_step ops r)"
  by (induction ops arbitrary: r) (simp_all add: sched_step_ok)

lemma new_scheduler_ok: "run_ok limits (new_scheduler limits, [], [])"
  by (simp add: run_ok_def scheduler_ok_def new_scheduler_def bytes_of_def)

text \<open>
  C18: the scheduler refines one bounded queue per class. Along every sequence of arrivals, departures
  and failed attempts to send, what was handed out and what still waits is, in order, what was accepted,
  for realtime and normal traffic; of bulk traffic packets may be missing, in order. The number of
  packets and bytes that wait stays within the limits and the byte counter is exact.
\<close>

theorem scheduler_refines_queues:
  "case fold sched_step ops (new_scheduler limits, [], []) of (s, accepted, sent) \<Rightarrow>
     of_class tc_realtime sent @ sc_queues s tc_realtime = of_class tc_realtime accepted \<and>
     of_class tc_normal sent @ sc_queues s tc_normal = of_class tc_normal accepted \<and>
     subseq (of_class tc_bulk sent @ sc_queues s tc_bulk) (of_class tc_bulk accepted) \<and>
     (\<forall>c. length (sc_queues s c) \<le> ql_capacity limits c) \<and>
     sc_queued_bytes s = bytes_of (sc_queues s) \<and> sc_queued_bytes s \<le> ql_total_bytes limits"
  using sched_run_ok [OF new_scheduler_ok [of limits], of ops]
  by (auto simp: run_ok_def scheduler_ok_def)

subsection \<open>Bulk traffic is not starved\<close>

text \<open>The turns of normal traffic before the next turn of bulk traffic.\<close>

definition turns_before_bulk :: "Scheduler \<Rightarrow> nat" where
  "turns_before_bulk s = (kNormalWeight - sc_normal_deficit s) + (if sc_bulk_deficit s < kBulkWeight then 0 else kNormalWeight)"

primrec drain :: "nat \<Rightarrow> Scheduler \<Rightarrow> instant \<Rightarrow> QueuedPacket option list" where
  "drain 0 s now = []"
| "drain (Suc n) s now = (case dequeue s now of (p, s') \<Rightarrow> p # drain n s' now)"

lemma backlogged_turn:
  assumes ok: "scheduler_ok s" and "sc_queues s tc_realtime = []" "sc_queues s tc_normal = p # normal" "sc_queues s tc_bulk = q # bulk"
    and d: "dequeue s now = (r, s')"
  shows "if turns_before_bulk s = 0 then r = Some q
     else r = Some p \<and> scheduler_ok s' \<and> sc_queues s' = (sc_queues s)(tc_normal := normal) \<and>
       Suc (turns_before_bulk s') = turns_before_bulk s"
proof -
  obtain c nd bd where t: "next_turn s = (c, nd, bd)" by (cases "next_turn s")
  have e: "dequeue s now = take_packet (s\<lparr>sc_normal_deficit := nd, sc_bulk_deficit := bd\<rparr>) c now"
    by (rule dequeue_turn(1) [OF assms(2) _ t]) (simp add: assms)
  have w: "sc_normal_deficit s \<le> 3" "sc_bulk_deficit s \<le> 1"
    using ok by (simp_all add: scheduler_ok_def kNormalWeight_def kBulkWeight_def)
  have "scheduler_ok s'" using dequeue_ok [OF ok, of now] d by simp
  then show ?thesis using t d e w assms(3,4)
    by (auto simp: next_turn_def take_packet_def turns_before_bulk_def kNormalWeight_def kBulkWeight_def Let_def
        split: if_split_asm)
qed

lemma drain_backlogged:
  assumes "scheduler_ok s" "sc_queues s tc_realtime = []" "sc_queues s tc_bulk = q # bulk"
    and "turns_before_bulk s < length (sc_queues s tc_normal)"
  shows "drain (Suc (turns_before_bulk s)) s now = map Some (take (turns_before_bulk s) (sc_queues s tc_normal)) @ [Some q]"
  using assms
proof (induction "turns_before_bulk s" arbitrary: s)
  case 0
  then obtain p normal where p: "sc_queues s tc_normal = p # normal" by (cases "sc_queues s tc_normal") simp_all
  obtain r s' where d: "dequeue s now = (r, s')" by (cases "dequeue s now")
  show ?case using backlogged_turn [OF 0(2,3) p 0(4) d] 0(1) d by (simp del: drain.simps(2)) simp
next
  case (Suc n)
  then obtain p normal where p: "sc_queues s tc_normal = p # normal" by (cases "sc_queues s tc_normal") simp_all
  obtain r s' where d: "dequeue s now = (r, s')" by (cases "dequeue s now")
  have s': "r = Some p" "scheduler_ok s'" "sc_queues s' = (sc_queues s)(tc_normal := normal)" "n = turns_before_bulk s'"
    using backlogged_turn [OF Suc(3,4) p Suc(5) d] Suc(2) by (simp_all split: if_split_asm)
  have "n < length normal" using Suc(2,6) p by simp
  then have "drain (Suc n) s' now = map Some (take n normal) @ [Some q]"
    using Suc(1) [OF s'(4) s'(2)] s'(3,4) Suc(4,5) by auto
  then show ?case using d s'(1) p unfolding Suc(2) [symmetric] by (subst drain.simps) simp
qed

text \<open>
  C19: bulk traffic is not starved by normal traffic. In every state a scheduler can reach, if no realtime
  packet waits and bulk and enough normal packets do, then after at most six normal packets, taken in
  their order, the first bulk packet is handed out.
\<close>

theorem bulk_served:
  assumes "fold sched_step ops (new_scheduler limits, [], []) = (s, accepted, sent)"
    and "sc_queues s tc_realtime = []" "sc_queues s tc_bulk = q # bulk" "6 < length (sc_queues s tc_normal)"
  shows "\<exists>n\<le>6. drain (Suc n) s now = map Some (take n (sc_queues s tc_normal)) @ [Some q]"
proof -
  have ok: "scheduler_ok s" using sched_run_ok [OF new_scheduler_ok [of limits], of ops] assms(1) by (simp add: run_ok_def)
  have "turns_before_bulk s \<le> 6" by (auto simp: turns_before_bulk_def kNormalWeight_def)
  then show ?thesis using drain_backlogged [OF ok assms(2,3)] assms(4) by (metis le_less_trans)
qed

definition sample_arrivals :: "sched_op list" where
  "sample_arrivals = map (\<lambda>c. Enqueue [1, 2, 3] c 0
     \<lparr>ep_address = \<lparr>ad_family = ipv4, ad_octets = replicate 16 0\<rparr>, ep_port = 1\<rparr>)
     [tc_bulk, tc_normal, tc_normal, tc_normal, tc_normal, tc_normal, tc_normal, tc_normal]"

lemma sample_queues:
  assumes "fold sched_step sample_arrivals (new_scheduler default_limits, [], []) = (s, accepted, sent)"
  shows "sc_queues s tc_realtime = []" "length (sc_queues s tc_bulk) = 1" "length (sc_queues s tc_normal) = 7"
  using assms by (auto simp: sample_arrivals_def enqueue_def has_room_def new_scheduler_def default_limits_def Let_def)

theorem bulk_served_witness:
  "\<exists>s accepted sent n. fold sched_step sample_arrivals (new_scheduler default_limits, [], []) = (s, accepted, sent) \<and>
     n \<le> 6 \<and> drain (Suc n) s 5 = map Some (take n (sc_queues s tc_normal)) @ [Some (hd (sc_queues s tc_bulk))]"
proof -
  obtain s accepted sent where r: "fold sched_step sample_arrivals (new_scheduler default_limits, [], []) = (s, accepted, sent)"
    by (cases "fold sched_step sample_arrivals (new_scheduler default_limits, [], [])")
  note q = sample_queues [OF r]
  obtain p where "sc_queues s tc_bulk = [p]" using q(2) by (cases "sc_queues s tc_bulk") simp_all
  then show ?thesis using bulk_served [OF r q(1), of p "[]" 5] q(3) r by auto
qed

end
