(* ===== verification/Path_Selector.thy ===== *)
theory Path_Selector
  imports Timers Complex_Main
begin

text \<open>
  The path selector (src/path_selector.cpp, include/norr/path_selector.hpp): the health of each transport
  as a state machine over measurements, and the choice of the active one. Doubles are real numbers;
  \<^verbatim>\<open>paths_\<close> and \<^verbatim>\<open>count_\<close> are the list of the first \<^verbatim>\<open>count_\<close> paths.
\<close>

subsection \<open>Paths\<close>

datatype TransportKind = tk_udp | tk_quic | tk_tcp_tls | tk_icmp | tk_ipip | tk_gre | tk_esp | tk_ah | tk_ospf | tk_dns

definition transport_kind_name :: "TransportKind \<Rightarrow> string" where
  "transport_kind_name k = (case k of tk_udp \<Rightarrow> ''udp'' | tk_quic \<Rightarrow> ''quic'' | tk_tcp_tls \<Rightarrow> ''tcp-tls''
     | tk_icmp \<Rightarrow> ''icmp'' | tk_ipip \<Rightarrow> ''ipip'' | tk_gre \<Rightarrow> ''gre'' | tk_esp \<Rightarrow> ''esp'' | tk_ah \<Rightarrow> ''ah''
     | tk_ospf \<Rightarrow> ''ospf'' | tk_dns \<Rightarrow> ''dns'')"

datatype PathState = ps_probing | ps_healthy | ps_degraded | ps_failed | ps_recovering

definition path_state_name :: "PathState \<Rightarrow> string" where
  "path_state_name s = (case s of ps_probing \<Rightarrow> ''probing'' | ps_healthy \<Rightarrow> ''healthy'' | ps_degraded \<Rightarrow> ''degraded''
     | ps_failed \<Rightarrow> ''failed'' | ps_recovering \<Rightarrow> ''recovering'')"

record PathSample =
  sm_rtt_microseconds :: real
  sm_loss_fraction :: real
  sm_transport_errors :: u64
  sm_reachable :: bool

record PathThresholds =
  pt_loss_degraded :: real
  pt_loss_healthy :: real
  pt_rtt_degraded_microseconds :: real
  pt_rtt_healthy_microseconds :: real
  pt_promotion_window :: u32
  pt_demotion_threshold :: u32
  pt_cooldown :: duration
  pt_minimum_improvement :: real

definition default_path_thresholds :: PathThresholds where
  "default_path_thresholds = \<lparr>pt_loss_degraded = 5 / 100, pt_loss_healthy = 2 / 100,
     pt_rtt_degraded_microseconds = 200000, pt_rtt_healthy_microseconds = 120000, pt_promotion_window = 5,
     pt_demotion_threshold = 3, pt_cooldown = seconds 10, pt_minimum_improvement = 15 / 100\<rparr>"

record Path =
  ph_kind :: TransportKind
  ph_state :: PathState
  ph_score :: real
  ph_smoothed_loss :: real
  ph_smoothed_rtt :: real
  ph_good :: u32
  ph_bad :: u32
  ph_primed :: bool
  ph_failed_at :: instant

definition new_path :: "TransportKind \<Rightarrow> Path" where
  "new_path kind = \<lparr>ph_kind = kind, ph_state = ps_probing, ph_score = 1, ph_smoothed_loss = 0, ph_smoothed_rtt = 0,
     ph_good = 0, ph_bad = 0, ph_primed = False, ph_failed_at = 0\<rparr>"

definition path_usable :: "Path \<Rightarrow> bool" where
  "path_usable p \<longleftrightarrow> ph_state p = ps_healthy \<or> ph_state p = ps_degraded"

definition mark_failed :: "Path \<Rightarrow> instant \<Rightarrow> Path" where
  "mark_failed p now = p\<lparr>ph_state := ps_failed, ph_good := 0, ph_failed_at := now\<rparr>"

definition kPathRetryAfter :: duration where "kPathRetryAfter = seconds 45"

definition retry_due :: "Path \<Rightarrow> instant \<Rightarrow> bool" where
  "retry_due p now \<longleftrightarrow> ph_state p = ps_failed \<and> ph_failed_at p \<noteq> 0 \<and> now - ph_failed_at p \<ge> kPathRetryAfter"

definition kPathSmoothing :: real where "kPathSmoothing = 3 / 10"

definition smooth_path :: "real \<Rightarrow> real \<Rightarrow> real" where
  "smooth_path previous sample = previous + kPathSmoothing * (sample - previous)"

definition measure_path :: "Path \<Rightarrow> PathSample \<Rightarrow> Path" where
  "measure_path p sample =
     (let p = (if \<not> ph_primed p
               then p\<lparr>ph_primed := True, ph_smoothed_loss := sm_loss_fraction sample,
                      ph_smoothed_rtt := sm_rtt_microseconds sample\<rparr>
               else p\<lparr>ph_smoothed_loss := smooth_path (ph_smoothed_loss p) (sm_loss_fraction sample),
                      ph_smoothed_rtt := smooth_path (ph_smoothed_rtt p) (sm_rtt_microseconds sample)\<rparr>);
          rtt_term = min (ph_smoothed_rtt p / 1000000) 1
      in p\<lparr>ph_score := ph_smoothed_loss p * 10 + rtt_term\<rparr>)"

definition bad_sample :: "PathThresholds \<Rightarrow> PathSample \<Rightarrow> bool" where
  "bad_sample th sample \<longleftrightarrow> sm_loss_fraction sample > pt_loss_degraded th \<or>
     sm_rtt_microseconds sample > pt_rtt_degraded_microseconds th"

definition good_sample :: "PathThresholds \<Rightarrow> PathSample \<Rightarrow> bool" where
  "good_sample th sample \<longleftrightarrow> sm_loss_fraction sample \<le> pt_loss_healthy th \<and>
     sm_rtt_microseconds sample \<le> pt_rtt_healthy_microseconds th"

definition next_path_state :: "PathThresholds \<Rightarrow> u32 \<Rightarrow> u32 \<Rightarrow> PathState \<Rightarrow> PathState" where
  "next_path_state th good bad state =
     (case state of
        ps_probing \<Rightarrow> if good \<ge> pt_promotion_window th then ps_healthy
                     else if bad \<ge> pt_demotion_threshold th then ps_failed else ps_probing
      | ps_healthy \<Rightarrow> if bad \<ge> pt_demotion_threshold th then ps_degraded else ps_healthy
      | ps_degraded \<Rightarrow> if good \<ge> pt_promotion_window th then ps_healthy
                      else if bad \<ge> pt_demotion_threshold th * 2 then ps_failed else ps_degraded
      | ps_failed \<Rightarrow> if good \<ge> 1 then ps_recovering else ps_failed
      | ps_recovering \<Rightarrow> if good \<ge> pt_promotion_window th then ps_healthy
                        else if bad \<ge> pt_demotion_threshold th then ps_failed else ps_recovering)"

definition path_observe :: "PathThresholds \<Rightarrow> Path \<Rightarrow> PathSample \<Rightarrow> Path" where
  "path_observe th p sample =
     (let p = measure_path p sample
      in if \<not> sm_reachable sample
         then p\<lparr>ph_bad := pt_demotion_threshold th, ph_good := 0, ph_state := ps_failed\<rparr>
      else if \<not> bad_sample th sample \<and> \<not> good_sample th sample then p
      else let p = (if bad_sample th sample then p\<lparr>ph_bad := ph_bad p + 1, ph_good := 0\<rparr>
                    else p\<lparr>ph_good := ph_good p + 1, ph_bad := 0\<rparr>)
           in p\<lparr>ph_state := next_path_state th (ph_good p) (ph_bad p) (ph_state p)\<rparr>)"

subsection \<open>The selector\<close>

record SelectorStats =
  se_switches :: u64
  se_switches_suppressed_by_cooldown :: u64
  se_switches_suppressed_by_margin :: u64
  se_failovers :: u64

record PathSelector =
  pl_thresholds :: PathThresholds
  pl_paths :: "Path list"
  pl_active :: TransportKind
  pl_last_switch :: instant
  pl_has_active :: bool
  pl_stats :: SelectorStats

definition kPathSlots :: nat where "kPathSlots = 3"

definition new_selector :: "PathThresholds \<Rightarrow> PathSelector" where
  "new_selector th = \<lparr>pl_thresholds = th, pl_paths = [], pl_active = tk_udp, pl_last_switch = 0, pl_has_active = False,
     pl_stats = \<lparr>se_switches = 0, se_switches_suppressed_by_cooldown = 0, se_switches_suppressed_by_margin = 0,
       se_failovers = 0\<rparr>\<rparr>"

definition find_path :: "PathSelector \<Rightarrow> TransportKind \<Rightarrow> Path option" where
  "find_path s kind = find (\<lambda>p. ph_kind p = kind) (pl_paths s)"

text \<open>What a member function does through the pointer \<^verbatim>\<open>find\<close> returns: the first path of the kind changes.\<close>

fun update_path :: "TransportKind \<Rightarrow> (Path \<Rightarrow> Path) \<Rightarrow> Path list \<Rightarrow> Path list" where
  "update_path kind f [] = []"
| "update_path kind f (p # ps) = (if ph_kind p = kind then f p # ps else p # update_path kind f ps)"

definition add_path :: "PathSelector \<Rightarrow> TransportKind \<Rightarrow> PathSelector" where
  "add_path s kind =
     (if find_path s kind \<noteq> None then s
      else if length (pl_paths s) \<ge> kPathSlots then s
      else let s = s\<lparr>pl_paths := pl_paths s @ [new_path kind]\<rparr>
      in if \<not> pl_has_active s then s\<lparr>pl_active := kind, pl_has_active := True\<rparr> else s)"

definition set_active :: "PathSelector \<Rightarrow> TransportKind \<Rightarrow> PathSelector" where
  "set_active s kind =
     (if find_path s kind = None then s else s\<lparr>pl_active := kind, pl_has_active := True\<rparr>)"

definition selector_observe :: "PathSelector \<Rightarrow> TransportKind \<Rightarrow> PathSample \<Rightarrow> PathSelector" where
  "selector_observe s kind sample =
     s\<lparr>pl_paths := update_path kind (\<lambda>p. path_observe (pl_thresholds s) p sample) (pl_paths s)\<rparr>"

definition path_eligible :: "bool \<Rightarrow> instant \<Rightarrow> Path \<Rightarrow> bool" where
  "path_eligible must_move now candidate \<longleftrightarrow>
     path_usable candidate \<or> (must_move \<and> (ph_state candidate = ps_probing \<or> retry_due candidate now))"

definition best_path :: "PathSelector \<Rightarrow> bool \<Rightarrow> instant \<Rightarrow> Path option" where
  "best_path s must_move now =
     fold (\<lambda>candidate best.
         if ph_kind candidate = pl_active s then best
         else if \<not> path_eligible must_move now candidate then best
         else case best of
             None \<Rightarrow> Some candidate
           | Some b \<Rightarrow> if ph_score candidate < ph_score b then Some candidate else best)
       (pl_paths s) None"

definition improvement :: "Path \<Rightarrow> Path \<Rightarrow> real" where
  "improvement current best =
     (if ph_score current > 0 then (ph_score current - ph_score best) / ph_score current else 0)"

definition selector_evaluate :: "PathSelector \<Rightarrow> instant \<Rightarrow> bool \<times> PathSelector" where
  "selector_evaluate s now =
     (if pl_paths s = [] \<or> \<not> pl_has_active s then (False, s)
      else case find_path s (pl_active s) of
        None \<Rightarrow> (False, s)
      | Some current \<Rightarrow>
          let must_move = \<not> path_usable current;
              suppressed = (False, s\<lparr>pl_stats := (pl_stats s)\<lparr>se_switches_suppressed_by_margin :=
                              se_switches_suppressed_by_margin (pl_stats s) + 1\<rparr>\<rparr>)
          in case best_path s must_move now of
               None \<Rightarrow> (False, s)
             | Some best \<Rightarrow>
                 if pl_last_switch s \<noteq> 0 \<and> now - pl_last_switch s < pt_cooldown (pl_thresholds s)
                 then (False, s\<lparr>pl_stats := (pl_stats s)\<lparr>se_switches_suppressed_by_cooldown :=
                         se_switches_suppressed_by_cooldown (pl_stats s) + 1\<rparr>\<rparr>)
                 else if \<not> must_move \<and> ph_state current = ps_healthy then suppressed
                 else if \<not> must_move \<and> improvement current best < pt_minimum_improvement (pl_thresholds s)
                 then suppressed
                 else let s = (if must_move
                               then s\<lparr>pl_paths := update_path (pl_active s) (\<lambda>p. mark_failed p now) (pl_paths s)\<rparr>
                               else s)
                      in (True, s\<lparr>pl_active := ph_kind best, pl_last_switch := now,
                            pl_stats := (pl_stats s)\<lparr>se_switches := se_switches (pl_stats s) + 1,
                              se_failovers := se_failovers (pl_stats s) + (if must_move then 1 else 0)\<rparr>\<rparr>))"


subsection \<open>The best candidate\<close>

definition candidate_path :: "PathSelector \<Rightarrow> bool \<Rightarrow> instant \<Rightarrow> Path \<Rightarrow> bool" where
  "candidate_path s must_move now p \<longleftrightarrow>
     p \<in> set (pl_paths s) \<and> ph_kind p \<noteq> pl_active s \<and> path_eligible must_move now p"

lemma fold_minimum:
  fixes score :: "'a \<Rightarrow> real" and P :: "'a \<Rightarrow> bool"
  defines "pick \<equiv> \<lambda>c best. if \<not> P c then best else
    case best of None \<Rightarrow> Some c | Some b \<Rightarrow> if score c < score b then Some c else best"
  shows "case fold pick xs acc of
      None \<Rightarrow> acc = None \<and> (\<forall>c\<in>set xs. \<not> P c)
    | Some b \<Rightarrow> (b \<in> set xs \<and> P b \<or> acc = Some b) \<and> (\<forall>c\<in>set xs. P c \<longrightarrow> score b \<le> score c) \<and>
        (\<forall>a. acc = Some a \<longrightarrow> score b \<le> score a)"
proof (induction xs arbitrary: acc)
  case Nil
  show ?case by (simp split: option.split)
next
  case (Cons x xs)
  show ?case using Cons [of "pick x acc"]
    by (fastforce simp: pick_def split: option.splits if_splits)
qed

lemma best_path_minimum:
  "case best_path s must_move now of
      None \<Rightarrow> \<forall>p. \<not> candidate_path s must_move now p
    | Some b \<Rightarrow> candidate_path s must_move now b \<and>
        (\<forall>p. candidate_path s must_move now p \<longrightarrow> ph_score b \<le> ph_score p)"
proof -
  let ?P = "\<lambda>p. ph_kind p \<noteq> pl_active s \<and> path_eligible must_move now p"
  have "best_path s must_move now = fold (\<lambda>c best. if \<not> ?P c then best else
      case best of None \<Rightarrow> Some c | Some b \<Rightarrow> if ph_score c < ph_score b then Some c else best) (pl_paths s) None"
    unfolding best_path_def by (rule arg_cong [where f = "\<lambda>f. fold f _ _"]) (auto intro!: ext)
  then show ?thesis using fold_minimum [where P = ?P and score = ph_score and xs = "pl_paths s" and acc = None]
    by (auto simp: candidate_path_def split: option.split_asm option.split)
qed

subsection \<open>Consistency\<close>

definition selector_ok :: "PathSelector \<Rightarrow> bool" where
  "selector_ok s \<longleftrightarrow> distinct (map ph_kind (pl_paths s)) \<and> length (pl_paths s) \<le> kPathSlots \<and>
     (pl_has_active s \<longleftrightarrow> pl_paths s \<noteq> []) \<and> (pl_has_active s \<longrightarrow> find_path s (pl_active s) \<noteq> None)"

lemma find_path_iff: "find_path s kind \<noteq> None \<longleftrightarrow> kind \<in> ph_kind ` set (pl_paths s)"
  by (auto simp: find_path_def find_None_iff)

lemma kinds_update: "(\<And>p. ph_kind (f p) = ph_kind p) \<Longrightarrow> map ph_kind (update_path kind f ps) = map ph_kind ps"
  by (induction ps) simp_all

lemma path_observe_kind [simp]: "ph_kind (path_observe th p sample) = ph_kind p"
  by (simp add: path_observe_def measure_path_def Let_def)

lemma mark_failed_kind [simp]: "ph_kind (mark_failed p now) = ph_kind p"
  by (simp add: mark_failed_def)

datatype selector_op = AddPath TransportKind | SetActive TransportKind | Observe TransportKind PathSample | Evaluate instant

primrec selector_step :: "selector_op \<Rightarrow> PathSelector \<Rightarrow> PathSelector" where
  "selector_step (AddPath kind) s = add_path s kind"
| "selector_step (SetActive kind) s = set_active s kind"
| "selector_step (Observe kind sample) s = selector_observe s kind sample"
| "selector_step (Evaluate now) s = snd (selector_evaluate s now)"

lemma selector_okI:
  assumes "selector_ok s" "map ph_kind (pl_paths s') = map ph_kind (pl_paths s)" "pl_has_active s' = pl_has_active s"
    and "pl_active s' = pl_active s \<or> find_path s (pl_active s') \<noteq> None"
  shows "selector_ok s'"
proof -
  have "length (pl_paths s') = length (pl_paths s)" using assms(2) by (rule map_eq_imp_length_eq)
  moreover have "ph_kind ` set (pl_paths s') = ph_kind ` set (pl_paths s)" using assms(2) by (metis image_set)
  ultimately show ?thesis using assms unfolding selector_ok_def find_path_iff by auto
qed

lemma evaluate_kinds:
  assumes "selector_evaluate s now = (moved, s')"
  shows "map ph_kind (pl_paths s') = map ph_kind (pl_paths s)" "pl_has_active s' = pl_has_active s"
    "pl_active s' = pl_active s \<or> find_path s (pl_active s') \<noteq> None"
proof -
  show "map ph_kind (pl_paths s') = map ph_kind (pl_paths s)" "pl_has_active s' = pl_has_active s"
    using assms by (auto simp: selector_evaluate_def Let_def kinds_update split: option.split_asm if_split_asm)
  have "best_path s must_move now = Some b \<Longrightarrow> find_path s (ph_kind b) \<noteq> None" for must_move b
    using best_path_minimum [of s must_move now] unfolding find_path_iff by (auto simp: candidate_path_def)
  then show "pl_active s' = pl_active s \<or> find_path s (pl_active s') \<noteq> None"
    using assms by (auto simp: selector_evaluate_def Let_def split: option.split_asm if_split_asm)
qed

lemma selector_step_ok:
  assumes "selector_ok s"
  shows "selector_ok (selector_step oper s)"
proof (cases oper)
  case (AddPath kind)
  have "find_path s kind = None \<longleftrightarrow> kind \<notin> ph_kind ` set (pl_paths s)" using find_path_iff [of s kind] by auto
  then show ?thesis using assms AddPath unfolding selector_ok_def find_path_iff
    by (auto simp: add_path_def new_path_def Let_def)
next
  case (SetActive kind)
  then show ?thesis using assms unfolding selector_ok_def by (auto simp: set_active_def find_path_iff find_path_def)
next
  case (Observe kind sample)
  then show ?thesis by (intro selector_okI [OF assms]) (simp_all add: selector_observe_def kinds_update)
next
  case (Evaluate now)
  obtain moved s' where e: "selector_evaluate s now = (moved, s')" by (cases "selector_evaluate s now")
  then show ?thesis using selector_okI [OF assms evaluate_kinds [OF e]] Evaluate by simp
qed

lemma selector_run_ok: "selector_ok (fold selector_step ops (new_selector th))"
proof -
  have "selector_ok s \<Longrightarrow> selector_ok (fold selector_step ops s)" for s
    by (induction ops arbitrary: s) (simp_all add: selector_step_ok)
  then show ?thesis by (simp add: selector_ok_def new_selector_def)
qed

text \<open>
  C27: when the active path changes. In every state a selector can reach, \<^verbatim>\<open>evaluate\<close> switches exactly
  when another path is eligible (usable or, if the active path is not, still probing or due for a retry),
  the cooldown since the last switch has passed, and the active path is unusable or is degraded and
  scores worse than the best candidate by the required margin. It then moves to an eligible path with
  the least score; otherwise paths and active path stay as they are.
\<close>

theorem selector_switches:
  assumes "s = fold selector_step ops (new_selector th)" "pl_paths s \<noteq> []"
    and "selector_evaluate s now = (moved, s')"
  shows "let current = the (find_path s (pl_active s)); must_move = \<not> path_usable current;
        best = best_path s must_move now
     in find_path s (pl_active s) \<noteq> None \<and>
        (moved \<longleftrightarrow> (\<exists>p. candidate_path s must_move now p) \<and>
          (pl_last_switch s = 0 \<or> now - pl_last_switch s \<ge> pt_cooldown (pl_thresholds s)) \<and>
          (must_move \<or> ph_state current = ps_degraded \<and>
             improvement current (the best) \<ge> pt_minimum_improvement (pl_thresholds s))) \<and>
        (if moved
         then \<exists>b. best = Some b \<and> pl_active s' = ph_kind b \<and> pl_last_switch s' = now \<and>
            candidate_path s must_move now b \<and>
            (\<forall>p. candidate_path s must_move now p \<longrightarrow> ph_score b \<le> ph_score p)
         else pl_active s' = pl_active s \<and> pl_paths s' = pl_paths s \<and> pl_last_switch s' = pl_last_switch s)"
proof -
  have "selector_ok s" unfolding assms(1) by (rule selector_run_ok)
  then obtain current where c: "pl_has_active s" "find_path s (pl_active s) = Some current"
    using assms(2) by (auto simp: selector_ok_def)
  let ?best = "best_path s (\<not> path_usable current) now"
  show ?thesis
  proof (cases ?best)
    case None
    then have "moved = False" "s' = s" using assms(2,3) c by (simp_all add: selector_evaluate_def Let_def)
    then show ?thesis using c None best_path_minimum [of s "\<not> path_usable current" now] by (simp add: Let_def)
  next
    case (Some b)
    note m = best_path_minimum [of s "\<not> path_usable current" now, unfolded Some, simplified]
    let ?cool = "pl_last_switch s \<noteq> 0 \<and> now - pl_last_switch s < pt_cooldown (pl_thresholds s)"
    let ?stay = "path_usable current \<and> (ph_state current = ps_healthy \<or>
        improvement current b < pt_minimum_improvement (pl_thresholds s))"
    have "\<exists>p. candidate_path s (\<not> path_usable current) now p" using m by blast
    moreover have "?stay \<longleftrightarrow> \<not> (\<not> path_usable current \<or> ph_state current = ps_degraded \<and>
        improvement current b \<ge> pt_minimum_improvement (pl_thresholds s))" by (auto simp: path_usable_def)
    ultimately have iff: "\<not> ?cool \<and> \<not> ?stay \<longleftrightarrow> (\<exists>p. candidate_path s (\<not> path_usable current) now p) \<and>
        (pl_last_switch s = 0 \<or> now - pl_last_switch s \<ge> pt_cooldown (pl_thresholds s)) \<and>
        (\<not> path_usable current \<or> ph_state current = ps_degraded \<and>
           improvement current b \<ge> pt_minimum_improvement (pl_thresholds s))" by (simp add: not_less)
    show ?thesis
    proof (cases "\<not> ?cool \<and> \<not> ?stay")
      case True
      then have "moved" "pl_active s' = ph_kind b" "pl_last_switch s' = now"
        using assms(2,3) c Some by (auto simp: selector_evaluate_def Let_def)
      then show ?thesis using iff True c(2) m
        
        unfolding Let_def c(2) option.sel Some by auto
    next
      case False
      then have "\<not> moved" "pl_active s' = pl_active s" "pl_paths s' = pl_paths s" "pl_last_switch s' = pl_last_switch s"
        using assms(2,3) c Some by (auto simp: selector_evaluate_def Let_def split: if_split_asm)
      then show ?thesis using iff False c(2)
        
        unfolding Let_def c(2) option.sel Some by auto
    qed
  qed
qed

definition sample_selector_ops :: "selector_op list" where
  "sample_selector_ops = [AddPath tk_udp, AddPath tk_quic,
     Observe tk_udp \<lparr>sm_rtt_microseconds = 1000, sm_loss_fraction = 0, sm_transport_errors = 0, sm_reachable = False\<rparr>]"

theorem selector_switches_witness:
  "\<exists>s s'. s = fold selector_step sample_selector_ops (new_selector default_path_thresholds) \<and> pl_active s = tk_udp \<and>
     selector_evaluate s 7 = (True, s') \<and> pl_active s' = tk_quic"
proof -
  define s where "s = fold selector_step sample_selector_ops (new_selector default_path_thresholds)"
  obtain moved s' where e: "selector_evaluate s 7 = (moved, s')" by (cases "selector_evaluate s 7")
  note defs = sample_selector_ops_def new_selector_def add_path_def selector_observe_def path_observe_def measure_path_def
    find_path_def new_path_def kPathSlots_def Let_def
  have s: "pl_paths s \<noteq> []" "pl_active s = tk_udp" "pl_last_switch s = 0"
    unfolding s_def by (simp_all add: defs)
  obtain u where u: "pl_paths s = [u, new_path tk_quic]" "ph_kind u = tk_udp" "ph_state u = ps_failed"
    unfolding s_def by (simp add: defs)
  have p: "candidate_path s True 7 (new_path tk_quic)" "\<forall>b. candidate_path s True 7 b \<longrightarrow> ph_kind b = tk_quic"
    using u s(2) by (auto simp: candidate_path_def path_eligible_def new_path_def)
  have c: "find_path s tk_udp = Some u" "path_usable u = False" using u by (simp_all add: find_path_def path_usable_def)
  have ex: "Ex (candidate_path s True 7)" using p(1) by blast
  from selector_switches [OF s_def s(1) e] have "moved \<and> (\<exists>b. candidate_path s True 7 b \<and> pl_active s' = ph_kind b)"
    unfolding s(2,3) c(1) Let_def option.sel c(2) by (simp only: ex simp_thms) (auto split: if_split_asm)
  then have "moved" "pl_active s' = tk_quic" using p(2) by auto
  then show ?thesis by (intro exI [of _ s] exI [of _ s'] conjI s_def s(2)) (use e in simp_all)
qed

end
