(* ===== verification/Framers.thy ===== *)
theory Framers
  imports Crypto
begin

text \<open>
  Two ways to dress a datagram: as a DNS message (src/dns_framer.cpp) and as an SSH binary packet
  (src/ssh_framer.cpp). Writers take the output span and return it. The state of the pseudo random
  padding, a thread local variable of the source, is passed explicitly.
\<close>

subsection \<open>DNS\<close>

definition kDnsHeaderSize :: nat where "kDnsHeaderSize = 12"
definition kDnsQuestionTrailerSize :: nat where "kDnsQuestionTrailerSize = 4"
definition kDnsPayloadLengthSize :: nat where "kDnsPayloadLengthSize = 2"
definition kDnsLabelMaxSize :: nat where "kDnsLabelMaxSize = 63"
definition kDnsTypeTxt :: u16 where "kDnsTypeTxt = 0x0010"
definition kDnsClassIn :: u16 where "kDnsClassIn = 0x0001"
definition kDnsFlagsQuery :: u16 where "kDnsFlagsQuery = 0x0100"
definition kDnsFlagsResponse :: u16 where "kDnsFlagsResponse = 0x8180"

lemmas dns_consts = kDnsHeaderSize_def kDnsQuestionTrailerSize_def kDnsPayloadLengthSize_def kDnsLabelMaxSize_def

datatype DnsFramerError = dn_payload_too_large | dn_buffer_too_small | dn_malformed

datatype DnsRole = dns_client | dns_server

record DnsFramer =
  df_role :: DnsRole
  df_qname :: bytes
  df_id :: u16

definition kDefaultDomain :: string where "kDefaultDomain = ''t.example.com''"

text \<open>\<^verbatim>\<open>domain.find('.', start)\<close>, the size of the domain when there is none.\<close>

definition find_dot :: "string \<Rightarrow> nat \<Rightarrow> nat" where
  "find_dot domain frst = frst + length (takeWhile (\<lambda>c. c \<noteq> CHR ''.'') (drop frst domain))"

function encode_labels :: "string \<Rightarrow> nat \<Rightarrow> bytes \<Rightarrow> bytes" where
  "encode_labels domain frst out =
     (if frst \<le> length domain
      then let dot = find_dot domain frst;
               len = min (dot - frst) kDnsLabelMaxSize;
               out = (if len > 0
                      then out @ of_nat len # map (\<lambda>i. byte_of_char (domain ! (frst + i))) [0..<len]
                      else out)
           in if dot = length domain then out else encode_labels domain (dot + 1) out
      else out)"
  by pat_completeness auto
termination
  by (relation "measure (\<lambda>(domain, frst, out). Suc (length domain) - frst)") (auto simp: find_dot_def)

declare encode_labels.simps [simp del]

definition encode_domain :: "string \<Rightarrow> bytes" where
  "encode_domain domain = encode_labels domain 0 [] @ [0]"

definition dns_configure :: "DnsFramer \<Rightarrow> DnsRole \<Rightarrow> string \<Rightarrow> DnsFramer" where
  "dns_configure f role domain =
     f\<lparr>df_role := role, df_qname := encode_domain (if domain = [] then kDefaultDomain else domain)\<rparr>"

definition envelope_size :: "DnsFramer \<Rightarrow> nat" where
  "envelope_size f = kDnsHeaderSize + length (df_qname f) + kDnsQuestionTrailerSize + kDnsPayloadLengthSize"

definition dns_max_payload :: "DnsFramer \<Rightarrow> nat \<Rightarrow> nat" where
  "dns_max_payload f datagram_size =
     (let env = envelope_size f in if env < datagram_size then datagram_size - env else 0)"

definition dns_wrap :: "DnsFramer \<Rightarrow> bytes \<Rightarrow> bytes \<Rightarrow> ((DnsFramerError + nat) \<times> bytes) \<times> DnsFramer" where
  "dns_wrap f payload out =
     (if length payload > 0xFFFF then ((Inl dn_payload_too_large, out), f)
      else let total = envelope_size f + length payload
      in if length out < total then ((Inl dn_buffer_too_small, out), f)
      else let flags = (if df_role f = dns_server then kDnsFlagsResponse else kDnsFlagsQuery);
               answers = (if df_role f = dns_server then 1 else 0);
               f = f\<lparr>df_id := df_id f + 1\<rparr>;
               out = write_u16 out 0 (df_id f);
               out = write_u16 out 2 flags;
               out = write_u16 out 4 1;
               out = write_u16 out 6 answers;
               out = write_u16 out 8 0;
               out = write_u16 out 10 0;
               pos = kDnsHeaderSize;
               out = copy_to out pos (df_qname f);
               pos = pos + length (df_qname f);
               out = write_u16 out pos kDnsTypeTxt;
               out = write_u16 out (pos + 2) kDnsClassIn;
               pos = pos + kDnsQuestionTrailerSize;
               out = write_u16 out pos (of_nat (length payload));
               pos = pos + kDnsPayloadLengthSize
           in ((Inr total, copy_to out pos payload), f))"

function skip_labels :: "bytes \<Rightarrow> nat \<Rightarrow> DnsFramerError + nat" where
  "skip_labels wire pos =
     (if pos < length wire
      then let label = unat (wire ! pos); pos = pos + 1
           in if label = 0 then Inr pos
              else if label > kDnsLabelMaxSize \<or> pos + label > length wire then Inl dn_malformed
              else skip_labels wire (pos + label)
      else Inl dn_malformed)"
  by pat_completeness auto
termination by (relation "measure (\<lambda>(wire, pos). length wire - pos)") auto

declare skip_labels.simps [simp del]

definition dns_unwrap :: "bytes \<Rightarrow> bytes \<Rightarrow> (DnsFramerError + nat) \<times> bytes" where
  "dns_unwrap wire out =
     (if length wire < kDnsHeaderSize then (Inl dn_malformed, out)
      else case skip_labels wire kDnsHeaderSize of
        Inl e \<Rightarrow> (Inl e, out)
      | Inr pos \<Rightarrow>
          if pos + kDnsQuestionTrailerSize + kDnsPayloadLengthSize > length wire then (Inl dn_malformed, out)
          else let pos = pos + kDnsQuestionTrailerSize;
                   len = unat (read_u16 wire pos);
                   pos = pos + kDnsPayloadLengthSize
          in if pos + len > length wire then (Inl dn_malformed, out)
          else if length out < len then (Inl dn_buffer_too_small, out)
          else (Inr len, copy_to out 0 (take len (drop pos wire))))"

subsection \<open>SSH\<close>

definition kSshHeaderSize :: nat where "kSshHeaderSize = 5"
definition kSshBlockSize :: nat where "kSshBlockSize = 8"
definition kSshMinPadding :: nat where "kSshMinPadding = 4"
definition kMaximumTcpFrame :: nat where "kMaximumTcpFrame = 65535"

lemmas ssh_consts = kSshHeaderSize_def kSshBlockSize_def kSshMinPadding_def kMaximumTcpFrame_def

datatype SshFramerError = sh_payload_too_large | sh_buffer_too_small | sh_malformed | sh_incomplete

definition cheap_random_byte :: "u64 \<Rightarrow> byte \<times> u64" where
  "cheap_random_byte g_pad_state =
     (let g_pad_state = g_pad_state + 0x9E3779B97F4A7C15;
          value = g_pad_state;
          value = (value XOR drop_bit 30 value) * 0xBF58476D1CE4E5B9;
          value = (value XOR drop_bit 27 value) * 0x94D049BB133111EB;
          value = value XOR drop_bit 31 value
      in (ucast (value AND 0xFF), g_pad_state))"

primrec pad_bytes :: "nat \<Rightarrow> u64 \<Rightarrow> bytes \<times> u64" where
  "pad_bytes 0 state = ([], state)"
| "pad_bytes (Suc n) state =
     (let (b, state) = cheap_random_byte state; (bs, state) = pad_bytes n state in (b # bs, state))"

definition padding_for :: "nat \<Rightarrow> nat" where
  "padding_for payload =
     (let padding = kSshBlockSize - (kSshHeaderSize + payload) mod kSshBlockSize
      in if padding < kSshMinPadding then padding + kSshBlockSize else padding)"

definition record_size :: "nat \<Rightarrow> nat" where
  "record_size payload = 4 + 1 + payload + padding_for payload"

definition ssh_wrap :: "u64 \<Rightarrow> bytes \<Rightarrow> bytes \<Rightarrow> ((SshFramerError + nat) \<times> bytes) \<times> u64" where
  "ssh_wrap state payload out =
     (if length payload > kMaximumTcpFrame then ((Inl sh_payload_too_large, out), state)
      else let padding = padding_for (length payload);
               packet_length = 1 + length payload + padding;
               total = 4 + packet_length
      in if length out < total then ((Inl sh_buffer_too_small, out), state)
      else let out = write_u32 out 0 (of_nat packet_length);
               out = out[4 := of_nat padding];
               out = copy_to out kSshHeaderSize payload;
               (pad, state) = pad_bytes padding state
           in ((Inr total, copy_to out (kSshHeaderSize + length payload) pad), state))"

text \<open>The third component is \<^verbatim>\<open>consumed\<close>.\<close>

definition ssh_unwrap :: "bytes \<Rightarrow> bytes \<Rightarrow> (SshFramerError + nat) \<times> bytes \<times> nat" where
  "ssh_unwrap wire out =
     (if length wire < kSshHeaderSize then (Inl sh_incomplete, out, 0)
      else let packet_length = unat (read_u32 wire 0); padding = unat (wire ! 4)
      in if packet_length < 2 \<or> packet_length > kMaximumTcpFrame + kSshBlockSize + 1
         then (Inl sh_malformed, out, 0)
      else if padding < kSshMinPadding \<or> padding + 1 > packet_length then (Inl sh_malformed, out, 0)
      else let total = 4 + packet_length
      in if length wire < total then (Inl sh_incomplete, out, 0)
      else let payload_length = packet_length - padding - 1
      in if length out < payload_length then (Inl sh_buffer_too_small, out, 0)
      else (Inr payload_length, copy_to out 0 (take payload_length (drop kSshHeaderSize wire)), total))"

subsection \<open>A question name is a sequence of labels\<close>

definition qname_of :: "bytes list \<Rightarrow> bytes" where
  "qname_of labels = concat (map (\<lambda>l. of_nat (length l) # l) labels)"

definition labels_ok :: "bytes list \<Rightarrow> bool" where
  "labels_ok labels \<longleftrightarrow> list_all (\<lambda>l. 0 < length l \<and> length l \<le> 63) labels"

lemma encode_labels_qname:
  "\<exists>labels. labels_ok labels \<and> encode_labels domain frst out = out @ qname_of labels"
proof (induction domain frst out rule: encode_labels.induct)
  case (1 domain frst out)
  let ?dot = "find_dot domain frst"
  let ?len = "min (?dot - frst) kDnsLabelMaxSize"
  let ?l = "map (\<lambda>i. byte_of_char (domain ! (frst + i))) [0..<?len]"
  let ?out = "if ?len > 0 then out @ of_nat ?len # ?l else out"
  have one: "\<exists>labels. labels_ok labels \<and> ?out = out @ qname_of labels"
  proof (cases "?len > 0")
    case True
    then have "labels_ok [?l] \<and> ?out = out @ qname_of [?l]" by (simp add: labels_ok_def qname_of_def kDnsLabelMaxSize_def)
    then show ?thesis by blast
  next
    case False
    then have "labels_ok [] \<and> ?out = out @ qname_of []" by (simp add: labels_ok_def qname_of_def)
    then show ?thesis by blast
  qed
  have step: "frst \<le> length domain \<Longrightarrow> encode_labels domain frst out =
      (if ?dot = length domain then ?out else encode_labels domain (?dot + 1) ?out)"
    by (subst encode_labels.simps) (simp add: Let_def)
  consider (stop) "\<not> frst \<le> length domain" | (final) "frst \<le> length domain" "?dot = length domain"
    | (more) "frst \<le> length domain" "?dot \<noteq> length domain" by blast
  then show ?case
  proof cases
    case stop
    then have "labels_ok [] \<and> encode_labels domain frst out = out @ qname_of []"
      by (simp add: encode_labels.simps [of domain frst out] labels_ok_def qname_of_def)
    then show ?thesis by blast
  next
    case final
    then show ?thesis using one unfolding step [OF final(1)] by (simp only: if_True simp_thms)
  next
    case more
    then obtain ls where "labels_ok ls" "encode_labels domain (?dot + 1) ?out = ?out @ qname_of ls"
      using 1 [OF more(1) refl refl refl more(2)] by blast
    moreover obtain ls' where "labels_ok ls'" "?out = out @ qname_of ls'" using one by blast
    ultimately have "labels_ok (ls' @ ls)" "encode_labels domain frst out = out @ qname_of (ls' @ ls)"
      using more(2) unfolding step [OF more(1)] by (simp_all add: labels_ok_def qname_of_def)
    then show ?thesis by blast
  qed
qed

lemma skip_labels_qname:
  "labels_ok labels \<Longrightarrow> skip_labels (pre @ qname_of labels @ 0 # rest) (length pre) =
     Inr (length pre + length (qname_of labels) + 1)"
proof (induction labels arbitrary: pre)
  case Nil
  show ?case by (subst skip_labels.simps) (simp add: qname_of_def)
next
  case (Cons l ls)
  then have l: "0 < length l" "length l \<le> 63" "labels_ok ls" by (simp_all add: labels_ok_def)
  have u: "unat (of_nat (length l) :: byte) = length l" using l(2) by (simp add: unat_of_nat)
  let ?w = "pre @ qname_of (l # ls) @ 0 # rest"
  have w: "?w ! length pre = of_nat (length l)" "length pre < length ?w"
    by (simp_all add: qname_of_def nth_append)
  have "skip_labels ?w (length pre) = skip_labels ?w (length pre + 1 + length l)"
    using l u w by (subst skip_labels.simps) (simp add: Let_def kDnsLabelMaxSize_def qname_of_def)
  also have "?w = (pre @ of_nat (length l) # l) @ qname_of ls @ 0 # rest" by (simp add: qname_of_def)
  also have "length pre + 1 + length l = length (pre @ (of_nat (length l) :: byte) # l)" by simp
  also have "skip_labels ((pre @ of_nat (length l) # l) @ qname_of ls @ 0 # rest) (length (pre @ (of_nat (length l) :: byte) # l)) =
      Inr (length (pre @ (of_nat (length l) :: byte) # l) + length (qname_of ls) + 1)"
    by (rule Cons.IH [OF l(3)])
  finally show ?case by (simp add: qname_of_def)
qed

lemma encode_domain_qname: "\<exists>labels. labels_ok labels \<and> encode_domain domain = qname_of labels @ [0]"
  using encode_labels_qname [of domain 0 "[]"] by (auto simp: encode_domain_def)

subsection \<open>Round trips\<close>

lemma dns_wrap_bytes:
  assumes "length payload \<le> 0xFFFF" "envelope_size f + length payload \<le> length out"
  shows "\<exists>header. length header = 12 \<and> dns_wrap f payload out =
    ((Inr (envelope_size f + length payload), copy_to out 0 (header @ df_qname f @ to_be 2 kDnsTypeTxt @ to_be 2 kDnsClassIn @
        to_be 2 (of_nat (length payload) :: u16) @ payload)), f\<lparr>df_id := df_id f + 1\<rparr>)"
proof -
  let ?header = "\<lambda>flags answers. to_be 2 (df_id f + 1) @ to_be 2 flags @ to_be 2 (1 :: u16) @ to_be 2 (answers :: u16) @
      to_be 2 (0 :: u16) @ to_be 2 (0 :: u16)"
  have "length (?header flags answers) = 12" for flags answers :: u16 by simp
  then show ?thesis using assms
    by (intro exI [of _ "?header (if df_role f = dns_server then kDnsFlagsResponse else kDnsFlagsQuery)
          (if df_role f = dns_server then 1 else 0)"])
      (simp add: dns_wrap_def Let_def envelope_size_def dns_consts write_u16_be copy_to_append)
qed


definition sample_dns :: DnsFramer where
  "sample_dns = \<lparr>df_role = dns_client, df_qname = [], df_id = 0\<rparr>"


lemma padding_for_block:
  "4 \<le> padding_for n" "padding_for n \<le> 11" "(5 + n + padding_for n) mod 8 = 0"
proof -
  have r: "(5 + n) mod 8 < 8" by simp
  show "4 \<le> padding_for n" "padding_for n \<le> 11" using r by (auto simp: padding_for_def ssh_consts Let_def)
  have "(5 + n + (8 - (5 + n) mod 8)) mod 8 = 0" by presburger
  then show "(5 + n + padding_for n) mod 8 = 0" by (simp add: padding_for_def ssh_consts Let_def) presburger
qed

lemma padding_for_bound: "n \<le> 65535 \<Longrightarrow> n + padding_for n \<le> 65539"
  using padding_for_block [of n] by presburger

lemma length_pad_bytes [simp]: "length (fst (pad_bytes n state)) = n"
  by (induction n arbitrary: state) (simp_all add: split_beta Let_def)

lemma ssh_wrap_bytes:
  assumes "ssh_wrap state payload out = ((Inr n, out'), state')"
  obtains pad where "length payload \<le> 65535" "n = record_size (length payload)" "n \<le> length out"
    "length pad = padding_for (length payload)"
    "take n out' = to_be 4 (of_nat (1 + length payload + padding_for (length payload)) :: u32) @
       of_nat (padding_for (length payload)) # payload @ pad"
proof -
  let ?p = "padding_for (length payload)"
  obtain pad state'' where p: "pad_bytes ?p state = (pad, state'')" by (cases "pad_bytes ?p state")
  have len: "length pad = ?p" using length_pad_bytes [of ?p state] p by simp
  have g: "length payload \<le> 65535" "n = record_size (length payload)" "n \<le> length out"
    using assms by (auto simp: ssh_wrap_def record_size_def ssh_consts Let_def split: if_split_asm prod.split_asm)
  let ?bytes = "to_be 4 (of_nat (1 + length payload + ?p) :: u32) @ of_nat ?p # payload @ pad"
  have "out' = copy_to out 0 ?bytes"
    using assms g p len
    by (simp add: ssh_wrap_def ssh_consts record_size_def Let_def write_u32_be list_update_copy copy_to_append)
  moreover have "length ?bytes = n" using g(2) len by (simp add: record_size_def)
  ultimately show thesis using that [OF g len] by (simp add: copy_to_0 flip: append_assoc)
qed

text \<open>
  C36: SSH records can be read off a stream. A record is a multiple of eight bytes with at least four of
  padding; whatever follows it, unwrapping yields the payload and consumes the record; and of a record
  of which only a part has arrived nothing is consumed.
\<close>

theorem ssh_records_in_stream:
  assumes "ssh_wrap state payload out = ((Inr n, out'), state')" "length payload \<le> length buf" "k < n"
  shows "n mod 8 = 0 \<and> padding_for (length payload) \<ge> 4 \<and>
    ssh_unwrap (take n out' @ rest) buf = (Inr (length payload), copy_to buf 0 payload, n) \<and>
    ssh_unwrap (take k (take n out')) buf = (Inl sh_incomplete, buf, 0)"
proof -
  let ?p = "padding_for (length payload)"
  define len where "len = 1 + length payload + ?p"
  obtain pad where g: "length payload \<le> 65535" "n = record_size (length payload)" and pad: "length pad = ?p"
    and t: "take n out' = to_be 4 (of_nat len :: u32) @ of_nat ?p # payload @ pad"
    by (rule ssh_wrap_bytes [OF assms(1), folded len_def])
  note p = padding_for_block [of "length payload"] and b = padding_for_bound [OF g(1)]
  have n: "n = 4 + len" using g(2) by (simp add: record_size_def len_def)
  have u: "unat (of_nat len :: u32) = len" "unat (of_nat ?p :: byte) = ?p"
    using b p(2) by (simp_all add: unat_of_nat len_def [symmetric]) (simp add: len_def)
  have head: "unat (read_u32 w 0) = len" "unat (w ! 4) = ?p"
    if "w = to_be 4 (of_nat len :: u32) @ of_nat ?p # xs" for w xs
  proof -
    have "read_u32 w 0 = of_nat len" using that by (subst read_u32_be) simp_all
    then show "unat (read_u32 w 0) = len" "unat (w ! 4) = ?p" using u that by (simp_all add: nth_append)
  qed
  have "n mod 8 = 0" using p(3) n by (simp add: len_def add.assoc)
  moreover have "ssh_unwrap (take n out' @ rest) buf = (Inr (length payload), copy_to buf 0 payload, n)"
    using head [of "take n out' @ rest" "payload @ pad @ rest"] t p b pad assms(2) n
    by (simp add: ssh_unwrap_def ssh_consts Let_def) (simp add: len_def)
  moreover have "ssh_unwrap (take k (take n out')) buf = (Inl sh_incomplete, buf, 0)"
  proof (cases "k < 5")
    case True
    then have "length (take k (take n out')) < 5" by simp
    then show ?thesis by (simp only: ssh_unwrap_def ssh_consts if_True)
  next
    case False
    then have "take k (take n out') = to_be 4 (of_nat len :: u32) @ of_nat ?p # take (k - 5) (payload @ pad)"
      unfolding t by (simp add: take_Cons')
    from head [OF this] show ?thesis using False p b assms(3) n
      by (simp add: ssh_unwrap_def ssh_consts Let_def) (auto simp: len_def)
  qed
  ultimately show ?thesis using p(1) by simp
qed

theorem ssh_records_in_stream_witness:
  "\<exists>n out state. ssh_wrap 1 [1, 2, 3] (replicate 64 0) = ((Inr n, out), state) \<and>
     ssh_unwrap (take n out @ [9, 9]) (replicate 10 0) = (Inr 3, copy_to (replicate 10 0) 0 [1, 2, 3], n) \<and>
     ssh_unwrap (take 6 (take n out)) (replicate 10 0) = (Inl sh_incomplete, replicate 10 0, 0)"
proof -
  obtain n out state where w: "ssh_wrap 1 [1, 2, 3] (replicate 64 0) = ((Inr n, out), state)" "n = 16"
    by (simp add: ssh_wrap_def padding_for_def ssh_consts Let_def split_beta)
  then show ?thesis using ssh_records_in_stream [OF w(1), of "replicate 10 0" 6 "[9, 9]"] by simp
qed

end
