(* ===== verification/Congestion.thy ===== *)
theory Congestion
  imports Rate_Limit
begin

text \<open>
  The rate controller of \<^verbatim>\<open>src/src/congestion.cpp\<close> and the pacer of
  \<^verbatim>\<open>src/src/pacer.cpp\<close> that spends the rate. Durations are integer nanoseconds as in the
  code and never negative where the code divides them, so that \<^verbatim>\<open>div\<close> is the division of
  C++; rates are real numbers where the code has doubles. Byte and event counters keep their 64 bits.
\<close>

section \<open>Congestion control\<close>

record CongestionConfig =
  cg_delay_threshold :: duration
  cg_maximum_jitter_tolerance :: duration
  cg_loss_threshold :: real
  cg_backoff_delay :: real
  cg_backoff_loss :: real
  cg_probe_gain :: real
  cg_probe_ceiling :: real
  cg_minimum_rate_bytes :: real
  cg_maximum_rate_bytes :: real
  cg_minimum_rtt_window :: duration
  cg_brutal_rate_bytes :: real

definition default_congestion :: CongestionConfig where
  "default_congestion = \<lparr>cg_delay_threshold = milliseconds 5, cg_maximum_jitter_tolerance = milliseconds 15,
     cg_loss_threshold = 0.10, cg_backoff_delay = 0.85, cg_backoff_loss = 0.75, cg_probe_gain = 1.05,
     cg_probe_ceiling = 1.25, cg_minimum_rate_bytes = 8000, cg_maximum_rate_bytes = 1250000000,
     cg_minimum_rtt_window = seconds 10, cg_brutal_rate_bytes = 0\<rparr>"

datatype CongestionAction = ca_hold | ca_probe | ca_back_off_delay | ca_back_off_loss

definition congestion_action_name :: "CongestionAction \<Rightarrow> string" where
  "congestion_action_name action = (case action of
     ca_hold \<Rightarrow> ''hold'' | ca_probe \<Rightarrow> ''probe'' | ca_back_off_delay \<Rightarrow> ''back_off_delay''
   | ca_back_off_loss \<Rightarrow> ''back_off_loss'')"

record DeliverySample =
  ds_rtt :: duration
  ds_bytes_delivered :: u64
  ds_bytes_lost :: u64
  ds_interval :: duration

record CongestionStats =
  cgs_samples :: u64
  cgs_probes :: u64
  cgs_delay_backoffs :: u64
  cgs_loss_backoffs :: u64

record RttSample =
  rs_rtt :: duration
  rs_at :: instant

record CongestionController =
  cc_config :: CongestionConfig
  cc_rate :: real
  cc_delivery_rate :: real
  cc_loss_fraction :: real
  cc_smoothed_rtt :: duration
  cc_rtt_variance :: duration
  cc_minimum_rtt :: duration
  cc_minimum_window :: "RttSample list"
  cc_primed :: bool
  cc_last_action :: CongestionAction
  cc_stats :: CongestionStats

definition new_congestion :: "CongestionConfig \<Rightarrow> real \<Rightarrow> CongestionController" where
  "new_congestion config initial_rate_bytes =
     \<lparr>cc_config = config, cc_rate = initial_rate_bytes, cc_delivery_rate = 0, cc_loss_fraction = 0,
      cc_smoothed_rtt = 0, cc_rtt_variance = 0, cc_minimum_rtt = 0, cc_minimum_window = [],
      cc_primed = False, cc_last_action = ca_hold,
      cc_stats = \<lparr>cgs_samples = 0, cgs_probes = 0, cgs_delay_backoffs = 0, cgs_loss_backoffs = 0\<rparr>\<rparr>"

definition queueing_delay :: "CongestionController \<Rightarrow> duration" where
  "queueing_delay c =
     (if cc_smoothed_rtt c \<le> cc_minimum_rtt c then 0 else cc_smoothed_rtt c - cc_minimum_rtt c)"

text \<open>The first half of \<^verbatim>\<open>update_rtt\<close>: the smoothed round trip time and its variance.\<close>

definition smooth_rtt :: "CongestionController \<Rightarrow> duration \<Rightarrow> CongestionController" where
  "smooth_rtt c sample =
     (if \<not> cc_primed c then
        c\<lparr>cc_smoothed_rtt := sample, cc_rtt_variance := sample div 2, cc_minimum_rtt := sample,
          cc_primed := True\<rparr>
      else
        let difference = (if sample > cc_smoothed_rtt c then sample - cc_smoothed_rtt c
                          else cc_smoothed_rtt c - sample)
        in c\<lparr>cc_rtt_variance := (cc_rtt_variance c * 3 + difference) div 4,
             cc_smoothed_rtt := (cc_smoothed_rtt c * 7 + sample) div 8\<rparr>)"

definition update_rtt :: "CongestionController \<Rightarrow> duration \<Rightarrow> instant \<Rightarrow> CongestionController" where
  "update_rtt c sample now =
     (if sample \<le> 0 then c
      else
        let c = smooth_rtt c sample;
            window = dropWhile (\<lambda>entry. now - rs_at entry > cg_minimum_rtt_window (cc_config c))
              (cc_minimum_window c @ [\<lparr>rs_rtt = sample, rs_at = now\<rparr>]);
            first = (if window = [] then sample else rs_rtt (hd window))
        in c\<lparr>cc_minimum_window := window,
             cc_minimum_rtt := foldl (\<lambda>m entry. min m (rs_rtt entry)) first window\<rparr>)"

definition clamp :: "real \<Rightarrow> real \<Rightarrow> real \<Rightarrow> real" where
  "clamp v lo hi = (if v < lo then lo else if hi < v then hi else v)"

text \<open>The estimates taken from a report before any decision on the rate.\<close>

definition take_sample :: "CongestionController \<Rightarrow> DeliverySample \<Rightarrow> instant \<Rightarrow> CongestionController" where
  "take_sample c sample now =
     (let c = update_rtt (c\<lparr>cc_stats := (cc_stats c)\<lparr>cgs_samples := cgs_samples (cc_stats c) + 1\<rparr>\<rparr>) (ds_rtt sample) now;
          secs = in_seconds (ds_interval sample);
          c = (if secs > 0 then c\<lparr>cc_delivery_rate := real (unat (ds_bytes_delivered sample)) / secs\<rparr> else c);
          totl = ds_bytes_delivered sample + ds_bytes_lost sample
      in c\<lparr>cc_loss_fraction :=
             (if totl > 0 then real (unat (ds_bytes_lost sample)) / real (unat totl) else 0)\<rparr>)"

text \<open>The choice among backing off, probing and holding.\<close>

definition adjust_rate :: "CongestionController \<Rightarrow> CongestionController" where
  "adjust_rate c =
     (let config = cc_config c;
          queueing = queueing_delay c;
          tolerance = min (cc_rtt_variance c * 2) (cg_maximum_jitter_tolerance config);
          delay_limit = tolerance + cg_delay_threshold config;
          stats = cc_stats c
      in if queueing > delay_limit then
           c\<lparr>cc_rate := cc_rate c * cg_backoff_delay config, cc_last_action := ca_back_off_delay,
             cc_stats := stats\<lparr>cgs_delay_backoffs := cgs_delay_backoffs stats + 1\<rparr>\<rparr>
         else if cc_loss_fraction c > cg_loss_threshold config then
           c\<lparr>cc_rate := cc_rate c * cg_backoff_loss config, cc_last_action := ca_back_off_loss,
             cc_stats := stats\<lparr>cgs_loss_backoffs := cgs_loss_backoffs stats + 1\<rparr>\<rparr>
         else if queueing < cc_rtt_variance c then
           let probed = cc_rate c * cg_probe_gain config;
               ceiling = (if cc_delivery_rate c > 0 then cc_delivery_rate c * cg_probe_ceiling config
                          else probed)
           in c\<lparr>cc_rate := min probed ceiling, cc_last_action := ca_probe,
                cc_stats := stats\<lparr>cgs_probes := cgs_probes stats + 1\<rparr>\<rparr>
         else c\<lparr>cc_last_action := ca_hold\<rparr>)"

definition congestion_observe :: "CongestionController \<Rightarrow> DeliverySample \<Rightarrow> instant \<Rightarrow> CongestionController" where
  "congestion_observe c sample now =
     (let c = take_sample c sample now; config = cc_config c
      in if cg_brutal_rate_bytes config > 0 then
           let deliverable = clamp (1 - cc_loss_fraction c) 0.2 1
           in c\<lparr>cc_rate := clamp (cg_brutal_rate_bytes config / deliverable)
                  (cg_minimum_rate_bytes config) (cg_maximum_rate_bytes config),
                cc_last_action := ca_hold\<rparr>
         else
           let c = adjust_rate c
           in c\<lparr>cc_rate := clamp (cc_rate c) (cg_minimum_rate_bytes config) (cg_maximum_rate_bytes config)\<rparr>)"

section \<open>Pacing\<close>

record Pacer =
  pc_rate :: real
  pc_capacity :: real
  pc_available :: real
  pc_last :: instant
  pc_enabled :: bool
  pc_paced_bytes :: u64
  pc_deferred :: u64

definition kMinimumBurstBytes :: nat where "kMinimumBurstBytes = 1500"

definition new_pacer :: "real \<Rightarrow> nat \<Rightarrow> instant \<Rightarrow> Pacer" where
  "new_pacer bytes_per_second burst_bytes now =
     \<lparr>pc_rate = bytes_per_second, pc_capacity = real (max burst_bytes kMinimumBurstBytes),
      pc_available = real (max burst_bytes kMinimumBurstBytes), pc_last = now,
      pc_enabled = (bytes_per_second > 0), pc_paced_bytes = 0, pc_deferred = 0\<rparr>"

definition pacer_refill :: "Pacer \<Rightarrow> instant \<Rightarrow> Pacer" where
  "pacer_refill p now =
     (if now \<le> pc_last p then p
      else p\<lparr>pc_available := min (pc_capacity p) (pc_available p + in_seconds (now - pc_last p) * pc_rate p),
             pc_last := now\<rparr>)"

definition pacer_allow :: "Pacer \<Rightarrow> nat \<Rightarrow> instant \<Rightarrow> bool \<times> Pacer" where
  "pacer_allow p n now =
     (if \<not> pc_enabled p then (True, p)
      else
        let p = pacer_refill p now; needed = real n
        in if needed > pc_capacity p then
             (True, p\<lparr>pc_available := 0, pc_paced_bytes := pc_paced_bytes p + of_nat n\<rparr>)
           else if pc_available p < needed then (False, p\<lparr>pc_deferred := pc_deferred p + 1\<rparr>)
           else (True, p\<lparr>pc_available := pc_available p - needed,
                         pc_paced_bytes := pc_paced_bytes p + of_nat n\<rparr>))"

text \<open>\<^verbatim>\<open>duration_cast\<close> from seconds in a double truncates to whole nanoseconds.\<close>

definition from_seconds :: "real \<Rightarrow> duration" where
  "from_seconds s = (if s < 0 then \<lceil>s * 1000000000\<rceil> else \<lfloor>s * 1000000000\<rfloor>)"

definition delay_for :: "Pacer \<Rightarrow> nat \<Rightarrow> instant \<Rightarrow> duration \<times> Pacer" where
  "delay_for p n now =
     (if \<not> pc_enabled p then (0, p)
      else
        let p = pacer_refill p now; needed = real n
        in if needed > pc_capacity p \<or> pc_available p \<ge> needed then (0, p)
           else if pc_rate p \<le> 0 then (0, p)
           else (from_seconds ((needed - pc_available p) / pc_rate p), p))"

definition set_pacer_rate :: "Pacer \<Rightarrow> real \<Rightarrow> Pacer" where
  "set_pacer_rate p rate = (if rate > 0 then p\<lparr>pc_rate := rate\<rparr> else p)"

section \<open>The window of round trip times\<close>

lemma dropWhile_filter_sorted:
  "sorted (map f xs) \<Longrightarrow> dropWhile (\<lambda>x. f x < (b :: 'b :: linorder)) xs = filter (\<lambda>x. b \<le> f x) xs"
proof (induction xs)
  case (Cons x xs)
  have "filter (\<lambda>x. b \<le> f x) xs = xs" if "b \<le> f x" using that Cons.prems by (force simp: filter_id_conv)
  then show ?case using Cons by (auto simp: not_less)
qed simp

lemma foldl_min: "foldl (\<lambda>m x. min m (f x)) m xs = Min (insert m (f ` set xs))" for m :: "'b :: linorder"
proof (induction xs arbitrary: m)
  case (Cons x xs)
  then show ?case by (cases "xs = []") (simp_all add: Min_insert min.assoc insert_commute)
qed simp

lemma smooth_rtt_frame [simp]:
  "cc_minimum_window (smooth_rtt c r) = cc_minimum_window c" "cc_config (smooth_rtt c r) = cc_config c"
  by (simp_all add: smooth_rtt_def Let_def)

lemma update_rtt_config [simp]: "cc_config (update_rtt c r now) = cc_config c"
  by (simp add: update_rtt_def Let_def)

lemma new_congestion_config [simp]: "cc_config (new_congestion config rate) = config"
  by (simp add: new_congestion_def)

lemma smooth_rtt_stats: "smooth_rtt (c\<lparr>cc_stats := x\<rparr>) r = (smooth_rtt c r)\<lparr>cc_stats := x\<rparr>"
  by (simp add: smooth_rtt_def Let_def)

lemma update_rtt_stats [simp]: "update_rtt (c\<lparr>cc_stats := x\<rparr>) r now = (update_rtt c r now)\<lparr>cc_stats := x\<rparr>"
  by (simp add: update_rtt_def Let_def smooth_rtt_stats)

lemma take_sample_frame [simp]:
  "cc_config (take_sample c s now) = cc_config c"
  "cc_minimum_window (take_sample c s now) = cc_minimum_window (update_rtt c (ds_rtt s) now)"
  "cc_minimum_rtt (take_sample c s now) = cc_minimum_rtt (update_rtt c (ds_rtt s) now)"
  by (simp_all add: take_sample_def Let_def)

lemma adjust_rate_frame [simp]:
  "cc_config (adjust_rate c) = cc_config c" "cc_minimum_window (adjust_rate c) = cc_minimum_window c"
  "cc_minimum_rtt (adjust_rate c) = cc_minimum_rtt c"
  by (simp_all add: adjust_rate_def Let_def)

lemma congestion_observe_frame [simp]:
  "cc_config (congestion_observe c s now) = cc_config c"
  "cc_minimum_window (congestion_observe c s now) = cc_minimum_window (update_rtt c (ds_rtt s) now)"
  "cc_minimum_rtt (congestion_observe c s now) = cc_minimum_rtt (update_rtt c (ds_rtt s) now)"
  by (simp_all add: congestion_observe_def Let_def)

lemma clamp_bounds: "lo \<le> hi \<Longrightarrow> lo \<le> clamp v lo hi \<and> clamp v lo hi \<le> hi"
  by (simp add: clamp_def)

lemma congestion_observe_rate:
  "cg_minimum_rate_bytes (cc_config c) \<le> cg_maximum_rate_bytes (cc_config c) \<Longrightarrow>
   cg_minimum_rate_bytes (cc_config c) \<le> cc_rate (congestion_observe c s now) \<and>
   cc_rate (congestion_observe c s now) \<le> cg_maximum_rate_bytes (cc_config c)"
  by (simp add: congestion_observe_def Let_def clamp_bounds)

text \<open>A run of reports, and the round trips among them that were measured at all.\<close>

definition congestion_run :: "CongestionController \<Rightarrow> (DeliverySample \<times> instant) list \<Rightarrow> CongestionController" where
  "congestion_run c reports = foldl (\<lambda>c (sample, now). congestion_observe c sample now) c reports"

definition measured :: "(DeliverySample \<times> instant) list \<Rightarrow> RttSample list" where
  "measured reports = map (\<lambda>(s, now). \<lparr>rs_rtt = ds_rtt s, rs_at = now\<rparr>) (filter (\<lambda>(s, now). 0 < ds_rtt s) reports)"

lemma congestion_run_simps [simp]:
  "congestion_run c [] = c"
  "congestion_run c (reports @ [(s, now)]) = congestion_observe (congestion_run c reports) s now"
  by (simp_all add: congestion_run_def)

lemma measured_snoc [simp]:
  "measured [] = []"
  "measured (reports @ [(s, now)]) =
     measured reports @ (if 0 < ds_rtt s then [\<lparr>rs_rtt = ds_rtt s, rs_at = now\<rparr>] else [])"
  by (simp_all add: measured_def)

lemma congestion_run_config [simp]: "cc_config (congestion_run c reports) = cc_config c"
  by (induction reports rule: rev_induct) auto

lemma measured_sorted: "sorted (map snd reports) \<Longrightarrow> sorted (map rs_at (measured reports))"
proof -
  have "map rs_at (measured reports) = map snd (filter (\<lambda>(s, now). 0 < ds_rtt s) reports)"
    by (simp add: measured_def case_prod_unfold)
  then show "sorted (map snd reports) \<Longrightarrow> sorted (map rs_at (measured reports))"
    by (simp add: sorted_filter)
qed

text \<open>The window holds the measurements that are not older than the newest one by more than its length.\<close>

definition recent :: "duration \<Rightarrow> RttSample list \<Rightarrow> RttSample list" where
  "recent window xs = filter (\<lambda>e. rs_at (last xs) - rs_at e \<le> window) xs"

lemma update_rtt_window:
  "0 < r \<Longrightarrow> cc_minimum_window (update_rtt c r now) =
     dropWhile (\<lambda>e. cg_minimum_rtt_window (cc_config c) < now - rs_at e)
       (cc_minimum_window c @ [\<lparr>rs_rtt = r, rs_at = now\<rparr>])"
  by (simp add: update_rtt_def Let_def)

lemma update_window:
  assumes "0 < r" "sorted (map rs_at (cc_minimum_window c))" "\<forall>e \<in> set (cc_minimum_window c). rs_at e \<le> now"
  shows "cc_minimum_window (update_rtt c r now) =
    filter (\<lambda>e. now - rs_at e \<le> cg_minimum_rtt_window (cc_config c))
      (cc_minimum_window c @ [\<lparr>rs_rtt = r, rs_at = now\<rparr>])"
proof -
  let ?W = "cg_minimum_rtt_window (cc_config c)" and ?xs = "cc_minimum_window c @ [\<lparr>rs_rtt = r, rs_at = now\<rparr>]"
  have e: "(\<lambda>e. ?W < now - rs_at e) = (\<lambda>e. rs_at e < now - ?W)"
    "(\<lambda>e. now - rs_at e \<le> ?W) = (\<lambda>e. now - ?W \<le> rs_at e)" by auto
  have "sorted (map rs_at ?xs)" using assms(2,3) by (auto simp: sorted_append)
  from dropWhile_filter_sorted [OF this, of "now - ?W"]
  have "dropWhile (\<lambda>e. ?W < now - rs_at e) ?xs = filter (\<lambda>e. now - rs_at e \<le> ?W) ?xs" by (simp only: e)
  moreover have "cc_minimum_window (update_rtt c r now) = dropWhile (\<lambda>e. ?W < now - rs_at e) ?xs"
    by (rule update_rtt_window [OF assms(1)])
  ultimately show ?thesis by (simp only:)
qed

lemma congestion_run_window:
  assumes "sorted (map snd reports)"
  shows "cc_minimum_window (congestion_run (new_congestion config rate) reports) =
    recent (cg_minimum_rtt_window config) (measured reports)"
  using assms
proof (induction reports rule: rev_induct)
  case Nil
  then show ?case by (simp add: new_congestion_def recent_def)
next
  case (snoc report reports)
  obtain s now where report: "report = (s, now)" by (cases report)
  let ?c = "congestion_run (new_congestion config rate) reports"
  let ?W = "cg_minimum_rtt_window config" and ?ms = "measured reports"
  have srt: "sorted (map snd reports)" and le: "\<forall>r \<in> set reports. snd r \<le> now"
    using snoc.prems by (auto simp: report sorted_append)
  have W: "cc_minimum_window ?c = recent ?W ?ms" by (rule snoc.IH [OF srt])
  have le': "rs_at e \<le> now" if "e \<in> set ?ms" for e using le that by (auto simp: measured_def)
  have last: "rs_at (last ?ms) \<le> now" if "?ms \<noteq> []" using le' that by simp
  show ?case
  proof (cases "0 < ds_rtt s")
    case True
    have "sorted (map rs_at (recent ?W ?ms))"
      using measured_sorted [OF srt] by (simp add: recent_def sorted_filter)
    moreover have "\<forall>e \<in> set (recent ?W ?ms). rs_at e \<le> now" using le' by (simp add: recent_def)
    ultimately have "cc_minimum_window (update_rtt ?c (ds_rtt s) now) =
        filter (\<lambda>e. now - rs_at e \<le> ?W) (recent ?W ?ms @ [\<lparr>rs_rtt = ds_rtt s, rs_at = now\<rparr>])"
      using update_window [OF True, of ?c now] by (simp add: W)
    moreover have "filter (\<lambda>e. now - rs_at e \<le> ?W) (recent ?W ?ms) = filter (\<lambda>e. now - rs_at e \<le> ?W) ?ms"
      using last by (cases "?ms = []") (auto simp: recent_def intro!: filter_cong)
    ultimately show ?thesis using True by (simp add: report recent_def)
  next
    case False
    then have "update_rtt ?c (ds_rtt s) now = ?c" by (simp add: update_rtt_def)
    then show ?thesis using False W by (simp add: report)
  qed
qed

lemma update_minimum:
  assumes "0 < r" "cc_minimum_window (update_rtt c r now) \<noteq> []"
  shows "cc_minimum_rtt (update_rtt c r now) = Min (rs_rtt ` set (cc_minimum_window (update_rtt c r now)))"
  using assms by (simp add: update_rtt_def Let_def foldl_min insert_absorb)

text \<open>
  C28: the controller measures the path it runs on. Over any run of delivery reports in the order of time,
  after a report that carries a round trip time the base of the queueing delay is the least round trip time
  reported within the configured window before it, whatever older reports said, and the sending rate stays
  between the configured minimum and maximum whatever branch each report took.
\<close>

theorem congestion_tracks_path:
  assumes "sorted (map snd reports @ [now])" "0 < ds_rtt s" "0 \<le> cg_minimum_rtt_window config"
    and "cg_minimum_rate_bytes config \<le> cg_maximum_rate_bytes config"
  shows "let c = congestion_run (new_congestion config rate) (reports @ [(s, now)]) in
    cc_minimum_rtt c = Min {ds_rtt r |r t. (r, t) \<in> set (reports @ [(s, now)]) \<and> 0 < ds_rtt r \<and>
      now - t \<le> cg_minimum_rtt_window config} \<and>
    cg_minimum_rate_bytes config \<le> cc_rate c \<and> cc_rate c \<le> cg_maximum_rate_bytes config"
proof -
  let ?c = "congestion_run (new_congestion config rate) reports"
  let ?w = "cc_minimum_window (update_rtt ?c (ds_rtt s) now)"
  have w: "?w = recent (cg_minimum_rtt_window config) (measured (reports @ [(s, now)]))"
    using congestion_run_window [of "reports @ [(s, now)]" config rate] assms(1) by simp
  have "?w \<noteq> []" using assms(2,3) by (simp add: w recent_def)
  moreover have "rs_rtt ` set ?w = {ds_rtt r |r t. (r, t) \<in> set (reports @ [(s, now)]) \<and> 0 < ds_rtt r \<and>
      now - t \<le> cg_minimum_rtt_window config}"
    using assms(2) unfolding w recent_def by (force simp: measured_def)
  ultimately show ?thesis
    using update_minimum [OF assms(2)] congestion_observe_rate [of ?c s now] assms(4) by (simp add: Let_def)
qed

definition rtt_report :: "int \<Rightarrow> int \<Rightarrow> DeliverySample \<times> instant" where
  "rtt_report rtt t = (\<lparr>ds_rtt = milliseconds rtt, ds_bytes_delivered = 1000, ds_bytes_lost = 0,
     ds_interval = seconds 1\<rparr>, seconds t)"

theorem congestion_tracks_path_witness:
  "let c = congestion_run (new_congestion default_congestion 125000)
         ([rtt_report 20 1, rtt_report 30 8] @ [(fst (rtt_report 40 12), seconds 12)])
   in cc_minimum_rtt c = Min {ds_rtt r |r t.
        (r, t) \<in> set ([rtt_report 20 1, rtt_report 30 8] @ [(fst (rtt_report 40 12), seconds 12)]) \<and>
        0 < ds_rtt r \<and> seconds 12 - t \<le> cg_minimum_rtt_window default_congestion} \<and>
      cg_minimum_rate_bytes default_congestion \<le> cc_rate c \<and>
      cc_rate c \<le> cg_maximum_rate_bytes default_congestion"
  by (rule congestion_tracks_path) (simp_all add: rtt_report_def default_congestion_def)


section \<open>What the pacer lets through\<close>

text \<open>The bytes passed since \<^term>\<open>t\<close> and the bytes still available fit the burst and the refill.\<close>

definition pacer_ok :: "real \<Rightarrow> real \<Rightarrow> instant \<Rightarrow> nat \<Rightarrow> Pacer \<Rightarrow> bool" where
  "pacer_ok capacity rate t used p \<longleftrightarrow>
     pc_capacity p = capacity \<and> pc_rate p = rate \<and> pc_enabled p \<and> t \<le> pc_last p \<and>
     0 \<le> pc_available p \<and> pc_available p \<le> capacity \<and>
     real used + pc_available p \<le> capacity + rate * in_seconds (pc_last p - t)"

lemma pacer_refill_ok:
  assumes "pacer_ok capacity rate t used p" "0 \<le> rate"
  shows "pacer_ok capacity rate t used (pacer_refill p now)"
proof (cases "now \<le> pc_last p")
  case False
  then have "0 \<le> rate * in_seconds (now - pc_last p)" using assms(2) by simp
  moreover have "rate * in_seconds (now - t) = rate * in_seconds (now - pc_last p) + rate * in_seconds (pc_last p - t)"
    by (simp add: in_seconds_diff [of now t "pc_last p"] distrib_left)
  ultimately show ?thesis
    using assms(1) False by (auto simp: pacer_ok_def pacer_refill_def min_def mult.commute)
qed (use assms in \<open>simp add: pacer_refill_def\<close>)

lemma pacer_allow_ok:
  assumes "pacer_ok capacity rate t used p" "0 \<le> rate" "pacer_allow p n now = (granted, p')"
  shows "pacer_ok capacity rate t (if granted \<and> real n \<le> capacity then used + n else used) p'"
  using pacer_refill_ok [OF assms(1,2), of now] assms(1,3)
  by (auto simp: pacer_allow_def Let_def pacer_ok_def split: if_split_asm)

lemma pacer_refill_last: "pc_last p \<le> t' \<Longrightarrow> now \<le> t' \<Longrightarrow> pc_last (pacer_refill p now) \<le> t'"
  by (simp add: pacer_refill_def)

lemma pacer_allow_last: "pc_last p \<le> t' \<Longrightarrow> now \<le> t' \<Longrightarrow> pc_last (snd (pacer_allow p n now)) \<le> t'"
  using pacer_refill_last [of p t' now] by (simp add: pacer_allow_def Let_def)

text \<open>The bytes of the packets a pacer passes, those larger than the whole burst left out.\<close>

fun paced :: "Pacer \<Rightarrow> (nat \<times> instant) list \<Rightarrow> nat" where
  "paced p [] = 0"
| "paced p ((n, now) # packets) =
     (let (granted, p') = pacer_allow p n now
      in (if granted \<and> real n \<le> pc_capacity p then n else 0) + paced p' packets)"

lemma paced_bound:
  assumes "pacer_ok capacity rate t used p" "0 \<le> rate" "pc_last p \<le> t'"
    and "\<forall>(n, now) \<in> set packets. now \<le> t'"
  shows "real (used + paced p packets) \<le> capacity + rate * in_seconds (t' - t)"
  using assms
proof (induction p packets arbitrary: used rule: paced.induct)
  case (1 p)
  have "rate * in_seconds (pc_last p - t) \<le> rate * in_seconds (t' - t)"
    using 1 by (simp add: mult_left_mono in_seconds_mono)
  then show ?case using 1 by (auto simp: pacer_ok_def)
next
  case (2 p n now packets)
  obtain g p' where a: "pacer_allow p n now = (g, p')" by (cases "pacer_allow p n now")
  have "pc_last p' \<le> t'" using pacer_allow_last [OF 2(4), of now n] 2(5) a by simp
  moreover have "pc_capacity p = capacity" using 2(2) by (simp add: pacer_ok_def)
  ultimately show ?case using 2(1) [OF a [symmetric] refl pacer_allow_ok [OF 2(2,3) a] 2(3)] 2(5)
    by (auto simp: a add.assoc split: if_split_asm)
qed

text \<open>After the delay it asks for, rounded up to the next nanosecond, the pacer passes the packet.\<close>

lemma from_seconds_bound:
  assumes "0 \<le> s"
  shows "0 \<le> from_seconds s" "s \<le> in_seconds (from_seconds s + 1)"
proof -
  show "0 \<le> from_seconds s" using assms by (simp add: from_seconds_def)
  have "s * 1000000000 \<le> of_int (\<lfloor>s * 1000000000\<rfloor> + 1)" by linarith
  then show "s \<le> in_seconds (from_seconds s + 1)"
    using assms by (simp add: from_seconds_def in_seconds_def field_simps)
qed

lemma pacer_ok_refill_enough:
  assumes ok: "pacer_ok capacity rate t used p" and "0 < rate" "real n \<le> capacity"
    and "(real n - pc_available p) / rate \<le> in_seconds (now - pc_last p)" "pc_last p < now"
  shows "fst (pacer_allow p n now)"
proof -
  have "real n - pc_available p \<le> in_seconds (now - pc_last p) * rate"
    using assms(2,4) by (simp add: pos_divide_le_eq)
  then show ?thesis using assms by (simp add: pacer_allow_def pacer_refill_def pacer_ok_def Let_def)
qed

lemma delay_enough:
  assumes ok: "pacer_ok capacity rate t used p" and "0 < rate" "real n \<le> capacity" "pc_last p \<le> now"
    and d: "delay_for p n now = (delay, p')"
  shows "fst (pacer_allow p' n (now + delay + 1))"
proof -
  let ?r = "pacer_refill p now"
  have r: "pacer_ok capacity rate t used ?r" using pacer_refill_ok [OF ok] assms(2) by simp
  have last: "pc_last ?r = now" using assms(4) by (simp add: pacer_refill_def)
  have p': "p' = ?r" using d ok by (simp add: delay_for_def Let_def pacer_ok_def split: if_split_asm)
  have delay: "delay = (if pc_available ?r \<ge> real n then 0 else from_seconds ((real n - pc_available ?r) / rate))"
    using d ok r assms(2,3) by (auto simp: delay_for_def Let_def pacer_ok_def split: if_split_asm)
  have "0 \<le> delay \<and> (real n - pc_available ?r) / rate \<le> in_seconds (delay + 1)"
  proof (cases "pc_available ?r \<ge> real n")
    case True
    then have "(real n - pc_available ?r) / rate \<le> 0" using assms(2) by (simp add: divide_nonpos_pos)
    moreover have "0 \<le> in_seconds (delay + 1)" using True delay by (simp add: in_seconds_def)
    ultimately show ?thesis using True delay by simp
  qed (use from_seconds_bound assms(2) delay in simp)
  then show ?thesis
    using pacer_ok_refill_enough [OF r assms(2,3), of "now + delay + 1"] by (simp add: p' last)
qed

definition pacer_run :: "Pacer \<Rightarrow> (nat \<times> instant) list \<Rightarrow> Pacer" where
  "pacer_run p packets = foldl (\<lambda>p (n, now). snd (pacer_allow p n now)) p packets"

lemma pacer_run_ok:
  assumes "pacer_ok capacity rate t used p" "0 \<le> rate" "pc_last p \<le> t'" "\<forall>(n, now) \<in> set packets. now \<le> t'"
  shows "(\<exists>used. pacer_ok capacity rate t used (pacer_run p packets)) \<and> pc_last (pacer_run p packets) \<le> t'"
  using assms
proof (induction packets arbitrary: p used)
  case (Cons packet packets)
  obtain n now where packet: "packet = (n, now)" by (cases packet)
  have p': "pc_last (snd (pacer_allow p n now)) \<le> t'"
    using pacer_allow_last [OF Cons.prems(3)] Cons.prems(4) by (simp add: packet)
  have ok: "\<exists>used. pacer_ok capacity rate t used (snd (pacer_allow p n now))"
    using pacer_allow_ok [OF Cons.prems(1,2)] by (metis prod.collapse)
  then show ?case using Cons.IH [OF _ assms(2) p'] Cons.prems(4) by (auto simp: pacer_run_def packet)
qed (auto simp: pacer_run_def)



end
