(* ===== verification/Spoof.thy ===== *)
theory Spoof
  imports Wire Timers
begin

text \<open>
  Sending from a pool of source addresses: the pool with its quarantine (src/spoof_pool.cpp), the feedback
  that tells which addresses arrive (src/spoof_feedback.cpp) and the generator of candidate addresses
  (src/spoof_envelope.cpp). Addresses are 32-bit words in the byte order of the code; the vectors of
  entries and windows are lists.
\<close>

section \<open>The pool\<close>

definition mix64 :: "u64 \<Rightarrow> u64" where
  "mix64 n =
     (let value = n + 0x9E3779B97F4A7C15;
          value = (value XOR drop_bit 30 value) * 0xBF58476D1CE4E5B9;
          value = (value XOR drop_bit 27 value) * 0x94D049BB133111EB
      in value XOR drop_bit 31 value)"

definition score :: "u64 \<Rightarrow> u32 \<Rightarrow> u64" where
  "score flow_hash ip_be = mix64 (flow_hash XOR mix64 (ucast ip_be))"

record SpoofPoolConfig =
  sp_death_threshold :: u32
  sp_initial_cooldown :: duration
  sp_max_cooldown :: duration

definition default_spoof_pool :: SpoofPoolConfig where
  "default_spoof_pool = \<lparr>sp_death_threshold = 4, sp_initial_cooldown = seconds 30, sp_max_cooldown = seconds 300\<rparr>"

record SpoofPick =
  pk_index :: nat
  pk_source_be :: u32

record PoolEntry =
  pe_ip_be :: u32
  pe_death_streak :: u32
  pe_cooldown_level :: u32
  pe_cooldown_until :: instant
  pe_sent :: u64

record SpoofPool =
  po_entries :: "PoolEntry list"
  po_config :: SpoofPoolConfig

definition add_source :: "PoolEntry list \<Rightarrow> u32 \<Rightarrow> PoolEntry list" where
  "add_source entries ip =
     (if ip = 0 then entries
      else if list_ex (\<lambda>entry. pe_ip_be entry = ip) entries then entries
      else entries @ [\<lparr>pe_ip_be = ip, pe_death_streak = 0, pe_cooldown_level = 0, pe_cooldown_until = 0,
                       pe_sent = 0\<rparr>])"

definition new_spoof_pool :: "u32 list \<Rightarrow> SpoofPoolConfig \<Rightarrow> SpoofPool" where
  "new_spoof_pool sources_be config =
     (let config = (if sp_death_threshold config = 0 then config\<lparr>sp_death_threshold := 1\<rparr> else config);
          config = (if sp_max_cooldown config < sp_initial_cooldown config
                    then config\<lparr>sp_max_cooldown := sp_initial_cooldown config\<rparr> else config)
      in \<lparr>po_entries = foldl add_source [] sources_be, po_config = config\<rparr>)"

fun cooldown_loop :: "nat \<Rightarrow> duration \<Rightarrow> duration \<Rightarrow> duration" where
  "cooldown_loop 0 cooldown cap = cooldown"
| "cooldown_loop (Suc steps) cooldown cap =
     (if cooldown \<ge> cap - cooldown then cap
      else let cooldown = cooldown * 2 in if cooldown \<ge> cap then cap else cooldown_loop steps cooldown cap)"

definition cooldown_for :: "SpoofPool \<Rightarrow> u32 \<Rightarrow> duration" where
  "cooldown_for p level =
     cooldown_loop (unat level) (sp_initial_cooldown (po_config p)) (sp_max_cooldown (po_config p))"

definition quarantined :: "SpoofPool \<Rightarrow> nat \<Rightarrow> instant \<Rightarrow> bool" where
  "quarantined p index now =
     (if index \<ge> length (po_entries p) then True else now < pe_cooldown_until (po_entries p ! index))"

record PickScan =
  pn_healthy_best :: nat
  pn_healthy_score :: u64
  pn_soonest :: nat
  pn_soonest_until :: instant

definition scan_entry :: "PoolEntry list \<Rightarrow> u64 \<Rightarrow> instant \<Rightarrow> PickScan \<Rightarrow> nat \<Rightarrow> PickScan" where
  "scan_entry entries flow_hash now s index =
     (let entry = entries ! index;
          s = (if pe_cooldown_until entry < pn_soonest_until s
               then s\<lparr>pn_soonest_until := pe_cooldown_until entry, pn_soonest := index\<rparr> else s)
      in if now < pe_cooldown_until entry then s
         else
           let candidate = score flow_hash (pe_ip_be entry)
           in if pn_healthy_best s = length entries \<or> candidate > pn_healthy_score s
              then s\<lparr>pn_healthy_best := index, pn_healthy_score := candidate\<rparr> else s)"

definition pick :: "SpoofPool \<Rightarrow> u64 \<Rightarrow> instant \<Rightarrow> SpoofPick option \<times> SpoofPool" where
  "pick p flow_hash now =
     (let entries = po_entries p
      in if entries = [] then (None, p)
         else
           let s = foldl (scan_entry entries flow_hash now)
                 \<lparr>pn_healthy_best = length entries, pn_healthy_score = 0, pn_soonest = 0,
                  pn_soonest_until = pe_cooldown_until (entries ! 0)\<rparr> [0..<length entries];
               chosen = (if pn_healthy_best s \<noteq> length entries then pn_healthy_best s else pn_soonest s);
               entry = entries ! chosen
           in (Some \<lparr>pk_index = chosen, pk_source_be = pe_ip_be entry\<rparr>,
               p\<lparr>po_entries := entries[chosen := entry\<lparr>pe_sent := pe_sent entry + 1\<rparr>]\<rparr>))"

definition instant_max :: instant where "instant_max = 2 ^ 63 - 1"

definition blame :: "SpoofPool \<Rightarrow> nat \<Rightarrow> instant \<Rightarrow> SpoofPool" where
  "blame p index now =
     (if index \<ge> length (po_entries p) then p
      else
        let entry = po_entries p ! index;
            entry = entry\<lparr>pe_death_streak := pe_death_streak entry + 1\<rparr>
        in if pe_death_streak entry < sp_death_threshold (po_config p)
           then p\<lparr>po_entries := (po_entries p)[index := entry]\<rparr>
           else
             let cooldown = cooldown_for p (pe_cooldown_level entry);
                 headroom = instant_max - now
             in p\<lparr>po_entries := (po_entries p)[index := entry
                  \<lparr>pe_death_streak := 0,
                   pe_cooldown_until := (if cooldown \<ge> headroom then instant_max else now + cooldown),
                   pe_cooldown_level := (if pe_cooldown_level entry < 30 then pe_cooldown_level entry + 1
                                         else pe_cooldown_level entry)\<rparr>]\<rparr>)"

definition reward :: "SpoofPool \<Rightarrow> nat \<Rightarrow> SpoofPool" where
  "reward p index =
     (if index \<ge> length (po_entries p) then p
      else
        let entry = po_entries p ! index
        in p\<lparr>po_entries := (po_entries p)[index := entry
             \<lparr>pe_death_streak := 0,
              pe_cooldown_level := (if pe_cooldown_level entry > 0 then pe_cooldown_level entry - 1
                                    else pe_cooldown_level entry)\<rparr>]\<rparr>)"

definition healthy_count :: "SpoofPool \<Rightarrow> instant \<Rightarrow> nat" where
  "healthy_count p now = length (filter (\<lambda>entry. now \<ge> pe_cooldown_until entry) (po_entries p))"

definition pool_sent :: "SpoofPool \<Rightarrow> nat \<Rightarrow> u64" where
  "pool_sent p index = (if index < length (po_entries p) then pe_sent (po_entries p ! index) else 0)"

definition pool_source :: "SpoofPool \<Rightarrow> nat \<Rightarrow> u32" where
  "pool_source p index = (if index < length (po_entries p) then pe_ip_be (po_entries p ! index) else 0)"

section \<open>Feedback\<close>

definition kSpoofReceipt :: byte where "kSpoofReceipt = 4"
definition kSpoofReceiptMaxWords :: nat where "kSpoofReceiptMaxWords = 16"

record SpoofFeedbackConfig =
  fc_miss_windows :: u32
  fc_reroll_interval :: duration

record SpoofWindow =
  sw_sent_at_window :: u64
  sw_miss_streak :: u32

record SpoofFeedback =
  fb_pool :: SpoofPool
  fb_config :: SpoofFeedbackConfig
  fb_windows :: "SpoofWindow list"
  fb_window_counter :: u64

definition new_feedback :: "SpoofPool \<Rightarrow> SpoofFeedbackConfig \<Rightarrow> SpoofFeedback" where
  "new_feedback p config =
     \<lparr>fb_pool = p,
      fb_config = (if fc_miss_windows config = 0 then config\<lparr>fc_miss_windows := 1\<rparr> else config),
      fb_windows = replicate (length (po_entries p)) \<lparr>sw_sent_at_window = 0, sw_miss_streak = 0\<rparr>,
      fb_window_counter = 0\<rparr>"

definition epoch_salt :: "SpoofFeedback \<Rightarrow> instant \<Rightarrow> u64" where
  "epoch_salt fb now =
     (if fc_reroll_interval (fb_config fb) \<le> 0 then 0
      else mix64 (of_int (now div fc_reroll_interval (fb_config fb))))"

definition feedback_pick :: "SpoofFeedback \<Rightarrow> u64 \<Rightarrow> instant \<Rightarrow> SpoofPick option \<times> SpoofFeedback" where
  "feedback_pick fb flow_hash now =
     (case pick (fb_pool fb) (flow_hash XOR epoch_salt fb now) now of
        (None, p) \<Rightarrow> (None, fb\<lparr>fb_pool := p\<rparr>)
      | (Some chosen, p) \<Rightarrow>
          (Some chosen, fb\<lparr>fb_pool := p, fb_windows := (fb_windows fb)[pk_index chosen :=
             (fb_windows fb ! pk_index chosen)\<lparr>sw_sent_at_window := fb_window_counter fb + 1\<rparr>]\<rparr>))"

definition receipt_bit :: "u64 list \<Rightarrow> nat \<Rightarrow> bool" where
  "receipt_bit bitmap index =
     (let w = index div 64
      in if w \<ge> length bitmap then False else (drop_bit (index mod 64) (bitmap ! w)) AND 1 \<noteq> 0)"

definition apply_window :: "u64 list \<Rightarrow> instant \<Rightarrow> SpoofFeedback \<Rightarrow> nat \<Rightarrow> SpoofFeedback" where
  "apply_window confirmed_bitmap now fb index =
     (let window = fb_windows fb ! index
      in if sw_sent_at_window window \<noteq> fb_window_counter fb then fb
         else if receipt_bit confirmed_bitmap index then
           fb\<lparr>fb_pool := reward (fb_pool fb) index,
              fb_windows := (fb_windows fb)[index := window\<lparr>sw_miss_streak := 0\<rparr>]\<rparr>
         else
           let window = window\<lparr>sw_miss_streak := sw_miss_streak window + 1\<rparr>
           in if sw_miss_streak window \<ge> fc_miss_windows (fb_config fb) then
                fb\<lparr>fb_pool := blame (fb_pool fb) index now,
                   fb_windows := (fb_windows fb)[index := window\<lparr>sw_miss_streak := 0\<rparr>]\<rparr>
              else fb\<lparr>fb_windows := (fb_windows fb)[index := window]\<rparr>)"

definition apply_receipt :: "SpoofFeedback \<Rightarrow> u64 list \<Rightarrow> instant \<Rightarrow> SpoofFeedback" where
  "apply_receipt fb confirmed_bitmap now =
     foldl (apply_window confirmed_bitmap now) (fb\<lparr>fb_window_counter := fb_window_counter fb + 1\<rparr>)
       [0..<length (fb_windows fb)]"

definition fb_miss_streak :: "SpoofFeedback \<Rightarrow> nat \<Rightarrow> u32" where
  "fb_miss_streak fb index =
     (if index < length (fb_windows fb) then sw_miss_streak (fb_windows fb ! index) else 0)"

definition make_receipt_bitmap :: "nat list \<Rightarrow> nat \<Rightarrow> u64 list" where
  "make_receipt_bitmap received pool_size =
     foldl (\<lambda>bitmap index. if index \<ge> pool_size then bitmap
         else bitmap[index div 64 := bitmap ! (index div 64) OR push_bit (index mod 64) 1])
       (replicate ((pool_size + 63) div 64) 0) received"

definition encode_spoof_receipt :: "u64 list \<Rightarrow> bytes" where
  "encode_spoof_receipt bitmap =
     kSpoofReceipt # concat (map (to_be 8) (take (min (length bitmap) kSpoofReceiptMaxWords) bitmap))"

definition decode_spoof_receipt :: "bytes \<Rightarrow> u64 list" where
  "decode_spoof_receipt payload =
     (if payload = [] \<or> hd payload \<noteq> kSpoofReceipt then []
      else
        let body = tl payload
        in map (\<lambda>w. be (take 8 (drop (w * 8) body))) [0..<min (length body div 8) kSpoofReceiptMaxWords])"

definition encode_source_receipt :: "u32 list \<Rightarrow> bytes" where
  "encode_source_receipt sources_be =
     kSpoofReceipt #
       concat (map (to_be 4) (take (min (length sources_be) (kSpoofReceiptMaxWords * 64)) sources_be))"

definition decode_source_receipt :: "bytes \<Rightarrow> u32 list" where
  "decode_source_receipt payload =
     (if payload = [] \<or> hd payload \<noteq> kSpoofReceipt then []
      else
        let body = tl payload
        in map (\<lambda>i. be (take 4 (drop (i * 4) body))) [0..<min (length body div 4) (kSpoofReceiptMaxWords * 64)])"

definition tracker_observe :: "u32 list \<Rightarrow> u32 \<Rightarrow> u32 list" where
  "tracker_observe seen source_be =
     (if source_be = 0 then seen
      else if length seen \<ge> kSpoofReceiptMaxWords * 64 then seen
      else if source_be \<in> set seen then seen
      else seen @ [source_be])"

definition drain_receipt :: "u32 list \<Rightarrow> bytes \<times> u32 list" where
  "drain_receipt seen = (encode_source_receipt seen, [])"

definition find_source :: "SpoofPool \<Rightarrow> u32 \<Rightarrow> nat option" where
  "find_source p ip = find (\<lambda>index. pool_source p index = ip) [0..<length (po_entries p)]"

definition receipt_bitmap_for_pool :: "u32 list \<Rightarrow> SpoofPool \<Rightarrow> u64 list" where
  "receipt_bitmap_for_pool sources_be p =
     make_receipt_bitmap (concat (map (\<lambda>ip. case find_source p ip of None \<Rightarrow> [] | Some index \<Rightarrow> [index]) sources_be))
       (length (po_entries p))"

definition apply_source_receipt :: "SpoofFeedback \<Rightarrow> bytes \<Rightarrow> instant \<Rightarrow> SpoofFeedback" where
  "apply_source_receipt fb frame now =
     (let sources = decode_source_receipt frame
      in apply_receipt fb (receipt_bitmap_for_pool sources (fb_pool fb)) now)"

section \<open>Candidate addresses\<close>

datatype SpoofClass = same_host_24 | same_host_16 | same_isp_block | neighbor_random | foreign_random

definition spoof_class_name :: "SpoofClass \<Rightarrow> string" where
  "spoof_class_name cls = (case cls of
     same_host_24 \<Rightarrow> ''same-/24'' | same_host_16 \<Rightarrow> ''same-/16'' | same_isp_block \<Rightarrow> ''isp-block''
   | neighbor_random \<Rightarrow> ''neighbor'' | foreign_random \<Rightarrow> ''foreign'')"

record SpoofCandidate =
  cd_ip_be :: u32
  cd_cls :: SpoofClass

record SpoofEnvelopeConfig =
  ev_per_class :: u32
  ev_seed :: u64

definition next_random :: "u64 \<Rightarrow> u64" where
  "next_random state =
     (let state = state XOR push_bit 13 state;
          state = state XOR drop_bit 7 state
      in state XOR push_bit 17 state)"

definition reserved_host :: "u32 \<Rightarrow> u32 \<Rightarrow> bool" where
  "reserved_host host host_mask \<longleftrightarrow> host = 0 \<or> host = host_mask"

text \<open>The first argument counts the tries that are left of the \<^verbatim>\<open>count * 16\<close>.\<close>

fun fill_loop :: "nat \<Rightarrow> u32 \<Rightarrow> u32 \<Rightarrow> u32 \<Rightarrow> SpoofClass \<Rightarrow> u32 \<Rightarrow> SpoofCandidate list \<Rightarrow> u64 \<Rightarrow>
    SpoofCandidate list \<times> u64" where
  "fill_loop 0 added network host_mask cls num out state = (out, state)"
| "fill_loop (Suc tries) added network host_mask cls num out state =
     (if added < num then
        let state = next_random state;
            host = ucast state AND host_mask
        in if reserved_host host host_mask then fill_loop tries added network host_mask cls num out state
           else
             let ip = network OR host
             in if list_ex (\<lambda>candidate. cd_ip_be candidate = ip) out
                then fill_loop tries added network host_mask cls num out state
                else fill_loop tries (added + 1) network host_mask cls num
                       (out @ [\<lparr>cd_ip_be = ip, cd_cls = cls\<rparr>]) state
      else (out, state))"

definition fill_prefix :: "SpoofCandidate list \<Rightarrow> u32 \<Rightarrow> u32 \<Rightarrow> SpoofClass \<Rightarrow> u32 \<Rightarrow> u64 \<Rightarrow>
    SpoofCandidate list \<times> u64" where
  "fill_prefix out network host_mask cls num state =
     fill_loop (unat (num * 16)) 0 network host_mask cls num out state"

definition foreign_ok :: "u32 \<Rightarrow> u32 \<Rightarrow> bool" where
  "foreign_ok real_ip_be ip =
     (let octet = drop_bit 24 ip AND 0xFF
      in if octet = 0 \<or> octet = 10 \<or> octet = 127 \<or> octet \<ge> 224 then False
         else if octet = 172 \<and> drop_bit 16 ip AND 0xF0 = 0x10 then False
         else if octet = 192 \<and> drop_bit 16 ip AND 0xFF = 168 then False
         else if ip AND 0xFFFFFF00 = real_ip_be AND 0xFFFFFF00 then False
         else True)"

fun foreign_loop :: "nat \<Rightarrow> u32 \<Rightarrow> u32 \<Rightarrow> u32 \<Rightarrow> SpoofCandidate list \<Rightarrow> u64 \<Rightarrow> SpoofCandidate list \<times> u64" where
  "foreign_loop 0 added real_ip_be num out state = (out, state)"
| "foreign_loop (Suc tries) added real_ip_be num out state =
     (if added < num then
        let state = next_random state; ip = ucast state
        in if \<not> foreign_ok real_ip_be ip then foreign_loop tries added real_ip_be num out state
           else foreign_loop tries (added + 1) real_ip_be num
                  (out @ [\<lparr>cd_ip_be = ip, cd_cls = foreign_random\<rparr>]) state
      else (out, state))"

definition build_spoof_candidates :: "u32 \<Rightarrow> u32 list \<Rightarrow> SpoofEnvelopeConfig \<Rightarrow> SpoofCandidate list" where
  "build_spoof_candidates real_ip_be isp_blocks_be config =
     (let num = ev_per_class config
      in if num = 0 then []
         else
           let state = ev_seed config XOR ucast real_ip_be;
               (out, state) = fill_prefix [] (real_ip_be AND 0xFFFFFF00) 0x000000FF same_host_24 num state;
               (out, state) = fill_prefix out (real_ip_be AND 0xFFFF0000) 0x0000FFFF same_host_16 num state;
               (out, state) = foldl (\<lambda>(out, state) block.
                   fill_prefix out (block AND 0xFFFFFF00) 0x000000FF same_isp_block num state)
                 (out, state) isp_blocks_be;
               (out, state) = fill_prefix out ((real_ip_be AND 0xFFFF0000) XOR 0x00010000) 0x0000FFFF
                 neighbor_random num state;
               (out, state) = foreign_loop (unat (num * 16)) 0 real_ip_be num out state
           in out)"

definition kSurvivorThreshold :: u32 where "kSurvivorThreshold = 2"

record SpoofClassTally =
  ct_survivors :: "SpoofClass \<Rightarrow> u32"
  ct_sent :: "SpoofClass \<Rightarrow> u32"

definition new_tally :: SpoofClassTally where
  "new_tally = \<lparr>ct_survivors = (\<lambda>_. 0), ct_sent = (\<lambda>_. 0)\<rparr>"

definition record_survivor :: "SpoofClassTally \<Rightarrow> SpoofClass \<Rightarrow> SpoofClassTally" where
  "record_survivor t cls = t\<lparr>ct_survivors := (ct_survivors t)(cls := ct_survivors t cls + 1)\<rparr>"

definition record_sent :: "SpoofClassTally \<Rightarrow> SpoofClass \<Rightarrow> SpoofClassTally" where
  "record_sent t cls = t\<lparr>ct_sent := (ct_sent t)(cls := ct_sent t cls + 1)\<rparr>"

definition class_usable :: "SpoofClassTally \<Rightarrow> SpoofClass \<Rightarrow> bool" where
  "class_usable t cls \<longleftrightarrow> ct_survivors t cls \<ge> kSurvivorThreshold"

definition usable_classes :: "SpoofClassTally \<Rightarrow> SpoofClass list" where
  "usable_classes t =
     filter (class_usable t) [same_host_24, same_host_16, same_isp_block, neighbor_random, foreign_random]"

section \<open>Rendezvous choice of the source\<close>

text \<open>The cooldown doubles with every level up to the cap.\<close>

lemma cooldown_loop_min: "0 < c \<Longrightarrow> c \<le> cap \<Longrightarrow> cooldown_loop n c cap = min cap (c * 2 ^ n)"
proof (induction n arbitrary: c)
  case (Suc n)
  have ge: "cap \<le> c * 2 ^ Suc n" if "cap \<le> c * 2"
  proof -
    have "c * 2 * 1 \<le> c * 2 * 2 ^ n" using Suc.prems by (intro mult_left_mono) auto
    then show ?thesis using that by (simp add: mult.assoc)
  qed
  show ?case
  proof (cases "cap \<le> c * 2")
    case True
    then show ?thesis using ge Suc.prems by (auto simp: min_def)
  next
    case False
    then show ?thesis using Suc.IH [of "c * 2"] Suc.prems by (simp add: mult.assoc)
  qed
qed simp

definition healthy :: "PoolEntry list \<Rightarrow> instant \<Rightarrow> nat \<Rightarrow> bool" where
  "healthy entries now j \<longleftrightarrow> pe_cooldown_until (entries ! j) \<le> now"

definition entry_score :: "PoolEntry list \<Rightarrow> u64 \<Rightarrow> nat \<Rightarrow> u64" where
  "entry_score entries h j = score h (pe_ip_be (entries ! j))"

text \<open>The first healthy entry with the greatest score.\<close>

definition is_best :: "PoolEntry list \<Rightarrow> u64 \<Rightarrow> instant \<Rightarrow> nat \<Rightarrow> nat \<Rightarrow> bool" where
  "is_best entries h now k i \<longleftrightarrow> i < k \<and> healthy entries now i \<and>
     (\<forall>j < k. healthy entries now j \<longrightarrow> entry_score entries h j \<le> entry_score entries h i \<and>
        (j < i \<longrightarrow> entry_score entries h j < entry_score entries h i))"

definition best_scanned :: "PoolEntry list \<Rightarrow> u64 \<Rightarrow> instant \<Rightarrow> nat \<Rightarrow> PickScan \<Rightarrow> bool" where
  "best_scanned entries h now k s \<longleftrightarrow>
     (if pn_healthy_best s = length entries then \<forall>j < k. \<not> healthy entries now j
      else is_best entries h now k (pn_healthy_best s) \<and>
           pn_healthy_score s = entry_score entries h (pn_healthy_best s))"

definition soonest_scanned :: "PoolEntry list \<Rightarrow> nat \<Rightarrow> PickScan \<Rightarrow> bool" where
  "soonest_scanned entries k s \<longleftrightarrow>
     pn_soonest s < length entries \<and> pn_soonest_until s = pe_cooldown_until (entries ! pn_soonest s) \<and>
     (\<forall>j < k. pn_soonest_until s \<le> pe_cooldown_until (entries ! j))"

lemma is_best_Suc:
  "is_best entries h now k i \<Longrightarrow> \<not> healthy entries now k \<Longrightarrow> is_best entries h now (Suc k) i"
  "is_best entries h now k i \<Longrightarrow> entry_score entries h k \<le> entry_score entries h i \<Longrightarrow> is_best entries h now (Suc k) i"
  "is_best entries h now k i \<Longrightarrow> entry_score entries h i < entry_score entries h k \<Longrightarrow> healthy entries now k \<Longrightarrow>
   is_best entries h now (Suc k) k"
  "\<forall>j < k. \<not> healthy entries now j \<Longrightarrow> healthy entries now k \<Longrightarrow> is_best entries h now (Suc k) k"
  by (auto simp: is_best_def less_Suc_eq intro: le_less_trans)

lemma scan_entry_best:
  "pn_healthy_best (scan_entry entries h now s k) =
     (if healthy entries now k \<and> (pn_healthy_best s = length entries \<or> pn_healthy_score s < entry_score entries h k)
      then k else pn_healthy_best s)"
  "pn_healthy_score (scan_entry entries h now s k) =
     (if healthy entries now k \<and> (pn_healthy_best s = length entries \<or> pn_healthy_score s < entry_score entries h k)
      then entry_score entries h k else pn_healthy_score s)"
  by (auto simp: scan_entry_def Let_def healthy_def entry_score_def)

lemma scan_entry_soonest:
  "pn_soonest (scan_entry entries h now s k) =
     (if pe_cooldown_until (entries ! k) < pn_soonest_until s then k else pn_soonest s)"
  "pn_soonest_until (scan_entry entries h now s k) = min (pe_cooldown_until (entries ! k)) (pn_soonest_until s)"
  by (auto simp: scan_entry_def Let_def)

lemma best_scanned_step:
  assumes "best_scanned entries h now k s" "k < length entries"
  shows "best_scanned entries h now (Suc k) (scan_entry entries h now s k)"
  unfolding best_scanned_def scan_entry_best
  using assms by (auto simp: best_scanned_def is_best_Suc less_Suc_eq not_less split: if_split_asm)

lemma soonest_scanned_step:
  assumes "soonest_scanned entries k s" "k < length entries"
  shows "soonest_scanned entries (Suc k) (scan_entry entries h now s k)"
  using assms by (auto simp: soonest_scanned_def scan_entry_soonest less_Suc_eq min_def)

lemma scan_all:
  assumes "entries \<noteq> []"
  defines "s0 \<equiv> \<lparr>pn_healthy_best = length entries, pn_healthy_score = 0, pn_soonest = 0,
    pn_soonest_until = pe_cooldown_until (entries ! 0)\<rparr>"
  shows "k \<le> length entries \<Longrightarrow>
    best_scanned entries h now k (foldl (scan_entry entries h now) s0 [0..<k]) \<and>
    soonest_scanned entries k (foldl (scan_entry entries h now) s0 [0..<k])"
proof (induction k)
  case 0
  then show ?case using assms(1) by (simp add: s0_def best_scanned_def soonest_scanned_def)
next
  case (Suc k)
  then show ?case by (simp add: best_scanned_step soonest_scanned_step)
qed

text \<open>The choice in closed form: the best healthy entry, or else the one that is released first.\<close>

definition chosen_entry :: "PoolEntry list \<Rightarrow> u64 \<Rightarrow> instant \<Rightarrow> nat \<Rightarrow> bool" where
  "chosen_entry entries h now i \<longleftrightarrow> i < length entries \<and>
     (if \<exists>j < length entries. healthy entries now j then is_best entries h now (length entries) i
      else \<forall>j < length entries. pe_cooldown_until (entries ! i) \<le> pe_cooldown_until (entries ! j))"

lemma pick_chosen:
  assumes "po_entries p \<noteq> []"
  obtains i where "chosen_entry (po_entries p) h now i"
    "pick p h now = (Some \<lparr>pk_index = i, pk_source_be = pe_ip_be (po_entries p ! i)\<rparr>,
       p\<lparr>po_entries := (po_entries p)[i := (po_entries p ! i)\<lparr>pe_sent := pe_sent (po_entries p ! i) + 1\<rparr>]\<rparr>)"
proof -
  let ?entries = "po_entries p"
  define s where "s = foldl (scan_entry ?entries h now) \<lparr>pn_healthy_best = length ?entries, pn_healthy_score = 0,
    pn_soonest = 0, pn_soonest_until = pe_cooldown_until (?entries ! 0)\<rparr> [0..<length ?entries]"
  let ?i = "if pn_healthy_best s \<noteq> length ?entries then pn_healthy_best s else pn_soonest s"
  have s: "best_scanned ?entries h now (length ?entries) s" "soonest_scanned ?entries (length ?entries) s"
    using scan_all [OF assms, of "length ?entries" h now] by (simp_all add: s_def)
  then have "chosen_entry ?entries h now ?i"
    by (auto simp: chosen_entry_def best_scanned_def soonest_scanned_def is_best_def split: if_split_asm)
  then show ?thesis by (rule that) (simp only: pick_def assms if_False Let_def s_def)
qed

lemma is_best_unique:
  assumes "is_best entries h now k i" "is_best entries h now k j"
  shows "i = j"
  using assms by (cases i j rule: linorder_cases) (auto simp: is_best_def dest!: leD)

lemma blame_entries:
  "length (po_entries (blame p j now)) = length (po_entries p)"
  "i \<noteq> j \<Longrightarrow> po_entries (blame p j now) ! i = po_entries p ! i"
  "i < length (po_entries p) \<Longrightarrow> pe_ip_be (po_entries (blame p j now) ! i) = pe_ip_be (po_entries p ! i)"
  "po_config (blame p j now) = po_config p"
  by (auto simp: blame_def Let_def nth_list_update)

lemma blame_not_healthy:
  assumes "j < length (po_entries p)" "healthy (po_entries (blame p j now)) now j"
    and "0 < sp_initial_cooldown (po_config p)" "sp_initial_cooldown (po_config p) \<le> sp_max_cooldown (po_config p)"
    and "now < instant_max"
  shows "healthy (po_entries p) now j"
proof -
  have "0 < cooldown_for p (pe_cooldown_level (po_entries p ! j))"
    using assms(3,4) by (simp add: cooldown_for_def cooldown_loop_min)
  then show ?thesis using assms(1,2,5)
    by (auto simp: blame_def healthy_def Let_def not_le split: if_split_asm)
qed

lemma is_best_blame:
  assumes "is_best (po_entries p) h now (length (po_entries p)) i" "i \<noteq> j"
    and "0 < sp_initial_cooldown (po_config p)" "sp_initial_cooldown (po_config p) \<le> sp_max_cooldown (po_config p)"
    and "now < instant_max"
  shows "is_best (po_entries (blame p j now)) h now (length (po_entries p)) i"
proof -
  let ?e = "po_entries p" and ?e' = "po_entries (blame p j now)"
  have h: "healthy ?e now k" if "k < length ?e" "healthy ?e' now k" for k
    using that blame_not_healthy [of j p now] assms(3-5) by (cases "k = j") (auto simp: healthy_def blame_entries)
  have sc: "entry_score ?e' h k = entry_score ?e h k" if "k < length ?e" for k
    using that by (simp add: entry_score_def blame_entries)
  have "healthy ?e' now i" using assms(1,2) by (simp add: is_best_def healthy_def blame_entries)
  moreover have "i < length ?e" using assms(1) by (simp add: is_best_def)
  ultimately show ?thesis using assms(1) h sc by (simp add: is_best_def)
qed

lemma healthy_count_pos: "0 < healthy_count p now \<longleftrightarrow> (\<exists>j < length (po_entries p). healthy (po_entries p) now j)"
  unfolding healthy_count_def length_greater_0_conv filter_empty_conv healthy_def
  by (metis in_set_conv_nth)

lemma pick_blame:
  assumes "is_best (po_entries p) h now (length (po_entries p)) i" "i \<noteq> j"
    and "0 < sp_initial_cooldown (po_config p)" "sp_initial_cooldown (po_config p) \<le> sp_max_cooldown (po_config p)"
    and "now < instant_max"
  shows "fst (pick (blame p j now) h now) = Some \<lparr>pk_index = i, pk_source_be = pe_ip_be (po_entries p ! i)\<rparr>"
proof -
  let ?p = "blame p j now"
  have best: "is_best (po_entries ?p) h now (length (po_entries ?p)) i"
    using is_best_blame [OF assms] by (simp add: blame_entries)
  then have ne: "po_entries ?p \<noteq> []" by (auto simp: is_best_def)
  obtain k where k: "chosen_entry (po_entries ?p) h now k"
    "fst (pick ?p h now) = Some \<lparr>pk_index = k, pk_source_be = pe_ip_be (po_entries ?p ! k)\<rparr>"
    by (rule pick_chosen [OF ne, of h now]) simp
  have "is_best (po_entries ?p) h now (length (po_entries ?p)) k"
    using k(1) best by (auto simp: chosen_entry_def is_best_def split: if_split_asm)
  then have "k = i" using best by (rule is_best_unique)
  then show ?thesis using k(2) assms(2) by (simp add: blame_entries)
qed



section \<open>Receipts\<close>

lemma concat_to_be_chunks:
  "i < length xs \<Longrightarrow> take n (drop (i * n) (concat (map (to_be n) xs))) = to_be n (xs ! i)"
proof (induction xs arbitrary: i)
  case (Cons x xs)
  then show ?case by (cases i) (auto simp: add.commute)
qed simp

lemma length_concat_to_be: "length (concat (map (to_be n) xs)) = length xs * n"
  by (induction xs) auto

lemma decode_encode_source:
  "decode_source_receipt (encode_source_receipt sources) = take (kSpoofReceiptMaxWords * 64) sources"
proof -
  let ?xs = "take (min (length sources) (kSpoofReceiptMaxWords * 64)) sources"
  have len: "length (concat (map (to_be 4) ?xs)) div 4 = length ?xs" by (simp add: length_concat_to_be)
  have "decode_source_receipt (encode_source_receipt sources) = map (\<lambda>i. ?xs ! i) [0..<length ?xs]"
    unfolding decode_source_receipt_def encode_source_receipt_def Let_def list.sel len
    by (auto simp: concat_to_be_chunks)
  also have "\<dots> = ?xs" by (rule map_nth)
  finally show ?thesis by (simp add: min_def)
qed

lemma decode_encode_bitmap:
  "decode_spoof_receipt (encode_spoof_receipt bitmap) = take kSpoofReceiptMaxWords bitmap"
proof -
  let ?xs = "take (min (length bitmap) kSpoofReceiptMaxWords) bitmap"
  have len: "length (concat (map (to_be 8) ?xs)) div 8 = length ?xs" by (simp add: length_concat_to_be)
  have "decode_spoof_receipt (encode_spoof_receipt bitmap) = map (\<lambda>i. ?xs ! i) [0..<length ?xs]"
    unfolding decode_spoof_receipt_def encode_spoof_receipt_def Let_def list.sel len
    by (auto simp: concat_to_be_chunks)
  also have "\<dots> = ?xs" by (rule map_nth)
  finally show ?thesis by (simp add: min_def)
qed

text \<open>The bits of a bitmap are the indices it was made of.\<close>

lemma receipt_bit_iff:
  "receipt_bit bitmap i \<longleftrightarrow> i div 64 < length bitmap \<and> bit (bitmap ! (i div 64)) (i mod 64)"
  by (auto simp: receipt_bit_def Let_def bit_iff_odd_drop_bit and_one_eq mod_2_eq_odd)

lemma receipt_bit_set:
  assumes "i div 64 < length bitmap"
  shows "receipt_bit (bitmap[i div 64 := bitmap ! (i div 64) OR push_bit (i mod 64) 1]) j \<longleftrightarrow>
    receipt_bit bitmap j \<or> j = i"
proof (cases "j div 64 = i div 64")
  case True
  then have "j = i \<longleftrightarrow> j mod 64 = i mod 64" by (metis div_mult_mod_eq)
  then show ?thesis using True assms by (auto simp: receipt_bit_iff bit_simps)
qed (auto simp: receipt_bit_iff)

lemma make_receipt_bitmap_bit:
  "receipt_bit (make_receipt_bitmap received n) i \<longleftrightarrow> i < n \<and> i \<in> set received"
proof -
  let ?f = "\<lambda>bitmap index. if index \<ge> n then bitmap
    else bitmap[index div 64 := bitmap ! (index div 64) OR push_bit (index mod 64) (1 :: u64)]"
  have "receipt_bit (foldl ?f bitmap received) i \<longleftrightarrow> receipt_bit bitmap i \<or> i < n \<and> i \<in> set received"
    if "length bitmap = (n + 63) div 64" for bitmap
    using that
  proof (induction received arbitrary: bitmap)
    case (Cons k received)
    have "k div 64 < length bitmap" if "k < n" using that Cons.prems by linarith
    then show ?case using Cons receipt_bit_set [of k bitmap i] by auto
  qed simp
  moreover have "\<not> receipt_bit (replicate m 0) i" for m by (auto simp: receipt_bit_iff)
  ultimately show ?thesis unfolding make_receipt_bitmap_def by simp
qed

text \<open>A pool never holds an address twice, nor the zero address.\<close>

definition pool_ok :: "PoolEntry list \<Rightarrow> bool" where
  "pool_ok entries \<longleftrightarrow> distinct (map pe_ip_be entries) \<and> 0 \<notin> pe_ip_be ` set entries"

lemma new_spoof_pool_ok:
  "pool_ok (po_entries (new_spoof_pool sources config))"
  "pe_ip_be ` set (po_entries (new_spoof_pool sources config)) = set sources - {0}"
proof -
  have "pool_ok (foldl add_source entries sources) \<and>
      pe_ip_be ` set (foldl add_source entries sources) = pe_ip_be ` set entries \<union> (set sources - {0})"
    if "pool_ok entries" for entries
    using that
  proof (induction sources arbitrary: entries)
    case (Cons ip sources)
    have "pool_ok (add_source entries ip)" "pe_ip_be ` set (add_source entries ip) = pe_ip_be ` set entries \<union> ({ip} - {0})"
      using Cons.prems by (auto simp: pool_ok_def add_source_def list_ex_iff)
    then show ?case using Cons.IH [of "add_source entries ip"] by auto
  qed simp
  from this [of "[]"] show "pool_ok (po_entries (new_spoof_pool sources config))"
    "pe_ip_be ` set (po_entries (new_spoof_pool sources config)) = set sources - {0}"
    by (simp_all add: pool_ok_def new_spoof_pool_def Let_def)
qed

lemma find_source_iff:
  assumes "pool_ok (po_entries p)"
  shows "find_source p ip = Some i \<longleftrightarrow> i < length (po_entries p) \<and> pool_source p i = ip"
proof -
  have "pool_source p j = pool_source p i \<Longrightarrow> j < length (po_entries p) \<Longrightarrow> i < length (po_entries p) \<Longrightarrow> j = i" for j
    using assms by (simp add: pool_ok_def pool_source_def distinct_conv_nth) metis
  moreover have "k < length (po_entries p) \<and> pool_source p k = ip" if "find_source p ip = Some k" for k
    using that by (auto simp: find_source_def find_Some_iff)
  moreover have "\<not> (i < length (po_entries p) \<and> pool_source p i = ip)" if "find_source p ip = None"
    using that by (auto simp: find_source_def find_None_iff)
  ultimately show ?thesis by (cases "find_source p ip") auto
qed

lemma bitmap_for_pool_bit:
  assumes "pool_ok (po_entries p)"
  shows "receipt_bit (receipt_bitmap_for_pool sources p) i \<longleftrightarrow>
    i < length (po_entries p) \<and> pool_source p i \<in> set sources"
proof -
  let ?is = "concat (map (\<lambda>ip. case find_source p ip of None \<Rightarrow> [] | Some index \<Rightarrow> [index]) sources)"
  have "i \<in> set ?is \<longleftrightarrow> (\<exists>ip \<in> set sources. find_source p ip = Some i)"
    by (auto simp: set_concat split: option.split) (metis list.set_intros(1) option.simps(5))+
  then show ?thesis by (auto simp: receipt_bitmap_for_pool_def make_receipt_bitmap_bit find_source_iff [OF assms])
qed

text \<open>The tracker remembers every address it saw while it has room.\<close>

lemma tracker_seen:
  assumes "distinct seen" "0 \<notin> set seen" "card (set seen \<union> set arrivals - {0}) \<le> kSpoofReceiptMaxWords * 64"
  shows "set (foldl tracker_observe seen arrivals) = set seen \<union> set arrivals - {0}"
    and "length (foldl tracker_observe seen arrivals) \<le> kSpoofReceiptMaxWords * 64"
proof -
  have "set (foldl tracker_observe seen arrivals) = set seen \<union> set arrivals - {0} \<and>
      length (foldl tracker_observe seen arrivals) \<le> kSpoofReceiptMaxWords * 64"
    using assms
  proof (induction arrivals arbitrary: seen)
    case Nil
    then show ?case by (auto simp: distinct_card)
  next
    case (Cons a arrivals)
    have full: "length seen < kSpoofReceiptMaxWords * 64" if "a \<noteq> 0" "a \<notin> set seen"
    proof -
      have "insert a (set seen) \<subseteq> set seen \<union> set (a # arrivals) - {0}" using that Cons.prems by auto
      from card_mono [OF _ this] have "card (insert a (set seen)) \<le> kSpoofReceiptMaxWords * 64"
        using Cons.prems(3) by simp
      then show ?thesis using that Cons.prems(1) by (simp add: distinct_card)
    qed
    have step: "tracker_observe seen a = (if a = 0 \<or> a \<in> set seen then seen else seen @ [a])"
      using full by (cases "a = 0"; cases "a \<in> set seen") (simp_all add: tracker_observe_def)
    have sets: "set (tracker_observe seen a) \<union> set arrivals - {0} = set seen \<union> set (a # arrivals) - {0}"
      by (auto simp: step)
    have "distinct (tracker_observe seen a)" "0 \<notin> set (tracker_observe seen a)"
      using Cons.prems by (auto simp: step)
    from Cons.IH [OF this] Cons.prems(3) show ?case unfolding sets by simp
  qed
  then show "set (foldl tracker_observe seen arrivals) = set seen \<union> set arrivals - {0}"
    "length (foldl tracker_observe seen arrivals) \<le> kSpoofReceiptMaxWords * 64" by auto
qed

text \<open>The verdict of a window on one source, as a function of that source alone.\<close>

definition blamed :: "SpoofPool \<Rightarrow> instant \<Rightarrow> nat \<Rightarrow> PoolEntry" where
  "blamed p now i = po_entries (blame p i now) ! i"

definition rewarded :: "SpoofPool \<Rightarrow> nat \<Rightarrow> PoolEntry" where
  "rewarded p i = po_entries (reward p i) ! i"

definition judged :: "SpoofFeedback \<Rightarrow> bool \<Rightarrow> instant \<Rightarrow> nat \<Rightarrow> PoolEntry \<times> SpoofWindow" where
  "judged fb confirmed now i =
     (let e = po_entries (fb_pool fb) ! i; w = fb_windows fb ! i
      in if sw_sent_at_window w \<noteq> fb_window_counter fb then (e, w)
         else if confirmed then (rewarded (fb_pool fb) i, w\<lparr>sw_miss_streak := 0\<rparr>)
         else if fc_miss_windows (fb_config fb) \<le> sw_miss_streak w + 1
           then (blamed (fb_pool fb) now i, w\<lparr>sw_miss_streak := 0\<rparr>)
         else (e, w\<lparr>sw_miss_streak := sw_miss_streak w + 1\<rparr>))"

definition source_state :: "SpoofFeedback \<Rightarrow> nat \<Rightarrow> PoolEntry \<times> SpoofWindow" where
  "source_state fb i = (po_entries (fb_pool fb) ! i, fb_windows fb ! i)"

definition feedback_shape :: "SpoofFeedback \<Rightarrow> nat \<Rightarrow> bool" where
  "feedback_shape fb n \<longleftrightarrow> length (po_entries (fb_pool fb)) = n \<and> length (fb_windows fb) = n"

lemma reward_entries:
  "length (po_entries (reward p j)) = length (po_entries p)"
  "i \<noteq> j \<Longrightarrow> po_entries (reward p j) ! i = po_entries p ! i" "po_config (reward p j) = po_config p"
  by (auto simp: reward_def Let_def)

lemma apply_window_step:
  fixes bitmap :: "u64 list" and now :: instant
  assumes "feedback_shape fb n" "k < n"
  defines "fb' \<equiv> apply_window bitmap now fb k"
  shows "feedback_shape fb' n" "fb_config fb' = fb_config fb" "fb_window_counter fb' = fb_window_counter fb"
    "po_config (fb_pool fb') = po_config (fb_pool fb)" "i \<noteq> k \<Longrightarrow> source_state fb' i = source_state fb i"
    "source_state fb' k = judged fb (receipt_bit bitmap k) now k"
  using assms unfolding fb'_def apply_window_def Let_def
  by (auto simp: feedback_shape_def source_state_def judged_def blamed_def rewarded_def blame_entries reward_entries Let_def)

text \<open>The verdict on a source reads nothing but its own state.\<close>

lemma judged_cong:
  assumes "feedback_shape fb n" "feedback_shape fb' n" "i < n" "source_state fb' i = source_state fb i"
    and "fb_config fb' = fb_config fb" "fb_window_counter fb' = fb_window_counter fb"
    and "po_config (fb_pool fb') = po_config (fb_pool fb)"
  shows "judged fb' b now i = judged fb b now i"
proof -
  have "blamed (fb_pool fb') now i = blamed (fb_pool fb) now i"
    using assms by (simp add: blamed_def blame_def cooldown_for_def feedback_shape_def source_state_def Let_def)
  moreover have "rewarded (fb_pool fb') i = rewarded (fb_pool fb) i"
    using assms by (simp add: rewarded_def reward_def feedback_shape_def source_state_def Let_def)
  ultimately show ?thesis using assms by (simp add: judged_def source_state_def Let_def)
qed

lemma apply_windows:
  fixes bitmap :: "u64 list" and now :: instant
  assumes "feedback_shape fb n" "m \<le> n"
  defines "fb' \<equiv> foldl (apply_window bitmap now) fb [0..<m]"
  shows "feedback_shape fb' n \<and> fb_config fb' = fb_config fb \<and> fb_window_counter fb' = fb_window_counter fb \<and>
    po_config (fb_pool fb') = po_config (fb_pool fb) \<and>
    (\<forall>i < n. source_state fb' i = (if i < m then judged fb (receipt_bit bitmap i) now i else source_state fb i))"
  using assms(2) unfolding fb'_def
proof (induction m)
  case (Suc m)
  let ?f = "foldl (apply_window bitmap now) fb [0..<m]"
  have ih: "feedback_shape ?f n" "fb_config ?f = fb_config fb" "fb_window_counter ?f = fb_window_counter fb"
    "po_config (fb_pool ?f) = po_config (fb_pool fb)"
    "\<And>i. i < n \<Longrightarrow> source_state ?f i = (if i < m then judged fb (receipt_bit bitmap i) now i else source_state fb i)"
    using Suc by auto
  have m: "m < n" using Suc.prems by simp
  note step = apply_window_step [OF ih(1) m, where bitmap = bitmap and now = now]
  have "judged ?f (receipt_bit bitmap m) now m = judged fb (receipt_bit bitmap m) now m"
    by (rule judged_cong [OF assms(1) ih(1) m]) (use ih(2-4) ih(5) [OF m] in simp_all)
  then show ?case using step ih by (auto simp: less_Suc_eq)
qed (use assms(1) in simp)

text \<open>
  C31: the feedback loop is exact. The receiver tracks the sources of a window and answers with a receipt;
  the sender applies it. Whatever arrived, in whatever order and however often, as long as the distinct
  addresses fit a receipt: a source the sender used in this window is rewarded when its address arrived,
  otherwise it collects a miss and is blamed at the configured number of misses, and every source that was
  not used in the window is left alone.
\<close>

theorem receipt_judges_sources:
  assumes "pool_ok (po_entries (fb_pool fb))" "feedback_shape fb n" "i < n"
    and "card (set arrivals - {0}) \<le> kSpoofReceiptMaxWords * 64"
  shows "source_state (apply_source_receipt fb (fst (drain_receipt (foldl tracker_observe [] arrivals))) now) i =
    judged (fb\<lparr>fb_window_counter := fb_window_counter fb + 1\<rparr>) (pool_source (fb_pool fb) i \<in> set arrivals) now i"
proof -
  let ?seen = "foldl tracker_observe [] arrivals"
  have seen: "set ?seen = set arrivals - {0}" "length ?seen \<le> kSpoofReceiptMaxWords * 64"
    using tracker_seen [of "[]" arrivals] assms(4) by simp_all
  have dec: "decode_source_receipt (fst (drain_receipt ?seen)) = ?seen"
    using seen(2) by (simp add: drain_receipt_def decode_encode_source)
  have len: "length (po_entries (fb_pool fb)) = n" "length (fb_windows fb) = n"
    using assms(2) by (simp_all add: feedback_shape_def)
  have "pool_source (fb_pool fb) i \<noteq> 0"
    using assms(1,3) len by (force simp: pool_ok_def pool_source_def)
  then have bit: "receipt_bit (receipt_bitmap_for_pool ?seen (fb_pool fb)) i \<longleftrightarrow> pool_source (fb_pool fb) i \<in> set arrivals"
    using bitmap_for_pool_bit [OF assms(1)] seen(1) assms(3) len by simp
  have "feedback_shape (fb\<lparr>fb_window_counter := fb_window_counter fb + 1\<rparr>) n"
    using assms(2) by (simp add: feedback_shape_def)
  from apply_windows [OF this order_refl, of "receipt_bitmap_for_pool ?seen (fb_pool fb)" now] assms(3)
  show ?thesis by (simp add: apply_source_receipt_def apply_receipt_def dec Let_def len bit)
qed

lemma new_feedback_shape:
  "feedback_shape (new_feedback (new_spoof_pool sources config) fconfig)
     (length (po_entries (new_spoof_pool sources config)))"
  by (simp add: feedback_shape_def new_feedback_def)

theorem receipt_judges_sources_witness:
  "let fb = new_feedback (new_spoof_pool [7, 8] default_spoof_pool) \<lparr>fc_miss_windows = 3, fc_reroll_interval = 0\<rparr>;
       fb = fb\<lparr>fb_windows := map (\<lambda>w. w\<lparr>sw_sent_at_window := 1\<rparr>) (fb_windows fb)\<rparr>
   in source_state (apply_source_receipt fb (fst (drain_receipt (foldl tracker_observe [] [8, 0, 9]))) 5) 1 =
    judged (fb\<lparr>fb_window_counter := fb_window_counter fb + 1\<rparr>) (pool_source (fb_pool fb) 1 \<in> set [8, 0, 9]) 5 1"
  unfolding Let_def
proof (rule receipt_judges_sources)
  let ?fb = "new_feedback (new_spoof_pool [7, 8] default_spoof_pool) \<lparr>fc_miss_windows = 3, fc_reroll_interval = 0\<rparr>"
  let ?fb' = "?fb\<lparr>fb_windows := map (\<lambda>w. w\<lparr>sw_sent_at_window := 1\<rparr>) (fb_windows ?fb)\<rparr>"
  show "pool_ok (po_entries (fb_pool ?fb'))"
    using new_spoof_pool_ok(1) by (simp add: new_feedback_def)
  show "feedback_shape ?fb' 2"
    by (simp add: feedback_shape_def new_feedback_def new_spoof_pool_def add_source_def default_spoof_pool_def)
  have "set [8, 0, 9] - {0} = {8, 9 :: u32}" by auto
  then show "card (set [8, 0, 9 :: u32] - {0}) \<le> kSpoofReceiptMaxWords * 64"
    by (simp add: kSpoofReceiptMaxWords_def)
qed simp

section \<open>Candidates\<close>

text \<open>
  Every candidate of a class lies in the prefix of the class and is not the address of the network or of its
  broadcast; a foreign candidate is outside the private, loopback and multicast ranges and the own prefix.
\<close>

definition candidate_ok :: "u32 \<Rightarrow> u32 list \<Rightarrow> SpoofCandidate \<Rightarrow> bool" where
  "candidate_ok real_ip blocks c =
     (let ip = cd_ip_be c in case cd_cls c of
        same_host_24 \<Rightarrow> ip AND 0xFFFFFF00 = real_ip AND 0xFFFFFF00 \<and> \<not> reserved_host (ip AND 0xFF) 0xFF
      | same_host_16 \<Rightarrow> ip AND 0xFFFF0000 = real_ip AND 0xFFFF0000 \<and> \<not> reserved_host (ip AND 0xFFFF) 0xFFFF
      | same_isp_block \<Rightarrow> (\<exists>b \<in> set blocks. ip AND 0xFFFFFF00 = b AND 0xFFFFFF00) \<and>
          \<not> reserved_host (ip AND 0xFF) 0xFF
      | neighbor_random \<Rightarrow> ip AND 0xFFFF0000 = (real_ip AND 0xFFFF0000) XOR 0x00010000 \<and>
          \<not> reserved_host (ip AND 0xFFFF) 0xFFFF
      | foreign_random \<Rightarrow> foreign_ok real_ip ip)"

lemma fill_loop_forall:
  assumes "\<And>x. \<not> reserved_host (x AND host_mask) host_mask \<Longrightarrow>
      P \<lparr>cd_ip_be = network OR (x AND host_mask), cd_cls = cls\<rparr>"
    and "list_all P out"
  shows "list_all P (fst (fill_loop tries added network host_mask cls num out state))"
  using assms(2)
proof (induction tries arbitrary: added out state)
  case (Suc tries)
  then show ?case using assms(1) by (simp add: Let_def)
qed simp

lemma foreign_loop_forall:
  assumes "\<And>ip. foreign_ok real_ip ip \<Longrightarrow> P \<lparr>cd_ip_be = ip, cd_cls = foreign_random\<rparr>"
    and "list_all P out"
  shows "list_all P (fst (foreign_loop tries added real_ip num out state))"
  using assms(2)
proof (induction tries arbitrary: added out state)
  case (Suc tries)
  then show ?case using assms(1) by (simp add: Let_def)
qed simp

lemma prefix_masks:
  fixes n h :: u32
  shows "(n AND 0xFFFFFF00 OR h AND 0xFF) AND 0xFFFFFF00 = n AND 0xFFFFFF00"
    "(n AND 0xFFFFFF00 OR h AND 0xFF) AND 0xFF = h AND 0xFF"
    "(n AND 0xFFFF0000 OR h AND 0xFFFF) AND 0xFFFF0000 = n AND 0xFFFF0000"
    "(n AND 0xFFFF0000 OR h AND 0xFFFF) AND 0xFFFF = h AND 0xFFFF"
  by (simp_all add: bit.conj_disj_distrib2 and.assoc)

lemma neighbor_prefix: "(n AND 0xFFFF0000) XOR 0x00010000 = ((n XOR 0x00010000) AND 0xFFFF0000)" for n :: u32
  by (simp add: bit.conj_xor_distrib2)

lemma candidates_in_class:
  "list_all (candidate_ok real_ip blocks) (build_spoof_candidates real_ip blocks config)"
proof -
  let ?num = "ev_per_class config" and ?P = "candidate_ok real_ip blocks"
  note fill = fill_loop_forall [where P = ?P]
  have f24: "list_all ?P (fst (fill_prefix out (real_ip AND 0xFFFFFF00) 0xFF same_host_24 ?num st))"
    if "list_all ?P out" for out st
    unfolding fill_prefix_def by (rule fill [OF _ that]) (simp add: candidate_ok_def prefix_masks)
  have f16: "list_all ?P (fst (fill_prefix out (real_ip AND 0xFFFF0000) 0xFFFF same_host_16 ?num st))"
    if "list_all ?P out" for out st
    unfolding fill_prefix_def by (rule fill [OF _ that]) (simp add: candidate_ok_def prefix_masks)
  have fb: "list_all ?P (fst (fill_prefix out (b AND 0xFFFFFF00) 0xFF same_isp_block ?num st))"
    if "list_all ?P out" "b \<in> set blocks" for out st b
    unfolding fill_prefix_def using that(2)
    by (intro fill [OF _ that(1)]) (auto simp: candidate_ok_def prefix_masks)
  have fn: "list_all ?P (fst (fill_prefix out ((real_ip AND 0xFFFF0000) XOR 0x00010000) 0xFFFF neighbor_random ?num st))"
    if "list_all ?P out" for out st
    unfolding fill_prefix_def neighbor_prefix
    by (rule fill [OF _ that]) (simp add: candidate_ok_def prefix_masks neighbor_prefix)
  have ff: "list_all ?P (fst (foreign_loop tries 0 real_ip ?num out st))" if "list_all ?P out" for out st tries
    by (rule foreign_loop_forall [OF _ that]) (simp add: candidate_ok_def)
  have fold: "list_all ?P (fst (foldl (\<lambda>(out, state) block.
      fill_prefix out (block AND 0xFFFFFF00) 0xFF same_isp_block ?num state) (out, st) bs))"
    if "list_all ?P out" "set bs \<subseteq> set blocks" for out st bs
    using that
  proof (induction bs arbitrary: out st)
    case (Cons b bs)
    then show ?case using fb [of out b st]
      by (cases "fill_prefix out (b AND 0xFFFFFF00) 0xFF same_isp_block ?num st") simp
  qed simp
  have fold': "list_all ?P (fst (foldl (\<lambda>(out, state) block.
      fill_prefix out (block AND 0xFFFFFF00) 0xFF same_isp_block ?num state) r bs))"
    if "list_all ?P (fst r)" "set bs \<subseteq> set blocks" for r bs
    using fold [of "fst r" bs "snd r"] that by simp
  show ?thesis
  proof (cases "?num = 0")
    case False
    show ?thesis unfolding build_spoof_candidates_def Let_def case_prod_beta if_not_P [OF False]
      by (intro ff fn fold' [unfolded case_prod_beta] order_refl) (simp add: f16 f24)
  qed (simp add: build_spoof_candidates_def)
qed

end
