(* ===== verification/Stream_Decoder.thy ===== *)
theory Stream_Decoder
  imports Norr_Prelude "HOL-Library.Sublist"
begin

text \<open>
  Frames in a byte stream. Several components cut frames out of a stream that arrives in arbitrary pieces:
  they buffer what they are fed and hand out a frame when it is complete. The interface states what one
  call does; the lemma of the interface is that the pieces do not matter.
\<close>

text \<open>Cutting a byte string in pieces of a size, the last one as long as what is left.\<close>

function chunks :: "nat \<Rightarrow> bytes \<Rightarrow> bytes list" where
  "chunks n b = (if 0 < n \<and> b \<noteq> [] then take n b # chunks n (drop n b) else [])"
  by auto
termination
  by (relation "measure (\<lambda>(n, b). length b)") auto

declare chunks.simps [simp del]

text \<open>Asking for frames until there is none, and doing so after each piece that arrives. The number bounds
  the calls; it is enough when it exceeds the number of frames.\<close>

primrec drain :: "('s \<Rightarrow> 'f option \<times> 's) \<Rightarrow> nat \<Rightarrow> 's \<Rightarrow> 'f list \<times> 's" where
  "drain nxt 0 s = ([], s)"
| "drain nxt (Suc n) s = (case nxt s of (None, s') \<Rightarrow> ([], s')
     | (Some x, s') \<Rightarrow> (case drain nxt n s' of (xs, s'') \<Rightarrow> (x # xs, s'')))"

primrec deliver :: "('s \<Rightarrow> bytes \<Rightarrow> 's) \<Rightarrow> ('s \<Rightarrow> 'f option \<times> 's) \<Rightarrow> nat \<Rightarrow> 's \<Rightarrow> bytes list \<Rightarrow> 'f list \<times> 's" where
  "deliver feed nxt n s [] = ([], s)"
| "deliver feed nxt n s (piece # pieces) =
     (case drain nxt n (feed s piece) of (xs, s') \<Rightarrow>
        case deliver feed nxt n s' pieces of (ys, s'') \<Rightarrow> (xs @ ys, s''))"

locale stream_decoder =
  fixes feed :: "'s \<Rightarrow> bytes \<Rightarrow> 's" and nxt :: "'s \<Rightarrow> 'f option \<times> 's"
    and enc :: "'f \<Rightarrow> bytes" and valid :: "'f \<Rightarrow> bool" and holds :: "'s \<Rightarrow> bytes \<Rightarrow> bool"
  assumes feed_holds: "holds s b \<Longrightarrow> holds (feed s x) (b @ x)"
    and nxt_frame: "valid f \<Longrightarrow> holds s (enc f @ rest) \<Longrightarrow> \<exists>s'. nxt s = (Some f, s') \<and> holds s' rest"
    and nxt_partial: "valid f \<Longrightarrow> strict_prefix b (enc f) \<Longrightarrow> holds s b \<Longrightarrow> \<exists>s'. nxt s = (None, s') \<and> holds s' b"
    and nxt_empty: "holds s [] \<Longrightarrow> \<exists>s'. nxt s = (None, s') \<and> holds s' []"
begin

definition begins :: "bytes \<Rightarrow> 'f list \<Rightarrow> bool" where
  "begins b fs \<longleftrightarrow> (case fs of [] \<Rightarrow> b = [] | f # _ \<Rightarrow> strict_prefix b (enc f))"

lemma drain_frames:
  assumes "holds s b" "b @ rest = concat (map enc fs)" "\<forall>f \<in> set fs. valid f" "length fs < n"
  shows "\<exists>gs hs s' b'. fs = gs @ hs \<and> drain nxt n s = (gs, s') \<and> holds s' b' \<and>
    b' @ rest = concat (map enc hs) \<and> begins b' hs"
  using assms
proof (induction n arbitrary: s b fs)
  case (Suc n)
  show ?case
  proof (cases fs)
    case Nil
    then have "b = []" "rest = []" using Suc.prems(2) by auto
    with nxt_empty [of s] Suc.prems(1) show ?thesis by (auto simp: Nil begins_def)
  next
    case (Cons f fs')
    have valid: "valid f" using Suc.prems(3) Cons by simp
    show ?thesis
    proof (cases "strict_prefix b (enc f)")
      case True
      then obtain s' where "nxt s = (None, s')" "holds s' b" using nxt_partial [OF valid _ Suc.prems(1)] by blast
      then show ?thesis using True Suc.prems(2) Cons
        by (intro exI [of _ "[]"] exI [of _ fs] exI [of _ s'] exI [of _ b]) (simp add: begins_def)
    next
      case False
      have "prefix (enc f) b"
      proof -
        have "b @ rest = enc f @ concat (map enc fs')" using Suc.prems(2) Cons by simp
        then have "prefix b (enc f @ concat (map enc fs'))" "prefix (enc f) (b @ rest)"
          by (metis prefixI)+
        then show ?thesis using False by (metis prefixI prefix_order.le_less prefix_same_cases)
      qed
      then obtain b1 where b: "b = enc f @ b1" by (auto simp: prefix_def)
      obtain s1 where s1: "nxt s = (Some f, s1)" "holds s1 b1"
        using nxt_frame [OF valid] Suc.prems(1) b by blast
      have "b1 @ rest = concat (map enc fs')" using Suc.prems(2) Cons b by simp
      from Suc.IH [OF s1(2) this] Suc.prems(3,4) Cons obtain gs hs s' b' where
        "fs' = gs @ hs" "drain nxt n s1 = (gs, s')" "holds s' b'" "b' @ rest = concat (map enc hs)" "begins b' hs"
        by auto
      then show ?thesis using Cons s1(1) by (intro exI [of _ "f # gs"] exI [of _ hs] exI [of _ s'] exI [of _ b']) simp
    qed
  qed
qed simp

text \<open>However the encoded frames are cut into pieces, exactly the frames come out, in order.\<close>

lemma deliver_frames:
  assumes "holds s b" "b @ concat pieces = concat (map enc fs)" "begins b fs"
    and "\<forall>f \<in> set fs. valid f" "length fs < n"
  shows "\<exists>s'. deliver feed nxt n s pieces = (fs, s') \<and> holds s' []"
  using assms
proof (induction pieces arbitrary: s b fs)
  case Nil
  then have "fs = []"
    by (cases fs) (auto simp: begins_def strict_prefix_def prefix_def)
  then show ?case using Nil by (simp add: begins_def)
next
  case (Cons piece pieces)
  have h: "holds (feed s piece) (b @ piece)" by (rule feed_holds [OF Cons.prems(1)])
  have "(b @ piece) @ concat pieces = concat (map enc fs)" using Cons.prems(2) by simp
  from drain_frames [OF h this Cons.prems(4,5)] obtain gs hs s' b' where
    d: "fs = gs @ hs" "drain nxt n (feed s piece) = (gs, s')" "holds s' b'"
       "b' @ concat pieces = concat (map enc hs)" "begins b' hs" by blast
  from Cons.IH [OF d(3-5)] Cons.prems(4,5) d(1) obtain s'' where
    "deliver feed nxt n s' pieces = (hs, s'')" "holds s'' []" by auto
  then show ?case using d by simp
qed

end

end
