(* ===== verification/Offload.thy ===== *)
theory Offload
  imports Wire Stream_Decoder
begin

text \<open>
  Segmentation offload (src/offload.cpp): the header the TUN device puts before a packet, the Internet
  checksum, the split of a large packet into segments and the coalescer that joins segments again.

  The host is little-endian, as the copies of 16-bit fields of the header assume. A sink or writer is the list
  of what it is given. \<^verbatim>\<open>scratch\<close> is overwritten by every segment, so a segment is a value here, and
  \<^verbatim>\<open>retain\<close> returns the bytes it is given, whether it copies them or not. The loads and stores of 16 and
  32 bits are those of \<open>Wire\<close>.
\<close>

definition kProtocolTcp :: u8 where "kProtocolTcp = 6"
definition kProtocolUdp :: u8 where "kProtocolUdp = 17"
definition kTcpFin :: u8 where "kTcpFin = 0x01"
definition kTcpPsh :: u8 where "kTcpPsh = 0x08"
definition kTcpAck :: u8 where "kTcpAck = 0x10"
definition kTcpCwr :: u8 where "kTcpCwr = 0x80"
definition kKeepUnlessLast :: u8 where "kKeepUnlessLast = NOT (kTcpFin OR kTcpPsh)"
definition kKeepUnlessFirst :: u8 where "kKeepUnlessFirst = NOT kTcpCwr"
definition kNotAckOrPush :: u8 where "kNotAckOrPush = NOT (kTcpAck OR kTcpPsh)"

definition kVirtioHeaderSize :: nat where "kVirtioHeaderSize = 10"
definition kMaximumOffloadFrame :: nat where "kMaximumOffloadFrame = 65535"
definition kVirtioNeedsChecksum :: u8 where "kVirtioNeedsChecksum = 1"
definition kGsoNone :: u8 where "kGsoNone = 0"
definition kGsoTcpV4 :: u8 where "kGsoTcpV4 = 1"
definition kGsoUdpL4 :: u8 where "kGsoUdpL4 = 5"
definition kGsoTcpV6 :: u8 where "kGsoTcpV6 = 4"

record VirtioHeader =
  vh_flags :: u8
  vh_gso_type :: u8
  vh_header_length :: u16
  vh_gso_size :: u16
  vh_checksum_start :: u16
  vh_checksum_offset :: u16

definition is_ipv4 :: "bytes \<Rightarrow> bool" where
  "is_ipv4 packet \<longleftrightarrow> packet \<noteq> [] \<and> drop_bit 4 (packet ! 0) = 4"

definition ip_header_length :: "bytes \<Rightarrow> nat" where
  "ip_header_length packet = (if is_ipv4 packet then unat (packet ! 0 AND 0x0F) * 4 else 40)"

definition ip_protocol :: "bytes \<Rightarrow> u8" where
  "ip_protocol packet = (if is_ipv4 packet then packet ! 9 else packet ! 6)"

subsection \<open>Checksum\<close>

lemma unat_low_16: "unat (s AND 0xFFFF :: u64) = unat s mod 65536"
proof -
  have "s AND 0xFFFF = take_bit 16 s" by (simp add: take_bit_eq_mask mask_eq_exp_minus_1)
  then show ?thesis by (simp add: take_bit_eq_mod unat_mod_distrib)
qed

lemma unat_high_16: "unat (drop_bit 16 s :: u64) = unat s div 65536"
  by (simp add: drop_bit_eq_div unat_div_distrib)

lemma fold_step_less:
  fixes s :: u64
  assumes "drop_bit 16 s \<noteq> 0"
  shows "unat ((s AND 0xFFFF) + drop_bit 16 s) = unat s mod 65536 + unat s div 65536"
    "unat s mod 65536 + unat s div 65536 < unat s" "65536 \<le> unat s"
proof -
  have "unat (drop_bit 16 s) \<noteq> 0" using assms by (simp add: unat_eq_0)
  then show big: "65536 \<le> unat s" unfolding unat_high_16 by (simp add: div_eq_0_iff)
  then show less: "unat s mod 65536 + unat s div 65536 < unat s"
    using div_mult_mod_eq [of "unat s" 65536] by linarith
  have "unat s < 2 ^ LENGTH(64)" by (rule unsigned_less)
  then have "unat (s AND 0xFFFF) + unat (drop_bit 16 s) < 2 ^ LENGTH(64)"
    using less by (simp only: unat_low_16 unat_high_16)
  then show "unat ((s AND 0xFFFF) + drop_bit 16 s) = unat s mod 65536 + unat s div 65536"
    by (simp add: unat_word_ariths unat_low_16 unat_high_16)
qed

function fold_checksum :: "u64 \<Rightarrow> u16" where
  "fold_checksum s = (if drop_bit 16 s \<noteq> 0 then fold_checksum ((s AND 0xFFFF) + drop_bit 16 s) else ucast s)"
  by auto
termination
  by (relation "measure unat") (auto simp: fold_step_less)

declare fold_checksum.simps [simp del]

function checksum_by_eight :: "bytes \<Rightarrow> nat \<Rightarrow> u64 \<Rightarrow> nat \<times> u64" where
  "checksum_by_eight b index s =
     (if index + 8 \<le> length b then
        checksum_by_eight b (index + 8)
          (s + ucast (read_u16 b index) + ucast (read_u16 b (index + 2)) +
             ucast (read_u16 b (index + 4)) + ucast (read_u16 b (index + 6)))
      else (index, s))"
  by auto
termination
  by (relation "measure (\<lambda>(b, index, s). length b - index)") auto

function checksum_by_two :: "bytes \<Rightarrow> nat \<Rightarrow> u64 \<Rightarrow> nat \<times> u64" where
  "checksum_by_two b index s =
     (if index + 1 < length b then checksum_by_two b (index + 2) (s + ucast (read_u16 b index)) else (index, s))"
  by auto
termination
  by (relation "measure (\<lambda>(b, index, s). length b - index)") auto

declare checksum_by_eight.simps [simp del] checksum_by_two.simps [simp del]

definition checksum_add :: "bytes \<Rightarrow> u64 \<Rightarrow> u64" where
  "checksum_add b initial =
     (let (index, s) = checksum_by_eight b 0 initial;
          (index, s) = checksum_by_two b index s
      in if index < length b then s + push_bit 8 (ucast (b ! index)) else s)"

definition pseudo_header_sum :: "bytes \<Rightarrow> u8 \<Rightarrow> nat \<Rightarrow> u64" where
  "pseudo_header_sum packet protocol transport_length =
     (if is_ipv4 packet then checksum_add (take 8 (drop 12 packet)) (ucast protocol) + of_nat transport_length
      else checksum_add (take 32 (drop 8 packet)) (ucast protocol) +
        drop_bit 16 (of_nat transport_length) + (of_nat transport_length AND 0xFFFF))"

definition transport_checksum_valid :: "bytes \<Rightarrow> bool" where
  "transport_checksum_valid packet =
     (let ip_length = ip_header_length packet
      in if length packet < ip_length then False
         else
           let transport = drop ip_length packet;
               s = pseudo_header_sum packet (ip_protocol packet) (length transport) + checksum_add transport 0
           in fold_checksum s = 0xFFFF)"

definition set_ip_length :: "bytes \<Rightarrow> nat \<Rightarrow> bytes" where
  "set_ip_length packet totl =
     (if is_ipv4 packet then
        let packet = write_u16 packet 2 (of_nat totl);
            packet = write_u16 packet 10 0;
            header = ip_header_length packet
        in write_u16 packet 10 (NOT (fold_checksum (checksum_add (take header packet) 0)))
      else write_u16 packet 4 (of_nat (totl - 40)))"

definition finish_transport_checksum :: "bytes \<Rightarrow> nat \<Rightarrow> u8 \<Rightarrow> bytes" where
  "finish_transport_checksum packet ip_length protocol =
     (let field = (if protocol = kProtocolTcp then 16 else 6);
          packet = write_u16 packet (ip_length + field) 0;
          transport = drop ip_length packet;
          s = pseudo_header_sum packet protocol (length transport) + checksum_add transport 0;
          v = NOT (fold_checksum s);
          v = (if protocol = kProtocolUdp \<and> v = 0 then 0xFFFF else v)
      in write_u16 packet (ip_length + field) v)"

subsection \<open>Header\<close>

definition read_le16 :: "bytes \<Rightarrow> nat \<Rightarrow> u16" where
  "read_le16 b k = ucast (b ! k) OR push_bit 8 (ucast (b ! (k + 1)))"

definition write_le16 :: "bytes \<Rightarrow> nat \<Rightarrow> u16 \<Rightarrow> bytes" where
  "write_le16 b k v = b[k := ucast v, k + 1 := ucast (drop_bit 8 v)]"

definition parse_virtio_header :: "bytes \<Rightarrow> VirtioHeader" where
  "parse_virtio_header b =
     (if length b < kVirtioHeaderSize then
        \<lparr>vh_flags = 0, vh_gso_type = 0, vh_header_length = 0, vh_gso_size = 0, vh_checksum_start = 0,
         vh_checksum_offset = 0\<rparr>
      else \<lparr>vh_flags = b ! 0, vh_gso_type = b ! 1, vh_header_length = read_le16 b 2, vh_gso_size = read_le16 b 4,
            vh_checksum_start = read_le16 b 6, vh_checksum_offset = read_le16 b 8\<rparr>)"

definition write_virtio_header :: "VirtioHeader \<Rightarrow> bytes \<Rightarrow> bytes" where
  "write_virtio_header header out =
     (if length out < kVirtioHeaderSize then out
      else
        let out = out[0 := vh_flags header, 1 := vh_gso_type header];
            out = write_le16 out 2 (vh_header_length header);
            out = write_le16 out 4 (vh_gso_size header);
            out = write_le16 out 6 (vh_checksum_start header)
        in write_le16 out 8 (vh_checksum_offset header))"

subsection \<open>Splitting\<close>

text \<open>One segment is made in three steps: a copy of the headers with a chunk of the payload, an identifier and
  a length of its own; the fields of the transport header; the checksum.\<close>

definition segment_ip :: "bytes \<Rightarrow> nat \<Rightarrow> bytes \<Rightarrow> nat \<Rightarrow> bytes" where
  "segment_ip packet headers chunk index =
     (let out = take headers packet @ chunk;
          out = (if is_ipv4 packet then write_u16 out 4 (read_u16 packet 4 + of_nat index) else out)
      in set_ip_length out (length out))"

definition segment_flags :: "u8 \<Rightarrow> bool \<Rightarrow> nat \<Rightarrow> u8" where
  "segment_flags flags is_last index =
     (let flags = (if \<not> is_last then flags AND kKeepUnlessLast else flags)
      in if index > 0 then flags AND kKeepUnlessFirst else flags)"

definition segment_transport :: "bytes \<Rightarrow> nat \<Rightarrow> bool \<Rightarrow> bool \<Rightarrow> nat \<Rightarrow> nat \<Rightarrow> nat \<Rightarrow> bytes \<Rightarrow> bytes" where
  "segment_transport packet ip_length tcp is_last offset index chunk out =
     (if tcp then
        (write_u32 out (ip_length + 4) (read_u32 packet (ip_length + 4) + of_nat offset))
          [ip_length + 13 := segment_flags (packet ! (ip_length + 13)) is_last index]
      else write_u16 out (ip_length + 4) (of_nat (8 + chunk)))"

definition make_segment :: "bytes \<Rightarrow> nat \<Rightarrow> nat \<Rightarrow> u8 \<Rightarrow> bool \<Rightarrow> nat \<Rightarrow> nat \<Rightarrow> nat \<Rightarrow> bytes" where
  "make_segment packet ip_length headers protocol tcp segment offset index =
     (let payload = drop headers packet;
          chunk = min segment (length payload - offset);
          is_last = (offset + chunk \<ge> length payload);
          out = segment_ip packet headers (take chunk (drop offset payload)) index;
          out = segment_transport packet ip_length tcp is_last offset index chunk out
      in finish_transport_checksum out ip_length protocol)"

function segment_loop :: "bytes \<Rightarrow> nat \<Rightarrow> nat \<Rightarrow> u8 \<Rightarrow> bool \<Rightarrow> nat \<Rightarrow> nat \<Rightarrow> nat \<Rightarrow> bytes list" where
  "segment_loop packet ip_length headers protocol tcp segment offset index =
     (if 0 < segment \<and> offset < length (drop headers packet) then
        make_segment packet ip_length headers protocol tcp segment offset index #
          segment_loop packet ip_length headers protocol tcp segment (offset + segment) (index + 1)
      else [])"
  by auto
termination
  by (relation "measure (\<lambda>(packet, ip_length, headers, protocol, tcp, segment, offset, index).
    length (drop headers packet) - offset)") auto

declare segment_loop.simps [simp del]

text \<open>The result, the packet the call leaves behind and what the sink got.\<close>

definition expand_offloaded :: "VirtioHeader \<Rightarrow> bytes \<Rightarrow> bool \<times> bytes \<times> bytes list" where
  "expand_offloaded header packet =
     (let ip_length = ip_header_length packet; protocol = ip_protocol packet
      in if length packet < 20 then (False, packet, [])
         else if ip_length < 20 \<or> length packet < ip_length then (False, packet, [])
         else if vh_gso_type header = kGsoNone then
           if vh_flags header AND kVirtioNeedsChecksum \<noteq> 0 then
             let frst = unat (vh_checksum_start header);
                 field = frst + unat (vh_checksum_offset header)
             in if field + 2 > length packet \<or> frst \<ge> length packet then (False, packet, [])
                else
                  let v = NOT (fold_checksum (checksum_add (drop frst packet) 0));
                      v = (if protocol = kProtocolUdp \<and> v = 0 then 0xFFFF else v);
                      packet = write_u16 packet field v
                  in (True, packet, [packet])
           else (True, packet, [packet])
         else
           let tcp = (vh_gso_type header = kGsoTcpV4 \<or> vh_gso_type header = kGsoTcpV6);
               udp = (vh_gso_type header = kGsoUdpL4)
           in if (\<not> tcp \<and> \<not> udp) \<or> vh_gso_size header = 0 then (False, packet, [])
              else if tcp \<and> protocol \<noteq> kProtocolTcp then (False, packet, [])
              else if udp \<and> protocol \<noteq> kProtocolUdp then (False, packet, [])
              else if length packet < ip_length + (if tcp then 20 else 8) then (False, packet, [])
              else
                let transport_length = (if tcp then unat (drop_bit 4 (packet ! (ip_length + 12))) * 4 else 8);
                    headers = ip_length + transport_length
                in if transport_length < 8 \<or> headers > length packet then (False, packet, [])
                   else (True, packet,
                         segment_loop packet ip_length headers protocol tcp (unat (vh_gso_size header)) 0 0))"

subsection \<open>Joining\<close>

record OffloadItem =
  oi_head :: bytes
  oi_payloads :: "bytes list"
  oi_tcp :: bool
  oi_ipv4 :: bool
  oi_ip_length :: nat
  oi_tcp_length :: nat
  oi_segment :: nat
  oi_total :: nat
  oi_next_sequence :: u32
  oi_open :: bool

text \<open>The first \<^verbatim>\<open>used_\<close> items, oldest first.\<close>

record TcpCoalescer =
  tc_items :: "OffloadItem list"
  tc_coalesced :: u64

definition fresh_item :: OffloadItem where
  "fresh_item = \<lparr>oi_head = [], oi_payloads = [], oi_tcp = False, oi_ipv4 = False, oi_ip_length = 0,
     oi_tcp_length = 0, oi_segment = 0, oi_total = 0, oi_next_sequence = 0, oi_open = False\<rparr>"

definition bytes_at :: "nat \<Rightarrow> nat \<Rightarrow> bytes \<Rightarrow> bytes" where
  "bytes_at i j b = take (j - i) (drop i b)"

definition try_append :: "OffloadItem \<Rightarrow> bytes \<Rightarrow> bool \<Rightarrow> nat \<Rightarrow> nat \<Rightarrow> bool" where
  "try_append item packet ipv4 ip_length tcp_length =
     (if \<not> oi_tcp item \<or> \<not> oi_open item \<or> oi_ipv4 item \<noteq> ipv4 \<or> oi_ip_length item \<noteq> ip_length \<or>
         oi_tcp_length item \<noteq> tcp_length then False
      else
        let base = oi_head item;
            payload = length packet - ip_length - tcp_length
        in if payload = 0 \<or> payload > oi_segment item then False
           else if oi_total item + payload > kMaximumOffloadFrame \<or> length (oi_payloads item) \<ge> 64 then False
           else if ipv4 \<and> bytes_at 12 20 packet \<noteq> bytes_at 12 20 base then False
           else if ipv4 \<and> (packet ! 1 \<noteq> base ! 1 \<or> packet ! 8 \<noteq> base ! 8) then False
           else if ipv4 \<and> read_u16 packet 6 AND 0xBFFF \<noteq> 0 then False
           else if ipv4 \<and> read_u16 packet 6 \<noteq> read_u16 base 6 then False
           else if \<not> ipv4 \<and> bytes_at 8 40 packet \<noteq> bytes_at 8 40 base then False
           else if \<not> ipv4 \<and> (packet ! 0 \<noteq> base ! 0 \<or> packet ! 1 \<noteq> base ! 1 \<or> packet ! 7 \<noteq> base ! 7) then False
           else
             let tcp = drop ip_length packet; first = drop ip_length base
             in if read_u32 tcp 0 \<noteq> read_u32 first 0 then False
                else if read_u32 tcp 4 \<noteq> oi_next_sequence item then False
                else if read_u32 tcp 8 \<noteq> read_u32 first 8 then False
                else if read_u16 tcp 14 \<noteq> read_u16 first 14 then False
                else if tcp ! 13 AND kNotAckOrPush \<noteq> 0 then False
                else bytes_at 20 tcp_length tcp = bytes_at 20 tcp_length first)"

definition coalesce_candidate :: "bytes \<Rightarrow> bool" where
  "coalesce_candidate packet =
     (if length packet < 40 then False
      else
        let version = drop_bit 4 (packet ! 0)
        in if version = 4 then
             if packet ! 0 AND 0x0F \<noteq> 5 then False
             else if packet ! 9 \<noteq> kProtocolTcp then False
             else read_u16 packet 6 AND 0x3FFF = 0
           else version = 6 \<and> length packet \<ge> 60 \<and> packet ! 6 = kProtocolTcp)"

definition same_flow :: "OffloadItem \<Rightarrow> bytes \<Rightarrow> bool \<Rightarrow> nat \<Rightarrow> bool" where
  "same_flow item packet ipv4 ip_length \<longleftrightarrow>
     oi_tcp item \<and> oi_ipv4 item = ipv4 \<and>
     (if ipv4 then bytes_at 12 20 packet = bytes_at 12 20 (oi_head item)
      else bytes_at 8 40 packet = bytes_at 8 40 (oi_head item)) \<and>
     read_u32 packet ip_length = read_u32 (oi_head item) (oi_ip_length item)"

text \<open>The newest item of the flow, if any.\<close>

definition newest_of_flow :: "OffloadItem list \<Rightarrow> bytes \<Rightarrow> bool \<Rightarrow> nat \<Rightarrow> nat option" where
  "newest_of_flow items packet ipv4 ip_length =
     find (\<lambda>index. same_flow (items ! index) packet ipv4 ip_length) (rev [0..<length items])"

definition append_packet :: "OffloadItem \<Rightarrow> bytes \<Rightarrow> nat \<Rightarrow> u8 \<Rightarrow> OffloadItem" where
  "append_packet item packet headers flags =
     (let payload = length packet - headers;
          item = item\<lparr>oi_payloads := oi_payloads item @ [drop headers packet],
                      oi_total := oi_total item + payload,
                      oi_next_sequence := oi_next_sequence item + of_nat payload\<rparr>;
          item = (if payload < oi_segment item \<or> flags AND kTcpPsh \<noteq> 0 then item\<lparr>oi_open := False\<rparr> else item)
      in if flags AND kTcpPsh \<noteq> 0 then
           item\<lparr>oi_head := (oi_head item)[oi_ip_length item + 13 :=
                  oi_head item ! (oi_ip_length item + 13) OR kTcpPsh]\<rparr>
         else item)"

definition flow_item :: "bytes \<Rightarrow> bool \<Rightarrow> nat \<Rightarrow> nat \<Rightarrow> OffloadItem" where
  "flow_item packet ipv4 ip_length tcp_length =
     (let headers = ip_length + tcp_length; payload = length packet - headers
      in fresh_item\<lparr>oi_head := take headers packet, oi_payloads := [drop headers packet], oi_tcp := True,
           oi_ipv4 := ipv4, oi_ip_length := ip_length, oi_tcp_length := tcp_length, oi_segment := payload,
           oi_total := length packet, oi_next_sequence := read_u32 packet (ip_length + 4) + of_nat payload,
           oi_open := (packet ! (ip_length + 13) = kTcpAck)\<rparr>)"

definition plain_item :: "bytes \<Rightarrow> OffloadItem" where
  "plain_item packet = fresh_item\<lparr>oi_payloads := [packet], oi_total := length packet\<rparr>"

definition coalescer_add :: "TcpCoalescer \<Rightarrow> bytes \<Rightarrow> TcpCoalescer" where
  "coalescer_add c packet =
     (let items = tc_items c;
          ipv4 = is_ipv4 packet;
          ip_length = ip_header_length packet;
          tcp_length = unat (drop_bit 4 (packet ! (ip_length + 12))) * 4;
          headers = ip_length + tcp_length
      in if coalesce_candidate packet \<and> tcp_length \<ge> 20 \<and> headers < length packet then
           case newest_of_flow items packet ipv4 ip_length of
             Some index \<Rightarrow>
               if try_append (items ! index) packet ipv4 ip_length tcp_length then
                 c\<lparr>tc_items := items[index := append_packet (items ! index) packet headers (packet ! (ip_length + 13))]\<rparr>
               else c\<lparr>tc_items := items @ [flow_item packet ipv4 ip_length tcp_length]\<rparr>
           | None \<Rightarrow> c\<lparr>tc_items := items @ [flow_item packet ipv4 ip_length tcp_length]\<rparr>
         else c\<lparr>tc_items := items @ [plain_item packet]\<rparr>)"

text \<open>What the writer gets for an item: the header of the device, the head and the payloads.\<close>

definition flush_item :: "OffloadItem \<Rightarrow> bytes \<times> bytes \<times> bytes list" where
  "flush_item item =
     (if \<not> oi_tcp item \<or> length (oi_payloads item) < 2 then
        (replicate kVirtioHeaderSize 0, oi_head item, oi_payloads item)
      else
        let head = set_ip_length (oi_head item) (oi_total item);
            transport_length = oi_total item - oi_ip_length item;
            head = write_u16 head (oi_ip_length item + 16)
              (fold_checksum (pseudo_header_sum head kProtocolTcp transport_length));
            virtio = \<lparr>vh_flags = kVirtioNeedsChecksum,
              vh_gso_type = (if oi_ipv4 item then kGsoTcpV4 else kGsoTcpV6),
              vh_header_length = of_nat (oi_ip_length item + oi_tcp_length item),
              vh_gso_size = of_nat (oi_segment item), vh_checksum_start = of_nat (oi_ip_length item),
              vh_checksum_offset = 16\<rparr>
        in (write_virtio_header virtio (replicate kVirtioHeaderSize 0), head, oi_payloads item))"

definition coalescer_flush :: "TcpCoalescer \<Rightarrow> nat \<times> (bytes \<times> bytes \<times> bytes list) list \<times> TcpCoalescer" where
  "coalescer_flush c =
     (let joined = filter (\<lambda>item. oi_tcp item \<and> length (oi_payloads item) \<ge> 2) (tc_items c)
      in (length (tc_items c), map flush_item (tc_items c),
          \<lparr>tc_items = [], tc_coalesced = tc_coalesced c +
             of_nat (sum_list (map (\<lambda>item. length (oi_payloads item) - 1) joined))\<rparr>))"

section \<open>The Internet checksum\<close>

text \<open>The sum of the 16-bit words of a byte string, an odd last byte padded with zero.\<close>

fun words_sum :: "bytes \<Rightarrow> nat" where
  "words_sum [] = 0"
| "words_sum [x] = unat x * 256"
| "words_sum (x # y # rest) = unat x * 256 + unat y + words_sum rest"

lemma unat_read_u16: "unat (read_u16 b k) = unat (b ! k) * 256 + unat (b ! (k + 1))"
proof -
  have "unat (b ! k) < 2 ^ LENGTH(8)" "unat (b ! (k + 1)) < 2 ^ LENGTH(8)" by (rule unsigned_less)+
  then have lt: "unat (b ! k) < 256" "unat (b ! (k + 1)) < 256" by simp_all
  have "read_u16 b k = push_bit 8 (ucast (b ! k)) + ucast (b ! (k + 1))"
    unfolding read_u16_def by (intro disjunctive_add [symmetric]) (auto simp: bit_simps dest: bit_imp_le_length)
  also have "unat \<dots> = unat (b ! k) * 256 + unat (b ! (k + 1))"
    using lt by (simp add: push_bit_eq_mult unat_word_ariths unat_ucast_up)
  finally show ?thesis .
qed

lemma words_sum_drop:
  "k + 1 < length b \<Longrightarrow> j = k + 2 \<Longrightarrow> words_sum (drop k b) = unat (read_u16 b k) + words_sum (drop j b)"
  by (simp add: unat_read_u16 Cons_nth_drop_Suc [symmetric])

lemma of_nat_read_u16: "ucast (read_u16 b k) = (of_nat (unat (read_u16 b k)) :: u64)"
  by simp

lemma checksum_by_two_sum:
  "checksum_by_two b k s = (k', s') \<Longrightarrow>
   (if k' < length b then s' + push_bit 8 (ucast (b ! k')) else s') = s + of_nat (words_sum (drop k b))"
proof (induction b k s arbitrary: k' s' rule: checksum_by_two.induct)
  case (1 b k s)
  show ?case
  proof (cases "k + 1 < length b")
    case True
    then have "checksum_by_two b (k + 2) (s + ucast (read_u16 b k)) = (k', s')"
      using 1(2) by (subst (asm) checksum_by_two.simps) simp
    from 1(1) [OF True this] show ?thesis
      by (simp only: words_sum_drop [OF True refl] of_nat_read_u16 add.assoc of_nat_add)
  next
    case False
    then have k: "k' = k" "s' = s" using 1(2) by (subst (asm) checksum_by_two.simps; simp)+
    show ?thesis
    proof (cases "k < length b")
      case True
      then have "drop k b = [b ! k]" using False by (simp add: Cons_nth_drop_Suc [symmetric])
      then show ?thesis using True by (simp add: k push_bit_eq_mult)
    qed (simp add: k)
  qed
qed

lemma checksum_by_eight_sum:
  "checksum_by_eight b k s = (k', s') \<Longrightarrow>
   s' + of_nat (words_sum (drop k' b)) = s + of_nat (words_sum (drop k b))"
proof (induction b k s arbitrary: k' s' rule: checksum_by_eight.induct)
  case (1 b k s)
  show ?case
  proof (cases "k + 8 \<le> length b")
    case True
    then have r: "checksum_by_eight b (k + 8) (s + ucast (read_u16 b k) + ucast (read_u16 b (k + 2)) +
        ucast (read_u16 b (k + 4)) + ucast (read_u16 b (k + 6))) = (k', s')"
      using 1(2) by (subst (asm) checksum_by_eight.simps) simp
    have "words_sum (drop k b) = unat (read_u16 b k) + unat (read_u16 b (k + 2)) + unat (read_u16 b (k + 4)) +
        unat (read_u16 b (k + 6)) + words_sum (drop (k + 8) b)"
      using True words_sum_drop [of k b "k + 2"] words_sum_drop [of "k + 2" b "k + 4"]
        words_sum_drop [of "k + 4" b "k + 6"] words_sum_drop [of "k + 6" b "k + 8"] by linarith
    with 1(1) [OF True r] show ?thesis by (simp only: of_nat_read_u16 add.assoc of_nat_add)
  next
    case False
    then show ?thesis using 1(2) by (subst (asm) checksum_by_eight.simps) simp
  qed
qed

text \<open>The loop unrolled by four words adds up the words of the reference.\<close>

lemma checksum_add_sum: "checksum_add b initial = initial + of_nat (words_sum b)"
proof -
  obtain k s where e: "checksum_by_eight b 0 initial = (k, s)" by (cases "checksum_by_eight b 0 initial")
  obtain k' s' where t: "checksum_by_two b k s = (k', s')" by (cases "checksum_by_two b k s")
  show ?thesis using checksum_by_eight_sum [OF e] checksum_by_two_sum [OF t]
    by (simp add: checksum_add_def e t)
qed

lemma words_sum_bound: "words_sum b \<le> 65535 * length b"
proof (induction b rule: words_sum.induct)
  case (2 x)
  have "unat x < 2 ^ LENGTH(8)" by (rule unsigned_less)
  then show ?case by simp
next
  case (3 x y rest)
  have "unat x < 2 ^ LENGTH(8)" "unat y < 2 ^ LENGTH(8)" by (rule unsigned_less)+
  then show ?case using 3 by simp
qed simp

text \<open>Folding is reduction modulo \<open>65535\<close> with the representative \<open>65535\<close> for a sum that is not zero.\<close>

definition ones_complement :: "nat \<Rightarrow> nat" where
  "ones_complement n = (if n = 0 then 0 else (n - 1) mod 65535 + 1)"

lemma ones_complement_step:
  assumes "65536 \<le> n"
  shows "ones_complement (n mod 65536 + n div 65536) = ones_complement n"
proof -
  define q r where "q = n div 65536" and "r = n mod 65536"
  have n: "n = 65535 * q + (r + q)" unfolding q_def r_def using div_mult_mod_eq [of n 65536] by linarith
  have "0 < r + q" using assms div_le_mono [OF assms, of 65536] by (simp add: q_def)
  then have "n - 1 = (r + q - 1) + q * 65535" using n by simp
  then have "(n - 1) mod 65535 = (r + q - 1) mod 65535" by (simp only: mod_mult_self1)
  then show ?thesis using \<open>0 < r + q\<close> assms
    unfolding ones_complement_def q_def [symmetric] r_def [symmetric] by simp
qed

lemma fold_checksum_value: "unat (fold_checksum s) = ones_complement (unat s)"
proof (induction s rule: fold_checksum.induct)
  case (1 s)
  show ?case
  proof (cases "drop_bit 16 s = 0")
    case True
    then have "unat s div 65536 = 0" by (simp flip: unat_high_16)
    then have "unat s < 65536" by (simp add: div_eq_0_iff)
    moreover have "unat (ucast s :: u16) = unat s mod 65536" by (simp add: unsigned_ucast_eq take_bit_eq_mod)
    ultimately show ?thesis using True
      by (subst fold_checksum.simps) (auto simp: ones_complement_def)
  next
    case False
    then show ?thesis using 1 [OF False] fold_step_less [OF False] ones_complement_step [of "unat s"]
      by (subst fold_checksum.simps) simp
  qed
qed

lemma ones_complement_completes:
  assumes "v = 65535 - ones_complement n \<or> ones_complement n = 65535 \<and> v = 65535"
  shows "ones_complement (n + v) = 65535"
proof -
  obtain q where q: "0 < q" "n + v = 65535 * q"
  proof (cases "n = 0")
    case True
    then show ?thesis using assms that [of 1] by (simp add: ones_complement_def)
  next
    case False
    define m where "m = ones_complement n"
    have m: "m = (n - 1) mod 65535 + 1" using False by (simp add: m_def ones_complement_def)
    define d where "d = (n - 1) div 65535"
    have n: "n = 65535 * d + m"
      unfolding m d_def using False div_mult_mod_eq [of "n - 1" 65535] by linarith
    have "m \<le> 65535" unfolding m using mod_less_divisor [of 65535 "n - 1"] by linarith
    then have "n + v = 65535 * (d + 1) \<or> n + v = 65535 * (d + 2)"
      using assms n unfolding m_def [symmetric] by (elim disjE conjE) simp_all
    then show ?thesis by (elim disjE) (erule that [rotated], simp)+
  qed
  then obtain q' where "q = Suc q'" by (cases q) auto
  then have "n + v - 1 = 65534 + q' * 65535" using q(2) by simp
  then have "(n + v - 1) mod 65535 = 65534" by (simp only: mod_mult_self1) simp
  then show ?thesis using q by (simp add: ones_complement_def)
qed

lemma unat_not_u16: "unat (NOT x :: u16) = 65535 - unat x"
proof -
  have "NOT x = - 1 - x" by (simp add: not_eq_complement)
  then show ?thesis using unat_sub [of x "- 1"] by (simp add: unsigned_minus_1_eq_mask mask_eq_exp_minus_1)
qed

lemma words_sum_append: "even (length xs) \<Longrightarrow> words_sum (xs @ ys) = words_sum xs + words_sum ys"
  by (induction xs rule: words_sum.induct) auto

text \<open>Replacing an aligned word replaces its share of the sum.\<close>

lemma words_sum_write:
  assumes "even k" "k + 1 < length b"
  shows "words_sum (write_u16 b k v) + unat (read_u16 b k) = words_sum b + unat v"
proof -
  obtain xs x y zs where b: "b = xs @ x # y # zs" and xs: "length xs = k"
  proof
    have "drop k b = b ! k # b ! (k + 1) # drop (k + 2) b" using assms(2) by (simp add: Cons_nth_drop_Suc)
    then show "b = take k b @ b ! k # b ! (k + 1) # drop (k + 2) b" by (metis append_take_drop_id)
  qed (use assms in simp)
  have "k + 2 \<le> length b" using assms(2) by simp
  have w: "write_u16 b k v = xs @ ucast (drop_bit 8 v) # ucast v # zs"
    using xs by (simp add: write_u16_def b list_update_append)
  have "unat (read_u16 (write_u16 b k v) k) = unat v"
    using \<open>k + 2 \<le> length b\<close> by (simp add: read_u16_be write_u16_be copy_to_def)
  then have v: "unat (ucast (drop_bit 8 v) :: byte) * 256 + unat (ucast v :: byte) = unat v"
    using xs by (simp only: w unat_read_u16) (simp add: nth_append)
  have r: "unat (read_u16 b k) = unat x * 256 + unat y"
    using xs by (simp only: b unat_read_u16) (simp add: nth_append)
  show ?thesis using assms(1) xs v r by (simp add: w) (simp add: b words_sum_append)
qed

text \<open>The pseudo header as a sum of natural numbers.\<close>

definition pseudo_nat :: "bytes \<Rightarrow> u8 \<Rightarrow> nat \<Rightarrow> nat" where
  "pseudo_nat packet protocol n = unat protocol +
     (if is_ipv4 packet then words_sum (take 8 (drop 12 packet)) + n
      else words_sum (take 32 (drop 8 packet)) + (n div 65536 + n mod 65536))"

lemma of_nat_unat_u8: "ucast (x :: u8) = (of_nat (unat x) :: u64)"
  by simp

lemma pseudo_header_sum_nat:
  assumes "n < 2 ^ 64"
  shows "pseudo_header_sum packet protocol n = of_nat (pseudo_nat packet protocol n)"
proof -
  have n: "unat (of_nat n :: u64) = n" using assms by (simp add: unat_of_nat)
  have "drop_bit 16 (of_nat n :: u64) = of_nat (n div 65536)"
    using unat_high_16 [of "of_nat n"] n by (metis of_nat_unat_eq)
  moreover have "(of_nat n :: u64) AND 0xFFFF = of_nat (n mod 65536)"
    using unat_low_16 [of "of_nat n"] n by (metis of_nat_unat_eq)
  ultimately show ?thesis
    by (cases "is_ipv4 packet") (simp_all only: pseudo_header_sum_def pseudo_nat_def checksum_add_sum
      of_nat_unat_u8 of_nat_add add.assoc if_True if_False)
qed

lemma pseudo_nat_bound: "pseudo_nat packet protocol n \<le> 255 + 65535 * 32 + n"
proof -
  have "unat protocol < 2 ^ LENGTH(8)" by (rule unsigned_less)
  moreover have "words_sum (take k (drop m packet)) \<le> 65535 * k" for k m
    using words_sum_bound [of "take k (drop m packet)"] by (rule order_trans) simp
  note this [of 8 12] this [of 32 8]
  moreover have "n div 65536 + n mod 65536 \<le> n" using div_mult_mod_eq [of n 65536] by linarith
  ultimately show ?thesis unfolding pseudo_nat_def by auto
qed

text \<open>The whole sum of a packet whose transport header starts at \<^term>\<open>k\<close>.\<close>

definition transport_nat :: "bytes \<Rightarrow> u8 \<Rightarrow> nat \<Rightarrow> nat" where
  "transport_nat packet protocol k =
     pseudo_nat packet protocol (length packet - k) + words_sum (drop k packet)"

lemma transport_sum:
  assumes "length packet < 2 ^ 32"
  shows "unat (fold_checksum (pseudo_header_sum packet protocol (length (drop k packet)) + checksum_add (drop k packet) 0))
    = ones_complement (transport_nat packet protocol k)"
proof -
  let ?t = "transport_nat packet protocol k"
  have "?t \<le> 255 + 65535 * 32 + length packet + 65535 * length packet"
    using pseudo_nat_bound [of packet protocol "length packet - k"] words_sum_bound [of "drop k packet"]
    unfolding transport_nat_def by simp
  then have "?t < 2 ^ 64" using assms by simp
  then have "unat (of_nat ?t :: u64) = ?t" by (simp add: unat_of_nat)
  moreover have "pseudo_header_sum packet protocol (length (drop k packet)) + checksum_add (drop k packet) 0 = of_nat ?t"
    using assms by (simp add: transport_nat_def checksum_add_sum pseudo_header_sum_nat)
  ultimately show ?thesis by (simp only: fold_checksum_value)
qed

text \<open>What is read of an IP header survives a change behind it.\<close>

lemma header_cong:
  assumes "take n a = take n b" "n \<le> length a" "n \<le> length b" "20 \<le> n" "ip_header_length a = n"
  shows "is_ipv4 b = is_ipv4 a" "ip_header_length b = n" "ip_protocol b = ip_protocol a"
    "pseudo_nat b protocol m = pseudo_nat a protocol m"
proof -
  have nth: "b ! i = a ! i" if "i < n" for i using assms(1-3) that by (metis nth_take)
  have ne: "a \<noteq> []" "b \<noteq> []" using assms(2-4) by auto
  show v: "is_ipv4 b = is_ipv4 a" using nth [of 0] assms(4) ne by (simp add: is_ipv4_def)
  then show "ip_header_length b = n" using nth [of 0] assms(4,5) by (auto simp: ip_header_length_def)
  show "ip_protocol b = ip_protocol a" using v nth [of 9] nth [of 6] assms(4) by (simp add: ip_protocol_def)
  have "take k (drop m b) = take k (drop m a)" if "m + k \<le> n" for k m
  proof -
    have "take k (drop m b) = drop m (take (m + k) (take n b))" using that by (simp add: take_drop add.commute min_def)
    also have "\<dots> = take k (drop m a)" unfolding assms(1) [symmetric]
      using that by (simp add: take_drop add.commute min_def)
    finally show ?thesis .
  qed
  from this [of 12 8] this [of 8 32] show "pseudo_nat b protocol m = pseudo_nat a protocol m"
    using v assms(4,5) by (auto simp: pseudo_nat_def ip_header_length_def split: if_split_asm)
qed

section \<open>Segments\<close>

lemma length_write_u16 [simp]: "length (write_u16 b k v) = length b"
  by (simp add: write_u16_def)

lemma length_write_u32 [simp]: "length (write_u32 b k v) = length b"
  by (simp add: write_u32_def)

lemma take_write_u16 [simp]: "n \<le> k \<Longrightarrow> take n (write_u16 b k v) = take n b"
  by (simp add: write_u16_def)

lemma take_write_u32 [simp]: "n \<le> k \<Longrightarrow> take n (write_u32 b k v) = take n b"
  by (simp add: write_u32_def)

lemma drop_write_u16 [simp]: "k + 2 \<le> n \<Longrightarrow> drop n (write_u16 b k v) = drop n b"
  by (simp add: write_u16_def)

lemma drop_write_u32 [simp]: "k + 4 \<le> n \<Longrightarrow> drop n (write_u32 b k v) = drop n b"
  by (simp add: write_u32_def)

lemma nth_write_u16 [simp]: "i < k \<or> k + 2 \<le> i \<Longrightarrow> write_u16 b k v ! i = b ! i"
  by (auto simp: write_u16_def nth_list_update)

lemma nth_write_u32 [simp]: "i < k \<or> k + 4 \<le> i \<Longrightarrow> write_u32 b k v ! i = b ! i"
  by (auto simp: write_u32_def nth_list_update)

lemma drop_write_u16_shift: "drop m (write_u16 b (m + k) v) = write_u16 (drop m b) k v"
  by (simp add: write_u16_def drop_update_swap add.assoc)

lemma read_write_u16_same: "k + 2 \<le> length b \<Longrightarrow> read_u16 (write_u16 b k v) k = v"
  by (simp add: read_u16_be write_u16_be copy_to_def)

lemma read_write_u32_same: "k + 4 \<le> length b \<Longrightarrow> read_u32 (write_u32 b k v) k = v"
  by (simp add: read_u32_be write_u32_be copy_to_def)

lemma read_u32_cong: "(\<And>i. i < 4 \<Longrightarrow> a ! (k + i) = b ! (k + i)) \<Longrightarrow> read_u32 a k = read_u32 b k"
  unfolding read_u32_def by (metis add_0_right one_less_numeral_iff semiring_norm(76) zero_less_numeral
    numeral_less_iff semiring_norm(78) semiring_norm(80) semiring_norm(81))

text \<open>The checksum of a transport header is valid once it is finished.\<close>

lemma finish_checksum_valid:
  assumes "20 \<le> k" "ip_header_length packet = k" "ip_protocol packet = protocol"
    and "protocol = kProtocolTcp \<or> protocol = kProtocolUdp"
    and "k + (if protocol = kProtocolTcp then 18 else 8) \<le> length packet" "length packet < 2 ^ 32"
  shows "transport_checksum_valid (finish_transport_checksum packet k protocol)"
    "length (finish_transport_checksum packet k protocol) = length packet"
    "take (k + (if protocol = kProtocolTcp then 16 else 6)) (finish_transport_checksum packet k protocol) =
       take (k + (if protocol = kProtocolTcp then 16 else 6)) packet"
    "drop (k + (if protocol = kProtocolTcp then 18 else 8)) (finish_transport_checksum packet k protocol) =
       drop (k + (if protocol = kProtocolTcp then 18 else 8)) packet"
proof -
  define field :: nat where "field = (if protocol = kProtocolTcp then 16 else 6)"
  define z where "z = write_u16 packet (k + field) 0"
  define v0 where "v0 = NOT (fold_checksum (pseudo_header_sum z protocol (length (drop k z)) + checksum_add (drop k z) 0))"
  define v where "v = (if protocol = kProtocolUdp \<and> v0 = 0 then 0xFFFF else v0)"
  have fin: "finish_transport_checksum packet k protocol = write_u16 z (k + field) v"
    by (simp only: finish_transport_checksum_def Let_def field_def [symmetric] z_def [symmetric]
        v0_def [symmetric] v_def [symmetric])
  have field: "even field" "k + field + 2 \<le> length packet" using assms(5) by (auto simp: field_def)
  have n: "unat (fold_checksum (pseudo_header_sum z protocol (length (drop k z)) + checksum_add (drop k z) 0)) =
      ones_complement (transport_nat z protocol k)" (is "unat ?f = ?n")
    using assms(6) by (intro transport_sum) (simp add: z_def)
  have v0: "unat v0 = 65535 - ?n" unfolding v0_def unat_not_u16 n ..
  have lt: "?n \<le> 65535" using unsigned_less [of ?f, where 'a = nat] n by simp
  have "unat v = 65535 - ?n \<or> ?n = 65535 \<and> unat v = 65535"
    using v0 lt by (auto simp: v_def)
  note complete = ones_complement_completes [OF this]
  let ?s = "write_u16 z (k + field) v"
  have k: "k \<le> length packet" using field(2) by simp
  have lz: "length z = length packet" by (simp add: z_def)
  have tz: "take k packet = take k z" and ts: "take k packet = take k ?s" by (simp_all add: z_def)
  note z = header_cong [OF tz k _ assms(1,2)] and s = header_cong [OF ts k _ assms(1,2)]
  have hdr: "ip_header_length ?s = k" "ip_protocol ?s = protocol" "\<And>m. pseudo_nat ?s protocol m = pseudo_nat z protocol m"
    using k z s assms(3) by (simp_all add: z_def)
  have f: "field + 2 \<le> length (drop k packet)" using field(2) by simp
  have dz: "drop k z = write_u16 (drop k packet) field 0" by (simp add: z_def drop_write_u16_shift)
  have ds: "drop k ?s = write_u16 (drop k z) field v" by (simp add: drop_write_u16_shift)
  have "read_u16 (drop k z) field = 0" unfolding dz by (rule read_write_u16_same [OF f])
  then have "words_sum (drop k ?s) = words_sum (drop k z) + unat v"
    using words_sum_write [OF field(1), of "drop k z" v] f by (simp add: ds dz)
  then have "transport_nat ?s protocol k = transport_nat z protocol k + unat v"
    by (simp add: transport_nat_def hdr)
  then have "unat (fold_checksum (pseudo_header_sum ?s protocol (length (drop k ?s)) + checksum_add (drop k ?s) 0)) = 65535"
    using complete transport_sum [of ?s protocol k] assms(6) by (simp add: z_def)
  then have "fold_checksum (pseudo_header_sum ?s protocol (length (drop k ?s)) + checksum_add (drop k ?s) 0) = 0xFFFF"
    by (simp add: word_unat_eq_iff)
  then show "transport_checksum_valid (finish_transport_checksum packet k protocol)"
    using k by (simp add: fin transport_checksum_valid_def hdr Let_def lz)
  show "length (finish_transport_checksum packet k protocol) = length packet" by (simp add: fin z_def)
  show "take (k + (if protocol = kProtocolTcp then 16 else 6)) (finish_transport_checksum packet k protocol) =
       take (k + (if protocol = kProtocolTcp then 16 else 6)) packet"
    by (simp add: fin z_def field_def)
  show "drop (k + (if protocol = kProtocolTcp then 18 else 8)) (finish_transport_checksum packet k protocol) =
       drop (k + (if protocol = kProtocolTcp then 18 else 8)) packet"
    by (simp add: fin z_def field_def)
qed

lemma take_write_u16_inside: "k + 2 \<le> n \<Longrightarrow> take n (write_u16 b k v) = write_u16 (take n b) k v"
  by (simp add: write_u16_def take_update_swap)

text \<open>Fields of the IP header that a segment changes: length, identifier and checksum.\<close>

lemma set_ip_length_ok:
  assumes "20 \<le> ip_header_length p" "ip_header_length p \<le> length p" "length p < 2 ^ 32"
  defines "k \<equiv> ip_header_length p"
  shows "length (set_ip_length p n) = length p" "drop k (set_ip_length p n) = drop k p"
    "i \<in> {0, 1} \<union> {6..<10} \<union> {12..} \<Longrightarrow> set_ip_length p n ! i = p ! i"
    "is_ipv4 p \<Longrightarrow> read_u16 (set_ip_length p n) 2 = of_nat n"
    "is_ipv4 p \<Longrightarrow> fold_checksum (checksum_add (take k (set_ip_length p n)) 0) = 0xFFFF"
proof -
  have k: "20 \<le> k" "k \<le> length p" using assms(1,2) by (simp_all add: k_def)
  define z where "z = write_u16 (write_u16 p 2 (of_nat n)) 10 0"
  define v where "v = NOT (fold_checksum (checksum_add (take k z) 0))"
  have "ip_header_length z = k" "is_ipv4 z = is_ipv4 p"
    using k(2) by (auto simp: z_def ip_header_length_def is_ipv4_def k_def simp flip: length_greater_0_conv)
  then have s4: "set_ip_length p n = write_u16 z 10 v" if "is_ipv4 p"
    using that by (simp add: set_ip_length_def z_def v_def Let_def)
  have s6: "set_ip_length p n = write_u16 p 4 (of_nat (n - 40))" if "\<not> is_ipv4 p"
    using that by (simp add: set_ip_length_def)
  have lz: "length z = length p" by (simp add: z_def)
  show "length (set_ip_length p n) = length p" by (cases "is_ipv4 p") (simp_all add: s4 s6 lz)
  show "drop k (set_ip_length p n) = drop k p" using k(1) by (cases "is_ipv4 p") (simp_all add: s4 s6 z_def)
  show "set_ip_length p n ! i = p ! i" if "i \<in> {0, 1} \<union> {6..<10} \<union> {12..}"
    using that by (cases "is_ipv4 p") (auto simp: s4 s6 z_def)
  show "read_u16 (set_ip_length p n) 2 = of_nat n" if "is_ipv4 p"
  proof -
    have "read_u16 (set_ip_length p n) 2 = read_u16 (write_u16 p 2 (of_nat n)) 2"
      by (simp add: s4 [OF that] z_def read_u16_def)
    then show ?thesis using k by (simp add: read_write_u16_same)
  qed
  show "fold_checksum (checksum_add (take k (set_ip_length p n)) 0) = 0xFFFF" if "is_ipv4 p"
  proof -
    have sum: "unat (fold_checksum (checksum_add b 0)) = ones_complement (words_sum b)" if "length b < 2 ^ 32" for b
      using words_sum_bound [of b] that by (simp add: fold_checksum_value checksum_add_sum unat_of_nat)
    have z10: "read_u16 (take k z) 10 = 0"
      using k by (simp add: z_def take_write_u16_inside read_write_u16_same)
    have "unat v = 65535 - ones_complement (words_sum (take k z))"
      using k assms(3) lz by (simp add: v_def unat_not_u16 sum)
    moreover have "words_sum (write_u16 (take k z) 10 v) = words_sum (take k z) + unat v"
      using words_sum_write [of 10 "take k z" v] z10 k lz by simp
    ultimately have "ones_complement (words_sum (write_u16 (take k z) 10 v)) = 65535"
      using ones_complement_completes by simp
    moreover have "take k (set_ip_length p n) = write_u16 (take k z) 10 v"
      using k by (simp add: s4 [OF that] take_write_u16_inside)
    ultimately have "unat (fold_checksum (checksum_add (take k (set_ip_length p n)) 0)) = 65535"
      using sum [of "take k (set_ip_length p n)"] assms(3) lz by simp
    then show ?thesis by (simp add: word_unat_eq_iff)
  qed
qed

lemma header_bytes:
  assumes "a \<noteq> []" "b \<noteq> []" "b ! 0 = a ! 0" "b ! 6 = a ! 6" "b ! 9 = a ! 9"
  shows "is_ipv4 b = is_ipv4 a" "ip_header_length b = ip_header_length a" "ip_protocol b = ip_protocol a"
  using assms by (simp_all add: is_ipv4_def ip_header_length_def ip_protocol_def)

text \<open>A packet that is split: its headers, and the protocol they carry.\<close>

definition splittable :: "bytes \<Rightarrow> nat \<Rightarrow> nat \<Rightarrow> u8 \<Rightarrow> bool \<Rightarrow> bool" where
  "splittable packet k headers protocol tcp \<longleftrightarrow>
     ip_header_length packet = k \<and> 20 \<le> k \<and> ip_protocol packet = protocol \<and>
     protocol = (if tcp then kProtocolTcp else kProtocolUdp) \<and>
     k + (if tcp then 20 else 8) \<le> headers \<and> headers \<le> length packet \<and> length packet < 2 ^ 32"

definition segment_ok :: "bytes \<Rightarrow> nat \<Rightarrow> nat \<Rightarrow> bool \<Rightarrow> nat \<Rightarrow> nat \<Rightarrow> bytes \<Rightarrow> bool" where
  "segment_ok packet k headers tcp offset index seg \<longleftrightarrow>
     transport_checksum_valid seg \<and>
     (is_ipv4 packet \<longrightarrow> fold_checksum (checksum_add (take k seg) 0) = 0xFFFF \<and>
        read_u16 seg 2 = of_nat (length seg) \<and> ip_header_length seg = k) \<and>
     (tcp \<longrightarrow> read_u32 seg (k + 4) = read_u32 packet (k + 4) + of_nat offset)"

lemma tcp_not_udp: "kProtocolTcp \<noteq> kProtocolUdp"
  by (simp add: kProtocolTcp_def kProtocolUdp_def)

lemma splittableD:
  assumes "splittable packet k headers protocol tcp"
  shows "20 \<le> k" "k \<le> headers" "headers \<le> length packet" "length packet < 2 ^ 32" "packet \<noteq> []"
    "ip_header_length packet = k" "ip_protocol packet = protocol"
  using assms by (auto simp: splittable_def split: if_split_asm)

text \<open>The step on the IP header.\<close>

lemma segment_ip_ok:
  fixes index :: nat
  assumes sp: "splittable packet k headers protocol tcp" and len: "headers + length chunk < 2 ^ 32"
  defines "out \<equiv> segment_ip packet headers chunk index"
  shows "length out = headers + length chunk" "drop headers out = chunk"
    "is_ipv4 out = is_ipv4 packet" "ip_header_length out = k" "ip_protocol out = protocol"
    "is_ipv4 packet \<Longrightarrow> read_u16 out 2 = of_nat (length out)"
    "is_ipv4 packet \<Longrightarrow> fold_checksum (checksum_add (take k out) 0) = 0xFFFF"
proof -
  note hd = splittableD [OF sp]
  define o0 where "o0 = take headers packet @ chunk"
  define o1 where "o1 = (if is_ipv4 packet then write_u16 o0 4 (read_u16 packet 4 + of_nat index) else o0)"
  have out: "out = set_ip_length o1 (length o1)"
    by (simp add: out_def segment_ip_def o1_def o0_def Let_def)
  have l1: "length o1 = headers + length chunk" using hd(3) by (simp add: o1_def o0_def)
  have "o0 ! i = packet ! i" if "i < headers" for i using that hd(3) by (simp add: o0_def nth_append)
  then have n1: "o1 ! i = packet ! i" if "i \<in> {0, 1} \<union> {6..<headers}" for i
    using that hd by (auto simp: o1_def)
  have "o1 \<noteq> []" using l1 hd by auto
  from header_bytes [OF hd(5) this] have h1: "is_ipv4 o1 = is_ipv4 packet" "ip_header_length o1 = k"
    using n1 [of 0] n1 [of 6] n1 [of 9] hd by simp_all
  have "20 \<le> ip_header_length o1" "ip_header_length o1 \<le> length o1" "length o1 < 2 ^ 32"
    using hd l1 len by (simp_all add: h1)
  note s2 = set_ip_length_ok [OF this, where n = "length o1", folded out, unfolded h1]
  show l2: "length out = headers + length chunk" using s2(1) l1 by simp
  have "drop headers out = drop (headers - k) (drop k out)" using hd(2) by simp
  also have "\<dots> = chunk" unfolding s2(2) using hd by (simp add: o1_def o0_def)
  finally show "drop headers out = chunk" .
  have "out ! i = packet ! i" if "i \<in> {0, 6, 9}" for i using s2(3) [of i] n1 [of i] that hd by auto
  moreover have "out \<noteq> []" using l2 hd by auto
  ultimately show "is_ipv4 out = is_ipv4 packet" "ip_header_length out = k" "ip_protocol out = protocol"
    using header_bytes [OF hd(5), of out] hd by simp_all
  show "is_ipv4 packet \<Longrightarrow> read_u16 out 2 = of_nat (length out)" using s2(1,4) by simp
  show "is_ipv4 packet \<Longrightarrow> fold_checksum (checksum_add (take k out) 0) = 0xFFFF" by (rule s2(5))
qed

text \<open>The step on the transport header.\<close>

lemma segment_transport_ok:
  fixes packet :: bytes and is_last :: bool and offset index chunk :: nat
  assumes "k + (if tcp then 20 else 8) \<le> headers" "headers \<le> length out"
  defines "out' \<equiv> segment_transport packet k tcp is_last offset index chunk out"
  shows "length out' = length out" "take k out' = take k out" "drop headers out' = drop headers out"
    "tcp \<Longrightarrow> read_u32 out' (k + 4) = read_u32 packet (k + 4) + of_nat offset"
proof -
  show "length out' = length out" "take k out' = take k out" "drop headers out' = drop headers out"
    using assms(1) by (simp_all add: out'_def segment_transport_def split: if_split_asm)
  show "read_u32 out' (k + 4) = read_u32 packet (k + 4) + of_nat offset" if tcp
  proof -
    have "read_u32 out' (k + 4) = read_u32 (write_u32 out (k + 4) (read_u32 packet (k + 4) + of_nat offset)) (k + 4)"
      using that by (intro read_u32_cong) (simp add: out'_def segment_transport_def)
    then show ?thesis using assms(1,2) that by (simp add: read_write_u32_same)
  qed
qed

lemma make_segment_ok:
  fixes offset index segment :: nat
  assumes sp: "splittable packet k headers protocol tcp"
  defines "seg \<equiv> make_segment packet k headers protocol tcp segment offset index"
  shows "drop headers seg = take segment (drop offset (drop headers packet))"
    "segment_ok packet k headers tcp offset index seg" "length seg \<le> headers + segment"
proof -
  note hd = splittableD [OF sp]
  define chunk where "chunk = min segment (length (drop headers packet) - offset)"
  define bs where "bs = take chunk (drop offset (drop headers packet))"
  define o2 where "o2 = segment_ip packet headers bs index"
  define o3 where "o3 = segment_transport packet k tcp (offset + chunk \<ge> length (drop headers packet)) offset index chunk o2"
  have seg: "seg = finish_transport_checksum o3 k protocol"
    by (simp only: seg_def make_segment_def Let_def chunk_def o3_def o2_def bs_def)
  have bs: "length bs = chunk" "bs = take segment (drop offset (drop headers packet))"
    by (auto simp: bs_def chunk_def min_def add.commute)
  have "headers + length bs < 2 ^ 32" using hd(3,4) by (simp add: bs(1) chunk_def)
  note ip = segment_ip_ok [OF sp this, where index = index, folded o2_def]
  have h: "k + (if tcp then 20 else 8) \<le> headers" using sp by (simp add: splittable_def)
  have "headers \<le> length o2" using ip(1) by simp
  note tr = segment_transport_ok [OF h this, where packet = packet and offset = offset and index = index
      and chunk = chunk and is_last = "offset + chunk \<ge> length (drop headers packet)", folded o3_def]
  have k3: "k \<le> length o2" "k \<le> length o3" using hd(2) ip(1) tr(1) by simp_all
  note h3 = header_cong [OF tr(2) [symmetric] k3 hd(1) ip(4)]
  have tcp: "protocol = kProtocolTcp \<longleftrightarrow> tcp" "protocol = kProtocolTcp \<or> protocol = kProtocolUdp"
    using sp tcp_not_udp by (auto simp: splittable_def)
  have room: "k + (if protocol = kProtocolTcp then 18 else 8) \<le> length o3"
    using h tr(1) ip(1) unfolding tcp(1) by auto
  have l3: "length o3 < 2 ^ 32" using tr(1) ip(1) hd(3,4) bs(1) by (simp add: chunk_def)
  note fin = finish_checksum_valid [OF hd(1) h3(2) _ tcp(2) room l3, folded seg, unfolded tcp(1)]
  have p3: "ip_protocol o3 = protocol" using h3(3) ip(5) by simp
  show "length seg \<le> headers + segment" using fin(2) [OF p3] tr(1) ip(1) bs(1) by (simp add: chunk_def)
  have "drop headers seg = drop (headers - (k + (if tcp then 18 else 8))) (drop (k + (if tcp then 18 else 8)) seg)"
    using h by (simp split: if_split_asm)
  also have "\<dots> = drop headers o3" unfolding fin(4) [OF p3] using h by (simp split: if_split_asm)
  finally show "drop headers seg = take segment (drop offset (drop headers packet))" using tr(3) ip(2) bs(2) by simp
  have pre: "take n seg = take n o3" if "n \<le> k + (if tcp then 16 else 6)" for n
    using arg_cong [OF fin(3) [OF p3], of "take n"] that by (simp add: min_absorb1)
  have tk: "take k seg = take k o2" using pre [of k] tr(2) by simp
  have nth: "seg ! i = o3 ! i" if "i < k + (if tcp then 16 else 6)" for i
    using pre [of "Suc i"] that room fin(2) [OF p3] by (metis Suc_leI lessI nth_take)
  have "read_u16 seg 2 = read_u16 o2 2"
    using nth_take [of 2 k seg] nth_take [of 3 k seg] nth_take [of 2 k o2] nth_take [of 3 k o2] hd(1)
    by (simp add: read_u16_def tk)
  moreover have "read_u32 seg (k + 4) = read_u32 o3 (k + 4)" if tcp using that by (intro read_u32_cong nth) simp
  moreover have "ip_header_length seg = k"
    using header_cong(2) [OF tk [symmetric] k3(1) _ hd(1) ip(4)] k3(2) fin(2) [OF p3] by simp
  ultimately show "segment_ok packet k headers tcp offset index seg"
    using fin(1) [OF p3] fin(2) [OF p3] tr(1,4) ip(6,7) by (auto simp: segment_ok_def tk)
qed

lemma segment_loop_nth:
  "i < length (segment_loop packet k headers protocol tcp segment offset index) \<Longrightarrow>
   segment_loop packet k headers protocol tcp segment offset index ! i =
     make_segment packet k headers protocol tcp segment (offset + i * segment) (index + i)"
proof (induction packet k headers protocol tcp segment offset index arbitrary: i rule: segment_loop.induct)
  case (1 packet k headers protocol tcp segment offset index)
  have c: "0 < segment \<and> offset < length (drop headers packet)"
    using 1(2) by (subst (asm) segment_loop.simps) (auto split: if_split_asm)
  note u = segment_loop.simps [of packet k headers protocol tcp segment offset index, unfolded if_P [OF c]]
  show ?case
  proof (cases i)
    case (Suc j)
    then show ?thesis using 1(1) [OF c, of j] 1(2) unfolding u by (simp add: algebra_simps)
  qed (simp add: u)
qed

lemma segment_loop_payload:
  assumes "splittable packet k headers protocol tcp" "0 < segment"
  shows "concat (map (drop headers) (segment_loop packet k headers protocol tcp segment offset index)) =
    drop offset (drop headers packet)"
  using assms
proof (induction packet k headers protocol tcp segment offset index rule: segment_loop.induct)
  case (1 packet k headers protocol tcp segment offset index)
  show ?case
  proof (cases "offset < length (drop headers packet)")
    case True
    then have c: "0 < segment \<and> offset < length (drop headers packet)" using 1(3) by simp
    have "take segment (drop offset (drop headers packet)) @ drop (offset + segment) (drop headers packet) =
        drop offset (drop headers packet)"
      by (metis add.commute append_take_drop_id drop_drop)
    then show ?thesis
      using 1(1) [OF c 1(2,3)] make_segment_ok(1) [OF 1(2)] c by (subst segment_loop.simps) simp
  next
    case False
    then show ?thesis by (subst segment_loop.simps) simp
  qed
qed

lemma expand_split:
  assumes "expand_offloaded header packet = (True, packet', segs)" "vh_gso_type header \<noteq> kGsoNone"
  defines "k \<equiv> ip_header_length packet" and "tcp \<equiv> ip_protocol packet = kProtocolTcp"
  defines "headers \<equiv> k + (if tcp then unat (drop_bit 4 (packet ! (k + 12))) * 4 else 8)"
  assumes "k + (if tcp then 20 else 8) \<le> headers" "length packet < 2 ^ 32"
  shows "packet' = packet" "0 < unat (vh_gso_size header)"
    "splittable packet k headers (ip_protocol packet) tcp"
    "segs = segment_loop packet k headers (ip_protocol packet) tcp (unat (vh_gso_size header)) 0 0"
proof -
  define t where "t \<longleftrightarrow> vh_gso_type header = kGsoTcpV4 \<or> vh_gso_type header = kGsoTcpV6"
  have g: "20 \<le> length packet" "20 \<le> k" "k \<le> length packet" "t \<or> vh_gso_type header = kGsoUdpL4"
    "vh_gso_size header \<noteq> 0" "t \<longrightarrow> ip_protocol packet = kProtocolTcp"
    "vh_gso_type header = kGsoUdpL4 \<longrightarrow> ip_protocol packet = kProtocolUdp"
    using assms(1,2) unfolding expand_offloaded_def Let_def k_def [symmetric] t_def [symmetric]
    by (auto split: if_split_asm)
  have "kGsoUdpL4 \<noteq> kGsoTcpV4" "kGsoUdpL4 \<noteq> kGsoTcpV6"
    by (simp_all add: kGsoUdpL4_def kGsoTcpV4_def kGsoTcpV6_def)
  then have t: "t = tcp" "vh_gso_type header = kGsoUdpL4 \<longleftrightarrow> \<not> tcp"
    using g(4,6,7) tcp_not_udp by (auto simp: t_def tcp_def)
  have r: "headers \<le> length packet" "packet' = packet"
    "segs = segment_loop packet k headers (ip_protocol packet) tcp (unat (vh_gso_size header)) 0 0"
    using assms(1,2) g unfolding expand_offloaded_def Let_def k_def [symmetric] t_def [symmetric] t headers_def
    by (auto split: if_split_asm)
  then show "packet' = packet"
    "segs = segment_loop packet k headers (ip_protocol packet) tcp (unat (vh_gso_size header)) 0 0" by auto
  show "0 < unat (vh_gso_size header)" using g(5) by (simp add: unat_gt_0)
  show "splittable packet k headers (ip_protocol packet) tcp"
    unfolding splittable_def
  proof (intro conjI)
    show "ip_protocol packet = (if tcp then kProtocolTcp else kProtocolUdp)"
      using t g(7) unfolding tcp_def by (cases "ip_protocol packet = kProtocolTcp") simp_all
  qed (use g(2) r(1) assms(6,7) in \<open>simp_all only: k_def\<close>)
qed

text \<open>
  C16: splitting a large packet loses nothing and every piece stands on its own. When the split of a packet of
  the device succeeds, the pieces carry the payload in order and without gap or overlap, none has more than
  the announced segment size, and each is a complete packet: the checksum of its transport header is valid,
  over IPv4 also the length and the checksum of the IP header, and over TCP its sequence number is the one
  of its first byte. The data offset of a TCP header is at least five words.
\<close>

theorem expand_offloaded_segments:
  assumes "expand_offloaded header packet = (True, packet', segs)" "vh_gso_type header \<noteq> kGsoNone"
    and "length packet < 2 ^ 32"
  defines "k \<equiv> ip_header_length packet" and "tcp \<equiv> ip_protocol packet = kProtocolTcp"
  defines "headers \<equiv> k + (if tcp then unat (drop_bit 4 (packet ! (k + 12))) * 4 else 8)"
  assumes "k + (if tcp then 20 else 8) \<le> headers"
  shows "packet' = packet \<and> concat (map (drop headers) segs) = drop headers packet \<and>
    (\<forall>i < length segs. length (segs ! i) \<le> headers + unat (vh_gso_size header) \<and>
       segment_ok packet k headers tcp (i * unat (vh_gso_size header)) i (segs ! i))"
proof -
  note e = expand_split [OF assms(1,2) assms(7,3) [unfolded headers_def tcp_def k_def],
      folded k_def, folded tcp_def, folded headers_def]
  show ?thesis
    using segment_loop_payload [OF e(3,2), of 0 0] segment_loop_nth make_segment_ok(2,3) [OF e(3)] e(1)
    unfolding e(4) by simp
qed

definition sample_tcp_packet :: bytes where
  "sample_tcp_packet = [0x45, 0, 0, 45, 0, 7, 0, 0, 64, 6, 0, 0, 10, 0, 0, 1, 10, 0, 0, 2] @
     [0, 80, 0, 90, 0, 0, 1, 0, 0, 0, 0, 1, 0x50, 0x18, 1, 0, 0, 0, 0, 0] @ [1, 2, 3, 4, 5]"

definition sample_gso :: VirtioHeader where
  "sample_gso = \<lparr>vh_flags = 1, vh_gso_type = kGsoTcpV4, vh_header_length = 40, vh_gso_size = 3,
     vh_checksum_start = 20, vh_checksum_offset = 16\<rparr>"

theorem expand_offloaded_segments_witness:
  "\<exists>segs. expand_offloaded sample_gso sample_tcp_packet = (True, sample_tcp_packet, segs) \<and>
    concat (map (drop 40) segs) = [1, 2, 3, 4, 5] \<and>
    (\<forall>i < length segs. length (segs ! i) \<le> 40 + 3 \<and> segment_ok sample_tcp_packet 20 40 True (i * 3) i (segs ! i))"
proof -
  let ?segs = "segment_loop sample_tcp_packet 20 40 6 True 3 0 0"
  have h: "ip_header_length sample_tcp_packet = 20" "ip_protocol sample_tcp_packet = kProtocolTcp"
    "length sample_tcp_packet = 45" "unat (drop_bit 4 (sample_tcp_packet ! 32)) = 5"
    by (simp_all add: sample_tcp_packet_def ip_header_length_def ip_protocol_def is_ipv4_def kProtocolTcp_def)
  have e: "expand_offloaded sample_gso sample_tcp_packet = (True, sample_tcp_packet, ?segs)"
    by (simp add: expand_offloaded_def h sample_gso_def kGsoNone_def kGsoTcpV4_def kGsoUdpL4_def kProtocolTcp_def Let_def)
  show ?thesis using expand_offloaded_segments [OF e] e
    by (simp add: h sample_gso_def kGsoNone_def kGsoTcpV4_def) (simp add: sample_tcp_packet_def)
qed

section \<open>Coalescing\<close>

text \<open>The header of the device survives its encoding.\<close>

lemma bytes_of_u16: "ucast (ucast v :: byte) OR push_bit 8 (ucast (ucast (drop_bit 8 v) :: byte)) = (v :: u16)"
  by (rule bit_word_eqI) (auto simp: bit_simps)

lemma parse_write_virtio:
  "parse_virtio_header (write_virtio_header h (replicate kVirtioHeaderSize 0)) = h"
proof -
  have "replicate kVirtioHeaderSize 0 = [0, 0, 0, 0, 0, 0, 0, 0, 0, 0 :: byte]"
    by (simp add: kVirtioHeaderSize_def numeral_eq_Suc)
  then show ?thesis
    by (simp add: parse_virtio_header_def write_virtio_header_def write_le16_def read_le16_def Let_def
        kVirtioHeaderSize_def bytes_of_u16)
qed

lemma segment_loop_chunks:
  assumes "splittable packet k headers protocol tcp"
  shows "map (drop headers) (segment_loop packet k headers protocol tcp segment offset index) =
    chunks segment (drop offset (drop headers packet))"
  using assms
proof (induction packet k headers protocol tcp segment offset index rule: segment_loop.induct)
  case (1 packet k headers protocol tcp segment offset index)
  let ?b = "drop offset (drop headers packet)"
  show ?case
  proof (cases "0 < segment \<and> offset < length (drop headers packet)")
    case True
    then have "?b \<noteq> []" by auto
    then have "chunks segment ?b = take segment ?b # chunks segment (drop segment ?b)"
      using True by (subst chunks.simps) simp
    moreover have "drop segment ?b = drop (offset + segment) (drop headers packet)" by (simp add: add_ac)
    ultimately show ?thesis
      using 1(1) [OF True 1(2)] make_segment_ok(1) [OF 1(2)] True by (subst segment_loop.simps) simp
  next
    case False
    then have "chunks segment ?b = []" by (subst chunks.simps) auto
    then show ?thesis using False by (subst segment_loop.simps) simp
  qed
qed

text \<open>Pieces of equal size, the last not longer and not empty.\<close>

fun uniform :: "nat \<Rightarrow> bytes list \<Rightarrow> bool" where
  "uniform n [] \<longleftrightarrow> True"
| "uniform n [p] \<longleftrightarrow> p \<noteq> [] \<and> length p \<le> n"
| "uniform n (p # ps) \<longleftrightarrow> length p = n \<and> uniform n ps"

lemma chunks_concat:
  assumes "uniform n ps" "0 < n"
  shows "chunks n (concat ps) = ps"
  using assms
proof (induction n ps rule: uniform.induct)
  case (1 n)
  then show ?case by (simp add: chunks.simps)
next
  case (2 n p)
  then show ?case by (subst chunks.simps) (simp add: chunks.simps [of n "[]"])
next
  case (3 n p q ps)
  then have "p \<noteq> []" by auto
  then show ?case using 3 by (subst chunks.simps) simp
qed

lemma uniform_snoc: "uniform n ps \<Longrightarrow> (ps \<noteq> [] \<Longrightarrow> length (last ps) = n) \<Longrightarrow> p \<noteq> [] \<Longrightarrow> length p \<le> n \<Longrightarrow> uniform n (ps @ [p])"
  by (induction n ps rule: uniform.induct) auto

end
