(* ===== verification/Coalescer.thy ===== *)
theory Coalescer
  imports Offload
begin

text \<open>
  The joining half of src/offload.cpp: what the items of the coalescer hold, and that every joined frame
  splits back into the segments it was made of.
\<close>

section \<open>What an item holds\<close>

definition payload_bytes :: "OffloadItem \<Rightarrow> nat" where
  "payload_bytes item = sum_list (map length (oi_payloads item))"

text \<open>The head of an item of a flow is a TCP header over IP, complete and with the lengths it states.\<close>

definition head_ok :: "bytes \<Rightarrow> nat \<Rightarrow> nat \<Rightarrow> bool" where
  "head_ok head k t \<longleftrightarrow> ip_header_length head = k \<and> 20 \<le> k \<and> ip_protocol head = kProtocolTcp \<and>
     unat (drop_bit 4 (head ! (k + 12))) * 4 = t \<and> 20 \<le> t \<and> length head = k + t"

definition item_ok :: "bytes set \<Rightarrow> OffloadItem \<Rightarrow> bool" where
  "item_ok P item \<longleftrightarrow>
     (if oi_tcp item then
        head_ok (oi_head item) (oi_ip_length item) (oi_tcp_length item) \<and>
        oi_ipv4 item = is_ipv4 (oi_head item) \<and>
        oi_payloads item \<noteq> [] \<and> uniform (oi_segment item) (oi_payloads item) \<and>
        (oi_open item \<longrightarrow> length (last (oi_payloads item)) = oi_segment item) \<and>
        0 < oi_segment item \<and> oi_segment item \<le> oi_total item \<and>
        oi_total item = length (oi_head item) + payload_bytes item \<and> oi_total item \<le> kMaximumOffloadFrame \<and>
        (length (oi_payloads item) = 1 \<longrightarrow> oi_head item @ hd (oi_payloads item) \<in> P)
      else oi_head item = [] \<and> (\<exists>p \<in> P. oi_payloads item = [p]))"

lemma item_ok_mono: "item_ok P item \<Longrightarrow> P \<subseteq> Q \<Longrightarrow> item_ok Q item"
  by (auto simp: item_ok_def split: if_split_asm)

lemma plain_item_ok: "packet \<in> P \<Longrightarrow> item_ok P (plain_item packet)"
  by (simp add: item_ok_def plain_item_def fresh_item_def)

lemma candidate_header:
  assumes "coalesce_candidate packet"
  shows "20 \<le> ip_header_length packet" "ip_protocol packet = kProtocolTcp" "40 \<le> length packet"
  using assms by (auto simp: coalesce_candidate_def ip_header_length_def ip_protocol_def is_ipv4_def Let_def
    split: if_split_asm)

lemma flow_item_ok:
  assumes "coalesce_candidate packet" "packet \<in> P" "length packet \<le> kMaximumOffloadFrame"
  defines "k \<equiv> ip_header_length packet"
  defines "t \<equiv> unat (drop_bit 4 (packet ! (k + 12))) * 4"
  assumes "20 \<le> t" "k + t < length packet"
  shows "item_ok P (flow_item packet (is_ipv4 packet) k t)"
proof -
  let ?h = "take (k + t) packet"
  have ne: "packet \<noteq> []" "?h \<noteq> []" using assms(6,7) by auto
  have k: "20 \<le> k" using candidate_header(1) [OF assms(1)] by (simp add: k_def)
  have n: "?h ! i = packet ! i" if "i < k + 20" for i using that assms(6) by simp
  note hb = header_bytes [OF ne]
  have "is_ipv4 ?h = is_ipv4 packet" "ip_header_length ?h = k" "ip_protocol ?h = kProtocolTcp"
    using hb n [of 0] n [of 6] n [of 9] k candidate_header(2) [OF assms(1)] by (simp_all add: k_def)
  moreover have "unat (drop_bit 4 (?h ! (k + 12))) * 4 = t" using n [of "k + 12"] by (simp add: t_def)
  ultimately show ?thesis using k assms(2,3,6,7)
    by (simp add: item_ok_def flow_item_def fresh_item_def head_ok_def payload_bytes_def Let_def)
qed

text \<open>Appending keeps the head but for the push flag.\<close>

lemma head_ok_flag:
  assumes "head_ok h k t"
  shows "head_ok (h[k + 13 := v]) k t" "is_ipv4 (h[k + 13 := v]) = is_ipv4 h"
proof -
  have k: "20 \<le> k" and l: "length h = k + t" "20 \<le> t" using assms by (simp_all add: head_ok_def)
  then have "h \<noteq> []" "h[k + 13 := v] \<noteq> []" by auto
  from header_bytes [OF this] have "is_ipv4 (h[k + 13 := v]) = is_ipv4 h"
    "ip_header_length (h[k + 13 := v]) = ip_header_length h" "ip_protocol (h[k + 13 := v]) = ip_protocol h"
    using k by simp_all
  then show "head_ok (h[k + 13 := v]) k t" "is_ipv4 (h[k + 13 := v]) = is_ipv4 h"
    using assms by (simp_all add: head_ok_def)
qed

lemma try_append_room:
  assumes "try_append item packet ipv4 k t"
  shows "oi_tcp item" "oi_open item" "oi_ip_length item = k" "oi_tcp_length item = t"
    "length packet - k - t \<noteq> 0" "length packet - k - t \<le> oi_segment item"
    "oi_total item + (length packet - k - t) \<le> kMaximumOffloadFrame"
  using assms unfolding try_append_def Let_def by (auto split: if_split_asm)

lemma append_packet_ok:
  assumes "item_ok P item" "try_append item packet ipv4 k t"
  shows "item_ok P (append_packet item packet (k + t) flags)"
proof -
  note r = try_append_room [OF assms(2)]
  let ?i = "append_packet item packet (k + t) flags"
  have ok: "head_ok (oi_head item) k t" "oi_payloads item \<noteq> []"
    "uniform (oi_segment item) (oi_payloads item)" "length (last (oi_payloads item)) = oi_segment item"
    "oi_ipv4 item = is_ipv4 (oi_head item)"
    using assms(1) r by (simp_all add: item_ok_def)
  have fields: "oi_tcp ?i" "oi_ip_length ?i = k" "oi_tcp_length ?i = t" "oi_segment ?i = oi_segment item"
    "oi_ipv4 ?i = oi_ipv4 item" "oi_payloads ?i = oi_payloads item @ [drop (k + t) packet]"
    "oi_total ?i = oi_total item + (length packet - k - t)" "length (oi_head ?i) = length (oi_head item)"
    "oi_open ?i \<Longrightarrow> length packet - k - t = oi_segment item"
    using r by (auto simp: append_packet_def Let_def split: if_split_asm)
  have head: "head_ok (oi_head ?i) k t" "is_ipv4 (oi_head ?i) = is_ipv4 (oi_head item)"
    using head_ok_flag [OF ok(1)] ok(1) r(3) by (simp_all add: append_packet_def Let_def)
  have "uniform (oi_segment item) (oi_payloads item @ [drop (k + t) packet])"
    using uniform_snoc [OF ok(3)] ok(4) r(5,6) by simp
  moreover have "length (oi_payloads ?i) \<noteq> 1" using ok(2) fields(6) by simp
  ultimately show ?thesis using assms(1) r(1,7) ok(5) head fields(1-8) fields(9)
    unfolding item_ok_def payload_bytes_def by simp
qed

section \<open>The coalescer over a run of packets\<close>

definition packets_held :: "TcpCoalescer \<Rightarrow> nat" where
  "packets_held c = sum_list (map (\<lambda>item. length (oi_payloads item)) (tc_items c))"

lemma held_update:
  "i < length items \<Longrightarrow> f x = Suc (f (items ! i)) \<Longrightarrow>
   sum_list (map f (items[i := x])) = Suc (sum_list (map f items))" for f :: "'a \<Rightarrow> nat"
  by (induction items arbitrary: i) (auto split: nat.split simp: less_Suc_eq_0_disj)

lemma newest_of_flow_less: "newest_of_flow items packet v k = Some i \<Longrightarrow> i < length items"
  by (auto simp: newest_of_flow_def find_Some_iff rev_nth)

lemma coalescer_add_ok:
  assumes "\<forall>item \<in> set (tc_items c). item_ok P item" "packet \<in> P" "length packet \<le> kMaximumOffloadFrame"
  shows "(\<forall>item \<in> set (tc_items (coalescer_add c packet)). item_ok P item) \<and>
    packets_held (coalescer_add c packet) = Suc (packets_held c)"
proof -
  define k where "k = ip_header_length packet"
  define t where "t = unat (drop_bit 4 (packet ! (k + 12))) * 4"
  define f where "f = flow_item packet (is_ipv4 packet) k t"
  let ?good = "coalesce_candidate packet \<and> t \<ge> 20 \<and> k + t < length packet"
  have f: "item_ok P f" if ?good
    unfolding f_def k_def t_def by (rule flow_item_ok) (use that assms in \<open>simp_all add: k_def t_def\<close>)
  have len: "length (oi_payloads f) = 1" "length (oi_payloads (plain_item packet)) = 1"
    by (simp_all add: f_def flow_item_def plain_item_def fresh_item_def Let_def)
  have a: "coalescer_add c packet =
    (if ?good then
       case newest_of_flow (tc_items c) packet (is_ipv4 packet) k of
         Some i \<Rightarrow> if try_append (tc_items c ! i) packet (is_ipv4 packet) k t
           then c\<lparr>tc_items := (tc_items c)[i := append_packet (tc_items c ! i) packet (k + t) (packet ! (k + 13))]\<rparr>
           else c\<lparr>tc_items := tc_items c @ [f]\<rparr>
       | None \<Rightarrow> c\<lparr>tc_items := tc_items c @ [f]\<rparr>
     else c\<lparr>tc_items := tc_items c @ [plain_item packet]\<rparr>)"
    by (simp only: coalescer_add_def Let_def k_def t_def f_def)
  let ?n = "newest_of_flow (tc_items c) packet (is_ipv4 packet) k"
  consider (joined) i where "?good" "?n = Some i" "try_append (tc_items c ! i) packet (is_ipv4 packet) k t"
    | (new) x where "coalescer_add c packet = c\<lparr>tc_items := tc_items c @ [x]\<rparr>" "item_ok P x" "length (oi_payloads x) = 1"
  proof (cases "?good \<and> (\<exists>i. ?n = Some i \<and> try_append (tc_items c ! i) packet (is_ipv4 packet) k t)")
    case True
    then show ?thesis using that(1) by blast
  next
    case False
    then have "coalescer_add c packet = c\<lparr>tc_items := tc_items c @ [if ?good then f else plain_item packet]\<rparr>"
      unfolding a by (cases ?n) auto
    then show ?thesis using that(2) f len plain_item_ok [OF assms(2)] by (cases ?good) auto
  qed
  then show ?thesis
  proof cases
    case new
    then show ?thesis using assms(1) by (auto simp: packets_held_def)
  next
    case (joined i)
    let ?x = "append_packet (tc_items c ! i) packet (k + t) (packet ! (k + 13))"
    have i: "i < length (tc_items c)" using newest_of_flow_less joined(2) by blast
    have eq: "coalescer_add c packet = c\<lparr>tc_items := (tc_items c)[i := ?x]\<rparr>" using joined by (simp add: a)
    have "item_ok P ?x" using append_packet_ok [OF _ joined(3)] assms(1) i by simp
    then have "\<forall>item \<in> set ((tc_items c)[i := ?x]). item_ok P item"
      using assms(1) set_update_subset_insert [of "tc_items c" i ?x] by blast
    moreover have "length (oi_payloads ?x) = Suc (length (oi_payloads (tc_items c ! i)))"
      by (simp add: append_packet_def Let_def)
    ultimately show ?thesis using i by (simp add: eq packets_held_def held_update)
  qed
qed

section \<open>Flushing\<close>

lemma head_ok_flush:
  assumes "head_ok h k t" "k + t < 2 ^ 32"
  shows "head_ok (write_u16 (set_ip_length h n) (k + 16) v) k t"
proof -
  have k: "20 \<le> k" "length h = k + t" "20 \<le> t" "ip_header_length h = k" using assms by (simp_all add: head_ok_def)
  let ?h = "write_u16 (set_ip_length h n) (k + 16) v"
  have s: "20 \<le> ip_header_length h" "ip_header_length h \<le> length h" "length h < 2 ^ 32"
    using k assms(2) by simp_all
  note sl = set_ip_length_ok [OF s, where n = n]
  have n: "?h ! i = h ! i" if "i \<in> {0, 6, 9, k + 12}" for i using that sl(3) [of i] k by auto
  have "0 < length h" "0 < length ?h" using k sl(1) by simp_all
  then have "h \<noteq> []" "?h \<noteq> []" by (simp_all add: write_u16_def)
  from header_bytes [OF this] n [of 0] n [of 6] n [of 9] n [of "k + 12"] k sl(1) assms(1) show ?thesis by (simp add: head_ok_def)
qed

text \<open>A frame with a complete head and uniform payloads splits into those payloads.\<close>

lemma expand_frame:
  assumes h: "head_ok h k t" and u: "uniform n ps" "0 < n" "n \<le> 65535"
    and len: "length (h @ concat ps) < 2 ^ 32"
    and gso: "vh_gso_type header = kGsoTcpV4 \<or> vh_gso_type header = kGsoTcpV6" "vh_gso_size header = of_nat n"
  shows "\<exists>segs. expand_offloaded header (h @ concat ps) = (True, h @ concat ps, segs) \<and>
    map (drop (k + t)) segs = ps \<and> (\<forall>seg \<in> set segs. transport_checksum_valid seg)"
proof -
  let ?f = "h @ concat ps"
  have k: "20 \<le> k" "length h = k + t" "20 \<le> t" using h by (simp_all add: head_ok_def)
  have "h \<noteq> []" "?f \<noteq> []" using k by auto
  from header_bytes [OF this] have hb: "ip_header_length ?f = k" "ip_protocol ?f = kProtocolTcp"
    using h k by (simp_all add: head_ok_def nth_append)
  have doff: "unat (drop_bit 4 (?f ! (k + 12))) * 4 = t" using h k by (simp add: head_ok_def nth_append)
  have n: "unat (of_nat n :: u16) = n" using u(3) by (simp add: unat_of_nat)
  then have nz: "(of_nat n :: u16) \<noteq> 0" using u(2) by (metis unat_0 less_irrefl)
  have g: "vh_gso_type header \<noteq> kGsoNone" "vh_gso_type header \<noteq> kGsoUdpL4"
    using gso(1) by (auto simp: kGsoNone_def kGsoUdpL4_def kGsoTcpV4_def kGsoTcpV6_def)
  let ?segs = "segment_loop ?f k (k + t) kProtocolTcp True n 0 0"
  have "length ?f = k + t + length (concat ps)" using k by simp
  then have e: "expand_offloaded header ?f = (True, ?f, ?segs)"
    unfolding expand_offloaded_def Let_def hb gso(2) n using k g gso(1) nz doff by simp
  have sp: "splittable ?f k (k + t) kProtocolTcp True"
    unfolding splittable_def using hb k len by simp
  have "map (drop (k + t)) ?segs = ps"
    using segment_loop_chunks [OF sp, of n 0 0] chunks_concat [OF u(1,2)] k by simp
  moreover have "transport_checksum_valid seg" if "seg \<in> set ?segs" for seg
    using that segment_loop_nth make_segment_ok(2) [OF sp] by (auto simp: in_set_conv_nth segment_ok_def)
  ultimately show ?thesis using e by blast
qed

text \<open>What the writer may rely on for one frame.\<close>

definition frame_ok :: "bytes set \<Rightarrow> bytes \<times> bytes \<times> bytes list \<Rightarrow> bool" where
  "frame_ok P frame = (case frame of (virtio, head, payloads) \<Rightarrow>
     if length payloads = 1 then virtio = replicate kVirtioHeaderSize 0 \<and> head @ hd payloads \<in> P
     else 2 \<le> length payloads \<and>
       (\<exists>segs. expand_offloaded (parse_virtio_header virtio) (head @ concat payloads) =
           (True, head @ concat payloads, segs) \<and> map (drop (length head)) segs = payloads \<and>
         (\<forall>seg \<in> set segs. transport_checksum_valid seg)))"

lemma flush_item_payloads [simp]: "snd (snd (flush_item item)) = oi_payloads item"
  by (simp add: flush_item_def Let_def)

lemma flush_item_ok:
  assumes "item_ok P item"
  shows "frame_ok P (flush_item item)"
proof (cases "oi_tcp item \<and> 2 \<le> length (oi_payloads item)")
  case False
  then have "length (oi_payloads item) = 1"
    using assms by (cases "oi_payloads item") (auto simp: item_ok_def Suc_le_eq split: if_split_asm)
  moreover have "flush_item item = (replicate kVirtioHeaderSize 0, oi_head item, oi_payloads item)"
    using False by (auto simp: flush_item_def)
  ultimately show ?thesis using assms by (auto simp: frame_ok_def item_ok_def split: if_split_asm)
next
  case True
  let ?k = "oi_ip_length item" and ?t = "oi_tcp_length item"
  let ?h0 = "set_ip_length (oi_head item) (oi_total item)"
  define h where "h = write_u16 ?h0 (?k + 16)
    (fold_checksum (pseudo_header_sum ?h0 kProtocolTcp (oi_total item - ?k)))"
  define virtio where "virtio = \<lparr>vh_flags = kVirtioNeedsChecksum,
            vh_gso_type = (if oi_ipv4 item then kGsoTcpV4 else kGsoTcpV6),
            vh_header_length = of_nat (?k + ?t),
            vh_gso_size = of_nat (oi_segment item), vh_checksum_start = of_nat ?k,
            vh_checksum_offset = 16\<rparr>"
  have f: "flush_item item = (write_virtio_header virtio (replicate kVirtioHeaderSize 0), h, oi_payloads item)"
    using True by (simp add: flush_item_def Let_def h_def virtio_def)
  have ok: "head_ok (oi_head item) ?k ?t" "uniform (oi_segment item) (oi_payloads item)" "0 < oi_segment item"
    "oi_segment item \<le> 65535" "oi_total item = length (oi_head item) + payload_bytes item" "oi_total item \<le> 65535"
    using assms True by (auto simp: item_ok_def kMaximumOffloadFrame_def)
  have l: "length (oi_head item) = ?k + ?t" using ok(1) by (simp add: head_ok_def)
  have h: "head_ok h ?k ?t" unfolding h_def using ok(1,5,6) l by (intro head_ok_flush) simp_all
  have lh: "length h = ?k + ?t" using h by (simp add: head_ok_def)
  have "length (concat (oi_payloads item)) = payload_bytes item"
    by (simp add: length_concat payload_bytes_def)
  then have "length (h @ concat (oi_payloads item)) < 2 ^ 32" using ok(5,6) l lh by simp
  from expand_frame [OF h ok(2-4) this, of virtio] show ?thesis
    using True lh by (simp add: f frame_ok_def parse_write_virtio virtio_def)
qed



end
