(* ===== verification/Obfuscation.thy ===== *)
theory Obfuscation
  imports Primitives Packet
begin

text \<open>
  Masking of datagrams with a keystream (src/obfuscation.cpp) and the call of the stream cipher it rests
  on (\<^verbatim>\<open>keystream_xor\<close> of src/crypto.cpp). The cipher is libsodium's
  \<^verbatim>\<open>crypto_stream_chacha20_xor\<close>, a parameter with the law that it keeps the length and undoes itself.
  The answers of the random number generator are a list that the operations consume, one element a call,
  \<open>None\<close> for a failed call; an answer is used for a buffer of its own length only.
\<close>

section \<open>Stream cipher and randomness\<close>

type_synonym stream_xor = "bytes \<Rightarrow> bytes \<Rightarrow> bytes \<Rightarrow> bytes"

definition stream_laws :: "stream_xor \<Rightarrow> bool" where
  "stream_laws f \<longleftrightarrow> (\<forall>m nonce key. length (f m nonce key) = length m \<and> f (f m nonce key) nonce key = m)"

definition keystream_xor :: "stream_xor \<Rightarrow> bytes \<Rightarrow> bytes \<Rightarrow> bytes \<Rightarrow> CryptoError + bytes" where
  "keystream_xor f key nonce data =
     (if length key \<noteq> 32 then Inl ce_invalid_key_length
      else if length nonce \<noteq> 8 then Inl ce_invalid_nonce
      else if data = [] then Inr data
      else Inr (f data nonce key))"

type_synonym entropy = "bytes option list"

definition draw :: "nat \<Rightarrow> entropy \<Rightarrow> bytes option \<times> entropy" where
  "draw n ent = (case ent of [] \<Rightarrow> (None, [])
     | a # rest \<Rightarrow> ((case a of Some b \<Rightarrow> if length b = n then Some b else None | None \<Rightarrow> None), rest))"

section \<open>The obfuscator\<close>

definition kObfuscationKeySize :: nat where "kObfuscationKeySize = 32"
definition kObfuscationNonceSize :: nat where "kObfuscationNonceSize = 8"
definition kJunkLengthFieldSize :: nat where "kJunkLengthFieldSize = 1"
definition kPrimingMinSize :: nat where "kPrimingMinSize = 40"
definition kPrimingMaxSize :: nat where "kPrimingMaxSize = 576"
definition kPoolSize :: nat where "kPoolSize = 4096"
definition kObfuscationDomain :: string where "kObfuscationDomain = ''norr-obfuscation-v1''"

datatype ObfuscationError = ob_disabled | ob_buffer_too_small | ob_invalid_nonce | ob_decryption_failed
  | ob_malformed | ob_junk_overflow

definition obfuscation_error_message :: "ObfuscationError \<Rightarrow> string" where
  "obfuscation_error_message e = (case e of
     ob_disabled \<Rightarrow> ''obfuscation not enabled''
   | ob_buffer_too_small \<Rightarrow> ''output buffer too small''
   | ob_invalid_nonce \<Rightarrow> ''invalid obfuscation nonce''
   | ob_decryption_failed \<Rightarrow> ''obfuscation unwrap failed''
   | ob_malformed \<Rightarrow> ''malformed obfuscated packet''
   | ob_junk_overflow \<Rightarrow> ''junk length exceeds packet'')"

datatype ObfuscationMode = mode_off | mode_header_mask | mode_full

definition obfuscation_mode_name :: "ObfuscationMode \<Rightarrow> string" where
  "obfuscation_mode_name mode = (case mode of
     mode_off \<Rightarrow> ''off'' | mode_header_mask \<Rightarrow> ''header-mask'' | mode_full \<Rightarrow> ''full'')"

record ObfuscationConfig =
  oc_mode :: ObfuscationMode
  oc_junk_padding :: bool
  oc_priming :: bool
  oc_uniform_length :: bool
  oc_junk_max :: u8
  oc_length_bucket :: u16

definition default_obfuscation :: ObfuscationConfig where
  "default_obfuscation = \<lparr>oc_mode = mode_off, oc_junk_padding = False, oc_priming = False,
     oc_uniform_length = False, oc_junk_max = 64, oc_length_bucket = 256\<rparr>"

record Obfuscator =
  of_config :: ObfuscationConfig
  of_key :: bytes
  of_nonce_counter :: u64
  of_junk_pool :: bytes
  of_junk_pos :: nat
  of_junk_ready :: bool
  of_nonce_pool :: bytes
  of_nonce_pos :: nat

definition new_obfuscator :: Obfuscator where
  "new_obfuscator = \<lparr>of_config = default_obfuscation, of_key = replicate kObfuscationKeySize 0,
     of_nonce_counter = 0, of_junk_pool = replicate kPoolSize 0, of_junk_pos = kPoolSize,
     of_junk_ready = False, of_nonce_pool = replicate kPoolSize 0, of_nonce_pos = kPoolSize\<rparr>"

definition derive_obfuscation_key :: "bytes \<Rightarrow> bytes" where
  "derive_obfuscation_key preshared =
     copy_to (replicate kObfuscationKeySize 0) 0
       (blake2s_hash (map byte_of_char kObfuscationDomain) preshared)"

definition configure_obfuscator ::
  "Obfuscator \<Rightarrow> ObfuscationConfig \<Rightarrow> bytes \<Rightarrow> entropy \<Rightarrow> Obfuscator \<times> entropy" where
  "configure_obfuscator ob config preshared ent =
     (let (answer, ent) = draw 8 ent;
          seed = (case answer of Some b \<Rightarrow> b | None \<Rightarrow> replicate 8 0)
      in (ob\<lparr>of_config := config, of_key := derive_obfuscation_key preshared,
             of_nonce_counter := fold (\<lambda>b n. push_bit 8 n OR ucast b) seed 0,
             of_junk_pos := kPoolSize,
             of_junk_ready := (oc_junk_padding config \<and> oc_junk_max config > 0),
             of_nonce_pos := kPoolSize\<rparr>, ent))"

definition next_junk_byte :: "Obfuscator \<Rightarrow> entropy \<Rightarrow> byte \<times> Obfuscator \<times> entropy" where
  "next_junk_byte ob ent =
     (if of_junk_pos ob \<ge> length (of_junk_pool ob) then
        (case draw (length (of_junk_pool ob)) ent of
           (None, ent) \<Rightarrow> (0, ob\<lparr>of_junk_ready := False\<rparr>, ent)
         | (Some pool, ent) \<Rightarrow> (pool ! 0, ob\<lparr>of_junk_pool := pool, of_junk_pos := 1\<rparr>, ent))
      else (of_junk_pool ob ! of_junk_pos ob, ob\<lparr>of_junk_pos := of_junk_pos ob + 1\<rparr>, ent))"

primrec junk_bytes :: "nat \<Rightarrow> Obfuscator \<Rightarrow> entropy \<Rightarrow> bytes \<times> Obfuscator \<times> entropy" where
  "junk_bytes 0 ob ent = ([], ob, ent)"
| "junk_bytes (Suc n) ob ent =
     (let (b, ob, ent) = next_junk_byte ob ent; (bs, ob, ent) = junk_bytes n ob ent in (b # bs, ob, ent))"

definition nonce_value :: "u64 \<Rightarrow> u64" where
  "nonce_value n =
     (let value = n + 0x9E3779B97F4A7C15;
          value = (value XOR drop_bit 30 value) * 0xBF58476D1CE4E5B9;
          value = (value XOR drop_bit 27 value) * 0x94D049BB133111EB
      in value XOR drop_bit 31 value)"

definition next_nonce :: "Obfuscator \<Rightarrow> entropy \<Rightarrow> bytes \<times> Obfuscator \<times> entropy" where
  "next_nonce ob ent =
     (let (ob, ent) =
        (if of_nonce_pos ob + kObfuscationNonceSize > length (of_nonce_pool ob) then
           (case draw (length (of_nonce_pool ob)) ent of
              (None, ent) \<Rightarrow> (ob, ent)
            | (Some pool, ent) \<Rightarrow> (ob\<lparr>of_nonce_pool := pool, of_nonce_pos := 0\<rparr>, ent))
         else (ob, ent))
      in if of_nonce_pos ob + kObfuscationNonceSize \<le> length (of_nonce_pool ob) then
           (take kObfuscationNonceSize (drop (of_nonce_pos ob) (of_nonce_pool ob)),
            ob\<lparr>of_nonce_pos := of_nonce_pos ob + kObfuscationNonceSize\<rparr>, ent)
         else
           (map (\<lambda>index. ucast (drop_bit (8 * (7 - index)) (nonce_value (of_nonce_counter ob)) AND 0xFF))
              [0..<kObfuscationNonceSize],
            ob\<lparr>of_nonce_counter := of_nonce_counter ob + 1\<rparr>, ent))"

definition mask_region :: "stream_xor \<Rightarrow> Obfuscator \<Rightarrow> bytes \<Rightarrow> bytes \<Rightarrow> bytes option" where
  "mask_region f ob nonce region =
     (case keystream_xor f (of_key ob) nonce region of Inl e \<Rightarrow> None | Inr masked \<Rightarrow> Some masked)"

definition max_overhead :: "Obfuscator \<Rightarrow> nat" where
  "max_overhead ob =
     (case oc_mode (of_config ob) of
        mode_off \<Rightarrow> 0
      | mode_header_mask \<Rightarrow> kObfuscationNonceSize
      | mode_full \<Rightarrow> kObfuscationNonceSize + kJunkLengthFieldSize +
          (if oc_junk_padding (of_config ob) then unat (oc_junk_max (of_config ob)) else 0))"

definition junk_length_for :: "ObfuscationConfig \<Rightarrow> nat \<Rightarrow> u32 \<Rightarrow> nat" where
  "junk_length_for config size_of_plaintext entropy =
     (let cap = unat (oc_junk_max config);
          bucket = (if oc_length_bucket config = 0 then 1 else unat (oc_length_bucket config));
          base_len = kJunkLengthFieldSize + size_of_plaintext;
          to_bucket = (bucket - base_len mod bucket) mod bucket;
          flr = (if to_bucket \<le> cap then to_bucket else 0)
      in if oc_uniform_length config then flr else flr + unat entropy mod (cap - flr + 1))"

text \<open>The choice of the number of junk bytes, with the four bytes of entropy it draws.\<close>

definition choose_junk :: "Obfuscator \<Rightarrow> nat \<Rightarrow> entropy \<Rightarrow> nat \<times> Obfuscator \<times> entropy" where
  "choose_junk ob size_of_plaintext ent =
     (let config = of_config ob
      in if oc_junk_padding config \<and> oc_junk_max config > 0 \<and> of_junk_ready ob then
           let (bs, ob, ent) = junk_bytes 4 ob ent;
               entropy = fold (\<lambda>b n. push_bit 8 n OR ucast b) bs 0
           in (if of_junk_ready ob then junk_length_for config size_of_plaintext entropy else 0, ob, ent)
         else (0, ob, ent))"

definition wrap :: "stream_xor \<Rightarrow> Obfuscator \<Rightarrow> bytes \<Rightarrow> bytes \<Rightarrow> entropy \<Rightarrow>
    (ObfuscationError + nat) \<times> bytes \<times> Obfuscator \<times> entropy" where
  "wrap f ob plaintext out ent =
     (if oc_mode (of_config ob) = mode_off then (Inl ob_disabled, out, ob, ent)
      else
        let (nonce, ob, ent) = next_nonce ob ent
        in if length out < kObfuscationNonceSize then (Inl ob_buffer_too_small, out, ob, ent)
           else
             let out = copy_to out 0 nonce; region = drop kObfuscationNonceSize out
             in if oc_mode (of_config ob) = mode_header_mask then
                  if length region < length plaintext then (Inl ob_buffer_too_small, out, ob, ent)
                  else
                    let out = copy_to out kObfuscationNonceSize plaintext;
                        mask_length = min kPacketHeaderSize (length plaintext)
                    in (case mask_region f ob nonce (take mask_length (drop kObfuscationNonceSize out)) of
                          None \<Rightarrow> (Inl ob_decryption_failed, out, ob, ent)
                        | Some masked \<Rightarrow> (Inr (kObfuscationNonceSize + length plaintext),
                            copy_to out kObfuscationNonceSize masked, ob, ent))
                else
                  let (junk_length, ob, ent) = choose_junk ob (length plaintext) ent;
                      body = kJunkLengthFieldSize + junk_length + length plaintext
                  in if length region < body then (Inl ob_buffer_too_small, out, ob, ent)
                     else
                       let out = out[kObfuscationNonceSize := of_nat junk_length];
                           (junk, ob, ent) = junk_bytes junk_length ob ent;
                           out = copy_to out (kObfuscationNonceSize + kJunkLengthFieldSize) junk;
                           out = copy_to out (kObfuscationNonceSize + kJunkLengthFieldSize + junk_length) plaintext
                       in (case mask_region f ob nonce (take body (drop kObfuscationNonceSize out)) of
                             None \<Rightarrow> (Inl ob_decryption_failed, out, ob, ent)
                           | Some masked \<Rightarrow> (Inr (kObfuscationNonceSize + body),
                               copy_to out kObfuscationNonceSize masked, ob, ent)))"

definition unwrap :: "stream_xor \<Rightarrow> Obfuscator \<Rightarrow> bytes \<Rightarrow> bytes \<Rightarrow> (ObfuscationError + nat) \<times> bytes" where
  "unwrap f ob wire out =
     (if oc_mode (of_config ob) = mode_off then (Inl ob_disabled, out)
      else if length wire < kObfuscationNonceSize then (Inl ob_malformed, out)
      else
        let nonce = take kObfuscationNonceSize wire; region = drop kObfuscationNonceSize wire
        in if oc_mode (of_config ob) = mode_header_mask then
             if length out < length region then (Inl ob_buffer_too_small, out)
             else
               let out = copy_to out 0 region; mask_length = min kPacketHeaderSize (length region)
               in (case mask_region f ob nonce (take mask_length out) of
                     None \<Rightarrow> (Inl ob_decryption_failed, out)
                   | Some masked \<Rightarrow> (Inr (length region), copy_to out 0 masked))
           else if region = [] then (Inl ob_malformed, out)
           else
             (case mask_region f ob nonce region of
                None \<Rightarrow> (Inl ob_decryption_failed, out)
              | Some plain \<Rightarrow>
                  let junk_length = unat (plain ! 0)
                  in if kJunkLengthFieldSize + junk_length > length plain then (Inl ob_junk_overflow, out)
                     else
                       let payload_length = length plain - kJunkLengthFieldSize - junk_length
                       in if length out < payload_length then (Inl ob_buffer_too_small, out)
                          else (Inr payload_length,
                                copy_to out 0 (drop (kJunkLengthFieldSize + junk_length) plain))))"

definition generate_priming :: "bytes \<Rightarrow> entropy \<Rightarrow> (ObfuscationError + nat) \<times> bytes \<times> entropy" where
  "generate_priming out ent =
     (case draw 2 ent of
        (None, ent) \<Rightarrow> (Inl ob_invalid_nonce, out, ent)
      | (Some pick, ent) \<Rightarrow>
          let spn = kPrimingMaxSize - kPrimingMinSize;
              n = kPrimingMinSize + (256 * unat (pick ! 0) + unat (pick ! 1)) mod (spn + 1)
          in if length out < n then (Inl ob_buffer_too_small, out, ent)
             else (case draw n ent of
                     (None, ent) \<Rightarrow> (Inl ob_invalid_nonce, out, ent)
                   | (Some b, ent) \<Rightarrow> (Inr n, copy_to out 0 b, ent)))"

section \<open>Round trip\<close>

lemmas obfuscation_sizes = kObfuscationNonceSize_def kJunkLengthFieldSize_def kObfuscationKeySize_def

text \<open>What an operation on the pools keeps: the key and the configuration.\<close>

definition same_setup :: "Obfuscator \<Rightarrow> Obfuscator \<Rightarrow> bool" where
  "same_setup ob ob' \<longleftrightarrow> of_key ob' = of_key ob \<and> of_config ob' = of_config ob"

lemma same_setup_refl [simp]: "same_setup ob ob"
  by (simp add: same_setup_def)

lemma same_setup_trans: "same_setup a b \<Longrightarrow> same_setup b c \<Longrightarrow> same_setup a c"
  by (simp add: same_setup_def)

lemma next_nonce_ok:
  assumes "next_nonce ob ent = (nonce, ob', ent')"
  shows "length nonce = kObfuscationNonceSize \<and> same_setup ob ob'"
proof -
  define start where "start = (if of_nonce_pos ob + kObfuscationNonceSize > length (of_nonce_pool ob) then
           (case draw (length (of_nonce_pool ob)) ent of
              (None, ent) \<Rightarrow> (ob, ent)
            | (Some pool, ent) \<Rightarrow> (ob\<lparr>of_nonce_pool := pool, of_nonce_pos := 0\<rparr>, ent))
         else (ob, ent))"
  obtain ob1 ent1 where st: "start = (ob1, ent1)" by (cases start)
  have "same_setup ob ob1" using st
    by (auto simp: start_def same_setup_def split: if_split_asm prod.split_asm option.split_asm)
  then show ?thesis using assms unfolding next_nonce_def start_def [symmetric] st
    by (auto simp: same_setup_def split: if_split_asm)
qed

lemma next_junk_byte_setup: "next_junk_byte ob ent = (b, ob', ent') \<Longrightarrow> same_setup ob ob'"
  by (auto simp: next_junk_byte_def same_setup_def split: if_split_asm prod.split_asm option.split_asm)

lemma junk_bytes_ok:
  "junk_bytes n ob ent = (bs, ob', ent') \<Longrightarrow> length bs = n \<and> same_setup ob ob'"
proof (induction n arbitrary: ob ent bs ob' ent')
  case (Suc n)
  obtain b ob1 ent1 where b: "next_junk_byte ob ent = (b, ob1, ent1)" by (cases "next_junk_byte ob ent")
  obtain bs2 ob2 ent2 where bs: "junk_bytes n ob1 ent1 = (bs2, ob2, ent2)" by (cases "junk_bytes n ob1 ent1")
  show ?case using Suc.IH [OF bs] Suc.prems same_setup_trans [OF next_junk_byte_setup [OF b]]
    by (auto simp: b bs)
qed auto

definition junk_cap :: "ObfuscationConfig \<Rightarrow> nat" where
  "junk_cap config = (if oc_junk_padding config then unat (oc_junk_max config) else 0)"

lemma junk_length_for_le: "junk_length_for config n entropy \<le> unat (oc_junk_max config)"
proof -
  have m: "flr + a mod (cap - flr + 1) \<le> cap" if "flr \<le> cap" for a cap flr :: nat
    using that mod_less_divisor [of "cap - flr + 1" a] by linarith
  have *: "(if u then flr else flr + a mod (cap - flr + 1)) \<le> cap" if "flr \<le> cap" for u and a cap flr :: nat
    using that m by (cases u) (simp_all only: if_True if_False)
  show ?thesis unfolding junk_length_for_def Let_def by (rule *) (simp only: split: if_split, simp)
qed

lemma choose_junk_ok:
  assumes "choose_junk ob n ent = (junk, ob', ent')"
  shows "junk \<le> junk_cap (of_config ob) \<and> same_setup ob ob'"
proof -
  obtain bs ob1 ent1 where j: "junk_bytes 4 ob ent = (bs, ob1, ent1)" by (cases "junk_bytes 4 ob ent")
  show ?thesis using assms junk_bytes_ok [OF j] junk_length_for_le
    by (auto simp: choose_junk_def junk_cap_def j Let_def split: if_split_asm)
qed

lemma junk_cap_le: "junk_cap config \<le> 255"
proof -
  have "unat (oc_junk_max config) < 2 ^ LENGTH(8)" by (rule unsigned_less)
  then show ?thesis by (simp add: junk_cap_def)
qed

lemma length_derive_obfuscation_key [simp]: "length (derive_obfuscation_key preshared) = 32"
  by (simp add: derive_obfuscation_key_def copy_to_def obfuscation_sizes)

text \<open>Under the law of the cipher a mask is an involution that keeps the length.\<close>

lemma mask_region_some:
  assumes "stream_laws f" "length (of_key ob) = 32" "length nonce = kObfuscationNonceSize"
  obtains masked where "mask_region f ob nonce region = Some masked" "length masked = length region"
    "\<And>ob'. of_key ob' = of_key ob \<Longrightarrow> mask_region f ob' nonce masked = Some region"
proof (cases "region = []")
  case True
  then show ?thesis using assms that [of "[]"]
    by (simp add: mask_region_def keystream_xor_def obfuscation_sizes)
next
  case False
  let ?m = "f region nonce (of_key ob)"
  have m: "length ?m = length region" "f ?m nonce (of_key ob) = region"
    using assms(1) by (simp_all add: stream_laws_def)
  then have "?m \<noteq> []" using False by auto
  then show ?thesis using assms(2,3) m False that [of ?m]
    by (simp add: mask_region_def keystream_xor_def obfuscation_sizes)
qed

lemma split_list_4:
  assumes "a + Suc (b + c) \<le> length out"
  obtains x y z w v where "out = x @ y # z @ w @ v" "length x = a" "length z = b" "length w = c"
proof -
  have "out = take a out @ drop a out" by simp
  moreover obtain y rest where r: "drop a out = y # rest" using assms by (cases "drop a out") auto
  moreover have "rest = take b rest @ take c (drop b rest) @ drop c (drop b rest)"
    by (simp only: append_take_drop_id)
  moreover have "b + c \<le> length rest" using assms arg_cong [OF r, of length] by simp
  ultimately show ?thesis
    using that [of "take a out" y "take b rest" "take c (drop b rest)" "drop c (drop b rest)"] assms by simp
qed

lemma wrap_full:
  assumes laws: "stream_laws f" and key: "length (of_key ob) = 32" and mode: "oc_mode (of_config ob) = mode_full"
    and room: "length plaintext + max_overhead ob \<le> length out"
  obtains nonce junk masked rest ob' ent' where
    "wrap f ob plaintext out ent = (Inr (8 + length masked), nonce @ masked @ rest, ob', ent')"
    "length nonce = 8" "length masked = 1 + length junk + length plaintext"
    "length junk \<le> junk_cap (of_config ob)" "same_setup ob ob'"
    "\<And>rb. of_key rb = of_key ob \<Longrightarrow> mask_region f rb nonce masked = Some (of_nat (length junk) # junk @ plaintext)"
proof -
  obtain nonce ob1 ent1 where n: "next_nonce ob ent = (nonce, ob1, ent1)" by (cases "next_nonce ob ent")
  obtain junk ob2 ent2 where c: "choose_junk ob1 (length plaintext) ent1 = (junk, ob2, ent2)"
    by (cases "choose_junk ob1 (length plaintext) ent1")
  obtain bs ob3 ent3 where j: "junk_bytes junk ob2 ent2 = (bs, ob3, ent3)" by (cases "junk_bytes junk ob2 ent2")
  have s1: "length nonce = 8" "same_setup ob ob1" using next_nonce_ok [OF n] by (simp_all add: obfuscation_sizes)
  have s2: "junk \<le> junk_cap (of_config ob)" "same_setup ob ob2"
    using choose_junk_ok [OF c] s1(2) by (auto simp: same_setup_def)
  have s3: "length bs = junk" "same_setup ob ob3" using junk_bytes_ok [OF j] s2(2) by (auto simp: same_setup_def)
  have "8 + Suc (junk + length plaintext) \<le> length out"
    using room s2(1) mode by (simp add: max_overhead_def junk_cap_def obfuscation_sizes)
  then obtain x y z w v where out: "out = x @ y # z @ w @ v" and len: "length x = 8" "length z = junk"
    "length w = length plaintext" by (rule split_list_4)
  let ?region = "of_nat junk # bs @ plaintext"
  have key3: "length (of_key ob3) = 32" using key s3(2) by (simp add: same_setup_def)
  have nonce: "length nonce = kObfuscationNonceSize" using s1(1) by (simp add: obfuscation_sizes)
  obtain masked where m: "mask_region f ob3 nonce ?region = Some masked" "length masked = length ?region"
    "\<And>ob'. of_key ob' = of_key ob3 \<Longrightarrow> mask_region f ob' nonce masked = Some ?region"
    by (rule mask_region_some [OF laws key3 nonce, of ?region]) blast
  let ?j = "of_nat junk :: byte"
  have copies: "copy_to out 0 nonce = nonce @ y # z @ w @ v"
    "(nonce @ y # z @ w @ v)[8 := ?j] = nonce @ ?j # z @ w @ v"
    "copy_to (nonce @ ?j # z @ w @ v) (8 + 1) bs = nonce @ ?j # bs @ w @ v"
    "copy_to (nonce @ ?j # bs @ w @ v) (8 + 1 + junk) plaintext = nonce @ ?j # bs @ plaintext @ v"
    "take (1 + junk + length plaintext) (drop 8 (nonce @ ?j # bs @ plaintext @ v)) = ?region"
    "copy_to (nonce @ ?j # bs @ plaintext @ v) 8 masked = nonce @ masked @ v"
    using s1(1) s3(1) m(2) len by (simp_all add: copy_to_def out list_update_append)
  have conf: "of_config ob1 = of_config ob" using s1(2) by (simp add: same_setup_def)
  have "wrap f ob plaintext out ent = (Inr (8 + length masked), nonce @ masked @ v, ob3, ent3)"
    using mode s1(1) s3(1) m(1,2) len unfolding wrap_def n c j Let_def prod.case conf obfuscation_sizes copies
    by (simp add: out copies(6))
  then show ?thesis using that [of masked nonce v ob3 ent3 bs] s1 s2 s3 m by (simp add: same_setup_def)
qed

lemma unwrap_full:
  assumes mode: "oc_mode (of_config rb) = mode_full" and "length nonce = 8" "length junk \<le> 255"
    and m: "mask_region f rb nonce masked = Some (of_nat (length junk) # junk @ plaintext)"
    and "masked \<noteq> []" "length plaintext \<le> length out"
  shows "unwrap f rb (nonce @ masked) out = (Inr (length plaintext), copy_to out 0 plaintext)"
proof -
  have "unat (of_nat (length junk) :: byte) = length junk"
    using assms(3) by (simp add: unat_of_nat)
  then show ?thesis using assms by (simp add: unwrap_def Let_def obfuscation_sizes)
qed

lemma mask_header:
  assumes laws: "stream_laws f" and key: "length (of_key ob) = 32" and mode: "oc_mode (of_config ob) = mode_header_mask"
    and room: "length plaintext + max_overhead ob \<le> length out"
  obtains nonce masked rest ob' ent' where
    "wrap f ob plaintext out ent = (Inr (8 + length masked), nonce @ masked @ rest, ob', ent')"
    "length nonce = 8" "length masked = length plaintext" "same_setup ob ob'"
    "\<And>rb rout. of_key rb = of_key ob \<Longrightarrow> oc_mode (of_config rb) = mode_header_mask \<Longrightarrow>
       length plaintext \<le> length rout \<Longrightarrow>
       unwrap f rb (nonce @ masked) rout = (Inr (length plaintext), copy_to rout 0 plaintext)"
proof -
  obtain nonce ob1 ent1 where n: "next_nonce ob ent = (nonce, ob1, ent1)" by (cases "next_nonce ob ent")
  have s1: "length nonce = 8" "same_setup ob ob1" using next_nonce_ok [OF n] by (simp_all add: obfuscation_sizes)
  then have conf: "of_config ob1 = of_config ob" and key1: "of_key ob1 = of_key ob" by (simp_all add: same_setup_def)
  define n where "n = min kPacketHeaderSize (length plaintext)"
  define front where "front = take n plaintext"
  define tl_bytes where "tl_bytes = drop n plaintext"
  have p: "plaintext = front @ tl_bytes" and front: "length front = n" by (simp_all add: front_def tl_bytes_def n_def)
  obtain masked where m: "mask_region f ob1 nonce front = Some masked" "length masked = n"
    "\<And>ob'. of_key ob' = of_key ob1 \<Longrightarrow> mask_region f ob' nonce masked = Some front"
    using mask_region_some [OF laws, of ob1 nonce front] key s1 front by (auto simp: key1 obfuscation_sizes)
  have room8: "8 + length plaintext \<le> length out" using room mode by (simp add: max_overhead_def obfuscation_sizes)
  let ?rest = "drop (8 + length plaintext) out"
  have copies: "copy_to out 0 nonce = nonce @ drop 8 out"
    "copy_to (nonce @ drop 8 out) 8 plaintext = nonce @ plaintext @ ?rest"
    "take n (drop 8 (nonce @ plaintext @ ?rest)) = front"
    "copy_to (nonce @ plaintext @ ?rest) 8 masked = nonce @ (masked @ tl_bytes) @ ?rest"
    using s1(1) room8 m(2) front by (simp_all add: copy_to_def p add.commute)
  have "wrap f ob plaintext out ent = (Inr (8 + length (masked @ tl_bytes)), nonce @ (masked @ tl_bytes) @ ?rest, ob1, ent1)"
    using mode s1(1) m(1,2) room8 front unfolding wrap_def \<open>next_nonce ob ent = _\<close> Let_def prod.case conf
      obfuscation_sizes n_def [symmetric] copies by (auto simp: copy_to_def p)
  moreover have "min kPacketHeaderSize (n + length tl_bytes) = n"
    by (simp add: n_def tl_bytes_def)
  then have "unwrap f rb (nonce @ masked @ tl_bytes) rout = (Inr (length plaintext), copy_to rout 0 plaintext)"
    if "of_key rb = of_key ob" "oc_mode (of_config rb) = mode_header_mask" "length plaintext \<le> length rout" for rb rout
    using that m s1(1) front by (simp add: unwrap_def Let_def obfuscation_sizes key1 p copy_to_def)
  ultimately show ?thesis using that [of "masked @ tl_bytes" nonce ?rest ob1 ent1] s1 m(2) front by (simp add: p)
qed

text \<open>The sizes of priming packets.\<close>

lemma generate_priming_sizes:
  assumes "generate_priming out ent = (Inr n, out', ent')"
  shows "kPrimingMinSize \<le> n \<and> n \<le> kPrimingMaxSize \<and> length out' = length out"
proof -
  have "kPrimingMinSize + m mod (kPrimingMaxSize - kPrimingMinSize + 1) \<le> kPrimingMaxSize" for m
    using mod_less_divisor [of "kPrimingMaxSize - kPrimingMinSize + 1" m]
    by (simp add: kPrimingMinSize_def kPrimingMaxSize_def)
  then show ?thesis using assms
    by (auto simp: generate_priming_def Let_def draw_def copy_to_def
        split: list.split_asm option.split_asm prod.split_asm if_split_asm)
qed

text \<open>
  C15: what one end wraps the other end unwraps. Both ends hold the key of the same preshared secret and run
  in the same mode; their junk settings may differ, the pools may be in any state and the random number
  generator may fail at any call. Then, given a buffer with room for the announced overhead, wrapping never
  fails and keeps to that overhead, the key stays in place, and the other end gets back exactly the
  plaintext.
\<close>

theorem wrap_unwrap:
  assumes "stream_laws f"
    and "of_key ob = derive_obfuscation_key preshared" "of_key rb = derive_obfuscation_key preshared"
    and "oc_mode (of_config ob) \<noteq> mode_off" "oc_mode (of_config rb) = oc_mode (of_config ob)"
    and "length plaintext + max_overhead ob \<le> length out" "length plaintext \<le> length rout"
  shows "\<exists>n out' ob' ent'. wrap f ob plaintext out ent = (Inr n, out', ob', ent') \<and>
    n \<le> length plaintext + max_overhead ob \<and> of_key ob' = of_key ob \<and> of_config ob' = of_config ob \<and>
    unwrap f rb (take n out') rout = (Inr (length plaintext), copy_to rout 0 plaintext)"
proof -
  have key: "length (of_key ob) = 32" "of_key rb = of_key ob" using assms(2,3) by simp_all
  consider "oc_mode (of_config ob) = mode_header_mask" | "oc_mode (of_config ob) = mode_full"
    using assms(4) by (cases "oc_mode (of_config ob)") auto
  then show ?thesis
  proof cases
    case 1
    from mask_header [OF assms(1) key(1) 1 assms(6)] obtain nonce masked rest ob' ent' where
      w: "wrap f ob plaintext out ent = (Inr (8 + length masked), nonce @ masked @ rest, ob', ent')"
      "length nonce = 8" "length masked = length plaintext" "same_setup ob ob'"
      "unwrap f rb (nonce @ masked) rout = (Inr (length plaintext), copy_to rout 0 plaintext)"
      by (metis key(2) 1 assms(5,7))
    with 1 show ?thesis by (simp add: same_setup_def max_overhead_def obfuscation_sizes)
  next
    case 2
    from wrap_full [OF assms(1) key(1) 2 assms(6)] obtain nonce junk masked rest ob' ent' where
      w: "wrap f ob plaintext out ent = (Inr (8 + length masked), nonce @ masked @ rest, ob', ent')"
      "length nonce = 8" "length masked = 1 + length junk + length plaintext"
      "length junk \<le> junk_cap (of_config ob)" "same_setup ob ob'"
      "mask_region f rb nonce masked = Some (of_nat (length junk) # junk @ plaintext)"
      by (metis key(2))
    moreover have "length junk \<le> 255" using w(4) junk_cap_le [of "of_config ob"] by simp
    moreover have "masked \<noteq> []" using w(3) by auto
    ultimately show ?thesis using unwrap_full [of rb nonce junk f masked plaintext rout] 2 assms(5,7)
      by (simp add: same_setup_def max_overhead_def junk_cap_def obfuscation_sizes)
  qed
qed

theorem wrap_unwrap_witness:
  "let f = (\<lambda>m nonce key. map (\<lambda>b. b XOR 0x55) m); key = derive_obfuscation_key [1, 2, 3];
       ob = new_obfuscator\<lparr>of_key := key, of_config := default_obfuscation
         \<lparr>oc_mode := mode_full, oc_junk_padding := True\<rparr>, of_junk_ready := True\<rparr>;
       rb = new_obfuscator\<lparr>of_key := key, of_config := default_obfuscation\<lparr>oc_mode := mode_full\<rparr>\<rparr>
   in \<exists>n out' ob' ent'. wrap f ob [10, 20, 30] (replicate 100 0) [None] = (Inr n, out', ob', ent') \<and>
    n \<le> length [10, 20, 30 :: byte] + max_overhead ob \<and> of_key ob' = of_key ob \<and> of_config ob' = of_config ob \<and>
    unwrap f rb (take n out') [0, 0, 0, 0] = (Inr (length [10, 20, 30 :: byte]), copy_to [0, 0, 0, 0] 0 [10, 20, 30])"
  unfolding Let_def
  by (rule wrap_unwrap [where preshared = "[1, 2, 3]"])
    (simp_all add: stream_laws_def comp_def xor.assoc default_obfuscation_def max_overhead_def obfuscation_sizes)

end
