(* ===== verification/Camouflage.thy ===== *)
theory Camouflage
  imports Obfuscation
begin

text \<open>
  Hiding the tunnel in a TLS connection: the authentication hidden in the hello messages (src/reality.cpp) and
  the framer that speaks TLS records (src/camouflage.cpp). X25519 and the stream cipher are those of the
  library record and of \<open>Obfuscation\<close>; random bytes come from the list of answers of the generator, the
  private key a new key pair gets and the wall clock in seconds are arguments.
\<close>

section \<open>Authentication in the hello messages\<close>

definition kRealityShortIdSize :: nat where "kRealityShortIdSize = 8"
definition kRealityCipherSize :: nat where "kRealityCipherSize = 16"
definition kRealityMacSize :: nat where "kRealityMacSize = 16"
definition kRealitySessionIdSize :: nat where "kRealitySessionIdSize = kRealityCipherSize + kRealityMacSize"
definition kRealityAuthSize :: nat where "kRealityAuthSize = 32"
definition kRealityNonceSize :: nat where "kRealityNonceSize = 8"
definition kPublicKeySize :: nat where "kPublicKeySize = 32"
definition kRealityDomain :: string where "kRealityDomain = ''norr-reality-v1''"
definition kRealityAuthDomain :: string where "kRealityAuthDomain = ''norr-reality-server-v1''"

definition reality_key :: "bytes \<Rightarrow> bytes" where
  "reality_key secret = copy_to (replicate 32 0) 0 (take 32 (hkdf_extract (map byte_of_char kRealityDomain) secret))"

record RealityClientHello =
  rh_ephemeral :: KeyPair
  rh_session_id :: bytes

definition reality_client_hello ::
  "sodium \<Rightarrow> stream_xor \<Rightarrow> bytes \<Rightarrow> bytes \<Rightarrow> bytes \<Rightarrow> u64 \<Rightarrow> CryptoError + RealityClientHello" where
  "reality_client_hello lib f random server_public short_id unix_time =
     (case generate_keypair lib random of
        Inl e \<Rightarrow> Inl e
      | Inr ephemeral \<Rightarrow>
          (case x25519 lib (kp_private ephemeral) server_public of
             Inl e \<Rightarrow> Inl e
           | Inr secret \<Rightarrow>
               let key = reality_key secret;
                   plain = to_be 8 unix_time @ short_id;
                   nonce = take kRealityNonceSize (kp_public ephemeral)
               in (case keystream_xor f key nonce plain of
                     Inl e \<Rightarrow> Inl ce_initialisation_failed
                   | Inr cipher \<Rightarrow>
                       let mac = hmac_blake2s key (kp_public ephemeral @ cipher)
                       in Inr \<lparr>rh_ephemeral = ephemeral, rh_session_id = cipher @ take kRealityMacSize mac\<rparr>)))"

record RealityServerResult =
  rr_authenticated :: bool
  rr_short_id :: bytes
  rr_timestamp :: u64

definition reality_refused :: RealityServerResult where
  "reality_refused = \<lparr>rr_authenticated = False, rr_short_id = replicate kRealityShortIdSize 0, rr_timestamp = 0\<rparr>"

definition reality_server_verify ::
  "sodium \<Rightarrow> stream_xor \<Rightarrow> bytes \<Rightarrow> bytes \<Rightarrow> bytes \<Rightarrow> u64 \<Rightarrow> u64 \<Rightarrow> RealityServerResult" where
  "reality_server_verify lib f server_private client_key_share session_id now window_seconds =
     (if length session_id \<noteq> kRealitySessionIdSize then reality_refused
      else
        case x25519 lib server_private client_key_share of
          Inl e \<Rightarrow> reality_refused
        | Inr secret \<Rightarrow>
            let key = reality_key secret;
                cipher = take kRealityCipherSize session_id;
                mac = take kRealityMacSize (drop kRealityCipherSize session_id);
                expected = hmac_blake2s key (client_key_share @ cipher)
            in if \<not> constant_time_equal mac (take kRealityMacSize expected) then reality_refused
               else
                 (case keystream_xor f key (take kRealityNonceSize client_key_share) cipher of
                    Inl e \<Rightarrow> reality_refused
                  | Inr plain \<Rightarrow>
                      let timestamp = be (take 8 plain);
                          delta = (if now > timestamp then now - timestamp else timestamp - now)
                      in if delta > window_seconds then reality_refused
                         else \<lparr>rr_authenticated = True, rr_short_id = drop 8 plain, rr_timestamp = timestamp\<rparr>))"

definition auth_tag :: "bytes \<Rightarrow> bytes \<Rightarrow> bytes" where
  "auth_tag secret server_key_share =
     (let key = copy_to (replicate 32 0) 0 (take 32 (hkdf_extract (map byte_of_char kRealityAuthDomain) secret))
      in take kRealityAuthSize (hmac_blake2s key server_key_share))"

definition reality_server_auth :: "sodium \<Rightarrow> bytes \<Rightarrow> bytes \<Rightarrow> bytes \<Rightarrow> CryptoError + bytes" where
  "reality_server_auth lib server_private client_key_share server_key_share =
     (case x25519 lib server_private client_key_share of
        Inl e \<Rightarrow> Inl e | Inr secret \<Rightarrow> Inr (auth_tag secret server_key_share))"

definition reality_verify_server_auth :: "sodium \<Rightarrow> bytes \<Rightarrow> bytes \<Rightarrow> bytes \<Rightarrow> bytes \<Rightarrow> bool" where
  "reality_verify_server_auth lib client_ephemeral_private server_static_public server_key_share claimed_auth =
     (if length claimed_auth \<noteq> kRealityAuthSize then False
      else
        case x25519 lib client_ephemeral_private server_static_public of
          Inl e \<Rightarrow> False
        | Inr secret \<Rightarrow> constant_time_equal claimed_auth (auth_tag secret server_key_share))"

section \<open>TLS records\<close>

definition kTlsRecordHeaderSize :: nat where "kTlsRecordHeaderSize = 5"
definition kTlsMaxRecordPayload :: nat where "kTlsMaxRecordPayload = 16384"
definition kTlsRandomSize :: nat where "kTlsRandomSize = 32"
definition kTlsSessionIdSize :: nat where "kTlsSessionIdSize = 32"
definition kCertificateFlightRecords :: nat where "kCertificateFlightRecords = 4"

text \<open>The record types keep their codes: 20 to 23.\<close>

type_synonym TlsRecordType = u8

definition rt_change_cipher_spec :: TlsRecordType where "rt_change_cipher_spec = 20"
definition rt_alert :: TlsRecordType where "rt_alert = 21"
definition rt_handshake :: TlsRecordType where "rt_handshake = 22"
definition rt_application_data :: TlsRecordType where "rt_application_data = 23"

datatype CamouflageError = cm_need_more | cm_malformed | cm_oversized | cm_buffer_too_small

definition camouflage_error_message :: "CamouflageError \<Rightarrow> string" where
  "camouflage_error_message e = (case e of
     cm_need_more \<Rightarrow> ''incomplete record'' | cm_malformed \<Rightarrow> ''malformed TLS record''
   | cm_oversized \<Rightarrow> ''record exceeds TLS limit'' | cm_buffer_too_small \<Rightarrow> ''output buffer too small'')"

record TlsRecordView =
  tr_type :: TlsRecordType
  tr_payload :: bytes
  tr_consumed :: nat

definition write_record_header :: "TlsRecordType \<Rightarrow> nat \<Rightarrow> bytes \<Rightarrow> nat \<times> bytes" where
  "write_record_header type len out =
     (if length out < kTlsRecordHeaderSize then (0, out)
      else (kTlsRecordHeaderSize,
            out[0 := type, 1 := 0x03, 2 := 0x03, 3 := of_nat (len div 256), 4 := of_nat len]))"

definition parse_record :: "bytes \<Rightarrow> CamouflageError + TlsRecordView" where
  "parse_record b =
     (if length b < kTlsRecordHeaderSize then Inl cm_need_more
      else
        let type = b ! 0; major = b ! 1; len = unat (b ! 3) * 256 + unat (b ! 4)
        in if major \<noteq> 0x03 then Inl cm_malformed
           else if type < 20 \<or> type > 23 then Inl cm_malformed
           else if len > kTlsMaxRecordPayload then Inl cm_oversized
           else if length b < kTlsRecordHeaderSize + len then Inl cm_need_more
           else Inr \<lparr>tr_type = type, tr_payload = take len (drop kTlsRecordHeaderSize b),
                     tr_consumed = kTlsRecordHeaderSize + len\<rparr>)"

definition push_u16 :: "u16 \<Rightarrow> bytes" where "push_u16 v = to_be 2 v"

definition random_fill :: "nat \<Rightarrow> entropy \<Rightarrow> bytes \<times> entropy" where
  "random_fill n ent = (case draw n ent of (None, ent) \<Rightarrow> (replicate n 0, ent) | (Some b, ent) \<Rightarrow> (b, ent))"

definition framed_handshake :: "u8 \<Rightarrow> bytes \<Rightarrow> u16 \<Rightarrow> bytes" where
  "framed_handshake message_type body record_version =
     (let handshake = [message_type] @ to_be 3 (of_nat (length body) :: u32) @ body
      in [rt_handshake] @ push_u16 record_version @ push_u16 (of_nat (length handshake)) @ handshake)"

definition grease_value :: "entropy \<Rightarrow> u16 \<times> entropy" where
  "grease_value ent =
     (let (answer, ent) = draw 1 ent;
          nibble = (case answer of Some pick \<Rightarrow> ucast (pick ! 0) AND 0x0F | None \<Rightarrow> 0x0A);
          b = push_bit 4 nibble OR 0x0A
      in (push_bit 8 b OR b, ent))"

definition kClientCiphers :: "u16 list" where
  "kClientCiphers = [0x1301, 0x1302, 0x1303, 0xc02b, 0xc02f, 0xc02c, 0xc030,
     0xcca9, 0xcca8, 0xc013, 0xc014, 0x009c, 0x009d, 0x002f, 0x0035]"

definition kSignatures :: "u16 list" where
  "kSignatures = [0x0403, 0x0804, 0x0401, 0x0503, 0x0805, 0x0501, 0x0806, 0x0601]"

text \<open>The extensions of a client hello, in the order they are written.\<close>

definition client_extensions :: "u16 \<Rightarrow> string \<Rightarrow> bytes \<Rightarrow> bytes" where
  "client_extensions grease server_name share =
     (let name_len = of_nat (length server_name) :: u16 in
      push_u16 grease @ push_u16 0 @
      push_u16 0x0000 @ push_u16 (name_len + 5) @ push_u16 (name_len + 3) @ [0] @ push_u16 name_len @
        map byte_of_char server_name @
      push_u16 0x0017 @ push_u16 0 @
      push_u16 0x000d @ push_u16 (of_nat (length kSignatures * 2 + 2)) @ push_u16 (of_nat (length kSignatures * 2)) @
        concat (map push_u16 kSignatures) @
      push_u16 0x0010 @ push_u16 14 @ push_u16 12 @ [2, byte_of_char (CHR ''h''), byte_of_char (CHR ''2''), 8] @
        map byte_of_char ''http/1.1'' @
      push_u16 0x0005 @ push_u16 5 @ [1] @ to_be 4 (0 :: u32) @
      push_u16 0x000b @ push_u16 2 @ [1, 0] @
      push_u16 0x000a @ push_u16 10 @ push_u16 8 @ push_u16 grease @ push_u16 0x001d @ push_u16 0x0017 @ push_u16 0x0018 @
      push_u16 0x0023 @ push_u16 0 @
      push_u16 0x002d @ push_u16 2 @ [1, 0] @
      push_u16 0x002b @ push_u16 7 @ [6] @ push_u16 grease @ push_u16 0x0304 @ push_u16 0x0303 @
      push_u16 0x0033 @ push_u16 (of_nat (kTlsRandomSize + 11)) @ push_u16 (of_nat (kTlsRandomSize + 9)) @
        push_u16 grease @ push_u16 1 @ [0] @ push_u16 0x001d @ push_u16 (of_nat kTlsRandomSize) @ share @
      push_u16 grease @ push_u16 1 @ [0])"

definition build_client_hello :: "string \<Rightarrow> bytes \<Rightarrow> bytes \<Rightarrow> entropy \<Rightarrow> bytes \<times> entropy" where
  "build_client_hello server_name key_share session_id ent =
     (let (grease, ent) = grease_value ent;
          ciphers = grease # kClientCiphers;
          (random, ent) = random_fill kTlsRandomSize ent;
          (sid, ent) = (if length session_id = kTlsSessionIdSize then (session_id, ent)
                        else random_fill kTlsSessionIdSize ent);
          (share, ent) = (if length key_share = kTlsRandomSize then (key_share, ent)
                          else random_fill kTlsRandomSize ent);
          ext = client_extensions grease server_name share;
          body = push_u16 0x0303 @ random @ [of_nat kTlsSessionIdSize] @ sid @
            push_u16 (of_nat (length ciphers * 2)) @ concat (map push_u16 ciphers) @ [1, 0] @
            push_u16 (of_nat (length ext)) @ ext
      in (framed_handshake 0x01 body 0x0301, ent))"

definition build_server_hello :: "bytes \<Rightarrow> bytes \<Rightarrow> bytes \<Rightarrow> entropy \<Rightarrow> bytes \<times> entropy" where
  "build_server_hello session_id key_share auth ent =
     (let (random, ent) = (if length auth = kRealityAuthSize then (auth, ent) else random_fill kTlsRandomSize ent);
          (sid, ent) = (if 1 \<le> length session_id \<and> length session_id \<le> 32
                        then ([of_nat (length session_id)] @ session_id, ent)
                        else (case random_fill kTlsSessionIdSize ent of (b, ent) \<Rightarrow> ([of_nat kTlsSessionIdSize] @ b, ent)));
          (share, ent) = (if length key_share = kTlsRandomSize then (key_share, ent)
                          else random_fill kTlsRandomSize ent);
          ext = push_u16 0x002b @ push_u16 2 @ push_u16 0x0304 @
            push_u16 0x0033 @ push_u16 (of_nat (kTlsRandomSize + 4)) @ push_u16 0x001d @
            push_u16 (of_nat kTlsRandomSize) @ share;
          body = push_u16 0x0303 @ random @ sid @ push_u16 0x1301 @ [0] @ push_u16 (of_nat (length ext)) @ ext
      in (framed_handshake 0x02 body 0x0303, ent))"

definition flight_record :: "nat \<Rightarrow> entropy \<Rightarrow> bytes \<times> entropy" where
  "flight_record base ent =
     (let (answer, ent) = draw 1 ent;
          jitter = (case answer of Some pick \<Rightarrow> unat (pick ! 0) mod 97 | None \<Rightarrow> 0);
          len = base + jitter;
          header = snd (write_record_header rt_application_data len (replicate kTlsRecordHeaderSize 0));
          (b, ent) = random_fill len ent
      in (header @ b, ent))"

fun flight_records :: "nat list \<Rightarrow> entropy \<Rightarrow> bytes \<times> entropy" where
  "flight_records [] ent = ([], ent)"
| "flight_records (base # bases) ent =
     (let (r, ent) = flight_record base ent; (rs, ent) = flight_records bases ent in (r @ rs, ent))"

definition build_certificate_flight :: "entropy \<Rightarrow> bytes \<times> entropy" where
  "build_certificate_flight ent = flight_records [32, 1400, 280, 52] ent"

definition build_change_cipher_spec :: bytes where
  "build_change_cipher_spec = [rt_change_cipher_spec] @ push_u16 0x0303 @ push_u16 1 @ [1]"

definition looks_like_client_hello :: "bytes \<Rightarrow> bool" where
  "looks_like_client_hello b =
     (if length b < kTlsRecordHeaderSize + 4 then False
      else if b ! 0 \<noteq> rt_handshake then False
      else if b ! 1 \<noteq> 0x03 then False
      else b ! kTlsRecordHeaderSize = 0x01)"

subsection \<open>Key shares in the hello messages\<close>

text \<open>An empty span is the empty list.\<close>

definition rd16 :: "bytes \<Rightarrow> nat \<Rightarrow> nat" where
  "rd16 b k = unat (b ! k) * 256 + unat (b ! (k + 1))"

function share_loop :: "bytes \<Rightarrow> nat \<Rightarrow> nat \<Rightarrow> bytes" where
  "share_loop record list_end q =
     (if q + 4 \<le> list_end then
        let group = rd16 record q; klen = rd16 record (q + 2); kbody = q + 4
        in if kbody + klen > list_end then []
           else if group = 0x001d \<and> klen = kPublicKeySize then take klen (drop kbody record)
           else share_loop record list_end (kbody + klen)
      else [])"
  by auto
termination
  by (relation "measure (\<lambda>(record, list_end, q). list_end - q)") auto

function extension_loop :: "bytes \<Rightarrow> nat \<Rightarrow> nat \<Rightarrow> bytes" where
  "extension_loop record ext_end p =
     (if p + 4 \<le> ext_end then
        let ext_type = rd16 record p; ext_len = rd16 record (p + 2); ext_body = p + 4
        in if ext_body + ext_len > ext_end then []
           else if ext_type = 0x0033 then
             if ext_body + 2 > ext_body + ext_len then []
             else
               let list_len = rd16 record ext_body; q = ext_body + 2;
                   list_end = min (ext_body + ext_len) (q + list_len)
               in share_loop record list_end q
           else extension_loop record ext_end (ext_body + ext_len)
      else [])"
  by auto
termination
  by (relation "measure (\<lambda>(record, ext_end, p). ext_end - p)") auto

function server_extension_loop :: "bytes \<Rightarrow> nat \<Rightarrow> nat \<Rightarrow> bytes" where
  "server_extension_loop record ext_end p =
     (if p + 4 \<le> ext_end then
        let ext_type = rd16 record p; ext_len = rd16 record (p + 2); ext_body = p + 4
        in if ext_body + ext_len > ext_end then []
           else if ext_type = 0x0033 then
             if ext_len \<ge> 4 \<and> rd16 record ext_body = 0x001d \<and> rd16 record (ext_body + 2) = kPublicKeySize \<and>
                ext_body + 4 + kPublicKeySize \<le> ext_end
             then take kPublicKeySize (drop (ext_body + 4) record)
             else []
           else server_extension_loop record ext_end (ext_body + ext_len)
      else [])"
  by auto
termination
  by (relation "measure (\<lambda>(record, ext_end, p). ext_end - p)") auto

declare share_loop.simps [simp del] extension_loop.simps [simp del] server_extension_loop.simps [simp del]

definition extract_key_share_x25519 :: "bytes \<Rightarrow> bytes" where
  "extract_key_share_x25519 record =
     (let p = kTlsRecordHeaderSize + 4
      in if length record < p + 2 + kTlsRandomSize + 1 then []
         else
           let p = p + (2 + kTlsRandomSize);
               p = p + (1 + unat (record ! p))
           in if length record < p + 2 then []
              else
                let p = p + (2 + rd16 record p)
                in if length record < p + 1 then []
                   else
                     let p = p + (1 + unat (record ! p))
                     in if length record < p + 2 then []
                        else
                          let ext_total = rd16 record p; p = p + 2;
                              ext_end = min (length record) (p + ext_total)
                          in extension_loop record ext_end p)"

definition extract_server_key_share :: "bytes \<Rightarrow> bytes" where
  "extract_server_key_share record =
     (let p = kTlsRecordHeaderSize + 4
      in if length record < p + 2 + kTlsRandomSize + 1 then []
         else
           let p = p + (2 + kTlsRandomSize);
               p = p + (1 + unat (record ! p))
           in if length record < p + 2 + 1 + 2 then []
              else
                let p = p + (2 + 1);
                    ext_total = rd16 record p; p = p + 2;
                    ext_end = min (length record) (p + ext_total)
                in server_extension_loop record ext_end p)"

section \<open>The framer\<close>

datatype CamoRole = camo_client | camo_server

record CamouflageFramer =
  cf_role :: CamoRole
  cf_server_name :: string
  cf_opened :: bool
  cf_handshake_done :: bool
  cf_sent_reply :: bool
  cf_violated :: bool
  cf_inbox :: bytes
  cf_consumed :: nat
  cf_pending_reply :: bytes
  cf_reality_enabled :: bool
  cf_reality_authenticated :: bool
  cf_reality_server_verified :: bool
  cf_flight_armed :: bool
  cf_flight_remaining :: nat
  cf_reality_rejected :: bool
  cf_reality_server_public :: bytes
  cf_reality_server_private :: bytes
  cf_reality_short_id :: bytes
  cf_reality_ephemeral :: KeyPair
  cf_reality_window :: u64
  cf_fallback_prelude :: bytes

definition new_framer :: "CamoRole \<Rightarrow> string \<Rightarrow> CamouflageFramer" where
  "new_framer role server_name =
     \<lparr>cf_role = role, cf_server_name = server_name, cf_opened = False, cf_handshake_done = False,
      cf_sent_reply = False, cf_violated = False, cf_inbox = [], cf_consumed = 0, cf_pending_reply = [],
      cf_reality_enabled = False, cf_reality_authenticated = False, cf_reality_server_verified = False,
      cf_flight_armed = False, cf_flight_remaining = 0, cf_reality_rejected = False,
      cf_reality_server_public = replicate 32 0, cf_reality_server_private = replicate 32 0,
      cf_reality_short_id = replicate 8 0,
      cf_reality_ephemeral = \<lparr>kp_public = replicate 32 0, kp_private = replicate 32 0\<rparr>,
      cf_reality_window = 120, cf_fallback_prelude = []\<rparr>"

definition configure_reality_client :: "CamouflageFramer \<Rightarrow> bytes \<Rightarrow> bytes \<Rightarrow> CamouflageFramer" where
  "configure_reality_client c server_public short_id =
     c\<lparr>cf_reality_enabled := True, cf_reality_server_public := server_public, cf_reality_short_id := short_id\<rparr>"

definition configure_reality_server :: "CamouflageFramer \<Rightarrow> bytes \<Rightarrow> u64 \<Rightarrow> CamouflageFramer" where
  "configure_reality_server c server_private window_seconds =
     c\<lparr>cf_reality_enabled := True, cf_reality_server_private := server_private, cf_reality_window := window_seconds\<rparr>"

definition take_fallback_prelude :: "CamouflageFramer \<Rightarrow> bytes \<times> CamouflageFramer" where
  "take_fallback_prelude c = (cf_fallback_prelude c, c\<lparr>cf_fallback_prelude := []\<rparr>)"

definition take_handshake_reply :: "CamouflageFramer \<Rightarrow> bytes \<times> CamouflageFramer" where
  "take_handshake_reply c = (cf_pending_reply c, c\<lparr>cf_pending_reply := []\<rparr>)"

definition open_framer :: "sodium \<Rightarrow> stream_xor \<Rightarrow> u64 \<Rightarrow> bytes \<Rightarrow> CamouflageFramer \<Rightarrow> entropy \<Rightarrow>
    bytes \<times> CamouflageFramer \<times> entropy" where
  "open_framer lib f now random c ent =
     (let c = c\<lparr>cf_opened := True\<rparr>;
          plain = (case build_client_hello (cf_server_name c) [] [] ent of (hello, ent) \<Rightarrow> (hello, c, ent))
      in if cf_role c \<noteq> camo_client then ([], c, ent)
         else if cf_reality_enabled c then
           (case reality_client_hello lib f random (cf_reality_server_public c) (cf_reality_short_id c) now of
              Inl e \<Rightarrow> plain
            | Inr hello \<Rightarrow>
                (case build_client_hello (cf_server_name c) (kp_public (rh_ephemeral hello)) (rh_session_id hello) ent of
                   (b, ent) \<Rightarrow> (b, c\<lparr>cf_reality_ephemeral := rh_ephemeral hello\<rparr>, ent)))
         else plain)"

function camo_wrap_loop :: "bytes \<Rightarrow> nat \<Rightarrow> bytes" where
  "camo_wrap_loop payload offset =
     (if offset < length payload then
        let chunk = min kTlsMaxRecordPayload (length payload - offset)
        in snd (write_record_header rt_application_data chunk (replicate kTlsRecordHeaderSize 0)) @
           take chunk (drop offset payload) @ camo_wrap_loop payload (offset + chunk)
      else [])"
  by auto
termination
  by (relation "measure (\<lambda>(payload, offset). length payload - offset)") (auto simp: kTlsMaxRecordPayload_def)

declare camo_wrap_loop.simps [simp del]

definition camo_wrap :: "bytes \<Rightarrow> bytes" where "camo_wrap payload = camo_wrap_loop payload 0"

definition camo_feed :: "CamouflageFramer \<Rightarrow> bytes \<Rightarrow> CamouflageFramer" where
  "camo_feed c b = c\<lparr>cf_inbox := cf_inbox c @ b\<rparr>"

definition camo_compact :: "CamouflageFramer \<Rightarrow> CamouflageFramer" where
  "camo_compact c =
     (if cf_consumed c = 0 then c else c\<lparr>cf_inbox := drop (cf_consumed c) (cf_inbox c), cf_consumed := 0\<rparr>)"

text \<open>The client checks the first record of the server before anything else; \<open>None\<close> is a violation.\<close>

definition verify_server :: "sodium \<Rightarrow> CamouflageFramer \<Rightarrow> bytes \<Rightarrow> TlsRecordView \<Rightarrow> CamouflageFramer option" where
  "verify_server lib c view record =
     (if cf_role c = camo_client \<and> cf_reality_enabled c \<and> \<not> cf_reality_server_verified c then
        let frame = take (tr_consumed record) view
        in if tr_type record \<noteq> rt_handshake \<or> length frame \<le> kTlsRecordHeaderSize \<or>
              frame ! kTlsRecordHeaderSize \<noteq> 0x02 then None
           else
             let random_offset = kTlsRecordHeaderSize + 4 + 2;
                 share = extract_server_key_share frame;
                 verified =
                   (if length frame \<ge> random_offset + kRealityAuthSize \<and> length share = kPublicKeySize then
                      reality_verify_server_auth lib (kp_private (cf_reality_ephemeral c))
                        (cf_reality_server_public c) share (take kRealityAuthSize (drop random_offset frame))
                    else False)
             in if verified then Some (c\<lparr>cf_reality_server_verified := True\<rparr>) else None
      else Some c)"

definition client_session_id :: "bytes \<Rightarrow> bytes" where
  "client_session_id view =
     (let k = kTlsRecordHeaderSize + 4 + 2 + kTlsRandomSize
      in if length view > k then
           let sid_len = unat (view ! k)
           in if sid_len \<le> 32 \<and> length view \<ge> k + 1 + sid_len then take sid_len (drop (k + 1) view) else []
         else [])"

text \<open>The verdict of the server on the hello of a client.\<close>

definition judge_client :: "sodium \<Rightarrow> stream_xor \<Rightarrow> u64 \<Rightarrow> CamouflageFramer \<Rightarrow> bytes \<Rightarrow> bytes \<Rightarrow> CamouflageFramer" where
  "judge_client lib f now c hello session_id =
     (if cf_reality_enabled c then
        let key_share = extract_key_share_x25519 hello;
            c = (if length key_share = kPublicKeySize \<and> length session_id = kRealitySessionIdSize then
                   let verdict = reality_server_verify lib f (cf_reality_server_private c) key_share session_id now
                         (cf_reality_window c)
                   in c\<lparr>cf_reality_authenticated := rr_authenticated verdict,
                        cf_reality_rejected := \<not> rr_authenticated verdict\<rparr>
                 else c\<lparr>cf_reality_rejected := True\<rparr>)
        in if cf_reality_rejected c then c\<lparr>cf_fallback_prelude := hello\<rparr> else c
      else c)"

text \<open>The key share and the tag the server answers with; both are empty without an authenticated client.\<close>

definition server_credentials :: "sodium \<Rightarrow> bytes \<Rightarrow> CamouflageFramer \<Rightarrow> bytes \<Rightarrow> bytes \<times> bytes" where
  "server_credentials lib random c hello =
     (if cf_reality_authenticated c then
        let key_share = extract_key_share_x25519 hello
        in case generate_keypair lib random of
             Inl e \<Rightarrow> ([], [])
           | Inr server_share \<Rightarrow>
               if length key_share = kPublicKeySize then
                 (case reality_server_auth lib (cf_reality_server_private c) key_share (kp_public server_share) of
                    Inl e \<Rightarrow> ([], [])
                  | Inr tag \<Rightarrow> (kp_public server_share, tag))
               else ([], [])
      else ([], []))"

definition answer_client :: "sodium \<Rightarrow> stream_xor \<Rightarrow> u64 \<Rightarrow> bytes \<Rightarrow> CamouflageFramer \<Rightarrow> bytes \<Rightarrow> TlsRecordView \<Rightarrow>
    entropy \<Rightarrow> CamouflageFramer \<times> entropy" where
  "answer_client lib f now random c view record ent =
     (let session_id = client_session_id view;
          hello = take (tr_consumed record) view;
          c = judge_client lib f now c hello session_id;
          (c, ent) =
            (if \<not> cf_reality_rejected c then
               let (share, auth) = server_credentials lib random c hello;
                   (server_hello, ent) = build_server_hello session_id share auth ent;
                   (flight, ent) = build_certificate_flight ent
               in (c\<lparr>cf_pending_reply := server_hello @ build_change_cipher_spec @ flight\<rparr>, ent)
             else (c, ent))
      in (c\<lparr>cf_sent_reply := True\<rparr>, ent))"

definition on_handshake :: "sodium \<Rightarrow> stream_xor \<Rightarrow> u64 \<Rightarrow> bytes \<Rightarrow> CamouflageFramer \<Rightarrow> bytes \<Rightarrow> TlsRecordView \<Rightarrow>
    entropy \<Rightarrow> CamouflageFramer \<times> entropy" where
  "on_handshake lib f now random c view record ent =
     (let c = (if cf_role c = camo_client \<and> \<not> cf_flight_armed c \<and> length view > kTlsRecordHeaderSize \<and>
                  view ! kTlsRecordHeaderSize = 0x02
               then c\<lparr>cf_flight_armed := True, cf_flight_remaining := kCertificateFlightRecords\<rparr> else c)
      in if cf_role c = camo_server \<and> \<not> cf_sent_reply c \<and> looks_like_client_hello view
         then answer_client lib f now random c view record ent else (c, ent))"

lemma on_handshake_inbox [simp]:
  "cf_inbox (fst (on_handshake lib f now random c view record ent)) = cf_inbox c"
  "cf_consumed (fst (on_handshake lib f now random c view record ent)) = cf_consumed c"
  by (simp_all add: on_handshake_def answer_client_def judge_client_def Let_def split: prod.split)

lemma verify_server_inbox:
  "verify_server lib c view record = Some c' \<Longrightarrow> cf_inbox c' = cf_inbox c \<and> cf_consumed c' = cf_consumed c"
  by (auto simp: verify_server_def Let_def split: if_split_asm)

lemma parse_record_consumed:
  "parse_record b = Inr record \<Longrightarrow> 0 < tr_consumed record \<and> tr_consumed record \<le> length b"
  by (auto simp: parse_record_def Let_def kTlsRecordHeaderSize_def split: if_split_asm)

definition camo_advance :: "CamouflageFramer \<Rightarrow> nat \<Rightarrow> CamouflageFramer" where
  "camo_advance c n = c\<lparr>cf_consumed := cf_consumed c + n\<rparr>"

function next_payload_loop :: "sodium \<Rightarrow> stream_xor \<Rightarrow> u64 \<Rightarrow> bytes \<Rightarrow> CamouflageFramer \<Rightarrow> entropy \<Rightarrow>
    (CamouflageError + bytes) \<times> CamouflageFramer \<times> entropy" where
  "next_payload_loop lib f now random c ent =
     (let view = drop (cf_consumed c) (cf_inbox c)
      in case parse_record view of
           Inl e \<Rightarrow> (Inl e, if e = cm_need_more then camo_compact c else c\<lparr>cf_violated := True\<rparr>, ent)
         | Inr record \<Rightarrow>
             (case verify_server lib c view record of
                None \<Rightarrow> (Inl cm_malformed, c\<lparr>cf_violated := True\<rparr>, ent)
              | Some c \<Rightarrow>
                  if tr_type record = rt_handshake then
                    let r = on_handshake lib f now random c view record ent
                    in next_payload_loop lib f now random
                         (camo_advance ((fst r)\<lparr>cf_handshake_done := True\<rparr>) (tr_consumed record)) (snd r)
                  else if tr_type record \<noteq> rt_application_data then
                    next_payload_loop lib f now random
                      (camo_advance (c\<lparr>cf_handshake_done := True\<rparr>) (tr_consumed record)) ent
                  else if cf_flight_remaining c > 0 then
                    next_payload_loop lib f now random
                      (camo_advance (c\<lparr>cf_flight_remaining := cf_flight_remaining c - 1\<rparr>) (tr_consumed record)) ent
                  else
                    let c = (camo_advance c (tr_consumed record))\<lparr>cf_handshake_done := True\<rparr>;
                        c = (if cf_consumed c > 65536 \<or> cf_consumed c * 2 > length (cf_inbox c)
                             then camo_compact c else c)
                    in (Inr (tr_payload record), c, ent)))"
  by auto
termination
  by (relation "measure (\<lambda>(lib, f, now, random, c, ent). length (cf_inbox c) - cf_consumed c)")
    (auto simp: camo_advance_def dest!: verify_server_inbox parse_record_consumed)

declare next_payload_loop.simps [simp del]

definition next_payload :: "sodium \<Rightarrow> stream_xor \<Rightarrow> u64 \<Rightarrow> bytes \<Rightarrow> CamouflageFramer \<Rightarrow> entropy \<Rightarrow>
    (CamouflageError + bytes) \<times> CamouflageFramer \<times> entropy" where
  "next_payload lib f now random c ent =
     (if cf_violated c then (Inl cm_malformed, c, ent) else next_payload_loop lib f now random c ent)"

end
