(* ===== verification/Camouflage_Stream.thy ===== *)
theory Camouflage_Stream
  imports Camouflage Stream_Decoder
begin

text \<open>
  The framer of src/camouflage.cpp once its handshake is over: TLS records of application data in a stream.
  The framer is an instance of the interface of \<open>Stream_Decoder\<close>.
\<close>

definition camo_record :: "bytes \<Rightarrow> bytes" where
  "camo_record p = [rt_application_data, 3, 3, of_nat (length p div 256), of_nat (length p)] @ p"

lemma write_record_header_bytes:
  "snd (write_record_header t n (replicate kTlsRecordHeaderSize 0)) = [t, 3, 3, of_nat (n div 256), of_nat n]"
proof -
  have "replicate 5 (0 :: byte) = [0, 0, 0, 0, 0]" by (simp add: numeral_eq_Suc)
  then show ?thesis by (simp add: write_record_header_def kTlsRecordHeaderSize_def)
qed

text \<open>Wrapping cuts a payload in records of the greatest size.\<close>

lemma camo_wrap_loop_records:
  "camo_wrap_loop payload offset = concat (map camo_record (chunks kTlsMaxRecordPayload (drop offset payload)))"
proof (induction payload offset rule: camo_wrap_loop.induct)
  case (1 payload offset)
  show ?case
  proof (cases "offset < length payload")
    case True
    define n where "n = min kTlsMaxRecordPayload (length payload - offset)"
    have n: "length (take n (drop offset payload)) = n" "take n (drop offset payload) = take kTlsMaxRecordPayload (drop offset payload)"
      by (auto simp: n_def min_def)
    have "drop (offset + n) payload = drop kTlsMaxRecordPayload (drop offset payload)"
      by (auto simp: n_def min_def add.commute)
    moreover have "chunks kTlsMaxRecordPayload (drop offset payload) =
        take kTlsMaxRecordPayload (drop offset payload) # chunks kTlsMaxRecordPayload (drop kTlsMaxRecordPayload (drop offset payload))"
      using True by (subst chunks.simps) (simp add: kTlsMaxRecordPayload_def)
    moreover have "camo_wrap_loop payload offset = camo_record (take n (drop offset payload)) @ camo_wrap_loop payload (offset + n)"
      using True n(1) by (subst camo_wrap_loop.simps)
        (simp add: Let_def n_def [symmetric] write_record_header_bytes camo_record_def)
    ultimately show ?thesis using 1 [OF True n_def] n(2) by simp
  next
    case False
    then have "chunks kTlsMaxRecordPayload (drop offset payload) = []" by (subst chunks.simps) simp
    then show ?thesis using False by (subst camo_wrap_loop.simps) simp
  qed
qed

lemma chunks_bound: "p \<in> set (chunks n b) \<Longrightarrow> length p \<le> n"
proof (induction n b rule: chunks.induct)
  case (1 n b)
  then show ?case by (subst (asm) (2) chunks.simps) (auto split: if_split_asm)
qed

text \<open>A framer between records: nothing is left of the handshake.\<close>

definition camo_holds :: "CamouflageFramer \<times> entropy \<Rightarrow> bytes \<Rightarrow> bool" where
  "camo_holds s b \<longleftrightarrow> (case s of (c, ent) \<Rightarrow>
     \<not> cf_violated c \<and> cf_consumed c \<le> length (cf_inbox c) \<and> drop (cf_consumed c) (cf_inbox c) = b \<and>
     cf_flight_remaining c = 0 \<and>
     \<not> (cf_role c = camo_client \<and> cf_reality_enabled c \<and> \<not> cf_reality_server_verified c))"

definition camo_push :: "CamouflageFramer \<times> entropy \<Rightarrow> bytes \<Rightarrow> CamouflageFramer \<times> entropy" where
  "camo_push s b = (case s of (c, ent) \<Rightarrow> (camo_feed c b, ent))"

definition camo_next :: "sodium \<Rightarrow> stream_xor \<Rightarrow> u64 \<Rightarrow> bytes \<Rightarrow> CamouflageFramer \<times> entropy \<Rightarrow>
    bytes option \<times> (CamouflageFramer \<times> entropy)" where
  "camo_next lib f now random s = (case s of (c, ent) \<Rightarrow>
     case next_payload lib f now random c ent of (r, s') \<Rightarrow> (case r of Inl e \<Rightarrow> None | Inr p \<Rightarrow> Some p, s'))"

lemma length_byte_pair:
  assumes "n < 65536"
  shows "unat (of_nat (n div 256) :: byte) * 256 + unat (of_nat n :: byte) = n"
proof -
  have "n div 256 < 256" using assms by (simp add: less_mult_imp_div_less)
  then show ?thesis by (simp add: unat_of_nat)
qed

lemma parse_camo_record:
  assumes "length p \<le> kTlsMaxRecordPayload"
  shows "parse_record (camo_record p @ rest) =
    Inr \<lparr>tr_type = rt_application_data, tr_payload = p, tr_consumed = 5 + length p\<rparr>"
proof -
  have "unat (of_nat (length p div 256) :: byte) * 256 + unat (of_nat (length p) :: byte) = length p"
    using assms by (intro length_byte_pair) (simp add: kTlsMaxRecordPayload_def)
  then show ?thesis using assms
    by (simp add: parse_record_def camo_record_def kTlsRecordHeaderSize_def rt_application_data_def Let_def)
qed

lemma parse_camo_partial:
  assumes "length p \<le> kTlsMaxRecordPayload" "strict_prefix b (camo_record p)"
  shows "parse_record b = Inl cm_need_more"
proof (cases "length b < kTlsRecordHeaderSize")
  case False
  obtain x where x: "camo_record p = b @ x" "x \<noteq> []" using assms(2) by (auto elim!: strict_prefixE')
  have nth: "b ! i = camo_record p ! i" if "i < 5" for i
    using that False by (simp add: x(1) nth_append kTlsRecordHeaderSize_def)
  have "unat (of_nat (length p div 256) :: byte) * 256 + unat (of_nat (length p) :: byte) = length p"
    using assms(1) by (intro length_byte_pair) (simp add: kTlsMaxRecordPayload_def)
  then have len: "unat (b ! 3) * 256 + unat (b ! 4) = length p"
    using nth [of 3] nth [of 4] by (simp add: camo_record_def)
  have "length b < length (camo_record p)" using x by simp
  then have "length b < 5 + length p" by (simp add: camo_record_def)
  then show ?thesis using len assms(1) False nth [of 0] nth [of 1]
    by (simp add: parse_record_def kTlsRecordHeaderSize_def Let_def camo_record_def rt_application_data_def)
qed (simp add: parse_record_def)

lemma camo_compact_holds: "camo_holds (c, ent) b \<Longrightarrow> camo_holds (camo_compact c, ent) b"
  by (auto simp: camo_holds_def camo_compact_def)

lemma camo_next_frame:
  assumes "length p \<le> kTlsMaxRecordPayload" "camo_holds s (camo_record p @ rest)"
  shows "\<exists>s'. camo_next lib f now random s = (Some p, s') \<and> camo_holds s' rest"
proof -
  obtain c ent where s: "s = (c, ent)" by (cases s)
  define c1 where "c1 = (camo_advance c (5 + length p))\<lparr>cf_handshake_done := True\<rparr>"
  define c2 where "c2 = (if cf_consumed c1 > 65536 \<or> cf_consumed c1 * 2 > length (cf_inbox c1) then camo_compact c1 else c1)"
  have h: "\<not> cf_violated c" "drop (cf_consumed c) (cf_inbox c) = camo_record p @ rest" "cf_flight_remaining c = 0"
    "\<not> (cf_role c = camo_client \<and> cf_reality_enabled c \<and> \<not> cf_reality_server_verified c)"
    "cf_consumed c \<le> length (cf_inbox c)"
    using assms(2) by (auto simp: camo_holds_def s)
  have "verify_server lib c v r = Some c" for v r using h(4) by (auto simp: verify_server_def)
  then have "next_payload_loop lib f now random c ent = (Inr p, c2, ent)"
    using h(2,3) unfolding next_payload_loop.simps [of lib f now random c ent] c2_def c1_def
    by (simp add: parse_camo_record [OF assms(1)] Let_def rt_handshake_def rt_application_data_def)
  moreover have "camo_holds (c2, ent) rest"
  proof -
    have l: "length (camo_record p) = 5 + length p" by (simp add: camo_record_def)
    have "drop (cf_consumed c + (5 + length p)) (cf_inbox c) = drop (5 + length p) (drop (cf_consumed c) (cf_inbox c))"
      by (simp add: add.commute)
    also have "\<dots> = rest" unfolding h(2) using l by simp
    finally have d: "drop (cf_consumed c + (5 + length p)) (cf_inbox c) = rest" .
    have "cf_consumed c + (5 + length p) \<le> length (cf_inbox c)"
      using arg_cong [OF h(2), of length] h(5) l by simp
    then have "camo_holds (c1, ent) rest" using h d by (simp add: camo_holds_def c1_def camo_advance_def)
    then show ?thesis by (simp add: c2_def camo_compact_holds)
  qed
  ultimately show ?thesis using h(1) by (simp add: camo_next_def s next_payload_def)
qed

lemma camo_next_need_more:
  assumes "parse_record b = Inl cm_need_more" "camo_holds s b"
  shows "\<exists>s'. camo_next lib f now random s = (None, s') \<and> camo_holds s' b"
proof -
  obtain c ent where s: "s = (c, ent)" by (cases s)
  have h: "\<not> cf_violated c" "drop (cf_consumed c) (cf_inbox c) = b" using assms(2) by (auto simp: camo_holds_def s)
  have "next_payload_loop lib f now random c ent = (Inl cm_need_more, camo_compact c, ent)"
    using h(2) assms(1) unfolding next_payload_loop.simps [of lib f now random c ent] by (simp add: Let_def)
  then show ?thesis using h(1) assms(2) by (simp add: camo_next_def s next_payload_def camo_compact_holds)
qed

interpretation camo: stream_decoder camo_push "camo_next lib f now random" camo_record
  "\<lambda>p. length p \<le> kTlsMaxRecordPayload" camo_holds for lib f now random
proof
  show "camo_holds (camo_push s x) (b @ x)" if "camo_holds s b" for s b x
    using that by (auto simp: camo_holds_def camo_push_def camo_feed_def)
  show "\<exists>s'. camo_next lib f now random s = (Some p, s') \<and> camo_holds s' rest"
    if "length p \<le> kTlsMaxRecordPayload" "camo_holds s (camo_record p @ rest)" for p s rest
    using that by (rule camo_next_frame)
  show "\<exists>s'. camo_next lib f now random s = (None, s') \<and> camo_holds s' b"
    if "length p \<le> kTlsMaxRecordPayload" "strict_prefix b (camo_record p)" "camo_holds s b" for p b s
    using that by (intro camo_next_need_more parse_camo_partial)
  show "\<exists>s'. camo_next lib f now random s = (None, s') \<and> camo_holds s' []" if "camo_holds s []" for s
    using that by (intro camo_next_need_more) (simp_all add: parse_record_def kTlsRecordHeaderSize_def)
qed

text \<open>
  C17: application data crosses the camouflage. Between two framers whose handshake is over, whatever payloads
  one end wraps and however the stream is cut into pieces on the way, the other end delivers the bytes in
  order, one piece for each record: a payload of at most \<open>16384\<close> bytes comes out whole, a longer one
  in pieces of that size, and an empty one not at all.
\<close>

theorem camouflage_delivers:
  assumes "camo_holds (c, ent) []" "concat pieces = concat (map camo_wrap payloads)"
    and "length (concat (map (chunks kTlsMaxRecordPayload) payloads)) < n"
  shows "\<exists>s'. deliver camo_push (camo_next lib f now random) n (c, ent) pieces =
      (concat (map (chunks kTlsMaxRecordPayload) payloads), s') \<and> camo_holds s' []"
proof -
  let ?fs = "concat (map (chunks kTlsMaxRecordPayload) payloads)"
  have "concat (map camo_wrap payloads) = concat (map camo_record ?fs)"
    by (induction payloads) (simp_all add: camo_wrap_def camo_wrap_loop_records)
  then have "[] @ concat pieces = concat (map camo_record ?fs)" using assms(2) by simp
  moreover have "camo.begins [] ?fs" by (simp add: camo.begins_def camo_record_def split: list.split)
  moreover have "\<forall>p \<in> set ?fs. length p \<le> kTlsMaxRecordPayload" using chunks_bound by auto
  ultimately show ?thesis using camo.deliver_frames [OF assms(1)] assms(3) by blast
qed

theorem camouflage_delivers_witness:
  "\<exists>s'. deliver camo_push (camo_next xor_sodium (\<lambda>m nonce key. m) 0 []) 2 (new_framer camo_server ''a'', [])
       [[23, 3], [3, 0, 2, 9], [8]] = ([[9, 8]], s') \<and> camo_holds s' []"
proof -
  have c: "chunks kTlsMaxRecordPayload [9, 8] = [[9, 8]]"
    by (simp add: chunks.simps [of _ "[9, 8]"] chunks.simps [of _ "[]"] kTlsMaxRecordPayload_def)
  have "camo_wrap [9, 8] = [23, 3, 3, 0, 2, 9, 8]"
    by (simp add: camo_wrap_def camo_wrap_loop_records c camo_record_def rt_application_data_def)
  then have "concat [[23, 3], [3, 0, 2, 9], [8]] = concat (map camo_wrap [[9, 8]])" by simp
  moreover have "camo_holds (new_framer camo_server ''a'', []) []" by (simp add: camo_holds_def new_framer_def)
  ultimately show ?thesis
    using camouflage_delivers [of "new_framer camo_server ''a''" "[]" "[[23, 3], [3, 0, 2, 9], [8]]" "[[9, 8]]" 2] c
    by (simp del: deliver.simps)
qed

end
