(* ===== verification/Reality_Handshake.thy ===== *)
theory Reality_Handshake
  imports Camouflage_Stream
begin

text \<open>
  The two hello messages of src/camouflage.cpp with the authentication of src/reality.cpp: a client that knows
  the public key of the server and the server that holds the private key recognise each other.
\<close>

section \<open>The tags\<close>

lemma length_reality_key [simp]: "length (reality_key secret) = 32"
  by (simp add: reality_key_def hkdf_extract_def copy_to_def)

lemma length_auth_tag [simp]: "length (auth_tag secret share) = kRealityAuthSize"
  by (simp add: auth_tag_def Let_def kRealityAuthSize_def)

lemma reality_hello_cases:
  assumes "reality_client_hello lib f random server_public short_id t = Inr h"
  obtains secret cipher where
    "so_scalarmult_base lib (kp_private (rh_ephemeral h)) = Some (kp_public (rh_ephemeral h))"
    "so_scalarmult lib (kp_private (rh_ephemeral h)) server_public = Some secret"
    "keystream_xor f (reality_key secret) (take 8 (kp_public (rh_ephemeral h))) (to_be 8 t @ short_id) = Inr cipher"
    "rh_session_id h = cipher @ take 16 (hmac_blake2s (reality_key secret) (kp_public (rh_ephemeral h) @ cipher))"
  using assms
  by (auto simp: reality_client_hello_def generate_keypair_def derive_public_key_def x25519_def Let_def
      kRealityNonceSize_def kRealityMacSize_def split: sum.split_asm option.split_asm)

lemma keystream_back:
  assumes "stream_laws f" "length key = 32" "length nonce = 8" "keystream_xor f key nonce m = Inr c"
  shows "keystream_xor f key nonce c = Inr m" "length c = length m"
proof -
  have "length (f m nonce key) = length m" "f (f m nonce key) nonce key = m"
    using assms(1) by (simp_all add: stream_laws_def)
  then show "keystream_xor f key nonce c = Inr m" "length c = length m"
    using assms(2-4) by (auto simp: keystream_xor_def split: if_split_asm)
qed

text \<open>The time difference of the code is the distance of the two clocks.\<close>

definition clock_distance :: "u64 \<Rightarrow> u64 \<Rightarrow> u64" where
  "clock_distance a b = (if a > b then a - b else b - a)"

lemma reality_mutual:
  assumes laws: "sodium_laws lib" "stream_laws f" and server: "so_scalarmult_base lib sk = Some SK"
    and short: "length short_id = 8"
    and h: "reality_client_hello lib f random SK short_id t = Inr h"
  shows "length (kp_public (rh_ephemeral h)) = 32" "length (rh_session_id h) = 32"
    "clock_distance now t \<le> w \<Longrightarrow>
     reality_server_verify lib f sk (kp_public (rh_ephemeral h)) (rh_session_id h) now w =
       \<lparr>rr_authenticated = True, rr_short_id = short_id, rr_timestamp = t\<rparr>"
    "\<exists>tag. reality_server_auth lib sk (kp_public (rh_ephemeral h)) share = Inr tag \<and> length tag = 32 \<and>
       reality_verify_server_auth lib (kp_private (rh_ephemeral h)) SK share tag"
proof -
  let ?P = "kp_public (rh_ephemeral h)" and ?p = "kp_private (rh_ephemeral h)"
  obtain secret cipher where c: "so_scalarmult_base lib ?p = Some ?P" "so_scalarmult lib ?p SK = Some secret"
    "keystream_xor f (reality_key secret) (take 8 ?P) (to_be 8 t @ short_id) = Inr cipher"
    "rh_session_id h = cipher @ take 16 (hmac_blake2s (reality_key secret) (?P @ cipher))"
    by (rule reality_hello_cases [OF h])
  show len: "length ?P = 32" using laws(1) c(1) by (auto simp: sodium_laws_def)
  have sec: "so_scalarmult lib sk ?P = Some secret"
    using laws(1) c(1,2) server by (metis sodium_laws_def)
  note kb = keystream_back [OF laws(2) length_reality_key _ c(3)]
  have l16: "length cipher = 16" using kb(2) len short by simp
  then show l32: "length (rh_session_id h) = 32" by (simp add: c(4))
  show "reality_server_verify lib f sk ?P (rh_session_id h) now w =
       \<lparr>rr_authenticated = True, rr_short_id = short_id, rr_timestamp = t\<rparr>" if "clock_distance now t \<le> w"
    using kb(1) len l16 l32 sec that
    by (simp add: reality_server_verify_def x25519_def c(4) Let_def kRealitySessionIdSize_def kRealityCipherSize_def
        kRealityMacSize_def kRealityNonceSize_def constant_time_equal_iff clock_distance_def [symmetric])
  show "\<exists>tag. reality_server_auth lib sk ?P share = Inr tag \<and> length tag = 32 \<and>
       reality_verify_server_auth lib ?p SK share tag"
    using sec c(2) by (simp add: reality_server_auth_def reality_verify_server_auth_def x25519_def
        constant_time_equal_iff) (simp add: kRealityAuthSize_def)
qed

section \<open>Walking the extensions\<close>

lemma length_push_u16 [simp]: "length (push_u16 v) = 2"
  by (simp add: push_u16_def)

lemma rd16_read: "rd16 b k = unat (be (take 2 (drop k b)) :: u16)" if "k + 2 \<le> length b"
proof -
  have "unat (read_u16 b k) = rd16 b k"
  proof -
    have "unat (b ! k) < 2 ^ LENGTH(8)" "unat (b ! (k + 1)) < 2 ^ LENGTH(8)" by (rule unsigned_less)+
    then have lt: "unat (b ! k) < 256" "unat (b ! (k + 1)) < 256" by simp_all
    have "read_u16 b k = push_bit 8 (ucast (b ! k)) + ucast (b ! (k + 1))"
      unfolding read_u16_def by (intro disjunctive_add [symmetric]) (auto simp: bit_simps dest: bit_imp_le_length)
    also have "unat \<dots> = rd16 b k"
      using lt by (simp add: push_bit_eq_mult unat_word_ariths unat_ucast_up rd16_def)
    finally show ?thesis .
  qed
  then show ?thesis using that by (simp add: read_u16_be)
qed

lemma rd16_push [simp]: "rd16 (pre @ push_u16 v @ post) (length pre) = unat v"
  by (subst rd16_read) (simp_all add: push_u16_def)

lemma rd16_at: "b = pre @ push_u16 v @ post \<Longrightarrow> k = length pre \<Longrightarrow> rd16 b k = unat v"
  by simp

text \<open>An extension: its type, its length and its body.\<close>

definition ext_enc :: "u16 \<times> bytes \<Rightarrow> bytes" where
  "ext_enc e = push_u16 (fst e) @ push_u16 (of_nat (length (snd e))) @ snd e"

lemma length_ext_enc [simp]: "length (ext_enc e) = 4 + length (snd e)"
  by (simp add: ext_enc_def)

lemma ext_enc_fields:
  assumes "record = pre @ ext_enc (t, body) @ post" "length body < 65536"
  shows "rd16 record (length pre) = unat t" "rd16 record (length pre + 2) = length body"
    "drop (length pre + 4) record = body @ post"
proof -
  show "rd16 record (length pre) = unat t" by (rule rd16_at) (simp_all add: assms(1) ext_enc_def)
  have "rd16 record (length pre + 2) = unat (of_nat (length body) :: u16)"
    by (rule rd16_at [of _ "pre @ push_u16 t"]) (simp_all add: assms(1) ext_enc_def)
  then show "rd16 record (length pre + 2) = length body" using assms(2) by (simp add: unat_of_nat)
  show "drop (length pre + 4) record = body @ post" by (simp add: assms(1) ext_enc_def)
qed

text \<open>Both parsers skip an extension of another type in the same way.\<close>

locale extension_walk =
  fixes walk :: "bytes \<Rightarrow> nat \<Rightarrow> nat \<Rightarrow> bytes"
  assumes walk_skip: "p + 4 + rd16 record (p + 2) \<le> e \<Longrightarrow> rd16 record p \<noteq> 0x33 \<Longrightarrow>
    walk record e p = walk record e (p + 4 + rd16 record (p + 2))"
begin

lemma skip_extension:
  assumes "record = pre @ ext_enc (t, body) @ post" "length body < 65536" "t \<noteq> 0x33"
    and "length pre + 4 + length body \<le> e"
  shows "walk record e (length pre) = walk record e (length (pre @ ext_enc (t, body)))"
proof -
  note f = ext_enc_fields [OF assms(1,2)]
  have "unat t \<noteq> 0x33" using assms(3) of_nat_unat_eq [of t 51] by auto
  then show ?thesis using walk_skip [of "length pre" "record" e] f assms(4) by (simp add: add.assoc)
qed

lemma skip_extensions:
  assumes "record = pre @ concat (map ext_enc es) @ post"
    and "\<forall>(t, body) \<in> set es. t \<noteq> 0x33 \<and> length body < 65536"
    and "length (pre @ concat (map ext_enc es)) \<le> e"
  shows "walk record e (length pre) = walk record e (length (pre @ concat (map ext_enc es)))"
  using assms
proof (induction es arbitrary: pre)
  case (Cons x es)
  obtain t body where x: "x = (t, body)" by (cases x)
  have "record = pre @ ext_enc (t, body) @ (concat (map ext_enc es) @ post)" using Cons.prems(1) by (simp add: x)
  then have "walk record e (length pre) = walk record e (length (pre @ ext_enc (t, body)))"
    using Cons.prems(2,3) by (intro skip_extension) (auto simp: x)
  also have "\<dots> = walk record e (length ((pre @ ext_enc (t, body)) @ concat (map ext_enc es)))"
    using Cons.prems by (intro Cons.IH) (auto simp: x)
  finally show ?case by (simp add: x)
qed simp

end

interpretation cw: extension_walk extension_loop
  by unfold_locales (subst extension_loop.simps, simp add: Let_def add.assoc)

interpretation sw: extension_walk server_extension_loop
  by unfold_locales (subst server_extension_loop.simps, simp add: Let_def add.assoc)

section \<open>The layout of the hello messages\<close>

lemma random_fill_length: "random_fill n ent = (b, ent') \<Longrightarrow> length b = n"
  by (auto simp: random_fill_def draw_def split: list.split_asm option.split_asm if_split_asm)

text \<open>A grease value is even, so it is neither the type of the key share nor its group.\<close>

lemma grease_even:
  assumes "grease_value ent = (g, ent')"
  shows "g \<noteq> 0x33" "g \<noteq> 0x1d" "unat g \<noteq> 0x1d"
proof -
  obtain nibble :: u16 where "g = push_bit 8 (push_bit 4 nibble OR 0x0A) OR (push_bit 4 nibble OR 0x0A)"
    using assms by (auto simp: grease_value_def Let_def split: prod.split_asm)
  then have "\<not> bit g 0" by (simp add: bit_simps)
  then have "g \<noteq> 0x33 \<and> g \<noteq> 0x1d" by (auto simp: bit_numeral_rec)
  then show "g \<noteq> 0x33" "g \<noteq> 0x1d" "unat g \<noteq> 0x1d" using of_nat_unat_eq [of g 29] by auto
qed

definition share_body :: "u16 \<Rightarrow> bytes \<Rightarrow> bytes" where
  "share_body grease share = push_u16 41 @ push_u16 grease @ push_u16 1 @ [0] @ push_u16 0x001d @ push_u16 32 @ share"

definition client_ext_list :: "u16 \<Rightarrow> string \<Rightarrow> (u16 \<times> bytes) list" where
  "client_ext_list grease name =
     [(grease, []),
      (0, push_u16 (of_nat (length name) + 3) @ [0] @ push_u16 (of_nat (length name)) @ map byte_of_char name),
      (0x17, []), (0x0d, push_u16 16 @ concat (map push_u16 kSignatures)),
      (0x10, push_u16 12 @ [2, byte_of_char (CHR ''h''), byte_of_char (CHR ''2''), 8] @ map byte_of_char ''http/1.1''),
      (5, [1] @ to_be 4 (0 :: u32)), (0x0b, [1, 0]),
      (0x0a, push_u16 8 @ push_u16 grease @ push_u16 0x001d @ push_u16 0x0017 @ push_u16 0x0018),
      (0x23, []), (0x2d, [1, 0]), (0x2b, [6] @ push_u16 grease @ push_u16 0x0304 @ push_u16 0x0303)]"

lemma client_extensions_list:
  assumes "length share = 32"
  shows "client_extensions grease name share = concat (map ext_enc (client_ext_list grease name)) @
    ext_enc (0x33, share_body grease share) @ ext_enc (grease, [0])"
proof -
  have sig: "length (concat (map push_u16 kSignatures)) = 16" by (simp add: kSignatures_def)
  show ?thesis using assms sig
    by (simp add: client_extensions_def client_ext_list_def ext_enc_def share_body_def kTlsRandomSize_def
        kSignatures_def Let_def add.commute)
qed

lemma client_ext_list_ok:
  "length name \<le> 255 \<Longrightarrow> g \<noteq> 0x33 \<Longrightarrow> \<forall>(t, body) \<in> set (client_ext_list g name). t \<noteq> 0x33 \<and> length body < 65536"
  "length (concat (map ext_enc (client_ext_list g name))) = 107 + length name"
  by (simp_all add: client_ext_list_def kSignatures_def)

text \<open>The key share is found behind any number of other extensions.\<close>

lemma share_loop_found:
  assumes "record = pre @ share_body grease share @ post" "length share = 32" "unat grease \<noteq> 0x1d"
  shows "share_loop record (length pre + 43) (length pre + 2) = share"
proof -
  let ?q = "length pre + 2" and ?e = "length pre + 43"
  have a: "rd16 record ?q = unat grease"
    by (rule rd16_at [of _ "pre @ push_u16 41"]) (simp_all add: assms(1) share_body_def)
  have a': "rd16 record (?q + 2) = 1"
    by (rule trans [OF rd16_at [of _ "pre @ push_u16 41 @ push_u16 grease" 1]])
      (simp_all add: assms(1) share_body_def)
  have b: "rd16 record (?q + 5) = 0x1d"
    by (rule trans [OF rd16_at [of _ "pre @ push_u16 41 @ push_u16 grease @ push_u16 1 @ [0]" "0x1d"]])
      (simp_all add: assms(1) share_body_def)
  have c: "rd16 record (?q + 7) = 32"
    by (rule trans [OF rd16_at [of _ "pre @ push_u16 41 @ push_u16 grease @ push_u16 1 @ [0] @ push_u16 0x1d" 32]])
      (simp_all add: assms(1) share_body_def)
  have d: "take 32 (drop (length pre + 11) record) = share"
    using assms(2) by (simp add: assms(1) share_body_def)
  have "share_loop record ?e ?q = share_loop record ?e (?q + 5)"
    using a a' assms(3) by (subst share_loop.simps) (simp add: Let_def)
  also have "\<dots> = share"
    using b c d by (subst share_loop.simps) (simp add: Let_def kPublicKeySize_def add.commute)
  finally show ?thesis .
qed

lemma client_walk:
  assumes "record = pre @ client_extensions g name share" "length share = 32" "length name \<le> 255"
    and "g \<noteq> 0x33" "unat g \<noteq> 0x1d"
  shows "extension_loop record (length record) (length pre) = share"
proof -
  let ?es = "client_ext_list g name" and ?b = "share_body g share"
  let ?pre = "pre @ concat (map ext_enc ?es)"
  have r: "record = pre @ concat (map ext_enc ?es) @ (ext_enc (0x33, ?b) @ ext_enc (g, [0]))"
    using assms(1) client_extensions_list [OF assms(2)] by simp
  then have r': "record = ?pre @ ext_enc (0x33, ?b) @ ext_enc (g, [0])" by simp
  have lb: "length ?b = 43" using assms(2) by (simp add: share_body_def)
  have "extension_loop record (length record) (length pre) = extension_loop record (length record) (length ?pre)"
    using r client_ext_list_ok(1) [OF assms(3,4)] by (intro cw.skip_extensions) simp_all
  also have "\<dots> = share_loop record (length ?pre + 4 + 43) (length ?pre + 4 + 2)"
  proof -
    note f = ext_enc_fields [OF r'] 
    have "rd16 record (length ?pre) = 0x33" "rd16 record (length ?pre + 2) = 43" using f lb by simp_all
    moreover have "rd16 record (length ?pre + 4) = 41"
      by (rule trans [OF rd16_at [of _ "?pre @ push_u16 0x33 @ push_u16 43" 41]])
        (simp_all add: r' ext_enc_def lb, simp add: share_body_def)
    moreover have "length ?pre + 47 \<le> length record" using lb by (simp add: r')
    ultimately show ?thesis by (subst extension_loop.simps) (simp add: Let_def add.assoc min_def)
  qed
  also have "\<dots> = share"
  proof -
    have "record = (?pre @ push_u16 0x33 @ push_u16 43) @ ?b @ ext_enc (g, [0])"
      using lb by (simp add: r' ext_enc_def)
    from share_loop_found [OF this assms(2,5)] show ?thesis by (simp add: add.assoc)
  qed
  finally show ?thesis .
qed

lemma server_walk:
  assumes "record = pre @ ext_enc (0x2b, push_u16 0x0304) @ ext_enc (0x33, push_u16 0x1d @ push_u16 32 @ share)"
    and "length share = 32"
  shows "server_extension_loop record (length record) (length pre) = share"
proof -
  let ?b = "push_u16 0x1d @ push_u16 32 @ share" and ?pre = "pre @ ext_enc (0x2b, push_u16 0x0304)"
  have r: "record = ?pre @ ext_enc (0x33, ?b) @ []" using assms(1) by simp
  have "server_extension_loop record (length record) (length pre) = server_extension_loop record (length record) (length ?pre)"
    by (rule sw.skip_extension [OF assms(1)]) (simp_all add: assms(1))
  also have "\<dots> = share"
  proof -
    note f = ext_enc_fields [OF r]
    have "rd16 record (length ?pre) = 0x33" "rd16 record (length ?pre + 2) = 36" using f assms(2) by simp_all
    moreover have "rd16 record (length ?pre + 4) = 0x1d"
      by (rule trans [OF rd16_at [of _ "?pre @ push_u16 0x33 @ push_u16 36" "0x1d"]])
        (simp_all add: r ext_enc_def assms(2))
    moreover have "rd16 record (length ?pre + 4 + 2) = 32"
      by (rule trans [OF rd16_at [of _ "?pre @ push_u16 0x33 @ push_u16 36 @ push_u16 0x1d" 32]])
        (simp_all add: r ext_enc_def assms(2))
    moreover have "take 32 (drop (length ?pre + 4 + 4) record) = share"
      by (simp add: r ext_enc_def assms(2))
    moreover have "length record = length ?pre + 40" by (simp add: r assms(2))
    ultimately show ?thesis using assms(2) by (subst server_extension_loop.simps) (simp add: Let_def kPublicKeySize_def add.assoc)
  qed
  finally show ?thesis .
qed

text \<open>Both hello messages begin with a header of nine bytes.\<close>

definition hello_prefix :: "u8 \<Rightarrow> bytes \<Rightarrow> u16 \<Rightarrow> bytes" where
  "hello_prefix ty body version =
     [rt_handshake] @ push_u16 version @ push_u16 (of_nat (4 + length body)) @ [ty] @ to_be 3 (of_nat (length body) :: u32)"

lemma framed_handshake_prefix:
  "framed_handshake ty body version = hello_prefix ty body version @ body" "length (hello_prefix ty body version) = 9"
  by (simp_all add: framed_handshake_def hello_prefix_def Let_def)

lemma parse_framed:
  assumes "length body < 16000" "drop_bit 8 version = (3 :: u16)"
  shows "parse_record (framed_handshake ty body version @ rest) = Inr \<lparr>tr_type = rt_handshake,
    tr_payload = drop 5 (framed_handshake ty body version), tr_consumed = length (framed_handshake ty body version)\<rparr>"
proof -
  let ?r = "framed_handshake ty body version @ rest"
  have "rd16 ?r 3 = unat (of_nat (4 + length body) :: u16)"
    by (rule rd16_at [of _ "[rt_handshake] @ push_u16 version"])
      (simp_all add: framed_handshake_prefix(1) hello_prefix_def)
  also have "\<dots> = 4 + length body"
  proof -
    have "unat (of_nat m :: u16) = m" if "m < 65536" for m using that by (simp add: unat_of_nat)
    then show ?thesis using assms(1) by (simp del: of_nat_add)
  qed
  finally have len: "unat (?r ! 3) * 256 + unat (?r ! 4) = 4 + length body" by (simp add: rd16_def)
  have "push_u16 version ! 0 = 3"
    using assms(2) by (simp add: push_u16_def to_be_def)
  then have "?r ! 0 = rt_handshake" "?r ! 1 = 3"
    by (simp_all add: framed_handshake_prefix(1) hello_prefix_def nth_append)
  moreover have l: "length (framed_handshake ty body version) = 9 + length body"
    by (simp add: framed_handshake_prefix)
  ultimately show ?thesis using len assms(1)
    by (simp add: parse_record_def Let_def kTlsRecordHeaderSize_def kTlsMaxRecordPayload_def rt_handshake_def)
qed

section \<open>The exchange\<close>

text \<open>What the server reads out of the hello of a client.\<close>

lemma client_hello_contents:
  assumes "build_client_hello name key_share session_id ent = (hello, ent')"
    and "length key_share = 32" "length session_id = 32" "length name \<le> 255"
  shows "extract_key_share_x25519 hello = key_share" "client_session_id (hello @ rest) = session_id"
    "looks_like_client_hello (hello @ rest)"
    "\<exists>payload. parse_record (hello @ rest) = Inr \<lparr>tr_type = rt_handshake, tr_payload = payload, tr_consumed = length hello\<rparr>"
proof -
  obtain g ent1 where g: "grease_value ent = (g, ent1)" by (cases "grease_value ent")
  obtain random ent2 where r: "random_fill kTlsRandomSize ent1 = (random, ent2)" by (cases "random_fill kTlsRandomSize ent1")
  have lr: "length random = 32" using random_fill_length [OF r] by (simp add: kTlsRandomSize_def)
  define ext where "ext = client_extensions g name key_share"
  define ciphers where "ciphers = concat (map push_u16 (g # kClientCiphers))"
  have lc: "length ciphers = 32" by (simp add: ciphers_def kClientCiphers_def)
  have le: "length ext = 107 + length name + 47 + 5"
    using client_ext_list_ok(2) [of g name] assms(2)
    by (simp add: ext_def client_extensions_list [OF assms(2)] share_body_def)
  define body where "body = push_u16 0x0303 @ random @ [32] @ session_id @ push_u16 32 @ ciphers @ [1, 0] @
    push_u16 (of_nat (length ext)) @ ext"
  have hello: "hello = framed_handshake 1 body 0x0301"
    using assms(1-3) g r by (simp add: build_client_hello_def Let_def body_def ext_def ciphers_def kTlsSessionIdSize_def
      kTlsRandomSize_def kClientCiphers_def)
  define h where "h = hello_prefix 1 body 0x0301"
  have lh: "length h = 9" unfolding h_def by (rule framed_handshake_prefix(2))
  have rec: "hello = h @ body" by (simp add: hello h_def framed_handshake_prefix(1))
  show "\<exists>payload. parse_record (hello @ rest) = Inr \<lparr>tr_type = rt_handshake, tr_payload = payload, tr_consumed = length hello\<rparr>"
    using assms(3,4) lr lc le unfolding hello
    by (subst parse_framed) (simp_all add: body_def)
  have n43: "(hello @ rest) ! 43 = 32"
    by (simp add: rec body_def nth_append lh lr)
  have d44: "drop 44 (hello @ rest) = session_id @ push_u16 32 @ ciphers @ [1, 0] @ push_u16 (of_nat (length ext)) @ ext @ rest"
    by (simp add: rec body_def lh lr)
  show "client_session_id (hello @ rest) = session_id"
    using n43 d44 assms(3) by (simp add: client_session_id_def Let_def kTlsRecordHeaderSize_def kTlsRandomSize_def
        rec body_def lh lr)
  show "looks_like_client_hello (hello @ rest)"
    by (simp add: looks_like_client_hello_def rec h_def hello_prefix_def kTlsRecordHeaderSize_def push_u16_def to_be_def
        nth_append body_def)
  define pre where "pre = h @ push_u16 0x0303 @ random @ [32] @ session_id @ push_u16 32 @ ciphers @ [1, 0] @ push_u16 (of_nat (length ext))"
  have lp: "length pre = 114" using lh lr lc assms(3) by (simp add: pre_def)
  have rp: "hello = pre @ ext" by (simp add: rec body_def pre_def)
  have "hello ! 43 = 32" "hello ! 110 = 1"
    using lh lr lc assms(3) by (simp_all add: rec body_def nth_append)
  moreover have "rd16 hello 76 = 32"
    by (rule trans [OF rd16_at [of _ "h @ push_u16 0x0303 @ random @ [32] @ session_id" 32]])
      (simp_all add: rec body_def lh lr assms(3))
  moreover have "rd16 hello 112 = length ext"
  proof -
    have "rd16 hello 112 = unat (of_nat (length ext) :: u16)"
      by (rule rd16_at [of _ "h @ push_u16 0x0303 @ random @ [32] @ session_id @ push_u16 32 @ ciphers @ [1, 0]"])
        (simp_all add: rec body_def lh lr lc assms(3))
    also have "\<dots> = length ext"
    proof -
      have "length ext < 65536" using le assms(4) by simp
      then show ?thesis by (simp add: unat_of_nat)
    qed
    finally show ?thesis .
  qed
  moreover have "length hello = 114 + length ext" using lp by (simp add: rp)
  moreover have "extension_loop hello (length hello) 114 = key_share"
    using client_walk [of hello pre g name key_share] assms(2,4) grease_even [OF g] rp lp by (simp add: ext_def)
  ultimately show "extract_key_share_x25519 hello = key_share"
    by (simp add: extract_key_share_x25519_def Let_def kTlsRecordHeaderSize_def kTlsRandomSize_def)
qed

text \<open>What the client reads out of the hello of the server.\<close>

lemma server_hello_contents:
  assumes "build_server_hello session_id share auth ent = (hello, ent')"
    and "length share = 32" "length session_id = 32" "length auth = 32"
  shows "extract_server_key_share hello = share" "take 32 (drop 11 hello) = auth" "length hello = 127"
    "(hello @ rest) ! 5 = 2"
    "\<exists>payload. parse_record (hello @ rest) = Inr \<lparr>tr_type = rt_handshake, tr_payload = payload, tr_consumed = length hello\<rparr>"
proof -
  define ext where "ext = ext_enc (0x2b, push_u16 0x0304) @ ext_enc (0x33, push_u16 0x1d @ push_u16 32 @ share)"
  have le: "length ext = 46" using assms(2) by (simp add: ext_def)
  define body where "body = push_u16 0x0303 @ auth @ [32] @ session_id @ push_u16 0x1301 @ [0] @ push_u16 46 @ ext"
  have hello: "hello = framed_handshake 2 body 0x0303"
    using assms by (simp add: build_server_hello_def Let_def body_def ext_def ext_enc_def kTlsRandomSize_def
      kRealityAuthSize_def)
  define h where "h = hello_prefix 2 body 0x0303"
  have lh: "length h = 9" unfolding h_def by (rule framed_handshake_prefix(2))
  have rec: "hello = h @ body" by (simp add: hello h_def framed_handshake_prefix(1))
  show lr: "length hello = 127" using le assms by (simp add: rec lh body_def)
  show "\<exists>payload. parse_record (hello @ rest) = Inr \<lparr>tr_type = rt_handshake, tr_payload = payload, tr_consumed = length hello\<rparr>"
    using assms(2-4) le unfolding hello
    by (subst parse_framed) (simp_all add: body_def)
  show "take 32 (drop 11 hello) = auth" using assms(4) by (simp add: rec body_def lh)
  show "(hello @ rest) ! 5 = 2"
    by (simp add: rec h_def hello_prefix_def nth_append)
  define pre where "pre = h @ push_u16 0x0303 @ auth @ [32] @ session_id @ push_u16 0x1301 @ [0] @ push_u16 46"
  have lp: "length pre = 81" using lh assms by (simp add: pre_def)
  have rp: "hello = pre @ ext" by (simp add: rec body_def pre_def)
  have "hello ! 43 = 32" using lh assms by (simp add: rec body_def nth_append)
  moreover have "rd16 hello 79 = 46"
    by (rule trans [OF rd16_at [of _ "h @ push_u16 0x0303 @ auth @ [32] @ session_id @ push_u16 0x1301 @ [0]" 46]])
      (simp_all add: rec body_def lh assms)
  moreover have "server_extension_loop hello (length hello) 81 = share"
    using server_walk [of hello pre share] rp lp assms(2) by (simp add: ext_def)
  ultimately show "extract_server_key_share hello = share"
    using lr by (simp add: extract_server_key_share_def Let_def kTlsRecordHeaderSize_def kTlsRandomSize_def)
qed

lemma flight_record_shape:
  assumes "flight_record n ent = (r, ent')" "n \<le> 16000"
  shows "\<exists>p. r = camo_record p \<and> length p \<le> kTlsMaxRecordPayload"
proof -
  obtain answer ent1 where d: "draw 1 ent = (answer, ent1)" by (cases "draw 1 ent")
  define j where "j = (case answer of Some pick \<Rightarrow> unat (pick ! 0) mod 97 | None \<Rightarrow> 0)"
  have "x mod 97 \<le> 96" for x :: nat using mod_less_divisor [of 97 x] by simp
  then have j: "j \<le> 96" by (auto simp: j_def split: option.split)
  obtain b ent2 where b: "random_fill (n + j) ent1 = (b, ent2)" by (cases "random_fill (n + j) ent1")
  have "length b = n + j" by (rule random_fill_length [OF b])
  moreover have "r = camo_record b"
    using assms(1) d b calculation
    by (simp add: flight_record_def Let_def j_def [symmetric] write_record_header_bytes camo_record_def)
  ultimately show ?thesis using j assms(2) by (intro exI [of _ b]) (simp add: kTlsMaxRecordPayload_def)
qed

lemma flight_records_shape:
  assumes "flight_records ns ent = (b, ent')" "\<forall>n \<in> set ns. n \<le> 16000"
  shows "\<exists>ps. b = concat (map camo_record ps) \<and> length ps = length ns \<and> (\<forall>p \<in> set ps. length p \<le> kTlsMaxRecordPayload)"
  using assms
proof (induction ns arbitrary: ent b ent')
  case Nil
  then show ?case by simp
next
  case (Cons n ns)
  obtain r ent1 where r: "flight_record n ent = (r, ent1)" by (cases "flight_record n ent")
  obtain b1 ent2 where b1: "flight_records ns ent1 = (b1, ent2)" by (cases "flight_records ns ent1")
  obtain p where p: "r = camo_record p" "length p \<le> kTlsMaxRecordPayload"
    using flight_record_shape [OF r] Cons.prems(2) by auto
  obtain ps where "b1 = concat (map camo_record ps)" "length ps = length ns" "\<forall>p \<in> set ps. length p \<le> kTlsMaxRecordPayload"
    using Cons.IH [OF b1] Cons.prems(2) by auto
  then show ?case using Cons.prems(1) p r b1 by (intro exI [of _ "p # ps"]) simp
qed

text \<open>Steps of the loop of the client over the answer of the server.\<close>

lemma loop_flight:
  assumes "\<forall>p \<in> set ps. length p \<le> kTlsMaxRecordPayload"
    and "drop (cf_consumed c) (cf_inbox c) = concat (map camo_record ps) @ rest"
    and "cf_flight_remaining c = length ps" "cf_reality_server_verified c"
  shows "next_payload_loop lib f now random c ent = next_payload_loop lib f now random
    (c\<lparr>cf_consumed := cf_consumed c + length (concat (map camo_record ps)), cf_flight_remaining := 0\<rparr>) ent"
  using assms
proof (induction ps arbitrary: c)
  case Nil
  then have "c\<lparr>cf_consumed := cf_consumed c + length (concat (map camo_record [])), cf_flight_remaining := 0\<rparr> = c" by simp
  then show ?case by simp
next
  case (Cons p ps)
  have p: "length p \<le> kTlsMaxRecordPayload" using Cons.prems(1) by simp
  define c1 where "c1 = camo_advance (c\<lparr>cf_flight_remaining := length ps\<rparr>) (5 + length p)"
  have "verify_server lib c v r = Some c" for v r using Cons.prems(4) by (simp add: verify_server_def)
  then have "next_payload_loop lib f now random c ent = next_payload_loop lib f now random c1 ent"
    using Cons.prems(2,3)
    by (subst next_payload_loop.simps) (simp add: parse_camo_record [OF p] c1_def rt_handshake_def rt_application_data_def)
  also have "\<dots> = next_payload_loop lib f now random
    (c1\<lparr>cf_consumed := cf_consumed c1 + length (concat (map camo_record ps)), cf_flight_remaining := 0\<rparr>) ent"
  proof (rule Cons.IH)
    have "drop (cf_consumed c1) (cf_inbox c1) = drop (5 + length p) (drop (cf_consumed c) (cf_inbox c))"
      by (simp add: c1_def camo_advance_def add.commute)
    also have "\<dots> = drop (length (camo_record p)) (camo_record p @ concat (map camo_record ps) @ rest)"
    proof -
      have "length (camo_record p) = 5 + length p" by (simp add: camo_record_def)
      then show ?thesis using Cons.prems(2) by (simp only: list.map concat.simps append_assoc)
    qed
    also have "\<dots> = concat (map camo_record ps) @ rest" by simp
    finally show "drop (cf_consumed c1) (cf_inbox c1) = concat (map camo_record ps) @ rest" .
  qed (use Cons.prems in \<open>simp_all add: c1_def camo_advance_def\<close>)
  finally have "next_payload_loop lib f now random c ent = next_payload_loop lib f now random
    (c1\<lparr>cf_consumed := cf_consumed c1 + length (concat (map camo_record ps)), cf_flight_remaining := 0\<rparr>) ent" .
  moreover have "length (camo_record p) = 5 + length p" by (simp add: camo_record_def)
  ultimately show ?case by (simp add: c1_def camo_advance_def add.assoc)
qed

lemma loop_change_cipher_spec:
  assumes "drop (cf_consumed c) (cf_inbox c) = build_change_cipher_spec @ rest" "cf_reality_server_verified c"
  shows "next_payload_loop lib f now random c ent =
    next_payload_loop lib f now random (camo_advance (c\<lparr>cf_handshake_done := True\<rparr>) 6) ent"
proof -
  have "parse_record (build_change_cipher_spec @ rest) = Inr \<lparr>tr_type = rt_change_cipher_spec, tr_payload = [1], tr_consumed = 6\<rparr>"
  proof -
    have "build_change_cipher_spec = [20, 3, 3, 0, 1, 1]"
      by (simp add: build_change_cipher_spec_def rt_change_cipher_spec_def push_u16_def to_be_def upt_rec [of _ 2])
    then have "build_change_cipher_spec @ rest = 20 # 3 # 3 # 0 # 1 # 1 # rest" by simp
    then show ?thesis unfolding parse_record_def
      by (simp only:) (simp add: kTlsRecordHeaderSize_def rt_change_cipher_spec_def Let_def kTlsMaxRecordPayload_def)
  qed
  moreover have "verify_server lib c v r = Some c" for v r using assms(2) by (simp add: verify_server_def)
  ultimately show ?thesis using assms(1)
    by (subst next_payload_loop.simps) (simp add: rt_handshake_def rt_application_data_def rt_change_cipher_spec_def)
qed

lemma loop_server_hello:
  assumes "drop (cf_consumed c) (cf_inbox c) = hello @ rest" "cf_role c = camo_client" "\<not> cf_flight_armed c"
    and "build_server_hello session_id share auth ent0 = (hello, ent1)"
    and "length share = 32" "length session_id = 32" "length auth = 32"
    and "reality_verify_server_auth lib (kp_private (cf_reality_ephemeral c)) (cf_reality_server_public c) share auth"
  shows "next_payload_loop lib f now random c ent = next_payload_loop lib f now random
    (camo_advance (c\<lparr>cf_reality_server_verified := (cf_reality_enabled c \<or> cf_reality_server_verified c),
       cf_flight_armed := True, cf_flight_remaining := 4, cf_handshake_done := True\<rparr>) (length hello)) ent"
proof -
  note h = server_hello_contents [OF assms(4-7)]
  obtain payload where pr: "parse_record (hello @ rest) =
      Inr \<lparr>tr_type = rt_handshake, tr_payload = payload, tr_consumed = length hello\<rparr>" (is "_ = Inr ?r")
    using h(5) [of rest] by auto
  have five: "hello ! 5 = 2" using h(3) h(4) [of "[]"] by simp
  let ?c = "c\<lparr>cf_reality_server_verified := (cf_reality_enabled c \<or> cf_reality_server_verified c)\<rparr>"
  have "verify_server lib c (hello @ rest) ?r = Some ?c"
    using assms(2,8) h(1-3) five
    by (cases "cf_reality_enabled c") (auto simp: verify_server_def Let_def kTlsRecordHeaderSize_def kRealityAuthSize_def
        kPublicKeySize_def assms(5))
  moreover have "on_handshake lib f now random ?c (hello @ rest) ?r ent =
      (?c\<lparr>cf_flight_armed := True, cf_flight_remaining := 4\<rparr>, ent)"
    using assms(2,3) h(3) h(4) [of rest] by (simp add: on_handshake_def kTlsRecordHeaderSize_def kCertificateFlightRecords_def)
  ultimately show ?thesis using assms(1) pr by (subst next_payload_loop.simps) simp
qed

lemma loop_empty:
  assumes "drop (cf_consumed c) (cf_inbox c) = []"
  shows "next_payload_loop lib f now random c ent = (Inl cm_need_more, camo_compact c, ent)"
  using assms by (subst next_payload_loop.simps) (simp add: parse_record_def kTlsRecordHeaderSize_def)

text \<open>The server on the hello of a client it can authenticate.\<close>

lemma loop_client_hello:
  assumes inbox: "cf_consumed c = 0" "cf_inbox c = hello"
    and c: "cf_role c = camo_server" "\<not> cf_sent_reply c" "cf_reality_enabled c" "cf_flight_remaining c = 0" "\<not> cf_violated c"
    and hello: "build_client_hello name key_share session_id ent0 = (hello, ent1)"
      "length key_share = 32" "length session_id = 32" "length name \<le> 255"
    and verdict: "rr_authenticated (reality_server_verify lib f (cf_reality_server_private c) key_share session_id now
      (cf_reality_window c))"
    and share: "so_scalarmult_base lib random = Some share"
      "reality_server_auth lib (cf_reality_server_private c) key_share share = Inr tag"
    and reply: "build_server_hello session_id share tag ent = (server_hello, ent2)"
      "build_certificate_flight ent2 = (flight, ent3)"
  shows "\<exists>c'. next_payload lib f now random c ent = (Inl cm_need_more, c', ent3) \<and> camo_holds (c', ent3) [] \<and>
    cf_reality_authenticated c' \<and> \<not> cf_reality_rejected c' \<and>
    cf_pending_reply c' = server_hello @ build_change_cipher_spec @ flight"
proof -
  note h = client_hello_contents(1) [OF hello] client_hello_contents(2-4) [OF hello, where rest = "[]", simplified]
  obtain payload where pr: "parse_record hello =
      Inr \<lparr>tr_type = rt_handshake, tr_payload = payload, tr_consumed = length hello\<rparr>" (is "_ = Inr ?r")
    using h(4) by auto
  define c1 where "c1 = c\<lparr>cf_reality_authenticated := True, cf_reality_rejected := False,
    cf_pending_reply := server_hello @ build_change_cipher_spec @ flight, cf_sent_reply := True\<rparr>"
  have judge: "judge_client lib f now c hello session_id = c\<lparr>cf_reality_authenticated := True, cf_reality_rejected := False\<rparr>"
    using c(3) h(1) hello(2,3) verdict
    by (simp add: judge_client_def Let_def kPublicKeySize_def kRealitySessionIdSize_def kRealityCipherSize_def
        kRealityMacSize_def)
  have "generate_keypair lib random = Inr \<lparr>kp_public = share, kp_private = random\<rparr>"
    using share(1) by (simp add: generate_keypair_def derive_public_key_def)
  then have "answer_client lib f now random c hello ?r ent = (c1, ent3)"
    using h(1,2) judge share(2) reply hello(2)
    by (simp add: answer_client_def server_credentials_def Let_def kPublicKeySize_def c1_def)
  then have "on_handshake lib f now random c hello ?r ent = (c1, ent3)"
    using c(1,2) h(3) by (simp add: on_handshake_def)
  moreover have "verify_server lib c hello ?r = Some c" using c(1) by (simp add: verify_server_def)
  ultimately have "next_payload_loop lib f now random c ent =
      next_payload_loop lib f now random (camo_advance (c1\<lparr>cf_handshake_done := True\<rparr>) (length hello)) ent3"
    using inbox pr by (subst next_payload_loop.simps) simp
  also have "\<dots> = (Inl cm_need_more, camo_compact (camo_advance (c1\<lparr>cf_handshake_done := True\<rparr>) (length hello)), ent3)"
    using inbox by (intro loop_empty) (simp add: camo_advance_def c1_def)
  finally show ?thesis using c inbox
    by (simp add: next_payload_def camo_holds_def camo_compact_def camo_advance_def c1_def)
qed

text \<open>The client on the answer of the server.\<close>

lemma loop_server_answer:
  assumes inbox: "cf_consumed c = 0" "cf_inbox c = server_hello @ build_change_cipher_spec @ flight"
    and c: "cf_role c = camo_client" "\<not> cf_flight_armed c" "cf_reality_enabled c" "\<not> cf_violated c"
    and reply: "build_server_hello session_id share tag ent1 = (server_hello, ent2)"
      "length share = 32" "length session_id = 32" "length tag = 32"
      "build_certificate_flight ent2 = (flight, ent3)"
    and tag: "reality_verify_server_auth lib (kp_private (cf_reality_ephemeral c)) (cf_reality_server_public c) share tag"
  shows "\<exists>c'. next_payload lib f now random c ent = (Inl cm_need_more, c', ent) \<and> camo_holds (c', ent) [] \<and>
    cf_reality_server_verified c' \<and> cf_handshake_done c'"
proof -
  have d: "drop (cf_consumed c) (cf_inbox c) = server_hello @ build_change_cipher_spec @ flight" using inbox by simp
  note first_step = loop_server_hello [OF d c(1,2) reply(1-4) tag]
  define c1 where "c1 = camo_advance (c\<lparr>cf_reality_server_verified := (cf_reality_enabled c \<or> cf_reality_server_verified c),
       cf_flight_armed := True, cf_flight_remaining := 4, cf_handshake_done := True\<rparr>) (length server_hello)"
  define c2 where "c2 = camo_advance (c1\<lparr>cf_handshake_done := True\<rparr>) 6"
  have six: "length build_change_cipher_spec = 6" by (simp add: build_change_cipher_spec_def)
  have "\<forall>n \<in> set [32, 1400, 280, 52 :: nat]. n \<le> 16000" by simp
  then obtain ps where ps: "flight = concat (map camo_record ps)" "length ps = 4"
      "\<forall>p \<in> set ps. length p \<le> kTlsMaxRecordPayload"
    using flight_records_shape [of "[32, 1400, 280, 52]" ent2 flight ent3] reply(5)
    by (auto simp: build_certificate_flight_def)
  define c3 where "c3 = c2\<lparr>cf_consumed := cf_consumed c2 + length (concat (map camo_record ps)), cf_flight_remaining := 0\<rparr>"
  have "next_payload_loop lib f now random c ent = next_payload_loop lib f now random c1 ent"
    unfolding c1_def by (rule first_step)
  also have "\<dots> = next_payload_loop lib f now random c2 ent"
    unfolding c2_def using inbox c(3)
    by (intro loop_change_cipher_spec [where rest = flight]) (simp_all add: c1_def camo_advance_def)
  also have "\<dots> = next_payload_loop lib f now random c3 ent"
    unfolding c3_def using inbox c(3) ps(2) six
    by (intro loop_flight [OF ps(3), where rest = "[]"]) (simp_all add: c2_def c1_def camo_advance_def ps(1))
  also have "\<dots> = (Inl cm_need_more, camo_compact c3, ent)"
    using inbox six by (intro loop_empty) (simp add: c3_def c2_def c1_def camo_advance_def ps(1))
  finally show ?thesis using c inbox six
    by (simp add: next_payload_def camo_holds_def camo_compact_def c3_def c2_def c1_def camo_advance_def ps(1))
qed

lemma reality_hello_exists:
  assumes "sodium_laws lib" "so_scalarmult_base lib random = Some P" "so_scalarmult lib random server_public = Some secret"
  obtains h where "reality_client_hello lib f random server_public short_id t = Inr h"
    "rh_ephemeral h = \<lparr>kp_public = P, kp_private = random\<rparr>"
proof -
  have "length P = 32" using assms(1,2) by (auto simp: sodium_laws_def)
  then have "\<exists>h. reality_client_hello lib f random server_public short_id t = Inr h \<and>
      rh_ephemeral h = \<lparr>kp_public = P, kp_private = random\<rparr>"
    using assms(2,3) by (simp add: reality_client_hello_def generate_keypair_def derive_public_key_def x25519_def
        keystream_xor_def Let_def kRealityNonceSize_def)
  then show thesis using that by blast
qed

text \<open>
  C3: a client that knows the public key of the server and the server that holds the private key recognise each
  other through the imitated TLS handshake. The client opens with a ClientHello; the server, fed that record,
  authenticates the client, whatever the host name, if the clocks differ by no more than the window, and queues
  its answer without refusing the client; the client, fed the answer, has verified the server and discarded the
  whole handshake. Neither end has taken a byte of the handshake for application data, and both framers are
  then ready for records.
\<close>

theorem reality_handshake:
  assumes laws: "sodium_laws lib" "stream_laws f"
    and server: "so_scalarmult_base lib server_private = Some server_public"
    and client: "so_scalarmult_base lib random1 = Some P" "so_scalarmult lib random1 server_public = Some secret"
    and share: "so_scalarmult_base lib random2 = Some Q"
    and sizes: "length short_id = 8" "length name \<le> 255"
    and clocks: "clock_distance now t \<le> window"
  shows "\<exists>hello c1 ent1 s1 ent3 reply s2 c2.
    open_framer lib f t random1 (configure_reality_client (new_framer camo_client name) server_public short_id) ent =
      (hello, c1, ent1) \<and>
    next_payload lib f now random2
      (camo_feed (configure_reality_server (new_framer camo_server host) server_private window) hello) ent2 =
      (Inl cm_need_more, s1, ent3) \<and> cf_reality_authenticated s1 \<and> \<not> cf_reality_rejected s1 \<and>
    take_handshake_reply s1 = (reply, s2) \<and> camo_holds (s2, ent3) [] \<and>
    next_payload lib f now' random3 (camo_feed c1 reply) ent4 = (Inl cm_need_more, c2, ent4) \<and>
    cf_reality_server_verified c2 \<and> camo_holds (c2, ent4) []"
proof -
  let ?c = "configure_reality_client (new_framer camo_client name) server_public short_id"
  let ?s = "configure_reality_server (new_framer camo_server host) server_private window"
  obtain h where h: "reality_client_hello lib f random1 server_public short_id t = Inr h"
    "rh_ephemeral h = \<lparr>kp_public = P, kp_private = random1\<rparr>"
    by (rule reality_hello_exists [OF laws(1) client])
  note m = reality_mutual [OF laws server sizes(1) h(1)]
  obtain hello ent1 where hello: "build_client_hello name P (rh_session_id h) ent = (hello, ent1)"
    by (cases "build_client_hello name P (rh_session_id h) ent")
  define c1 where "c1 = ?c\<lparr>cf_opened := True, cf_reality_ephemeral := rh_ephemeral h\<rparr>"
  have op: "open_framer lib f t random1 ?c ent = (hello, c1, ent1)"
    using h hello by (simp add: open_framer_def configure_reality_client_def new_framer_def Let_def c1_def)
  obtain tag where tag: "reality_server_auth lib server_private P Q = Inr tag" "length tag = 32"
      "reality_verify_server_auth lib random1 server_public Q tag"
    using m(4) [of Q] h(2) by auto
  obtain sh ent5 where sh: "build_server_hello (rh_session_id h) Q tag ent2 = (sh, ent5)"
    by (cases "build_server_hello (rh_session_id h) Q tag ent2")
  obtain fl ent3 where fl: "build_certificate_flight ent5 = (fl, ent3)" by (cases "build_certificate_flight ent5")
  have lq: "length Q = 32" using laws(1) share by (auto simp: sodium_laws_def)
  have "\<exists>s1. next_payload lib f now random2 (camo_feed ?s hello) ent2 = (Inl cm_need_more, s1, ent3) \<and>
      camo_holds (s1, ent3) [] \<and> cf_reality_authenticated s1 \<and> \<not> cf_reality_rejected s1 \<and>
      cf_pending_reply s1 = sh @ build_change_cipher_spec @ fl"
  proof (rule loop_client_hello [OF _ _ _ _ _ _ _ hello _ m(2) sizes(2) _ share _ sh fl])
    show "length P = 32" using m(1) h(2) by simp
  qed (use m(3) [OF clocks] h(2) tag(1) in \<open>simp_all add: camo_feed_def configure_reality_server_def new_framer_def\<close>)
  then obtain s1 where s1: "next_payload lib f now random2 (camo_feed ?s hello) ent2 = (Inl cm_need_more, s1, ent3)"
    "camo_holds (s1, ent3) []" "cf_reality_authenticated s1" "\<not> cf_reality_rejected s1"
    "cf_pending_reply s1 = sh @ build_change_cipher_spec @ fl" by blast
  define reply where "reply = sh @ build_change_cipher_spec @ fl"
  have "\<exists>c2. next_payload lib f now' random3 (camo_feed c1 reply) ent4 = (Inl cm_need_more, c2, ent4) \<and>
      camo_holds (c2, ent4) [] \<and> cf_reality_server_verified c2 \<and> cf_handshake_done c2"
    by (rule loop_server_answer [OF _ _ _ _ _ _ sh lq m(2) tag(2) fl])
      (simp_all add: reply_def c1_def camo_feed_def configure_reality_client_def new_framer_def h(2) tag(3))
  then obtain c2 where c2: "next_payload lib f now' random3 (camo_feed c1 reply) ent4 = (Inl cm_need_more, c2, ent4)"
    "camo_holds (c2, ent4) []" "cf_reality_server_verified c2" by blast
  have "take_handshake_reply s1 = (reply, s1\<lparr>cf_pending_reply := []\<rparr>)" "camo_holds (s1\<lparr>cf_pending_reply := []\<rparr>, ent3) []"
    using s1(2,5) by (simp_all add: take_handshake_reply_def reply_def camo_holds_def)
  then show ?thesis using op s1(1,3,4) c2 by blast
qed

theorem reality_handshake_witness:
  "\<exists>hello c1 ent1 s1 ent3 reply s2 c2.
    open_framer xor_sodium (\<lambda>m nonce key. m) 1000 (replicate 32 1)
      (configure_reality_client (new_framer camo_client ''a.example'') (replicate 32 7) (replicate 8 5)) [] = (hello, c1, ent1) \<and>
    next_payload xor_sodium (\<lambda>m nonce key. m) 1060 (replicate 32 2)
      (camo_feed (configure_reality_server (new_framer camo_server ''b'') (replicate 32 7) 120) hello) [] =
      (Inl cm_need_more, s1, ent3) \<and> cf_reality_authenticated s1 \<and> \<not> cf_reality_rejected s1 \<and>
    take_handshake_reply s1 = (reply, s2) \<and> camo_holds (s2, ent3) [] \<and>
    next_payload xor_sodium (\<lambda>m nonce key. m) 1060 [] (camo_feed c1 reply) [] = (Inl cm_need_more, c2, []) \<and>
    cf_reality_server_verified c2 \<and> camo_holds (c2, []) []"
  by (rule reality_handshake [OF xor_sodium_laws, where P = "replicate 32 1" and Q = "replicate 32 2" and
        secret = "map2 (XOR) (replicate 32 1) (replicate 32 7)"])
    (simp_all add: stream_laws_def xor_sodium_def clock_distance_def)

end
