(* ===== verification/Config.thy ===== *)
theory Config
  imports Endpoint Obfuscation Fec
begin

text \<open>
  The configuration file (src/config.cpp, src/include/norr/config.hpp) with the traffic profiles of
  src/include/norr/traffic_profile.hpp: the line parser, every key, and the checks after the last line.
  The state of the parser between two lines is \<open>ParserState\<close>; the sets of keys the code keeps are lists.
\<close>

section \<open>Traffic profiles\<close>

datatype TrafficProfile = tp_standard | tp_quic | tp_dns

definition traffic_profile_name :: "TrafficProfile \<Rightarrow> string" where
  "traffic_profile_name profile = (case profile of
     tp_standard \<Rightarrow> ''standard'' | tp_quic \<Rightarrow> ''quic'' | tp_dns \<Rightarrow> ''dns'')"

definition profile_buckets :: "TrafficProfile \<Rightarrow> nat list" where
  "profile_buckets profile = (case profile of
     tp_standard \<Rightarrow> [] | tp_quic \<Rightarrow> [64, 128, 256, 512, 1100] | tp_dns \<Rightarrow> [64, 128, 256, 512])"

fun fitting_bucket :: "nat list \<Rightarrow> nat \<Rightarrow> nat" where
  "fitting_bucket [] aligned = aligned"
| "fitting_bucket (bucket # rest) aligned = (if aligned \<le> bucket then bucket else fitting_bucket rest aligned)"

definition profile_padded_length :: "TrafficProfile \<Rightarrow> nat \<Rightarrow> nat" where
  "profile_padded_length profile len = fitting_bucket (profile_buckets profile) (padded_length len)"

definition kChaffInterval :: duration where "kChaffInterval = milliseconds 250"

text \<open>Padding never shortens, is a multiple of the alignment, and up to the largest bucket shows only which
  bucket the length falls in.\<close>

lemma profile_padded_length_bucket:
  "len \<le> profile_padded_length profile len"
  "profile \<noteq> tp_standard \<Longrightarrow> padded_length len \<le> last (profile_buckets profile) \<Longrightarrow>
    profile_padded_length profile len \<in> set (profile_buckets profile)"
  "profile_padded_length profile len = padded_length len \<or>
    profile_padded_length profile len \<in> set (profile_buckets profile)"
proof -
  have "x \<le> fitting_bucket bs x" for bs x by (induction bs) auto
  moreover have "len \<le> padded_length len" by (simp add: padded_length_def Let_def)
  ultimately show "len \<le> profile_padded_length profile len"
    unfolding profile_padded_length_def by (rule order_trans [rotated])
  have "bs \<noteq> [] \<Longrightarrow> x \<le> last bs \<Longrightarrow> fitting_bucket bs x \<in> set bs" for bs x
    by (induction bs) (auto split: if_split_asm)
  then show "profile \<noteq> tp_standard \<Longrightarrow> padded_length len \<le> last (profile_buckets profile) \<Longrightarrow>
      profile_padded_length profile len \<in> set (profile_buckets profile)"
    unfolding profile_padded_length_def by (cases profile) (simp_all add: profile_buckets_def)
  have "fitting_bucket bs x = x \<or> fitting_bucket bs x \<in> set bs" for bs x by (induction bs) auto
  then show "profile_padded_length profile len = padded_length len \<or>
      profile_padded_length profile len \<in> set (profile_buckets profile)"
    by (simp add: profile_padded_length_def)
qed

section \<open>The configuration\<close>

datatype ConfigError =
  unreadable_file | syntax_error | unknown_section | unknown_key | duplicate_key | missing_required
  | invalid_value | value_out_of_range | port_conflict | invalid_mtu | incompatible_options

definition config_error_message :: "ConfigError \<Rightarrow> string" where
  "config_error_message error = (case error of
     unreadable_file \<Rightarrow> ''configuration file cannot be read''
   | syntax_error \<Rightarrow> ''syntax error''
   | unknown_section \<Rightarrow> ''unknown section''
   | unknown_key \<Rightarrow> ''unknown key''
   | duplicate_key \<Rightarrow> ''duplicate key''
   | missing_required \<Rightarrow> ''missing required value''
   | invalid_value \<Rightarrow> ''invalid value''
   | value_out_of_range \<Rightarrow> ''value out of allowed range''
   | port_conflict \<Rightarrow> ''listen port conflicts with a peer endpoint''
   | invalid_mtu \<Rightarrow> ''invalid MTU''
   | incompatible_options \<Rightarrow> ''incompatible options'')"

record ConfigDiagnostic =
  dg_error :: ConfigError
  dg_line :: nat
  dg_detail :: string

datatype NodeRole = node_server | node_client

datatype TransportMode =
  tm_automatic | tm_udp | tm_quic | tm_tcp_tls | tm_icmp | tm_ipip | tm_gre | tm_esp | tm_ah | tm_ospf | tm_dns

datatype CamouflageMode = cam_off | cam_fake_tls | cam_pop3 | cam_smtp | cam_xmpp | cam_ssh | cam_raw

definition kMinimumMtu :: u16 where "kMinimumMtu = 1280"
definition kMaximumMtu :: u16 where "kMaximumMtu = 9000"
definition kAutomaticMtu :: u16 where "kAutomaticMtu = 0"
definition kMaximumJunkLength :: nat where "kMaximumJunkLength = 255"

record NetworkConfig =
  net_ipv4 :: bool
  net_ipv6 :: bool
  net_mtu :: u16
  net_fwmark :: u32
  net_forward :: bool
  net_offload :: bool
  net_return_via_tunnel :: bool
  net_addresses :: "string list"

record ForwardEntry =
  fwd_name :: string
  fwd_port :: u16
  fwd_target :: string
  fwd_tcp :: bool
  fwd_udp :: bool
  fwd_preserve_source :: bool

record PeerEntry =
  pent_name :: string
  pent_public_key :: string
  pent_preshared_key :: string
  pent_endpoint :: string
  pent_allowed_ips :: "string list"
  pent_routes :: bool

record Config =
  cfg_role :: NodeRole
  cfg_listen_port :: u16
  cfg_identity_key_file :: string
  cfg_network :: NetworkConfig
  cfg_transport :: TransportMode
  cfg_tcp_connections :: u8
  cfg_camouflage :: CamouflageMode
  cfg_camouflage_sni :: string
  cfg_camouflage_sni_pool :: "string list"
  cfg_reality_private_key :: string
  cfg_reality_public_key :: string
  cfg_reality_short_id :: string
  cfg_reality_cover :: string
  cfg_qos_enabled :: bool
  cfg_qos_rate_bytes :: u64
  cfg_brutal_rate_bytes :: u64
  cfg_qos_burst_bytes :: u64
  cfg_fec :: FecMode
  cfg_obfuscation :: ObfuscationConfig
  cfg_icmp_echo_request_only :: bool
  cfg_icmp_silence_kernel :: bool
  cfg_dns_domain :: string
  cfg_rekey_interval_seconds :: int
  cfg_rotate_interval_seconds :: int
  cfg_spoof_enabled :: bool
  cfg_spoof_sources :: "u32 list"
  cfg_profile :: TrafficProfile
  cfg_log_level :: string
  cfg_tuning_profile :: string
  cfg_metrics_enabled :: bool
  cfg_metrics_listen :: string
  cfg_tun_name :: string
  cfg_user :: string
  cfg_peers :: "PeerEntry list"
  cfg_notes :: "string list"
  cfg_forwards :: "ForwardEntry list"

definition default_network :: NetworkConfig where
  "default_network = \<lparr>net_ipv4 = True, net_ipv6 = True, net_mtu = kAutomaticMtu, net_fwmark = 0,
     net_forward = False, net_offload = True, net_return_via_tunnel = False, net_addresses = []\<rparr>"

definition empty_forward :: ForwardEntry where
  "empty_forward = \<lparr>fwd_name = [], fwd_port = 0, fwd_target = [], fwd_tcp = True, fwd_udp = True,
     fwd_preserve_source = False\<rparr>"

definition empty_peer :: PeerEntry where
  "empty_peer = \<lparr>pent_name = [], pent_public_key = [], pent_preshared_key = [], pent_endpoint = [],
     pent_allowed_ips = [], pent_routes = True\<rparr>"

definition default_config :: Config where
  "default_config = \<lparr>cfg_role = node_server, cfg_listen_port = 0, cfg_identity_key_file = [],
     cfg_network = default_network, cfg_transport = tm_automatic, cfg_tcp_connections = 1,
     cfg_camouflage = cam_off, cfg_camouflage_sni = ''www.microsoft.com'', cfg_camouflage_sni_pool = [],
     cfg_reality_private_key = [], cfg_reality_public_key = [], cfg_reality_short_id = [],
     cfg_reality_cover = [], cfg_qos_enabled = False, cfg_qos_rate_bytes = 0, cfg_brutal_rate_bytes = 0,
     cfg_qos_burst_bytes = 0, cfg_fec = fec_off, cfg_obfuscation = default_obfuscation,
     cfg_icmp_echo_request_only = True, cfg_icmp_silence_kernel = False, cfg_dns_domain = ''t.example.com'',
     cfg_rekey_interval_seconds = 120, cfg_rotate_interval_seconds = 0, cfg_spoof_enabled = False,
     cfg_spoof_sources = [], cfg_profile = tp_standard, cfg_log_level = ''info'',
     cfg_tuning_profile = ''off'', cfg_metrics_enabled = False, cfg_metrics_listen = [],
     cfg_tun_name = ''norr0'', cfg_user = [], cfg_peers = [], cfg_notes = [], cfg_forwards = []\<rparr>"

section \<open>Values\<close>

definition carries_datagrams :: "TransportMode \<Rightarrow> bool" where
  "carries_datagrams mode = (case mode of
     tm_automatic \<Rightarrow> True | tm_udp \<Rightarrow> True | tm_icmp \<Rightarrow> True | tm_ipip \<Rightarrow> True | tm_gre \<Rightarrow> True
   | tm_esp \<Rightarrow> True | tm_ah \<Rightarrow> True | tm_ospf \<Rightarrow> True | tm_dns \<Rightarrow> True
   | tm_quic \<Rightarrow> False | tm_tcp_tls \<Rightarrow> False)"

definition is_space :: "char \<Rightarrow> bool" where
  "is_space c \<longleftrightarrow> c = CHR '' '' \<or> c = CHR 0x09 \<or> c = CHR 0x0D \<or> c = CHR 0x0A"

definition strip :: "(char \<Rightarrow> bool) \<Rightarrow> string \<Rightarrow> string" where
  "strip space t = rev (dropWhile space (rev (dropWhile space t)))"

definition trim :: "string \<Rightarrow> string" where
  "trim t = strip is_space t"

definition unquote :: "string \<Rightarrow> ConfigError + string" where
  "unquote value =
     (if 2 \<le> length value \<and> hd value = CHR 0x22 \<and> last value = CHR 0x22 then Inr (substr 1 (length value - 2) value)
      else if find_char (CHR 0x22) 0 value \<noteq> None then Inl syntax_error
      else Inr value)"

definition parse_bool :: "string \<Rightarrow> ConfigError + bool" where
  "parse_bool value =
     (if value = ''true'' then Inr True else if value = ''false'' then Inr False else Inl invalid_value)"

definition parse_uint :: "string \<Rightarrow> ConfigError + u64" where
  "parse_uint value =
     (if value = [] then Inl invalid_value
      else case from_chars 10 18446744073709551615 value of
             None \<Rightarrow> Inl invalid_value
           | Some (parsed, used) \<Rightarrow> if used \<noteq> length value then Inl invalid_value else Inr (of_nat parsed))"

text \<open>\<^verbatim>\<open>std::from_chars\<close> into a signed 32-bit integer takes a minus sign.\<close>

definition from_chars_int32 :: "string \<Rightarrow> (int \<times> nat) option" where
  "from_chars_int32 s =
     (case s of
        CHR ''-'' # ds \<Rightarrow> map_option (\<lambda>(v, used). (- int v, used + 1)) (from_chars 10 2147483648 ds)
      | _ \<Rightarrow> map_option (\<lambda>(v, used). (int v, used)) (from_chars 10 2147483647 s))"

definition parse_int32 :: "string \<Rightarrow> ConfigError + int" where
  "parse_int32 value =
     (if value = [] then Inl invalid_value
      else case from_chars_int32 value of
             None \<Rightarrow> Inl invalid_value
           | Some (parsed, used) \<Rightarrow> if used \<noteq> length value then Inl invalid_value else Inr parsed)"

definition config_port :: "string \<Rightarrow> ConfigError + u16" where
  "config_port value =
     (case parse_uint value of
        Inl e \<Rightarrow> Inl e
      | Inr parsed \<Rightarrow> if parsed = 0 \<or> parsed > 65535 then Inl value_out_of_range else Inr (ucast parsed))"

definition is_hex_char :: "char \<Rightarrow> bool" where
  "is_hex_char c \<longleftrightarrow> (let k = of_char c :: nat
     in (48 \<le> k \<and> k \<le> 57) \<or> (97 \<le> k \<and> k \<le> 102) \<or> (65 \<le> k \<and> k \<le> 70))"

definition is_hex_key :: "string \<Rightarrow> bool" where
  "is_hex_key value = (if length value \<noteq> 64 then False else list_all is_hex_char value)"

function split_list :: "string \<Rightarrow> string list" where
  "split_list value =
     (if value = [] then []
      else case find_char (CHR '','') 0 value of
             None \<Rightarrow> [trim value]
           | Some comma \<Rightarrow> trim (substr 0 comma value) # split_list (drop (comma + 1) value))"
  by auto
termination
  by (relation "measure length") (auto dest: find_char_bound)

declare split_list.simps [simp del]

definition parse_mtu :: "string \<Rightarrow> ConfigError + u16" where
  "parse_mtu value =
     (if value = ''auto'' then Inr kAutomaticMtu
      else case parse_uint value of
             Inl e \<Rightarrow> Inl invalid_mtu
           | Inr parsed \<Rightarrow>
               if parsed < ucast kMinimumMtu \<or> parsed > ucast kMaximumMtu then Inl invalid_mtu else Inr (ucast parsed))"

section \<open>Keys\<close>

text \<open>A key of a group gives the new configuration or an error; \<open>None\<close> means that the group does not have it.\<close>

definition set_flag :: "string \<Rightarrow> (bool \<Rightarrow> Config) \<Rightarrow> (ConfigError + Config) option" where
  "set_flag value f = Some (case parse_bool value of Inl e \<Rightarrow> Inl e | Inr flag \<Rightarrow> Inr (f flag))"

definition set_positive :: "string \<Rightarrow> (u64 \<Rightarrow> Config) \<Rightarrow> (ConfigError + Config) option" where
  "set_positive value f = Some (case parse_uint value of
     Inl e \<Rightarrow> Inl e | Inr n \<Rightarrow> if n = 0 then Inl value_out_of_range else Inr (f n))"

definition assign_node :: "string \<Rightarrow> string \<Rightarrow> Config \<Rightarrow> (ConfigError + Config) option" where
  "assign_node qualified value c =
     (if qualified = ''node.role'' then
        Some (if value = ''server'' then Inr (c\<lparr>cfg_role := node_server\<rparr>)
              else if value = ''client'' then Inr (c\<lparr>cfg_role := node_client\<rparr>)
              else Inl invalid_value)
      else if qualified = ''node.listen_port'' then
        Some (case config_port value of Inl e \<Rightarrow> Inl e | Inr port \<Rightarrow> Inr (c\<lparr>cfg_listen_port := port\<rparr>))
      else if qualified = ''node.user'' then
        Some (if value = [] \<or> length value > 32 then Inl invalid_value else Inr (c\<lparr>cfg_user := value\<rparr>))
      else if qualified = ''node.tun'' then
        Some (if value = [] \<or> length value > 15 then Inl invalid_value else Inr (c\<lparr>cfg_tun_name := value\<rparr>))
      else None)"

definition assign_forward :: "string \<Rightarrow> string \<Rightarrow> ForwardEntry \<Rightarrow> ConfigError + ForwardEntry" where
  "assign_forward key value entry =
     (if key = ''name'' then
        if value = [] then Inl invalid_value else Inr (entry\<lparr>fwd_name := value\<rparr>)
      else if key = ''listen_port'' then
        (case config_port value of Inl e \<Rightarrow> Inl e | Inr port \<Rightarrow> Inr (entry\<lparr>fwd_port := port\<rparr>))
      else if key = ''target'' then
        (case parse_endpoint value of Inl e \<Rightarrow> Inl invalid_value | Inr e \<Rightarrow> Inr (entry\<lparr>fwd_target := value\<rparr>))
      else if key = ''preserve_source'' then
        (case parse_bool value of Inl e \<Rightarrow> Inl e | Inr flag \<Rightarrow> Inr (entry\<lparr>fwd_preserve_source := flag\<rparr>))
      else if key = ''protocol'' then
        if value = ''tcp'' then Inr (entry\<lparr>fwd_tcp := True, fwd_udp := False\<rparr>)
        else if value = ''udp'' then Inr (entry\<lparr>fwd_tcp := False, fwd_udp := True\<rparr>)
        else if value = ''both'' then Inr (entry\<lparr>fwd_tcp := True, fwd_udp := True\<rparr>)
        else Inl invalid_value
      else Inl unknown_key)"

text \<open>A list of prefixes: no part may be empty or without a slash, and there is at least one.\<close>

definition parse_prefix_list :: "string list \<Rightarrow> string \<Rightarrow> ConfigError + string list" where
  "parse_prefix_list present value =
     (let parts = split_list value
      in if list_ex (\<lambda>part. part = [] \<or> find_char (CHR ''/'') 0 part = None) parts then Inl invalid_value
         else if present @ parts = [] then Inl invalid_value
         else Inr (present @ parts))"

definition assign_peer :: "string \<Rightarrow> string \<Rightarrow> PeerEntry \<Rightarrow> ConfigError + PeerEntry" where
  "assign_peer key value entry =
     (if key = ''name'' then
        if value = [] then Inl invalid_value else Inr (entry\<lparr>pent_name := value\<rparr>)
      else if key = ''public_key'' then
        if \<not> is_hex_key value then Inl invalid_value else Inr (entry\<lparr>pent_public_key := value\<rparr>)
      else if key = ''preshared_key'' then
        if \<not> is_hex_key value then Inl invalid_value else Inr (entry\<lparr>pent_preshared_key := value\<rparr>)
      else if key = ''endpoint'' then
        if value = [] \<or> find_char (CHR '':'') 0 value = None then Inl invalid_value
        else Inr (entry\<lparr>pent_endpoint := value\<rparr>)
      else if key = ''routes'' then
        (case parse_bool value of Inl e \<Rightarrow> Inl e | Inr flag \<Rightarrow> Inr (entry\<lparr>pent_routes := flag\<rparr>))
      else if key = ''allowed_ips'' then
        (case parse_prefix_list (pent_allowed_ips entry) value of
           Inl e \<Rightarrow> Inl e | Inr prefixes \<Rightarrow> Inr (entry\<lparr>pent_allowed_ips := prefixes\<rparr>))
      else Inl unknown_key)"

text \<open>The entry under construction is \<^verbatim>\<open>back()\<close> of the vector, which has to be there
  (lemma \<open>parser_state\<close> of \<open>Config_Valid\<close>).\<close>

definition assign_back :: "('a \<Rightarrow> ConfigError + 'a) \<Rightarrow> 'a list \<Rightarrow> ConfigError + 'a list" where
  "assign_back f entries =
     (case f (last entries) of Inl e \<Rightarrow> Inl e | Inr entry \<Rightarrow> Inr (butlast entries @ [entry]))"

definition assign_network :: "string \<Rightarrow> string \<Rightarrow> Config \<Rightarrow> (ConfigError + Config) option" where
  "assign_network qualified value c =
     (let net = (\<lambda>f. c\<lparr>cfg_network := f (cfg_network c)\<rparr>)
      in if qualified = ''identity.key_file'' then
           Some (if value = [] then Inl invalid_value else Inr (c\<lparr>cfg_identity_key_file := value\<rparr>))
         else if qualified = ''network.ipv4'' then set_flag value (\<lambda>flag. net (net_ipv4_update (\<lambda>_. flag)))
         else if qualified = ''network.ipv6'' then set_flag value (\<lambda>flag. net (net_ipv6_update (\<lambda>_. flag)))
         else if qualified = ''network.address'' then
           Some (case parse_prefix_list (net_addresses (cfg_network c)) value of
                   Inl e \<Rightarrow> Inl e | Inr prefixes \<Rightarrow> Inr (net (net_addresses_update (\<lambda>_. prefixes))))
         else if qualified = ''network.fwmark'' then
           Some (case parse_uint value of
                   Inl e \<Rightarrow> Inl e
                 | Inr m \<Rightarrow> if m = 0 \<or> m > 0xFFFFFFFF then Inl value_out_of_range
                             else Inr (net (net_fwmark_update (\<lambda>_. ucast m))))
         else if qualified = ''network.return_via_tunnel'' then
           set_flag value (\<lambda>flag. net (net_return_via_tunnel_update (\<lambda>_. flag)))
         else if qualified = ''network.offload'' then set_flag value (\<lambda>flag. net (net_offload_update (\<lambda>_. flag)))
         else if qualified = ''network.forward'' then set_flag value (\<lambda>flag. net (net_forward_update (\<lambda>_. flag)))
         else if qualified = ''network.mtu'' then
           Some (case parse_mtu value of Inl e \<Rightarrow> Inl e | Inr mtu \<Rightarrow> Inr (net (net_mtu_update (\<lambda>_. mtu))))
         else None)"

fun choose_name :: "(string \<times> 'a) list \<Rightarrow> string \<Rightarrow> 'a option" where
  "choose_name [] value = None"
| "choose_name ((name, x) # rest) value = (if value = name then Some x else choose_name rest value)"

definition set_choice :: "(string \<times> 'a) list \<Rightarrow> string \<Rightarrow> ('a \<Rightarrow> Config) \<Rightarrow> (ConfigError + Config) option" where
  "set_choice names value f = Some (case choose_name names value of None \<Rightarrow> Inl invalid_value | Some x \<Rightarrow> Inr (f x))"

definition assign_rates :: "string \<Rightarrow> string \<Rightarrow> Config \<Rightarrow> (ConfigError + Config) option" where
  "assign_rates qualified value c =
     (if qualified = ''transport.mode'' then
        set_choice [(''auto'', tm_automatic), (''udp'', tm_udp), (''quic'', tm_quic), (''tcp-tls'', tm_tcp_tls),
          (''icmp'', tm_icmp), (''ipip'', tm_ipip), (''gre'', tm_gre), (''esp'', tm_esp), (''ah'', tm_ah),
          (''ospf'', tm_ospf), (''dns'', tm_dns)] value (\<lambda>mode. c\<lparr>cfg_transport := mode\<rparr>)
      else if qualified = ''qos.enabled'' then set_flag value (\<lambda>flag. c\<lparr>cfg_qos_enabled := flag\<rparr>)
      else if qualified = ''qos.rate_bytes'' then set_positive value (\<lambda>rate. c\<lparr>cfg_qos_rate_bytes := rate\<rparr>)
      else if qualified = ''qos.burst_bytes'' then set_positive value (\<lambda>burst. c\<lparr>cfg_qos_burst_bytes := burst\<rparr>)
      else if qualified = ''congestion.brutal_rate_bytes'' then
        set_positive value (\<lambda>rate. c\<lparr>cfg_brutal_rate_bytes := rate\<rparr>)
      else if qualified = ''transport.connections'' then
        Some (case parse_uint value of
                Inl e \<Rightarrow> Inl e
              | Inr n \<Rightarrow> if n < 1 \<or> n > 8 then Inl value_out_of_range else Inr (c\<lparr>cfg_tcp_connections := ucast n\<rparr>))
      else None)"

definition assign_obfuscation :: "string \<Rightarrow> string \<Rightarrow> Config \<Rightarrow> (ConfigError + Config) option" where
  "assign_obfuscation qualified value c =
     (let obf = (\<lambda>f. c\<lparr>cfg_obfuscation := f (cfg_obfuscation c)\<rparr>)
      in if qualified = ''transport.profile'' then
           set_choice [(''standard'', tp_standard), (''quic'', tp_quic), (''dns'', tp_dns)] value
             (\<lambda>profile. c\<lparr>cfg_profile := profile\<rparr>)
         else if qualified = ''transport.obfuscation'' then
           set_choice [(''off'', mode_off), (''header-mask'', mode_header_mask), (''full'', mode_full)] value
             (\<lambda>mode. obf (oc_mode_update (\<lambda>_. mode)))
         else if qualified = ''transport.junk'' then set_flag value (\<lambda>flag. obf (oc_junk_padding_update (\<lambda>_. flag)))
         else if qualified = ''transport.uniform_length'' then
           set_flag value (\<lambda>flag. obf (oc_uniform_length_update (\<lambda>_. flag)))
         else if qualified = ''transport.junk_max'' then
           Some (case parse_uint value of
                   Inl e \<Rightarrow> Inl e
                 | Inr n \<Rightarrow> if n = 0 \<or> n > of_nat kMaximumJunkLength then Inl value_out_of_range
                             else Inr (obf (oc_junk_max_update (\<lambda>_. ucast n))))
         else if qualified = ''transport.priming'' then set_flag value (\<lambda>flag. obf (oc_priming_update (\<lambda>_. flag)))
         else None)"

text \<open>The sources of spoofed packets: IPv4 addresses as 32-bit numbers, the zero address left out.\<close>

definition address_be32 :: "Address \<Rightarrow> u32" where
  "address_be32 a = push_bit 24 (ucast (ad_octets a ! 0)) OR push_bit 16 (ucast (ad_octets a ! 1)) OR
     push_bit 8 (ucast (ad_octets a ! 2)) OR ucast (ad_octets a ! 3)"

fun parse_spoof_sources :: "string list \<Rightarrow> u32 list \<Rightarrow> (u32 list) option" where
  "parse_spoof_sources [] sources = Some sources"
| "parse_spoof_sources (part # rest) sources =
     (case parse_address part of
        Inl e \<Rightarrow> None
      | Inr a \<Rightarrow>
          if ad_family a \<noteq> ipv4 then None
          else parse_spoof_sources rest (if address_be32 a \<noteq> 0 then sources @ [address_be32 a] else sources))"

definition assign_transport :: "string \<Rightarrow> string \<Rightarrow> Config \<Rightarrow> (ConfigError + Config) option" where
  "assign_transport qualified value c =
     (if qualified = ''node.log_level'' then
        Some (if value \<noteq> ''debug'' \<and> value \<noteq> ''info'' \<and> value \<noteq> ''warn'' \<and> value \<noteq> ''error'' \<and> value \<noteq> ''off''
              then Inl invalid_value else Inr (c\<lparr>cfg_log_level := value\<rparr>))
      else if qualified = ''node.tuning'' then
        Some (if value \<noteq> ''off'' \<and> value \<noteq> ''balanced'' \<and> value \<noteq> ''throughput'' \<and> value \<noteq> ''saver''
              then Inl invalid_value else Inr (c\<lparr>cfg_tuning_profile := value\<rparr>))
      else if qualified = ''transport.icmp_echo_request_only'' then
        set_flag value (\<lambda>flag. c\<lparr>cfg_icmp_echo_request_only := flag\<rparr>)
      else if qualified = ''transport.icmp_silence_kernel'' then
        set_flag value (\<lambda>flag. c\<lparr>cfg_icmp_silence_kernel := flag\<rparr>)
      else if qualified = ''transport.dns_domain'' then Some (Inr (c\<lparr>cfg_dns_domain := value\<rparr>))
      else if qualified = ''transport.rekey_interval'' then
        Some (case parse_int32 value of Inl e \<Rightarrow> Inl e | Inr n \<Rightarrow> Inr (c\<lparr>cfg_rekey_interval_seconds := n\<rparr>))
      else if qualified = ''transport.rotate_interval'' then
        Some (case parse_int32 value of Inl e \<Rightarrow> Inl e | Inr n \<Rightarrow> Inr (c\<lparr>cfg_rotate_interval_seconds := n\<rparr>))
      else if qualified = ''transport.spoof'' then set_flag value (\<lambda>flag. c\<lparr>cfg_spoof_enabled := flag\<rparr>)
      else if qualified = ''transport.spoof_sources'' then
        Some (case parse_spoof_sources (split_list value) [] of
                None \<Rightarrow> Inl invalid_value
              | Some sources \<Rightarrow>
                  if sources = [] then Inl invalid_value else Inr (c\<lparr>cfg_spoof_sources := sources\<rparr>))
      else None)"

text \<open>Server names: parts stripped of blanks and tabs; empty and overlong ones are left out.\<close>

function parse_sni_pool :: "string \<Rightarrow> string list" where
  "parse_sni_pool rest =
     (if rest = [] then []
      else
        let comma = find_char (CHR '','') 0 rest;
            part = (case comma of None \<Rightarrow> rest | Some k \<Rightarrow> substr 0 k rest);
            item = strip (\<lambda>ch. ch = CHR '' '' \<or> ch = CHR 0x09) part;
            items = (if item \<noteq> [] \<and> length item \<le> 253 then [item] else [])
        in case comma of None \<Rightarrow> items | Some k \<Rightarrow> items @ parse_sni_pool (drop (k + 1) rest))"
  by auto
termination
  by (relation "measure length") (auto dest: find_char_bound)

declare parse_sni_pool.simps [simp del]

definition assign_camouflage :: "string \<Rightarrow> string \<Rightarrow> Config \<Rightarrow> (ConfigError + Config) option" where
  "assign_camouflage qualified value c =
     (if qualified = ''transport.camouflage'' then
        set_choice [(''off'', cam_off), (''fake-tls'', cam_fake_tls), (''pop3'', cam_pop3), (''smtp'', cam_smtp),
          (''xmpp'', cam_xmpp), (''ssh'', cam_ssh), (''raw'', cam_raw)] value (\<lambda>mode. c\<lparr>cfg_camouflage := mode\<rparr>)
      else if qualified = ''transport.sni'' then
        Some (if value = [] \<or> length value > 2048 then Inl invalid_value
              else let pool = parse_sni_pool value
                   in if pool = [] then Inl invalid_value
                      else Inr (c\<lparr>cfg_camouflage_sni_pool := pool, cfg_camouflage_sni := hd pool\<rparr>))
      else if qualified = ''transport.reality_private_key'' then
        Some (if \<not> is_hex_key value then Inl invalid_value else Inr (c\<lparr>cfg_reality_private_key := value\<rparr>))
      else if qualified = ''transport.reality_public_key'' then
        Some (if \<not> is_hex_key value then Inl invalid_value else Inr (c\<lparr>cfg_reality_public_key := value\<rparr>))
      else if qualified = ''transport.reality_short_id'' then
        Some (if length value \<noteq> 16 then Inl invalid_value else Inr (c\<lparr>cfg_reality_short_id := value\<rparr>))
      else if qualified = ''transport.reality_cover'' then
        Some (if value = [] \<or> length value > 300 then Inl invalid_value else Inr (c\<lparr>cfg_reality_cover := value\<rparr>))
      else None)"

text \<open>The table of deprecated keys is empty.\<close>

definition deprecated_note :: "string \<Rightarrow> string option" where
  "deprecated_note qualified = None"

definition assign_rest :: "string \<Rightarrow> string \<Rightarrow> Config \<Rightarrow> (ConfigError + Config) option" where
  "assign_rest qualified value c =
     (if qualified = ''fec.mode'' then
        set_choice [(''off'', fec_off), (''light'', fec_light), (''moderate'', fec_moderate),
          (''aggressive'', fec_aggressive), (''auto'', fec_automatic)] value (\<lambda>mode. c\<lparr>cfg_fec := mode\<rparr>)
      else if qualified = ''observability.metrics'' then set_flag value (\<lambda>flag. c\<lparr>cfg_metrics_enabled := flag\<rparr>)
      else if qualified = ''observability.listen'' then
        Some (if value = [] \<or> find_char (CHR '':'') 0 value = None then Inl invalid_value
              else Inr (c\<lparr>cfg_metrics_listen := value\<rparr>))
      else case deprecated_note qualified of
             Some note \<Rightarrow> Some (Inr (c\<lparr>cfg_notes := cfg_notes c @ [note]\<rparr>))
           | None \<Rightarrow> Some (Inl unknown_key))"

text \<open>The groups in the order of the code; the two repeated sections take all their keys.\<close>

fun first_group :: "(Config \<Rightarrow> (ConfigError + Config) option) list \<Rightarrow> Config \<Rightarrow> ConfigError + Config" where
  "first_group [] c = Inl unknown_key"
| "first_group (g # gs) c = (case g c of None \<Rightarrow> first_group gs c | Some r \<Rightarrow> r)"

definition assign_key :: "string \<Rightarrow> string \<Rightarrow> string \<Rightarrow> Config \<Rightarrow> ConfigError + Config" where
  "assign_key section key value c =
     (let qualified = section @ ''.'' @ key
      in first_group
        [assign_node qualified value,
         (\<lambda>c. if section = ''forward'' then
            Some (map_sum id (\<lambda>fs. c\<lparr>cfg_forwards := fs\<rparr>) (assign_back (assign_forward key value) (cfg_forwards c)))
          else None),
         (\<lambda>c. if section = ''peer'' then
            Some (map_sum id (\<lambda>ps. c\<lparr>cfg_peers := ps\<rparr>) (assign_back (assign_peer key value) (cfg_peers c)))
          else None),
         assign_network qualified value, assign_rates qualified value, assign_obfuscation qualified value,
         assign_transport qualified value, assign_camouflage qualified value, assign_rest qualified value] c)"

section \<open>Lines\<close>

record ParserState =
  prs_config :: Config
  prs_section :: string
  prs_seen :: "string list"
  prs_present :: "string list"

definition diagnose :: "ConfigError \<Rightarrow> nat \<Rightarrow> string \<Rightarrow> ConfigDiagnostic" where
  "diagnose e n detail = \<lparr>dg_error = e, dg_line = n, dg_detail = detail\<rparr>"

definition known_sections :: "string list" where
  "known_sections = [''node'', ''identity'', ''network'', ''transport'', ''qos'', ''fec'', ''observability'', ''congestion'']"

definition ends_with :: "string \<Rightarrow> string \<Rightarrow> bool" where
  "ends_with suff t \<longleftrightarrow> length suff \<le> length t \<and> drop (length t - length suff) t = suff"

definition parse_section :: "nat \<Rightarrow> string \<Rightarrow> ParserState \<Rightarrow> ConfigDiagnostic + ParserState" where
  "parse_section n line st =
     (let c = prs_config st
      in if length line > 4 \<and> starts_with ''[['' line \<and> ends_with '']]'' line then
           let name = trim (substr 2 (length line - 4) line)
           in if name = ''peer'' then
                Inr (st\<lparr>prs_config := c\<lparr>cfg_peers := cfg_peers c @ [empty_peer]\<rparr>, prs_section := name\<rparr>)
              else if name = ''forward'' then
                Inr (st\<lparr>prs_config := c\<lparr>cfg_forwards := cfg_forwards c @ [empty_forward]\<rparr>, prs_section := name\<rparr>)
              else Inl (diagnose unknown_section n name)
         else if last line \<noteq> CHR '']'' \<or> length line \<le> 2 then Inl (diagnose syntax_error n line)
         else
           let name = trim (substr 1 (length line - 2) line)
           in if name \<notin> set known_sections then Inl (diagnose unknown_section n name)
              else Inr (st\<lparr>prs_section := name\<rparr>))"

text \<open>Within the repeated sections a key counts as seen for the current entry only.\<close>

definition scoped_key :: "Config \<Rightarrow> string \<Rightarrow> string \<Rightarrow> string" where
  "scoped_key c section qualified =
     (if section = ''peer'' then to_chars (length (cfg_peers c)) @ ''.'' @ qualified
      else if section = ''forward'' then to_chars (length (cfg_forwards c)) @ ''.'' @ qualified
      else qualified)"

definition parse_assignment :: "nat \<Rightarrow> string \<Rightarrow> ParserState \<Rightarrow> ConfigDiagnostic + ParserState" where
  "parse_assignment n line st =
     (case find_char (CHR ''='') 0 line of
        None \<Rightarrow> Inl (diagnose syntax_error n line)
      | Some equals \<Rightarrow>
          if prs_section st = [] then Inl (diagnose syntax_error n line)
          else
            let key = trim (substr 0 equals line)
            in case unquote (trim (drop (equals + 1) line)) of
                 Inl e \<Rightarrow> Inl (diagnose e n key)
               | Inr value \<Rightarrow>
                   if key = [] then Inl (diagnose syntax_error n line)
                   else
                     let qualified = prs_section st @ ''.'' @ key;
                         scoped = scoped_key (prs_config st) (prs_section st) qualified
                     in if scoped \<in> set (prs_seen st) then Inl (diagnose duplicate_key n qualified)
                        else (case assign_key (prs_section st) key value (prs_config st) of
                                Inl e \<Rightarrow> Inl (diagnose e n qualified)
                              | Inr c \<Rightarrow> Inr (st\<lparr>prs_config := c, prs_seen := scoped # prs_seen st,
                                               prs_present := qualified # prs_present st\<rparr>)))"

definition parse_line :: "nat \<Rightarrow> string \<Rightarrow> ParserState \<Rightarrow> ConfigDiagnostic + ParserState" where
  "parse_line n raw st =
     (let line = trim raw;
          line = (case find_char (CHR ''#'') 0 line of None \<Rightarrow> line | Some comment \<Rightarrow> trim (substr 0 comment line))
      in if line = [] then Inr st
         else if hd line = CHR ''['' then parse_section n line st
         else parse_assignment n line st)"

function parse_lines :: "string \<Rightarrow> nat \<Rightarrow> nat \<Rightarrow> ParserState \<Rightarrow> ConfigDiagnostic + ParserState" where
  "parse_lines t line_number offset st =
     (if offset \<le> length t then
        let newline = find_char (CHR 0x0A) offset t;
            raw = field_at offset newline t;
            next_offset = (case newline of None \<Rightarrow> length t + 1 | Some k \<Rightarrow> k + 1)
        in case parse_line (line_number + 1) raw st of
             Inl d \<Rightarrow> Inl d
           | Inr st \<Rightarrow> parse_lines t (line_number + 1) next_offset st
      else Inr st)"
  by auto
termination
  by (relation "measure (\<lambda>(t, line_number, offset, st). length t + 1 - offset)")
    (auto split: option.split dest: find_char_bound)

declare parse_lines.simps [simp del]

section \<open>Checks after the last line\<close>

definition to_lower :: "char \<Rightarrow> char" where
  "to_lower c = (let k = of_char c :: nat in if 65 \<le> k \<and> k \<le> 90 then char_of (k + 32) else c)"

fun check_peers :: "nat \<Rightarrow> PeerEntry list \<Rightarrow> string list \<Rightarrow> ConfigDiagnostic + PeerEntry list" where
  "check_peers k [] peer_keys = Inr []"
| "check_peers k (peer # rest) peer_keys =
     (let label = (if pent_name peer = [] then ''peer['' @ to_chars k @ '']'' else pent_name peer);
          lowered = map to_lower (pent_public_key peer)
      in if pent_public_key peer = [] then Inl (diagnose missing_required 0 (label @ ''.public_key''))
         else if pent_allowed_ips peer = [] then Inl (diagnose missing_required 0 (label @ ''.allowed_ips''))
         else if lowered \<in> set peer_keys then Inl (diagnose duplicate_key 0 (label @ ''.public_key''))
         else case check_peers (k + 1) rest (lowered # peer_keys) of
                Inl d \<Rightarrow> Inl d
              | Inr peers \<Rightarrow> Inr (peer\<lparr>pent_public_key := lowered\<rparr> # peers))"

text \<open>The protocols of a forward with its port, in the order the code inserts them.\<close>

definition forward_slots :: "ForwardEntry \<Rightarrow> string list" where
  "forward_slots f =
     (if fwd_tcp f then [''tcp/'' @ to_chars (unat (fwd_port f))] else []) @
     (if fwd_udp f then [''udp/'' @ to_chars (unat (fwd_port f))] else [])"

fun check_forwards :: "u16 \<Rightarrow> nat \<Rightarrow> ForwardEntry list \<Rightarrow> string list \<Rightarrow> ConfigDiagnostic option" where
  "check_forwards listen_port k [] forwarded = None"
| "check_forwards listen_port k (f # rest) forwarded =
     (let label = (if fwd_name f = [] then ''forward['' @ to_chars k @ '']'' else fwd_name f)
      in if fwd_port f = 0 then Some (diagnose missing_required 0 (label @ ''.listen_port''))
         else if fwd_target f = [] then Some (diagnose missing_required 0 (label @ ''.target''))
         else if list_ex (\<lambda>slot. slot \<in> set forwarded) (forward_slots f) then
           Some (diagnose duplicate_key 0 (label @ ''.listen_port''))
         else if fwd_port f = listen_port \<and> fwd_udp f then
           Some (diagnose incompatible_options 0 (label @ '' uses the tunnel port''))
         else check_forwards listen_port (k + 1) rest (forward_slots f @ forwarded))"

definition tcp_framed_carrier :: "Config \<Rightarrow> bool" where
  "tcp_framed_carrier c \<longleftrightarrow>
     (cfg_transport c = tm_tcp_tls \<or> cfg_transport c = tm_automatic) \<and>
     (cfg_camouflage c = cam_pop3 \<or> cfg_camouflage c = cam_smtp \<or> cfg_camouflage c = cam_xmpp \<or>
      cfg_camouflage c = cam_ssh \<or> cfg_camouflage c = cam_raw)"

definition fill_burst :: "Config \<Rightarrow> Config" where
  "fill_burst c =
     (if cfg_qos_enabled c \<and> cfg_qos_burst_bytes c = 0
      then c\<lparr>cfg_qos_burst_bytes := cfg_qos_rate_bytes c div 10 + ucast kMaximumMtu\<rparr> else c)"

definition option_conflict :: "Config \<Rightarrow> ConfigDiagnostic option" where
  "option_conflict c =
     (if cfg_metrics_enabled c \<and> cfg_metrics_listen c = [] then
        Some (diagnose missing_required 0 ''observability.listen'')
      else if \<not> cfg_metrics_enabled c \<and> cfg_metrics_listen c \<noteq> [] then
        Some (diagnose incompatible_options 0 ''observability.listen without observability.metrics'')
      else if cfg_spoof_enabled c \<and> cfg_spoof_sources c = [] then
        Some (diagnose missing_required 0 ''transport.spoof_sources'')
      else if \<not> cfg_spoof_enabled c \<and> cfg_spoof_sources c \<noteq> [] then
        Some (diagnose incompatible_options 0 ''transport.spoof_sources without transport.spoof'')
      else if cfg_spoof_enabled c \<and> cfg_transport c \<noteq> tm_automatic \<and> cfg_transport c \<noteq> tm_udp then
        Some (diagnose incompatible_options 0 ''transport.spoof applies to the udp transport'')
      else if \<not> net_ipv4 (cfg_network c) \<and> \<not> net_ipv6 (cfg_network c) then
        Some (diagnose incompatible_options 0 ''network.ipv4 and network.ipv6 are both disabled'')
      else if oc_mode (cfg_obfuscation c) = mode_off \<and>
              (oc_junk_padding (cfg_obfuscation c) \<or> oc_priming (cfg_obfuscation c)) then
        Some (diagnose incompatible_options 0 ''transport.junk/priming require transport.obfuscation'')
      else if oc_junk_padding (cfg_obfuscation c) \<and> oc_mode (cfg_obfuscation c) \<noteq> mode_full then
        Some (diagnose incompatible_options 0 ''transport.junk requires transport.obfuscation = full'')
      else if oc_mode (cfg_obfuscation c) \<noteq> mode_off \<and> \<not> carries_datagrams (cfg_transport c) \<and>
              \<not> tcp_framed_carrier c then
        Some (diagnose incompatible_options 0
          (''transport.obfuscation applies to the datagram transports (udp, icmp, ipip, gre, esp, '' @
           ''ah, ospf) or a framed tcp carrier (camouflage = pop3/smtp/xmpp/ssh/raw)''))
      else if cfg_camouflage c \<noteq> cam_off \<and> cfg_transport c \<noteq> tm_automatic \<and> cfg_transport c \<noteq> tm_tcp_tls then
        Some (diagnose incompatible_options 0 ''transport.camouflage applies to the tcp-tls transport'')
      else None)"

definition check_options :: "Config \<Rightarrow> ConfigDiagnostic + Config" where
  "check_options c =
     (if cfg_qos_enabled c \<and> cfg_qos_rate_bytes c = 0 then Inl (diagnose missing_required 0 ''qos.rate_bytes'')
      else if \<not> cfg_qos_enabled c \<and> (cfg_qos_rate_bytes c \<noteq> 0 \<or> cfg_qos_burst_bytes c \<noteq> 0) then
        Inl (diagnose incompatible_options 0 ''qos.rate_bytes without qos.enabled'')
      else case option_conflict (fill_burst c) of Some d \<Rightarrow> Inl d | None \<Rightarrow> Inr (fill_burst c))"

definition finish_config :: "ParserState \<Rightarrow> ConfigDiagnostic + Config" where
  "finish_config st =
     (if ''node.listen_port'' \<notin> set (prs_present st) then Inl (diagnose missing_required 0 ''node.listen_port'')
      else if ''identity.key_file'' \<notin> set (prs_present st) then Inl (diagnose missing_required 0 ''identity.key_file'')
      else case check_peers 0 (cfg_peers (prs_config st)) [] of
             Inl d \<Rightarrow> Inl d
           | Inr peers \<Rightarrow>
               let c = (prs_config st)\<lparr>cfg_peers := peers\<rparr>
               in case check_forwards (cfg_listen_port c) 0 (cfg_forwards c) [] of
                    Some d \<Rightarrow> Inl d
                  | None \<Rightarrow> check_options c)"

definition new_parser :: ParserState where
  "new_parser = \<lparr>prs_config = default_config, prs_section = [], prs_seen = [], prs_present = []\<rparr>"

definition parse_config :: "string \<Rightarrow> ConfigDiagnostic + Config" where
  "parse_config t = (case parse_lines t 0 0 new_parser of Inl d \<Rightarrow> Inl d | Inr st \<Rightarrow> finish_config st)"

text \<open>\<open>None\<close> is a file that cannot be read.\<close>

definition load_config_file :: "(string \<Rightarrow> string option) \<Rightarrow> string \<Rightarrow> ConfigDiagnostic + Config" where
  "load_config_file read_file path =
     (case read_file path of None \<Rightarrow> Inl (diagnose unreadable_file 0 path) | Some t \<Rightarrow> parse_config t)"

end
