(* ===== verification/Spec2Isabelle.thy ===== *)
theory Spec2Isabelle
  imports
    Fec_Recovery
    Control_Handshake
    Qos
    Path_Selector
    Framers
    Congestion
    Spoof
    Coalescer
    Reality_Handshake
    Config
begin

text \<open>Norr, an encrypted layer 3 tunnel.\<close>

end
